(* ===== verification/Prelude.thy ===== *)
theory Prelude
  imports Main "HOL-Library.Word" "HOL-Library.AList"
begin

text \<open>
  Shared vocabulary of the development: fixed-width integers, the results of Rust functions
  (\<open>Ok\<close>, \<open>Err\<close>, a panic), operations on a mutable state that keep the state they leave
  behind on every outcome, checked arithmetic on words, and the two interface contracts the
  components share: a preorder on states that an operation can only climb, and a transition
  system with an inductive invariant.
\<close>

unbundle bit_operations_syntax

type_synonym u8 = "8 word"
type_synonym u16 = "16 word"
type_synonym u32 = "32 word"
type_synonym u64 = "64 word"
type_synonym bytes = "u8 list"

named_theorems op_simps \<open>unfolding of operations built from the state combinators\<close>
named_theorems word_facts \<open>what checked word arithmetic says about natural numbers\<close>

section \<open>Results and operations\<close>

text \<open>
  A Rust function returns \<open>Ok v\<close> or \<open>Err e\<close>, or it panics. A method taking
  \<^verbatim>\<open>&mut self\<close> leaves a state behind whatever it returns, so an operation maps a state to
  a result and a state; an early return through \<^verbatim>\<open>?\<close> keeps every change made before it.
\<close>

datatype ('e, 'a) res = Ok 'a | Err 'e | Panic

type_synonym ('s, 'e, 'a) op = "'s \<Rightarrow> ('e, 'a) res \<times> 's"

definition ret :: "'a \<Rightarrow> ('s, 'e, 'a) op" where
  "ret x = (\<lambda>s. (Ok x, s))"

definition throw :: "'e \<Rightarrow> ('s, 'e, 'a) op" where
  "throw e = (\<lambda>s. (Err e, s))"

definition panic :: "('s, 'e, 'a) op" where
  "panic = (\<lambda>s. (Panic, s))"

definition bind :: "('s, 'e, 'a) op \<Rightarrow> ('a \<Rightarrow> ('s, 'e, 'b) op) \<Rightarrow> ('s, 'e, 'b) op" where
  "bind m f = (\<lambda>s. case m s of (Ok x, s') \<Rightarrow> f x s' | (Err e, s') \<Rightarrow> (Err e, s') | (Panic, s') \<Rightarrow> (Panic, s'))"

definition gets :: "('s \<Rightarrow> 'a) \<Rightarrow> ('s, 'e, 'a) op" where
  "gets f = (\<lambda>s. (Ok (f s), s))"

definition modify :: "('s \<Rightarrow> 's) \<Rightarrow> ('s, 'e, unit) op" where
  "modify f = (\<lambda>s. (Ok (), f s))"

definition lift_res :: "('e, 'a) res \<Rightarrow> ('s, 'e, 'a) op" where
  "lift_res r = (\<lambda>s. (r, s))"

definition ok_or :: "'e \<Rightarrow> 'a option \<Rightarrow> ('e, 'a) res" where
  "ok_or e x = (case x of None \<Rightarrow> Err e | Some v \<Rightarrow> Ok v)"

definition guard_err :: "bool \<Rightarrow> 'e \<Rightarrow> ('s, 'e, unit) op" where
  "guard_err b e = (if b then throw e else ret ())"

fun res_bind :: "('e, 'a) res \<Rightarrow> ('a \<Rightarrow> ('e, 'b) res) \<Rightarrow> ('e, 'b) res" where
  "res_bind (Ok x) f = f x"
| "res_bind (Err e) f = Err e"
| "res_bind Panic f = Panic"

fun is_ok :: "('e, 'a) res \<Rightarrow> bool" where
  "is_ok (Ok _) = True"
| "is_ok _ = False"

definition map_ok :: "('a \<Rightarrow> 'b) \<Rightarrow> ('e, 'a) res \<Rightarrow> ('e, 'b) res" where
  "map_ok f r = res_bind r (\<lambda>x. Ok (f x))"

lemma ret_apply [simp]: "ret x s = (Ok x, s)"
  and throw_apply [simp]: "throw e s = (Err e, s)"
  and panic_apply [simp]: "panic s = (Panic, s)"
  and gets_apply [simp]: "gets g s = (Ok (g s), s)"
  and modify_apply [simp]: "modify h s = (Ok (), h s)"
  and lift_res_apply [simp]: "lift_res r s = (r, s)"
  by (simp_all add: ret_def throw_def panic_def gets_def modify_def lift_res_def)

lemma guard_err_apply [simp]: "guard_err b e s = (if b then (Err e, s) else (Ok (), s))"
  by (simp add: guard_err_def)

lemma ok_or_Ok_iff [simp]: "ok_or e x = Ok v \<longleftrightarrow> x = Some v"
  by (cases x) (simp_all add: ok_or_def)

lemma ok_or_Err_iff [simp]: "ok_or e x = Err e' \<longleftrightarrow> x = None \<and> e' = e"
  by (cases x) (auto simp: ok_or_def)

lemma ok_or_not_Panic [simp]: "ok_or e x \<noteq> Panic"
  by (cases x) (simp_all add: ok_or_def)

lemma ok_or_simps [simp]: "ok_or e None = Err e" "ok_or e (Some v) = Ok v"
  by (simp_all add: ok_or_def)

lemma res_bind_Ok_iff [simp]:
  "res_bind r f = Ok y \<longleftrightarrow> (\<exists>x. r = Ok x \<and> f x = Ok y)"
  by (cases r) auto

lemma bind_Ok_iff:
  "bind m f s = (Ok y, t) \<longleftrightarrow> (\<exists>x u. m s = (Ok x, u) \<and> f x u = (Ok y, t))"
  by (auto simp: bind_def split: prod.splits res.splits)

lemma bind_apply_Ok: "m s = (Ok x, u) \<Longrightarrow> bind m f s = f x u"
  and bind_apply_Err: "m s = (Err e, u) \<Longrightarrow> bind m f s = (Err e, u)"
  and bind_apply_Panic: "m s = (Panic, u) \<Longrightarrow> bind m f s = (Panic, u)"
  by (simp_all add: bind_def)

lemma bind_ret [simp]: "bind (ret x) f = f x"
  and bind_throw [simp]: "bind (throw e) f = throw e"
  and bind_panic [simp]: "bind panic f = panic"
  by (simp_all add: bind_def fun_eq_iff)

lemma bind_gets [simp]: "bind (gets g) f s = f (g s) s"
  by (simp add: bind_def)

lemma bind_modify [simp]: "bind (modify h) f s = f () (h s)"
  by (simp add: bind_def)

lemma bind_lift_res [simp]:
  "bind (lift_res r) f s =
     (case r of Ok x \<Rightarrow> f x s | Err e \<Rightarrow> (Err e, s) | Panic \<Rightarrow> (Panic, s))"
  by (cases r) (simp_all add: bind_def)

lemma bind_guard_err [simp]:
  "bind (guard_err b e) f s = (if b then (Err e, s) else f () s)"
  by (simp add: guard_err_def bind_def)

lemma bind_assoc: "bind (bind m f) g = bind m (\<lambda>x. bind (f x) g)"
  by (auto simp: bind_def fun_eq_iff split: prod.splits res.splits)

text \<open>A loop over a list that stops at the first failure, as a \<^verbatim>\<open>for\<close> loop with \<^verbatim>\<open>?\<close> does.\<close>

fun for_each :: "('x \<Rightarrow> ('s, 'e, unit) op) \<Rightarrow> 'x list \<Rightarrow> ('s, 'e, unit) op" where
  "for_each f [] = ret ()"
| "for_each f (x # xs) = bind (f x) (\<lambda>_. for_each f xs)"

fun map_op :: "('x \<Rightarrow> ('s, 'e, 'y) op) \<Rightarrow> 'x list \<Rightarrow> ('s, 'e, 'y list) op" where
  "map_op f [] = ret []"
| "map_op f (x # xs) = bind (f x) (\<lambda>y. bind (map_op f xs) (\<lambda>ys. ret (y # ys)))"

fun map_res :: "('x \<Rightarrow> ('e, 'y) res) \<Rightarrow> 'x list \<Rightarrow> ('e, 'y list) res" where
  "map_res f [] = Ok []"
| "map_res f (x # xs) = res_bind (f x) (\<lambda>y. res_bind (map_res f xs) (\<lambda>ys. Ok (y # ys)))"

lemma map_res_Ok_iff: "map_res f xs = Ok ys \<longleftrightarrow> list_all2 (\<lambda>x y. f x = Ok y) xs ys"
  by (induction xs arbitrary: ys) (auto simp: list_all2_Cons1)

lemma list_all2_member: "list_all2 R xs ys \<Longrightarrow> x \<in> set xs \<Longrightarrow> \<exists>y \<in> set ys. R x y"
  by (induction rule: list_all2_induct) auto

text \<open>Rust's \<^verbatim>\<open>collect::<Option<Vec<_>>>()\<close>.\<close>

fun map_opt :: "('x \<Rightarrow> 'y option) \<Rightarrow> 'x list \<Rightarrow> 'y list option" where
  "map_opt f [] = Some []"
| "map_opt f (x # xs) =
     (case f x of None \<Rightarrow> None
      | Some y \<Rightarrow> (case map_opt f xs of None \<Rightarrow> None | Some ys \<Rightarrow> Some (y # ys)))"

lemma map_opt_Some_iff: "map_opt f xs = Some ys \<longleftrightarrow> list_all2 (\<lambda>x y. f x = Some y) xs ys"
proof (induction xs arbitrary: ys)
  case (Cons x xs)
  show ?case
    by (cases ys; cases "f x"; cases "map_opt f xs") (auto simp flip: Cons.IH)
qed auto

lemma map_opt_map: "(\<And>x. x \<in> set xs \<Longrightarrow> f (g x) = Some x) \<Longrightarrow> map_opt f (map g xs) = Some xs"
  by (induction xs) simp_all

lemma find_SomeD: "find P xs = Some x \<Longrightarrow> x \<in> set xs \<and> P x"
  by (auto simp: find_Some_iff)

section \<open>Preorders that operations climb\<close>

text \<open>
  The contract of an operation towards a relation \<open>R\<close> on states: from every state it ends,
  on every outcome, in an \<open>R\<close>-related one. With \<open>R s t = (I s \<longrightarrow> I t)\<close> this is
  preservation of an invariant; with an equation of fields it is a frame condition; with an
  inclusion it is monotonicity. The rules compose operations once for all of them.
\<close>

definition climbs :: "('s \<Rightarrow> 's \<Rightarrow> bool) \<Rightarrow> ('s, 'e, 'a) op \<Rightarrow> bool" where
  "climbs R m \<longleftrightarrow> (\<forall>s. R s (snd (m s)))"

lemma climbsD: "climbs R m \<Longrightarrow> m s = (r, t) \<Longrightarrow> R s t"
  by (metis climbs_def snd_conv)

locale state_preorder =
  fixes R :: "'s \<Rightarrow> 's \<Rightarrow> bool"
  assumes R_refl: "R s s"
    and R_trans: "R s t \<Longrightarrow> R t u \<Longrightarrow> R s u"
begin

lemma climbs_ret: "climbs R (ret x)"
  by (simp add: climbs_def R_refl)

lemma climbs_throw: "climbs R (throw e)"
  by (simp add: climbs_def R_refl)

lemma climbs_panic: "climbs R panic"
  by (simp add: climbs_def R_refl)

lemma climbs_gets: "climbs R (gets g)"
  by (simp add: climbs_def R_refl)

lemma climbs_lift_res: "climbs R (lift_res r)"
  by (simp add: climbs_def R_refl)

lemma climbs_guard_err: "climbs R (guard_err b e)"
  by (simp add: climbs_def R_refl)

lemma climbs_modify: "(\<And>s. R s (h s)) \<Longrightarrow> climbs R (modify h)"
  by (simp add: climbs_def)

lemma climbs_bind:
  assumes "climbs R m" and "\<And>x. climbs R (f x)"
  shows "climbs R (bind m f)"
  using assms by (auto simp: climbs_def bind_def split: prod.splits res.splits) (metis R_trans snd_conv)+

lemma climbs_for_each:
  assumes "\<And>x. x \<in> set xs \<Longrightarrow> climbs R (f x)"
  shows "climbs R (for_each f xs)"
  using assms by (induction xs) (auto intro: climbs_ret climbs_bind)

lemma climbs_map_op:
  assumes "\<And>x. x \<in> set xs \<Longrightarrow> climbs R (f x)"
  shows "climbs R (map_op f xs)"
  using assms by (induction xs) (auto intro!: climbs_ret climbs_bind)

lemmas climbs_rules =
  climbs_ret climbs_throw climbs_panic climbs_gets climbs_lift_res climbs_guard_err
  climbs_bind climbs_for_each climbs_map_op

end

section \<open>Triples\<close>

text \<open>
  Where the effect of one step depends on what an earlier one established, a triple carries the
  facts: from \<open>P\<close> the operation returns a value with \<open>Q\<close>, or fails in a state with \<open>J\<close>.
\<close>

definition hoare ::
  "('s \<Rightarrow> bool) \<Rightarrow> ('s \<Rightarrow> bool) \<Rightarrow> ('s, 'e, 'a) op \<Rightarrow> ('a \<Rightarrow> 's \<Rightarrow> bool) \<Rightarrow> bool" where
  "hoare J P m Q \<longleftrightarrow> (\<forall>s. P s \<longrightarrow> (case m s of (Ok x, t) \<Rightarrow> Q x t | (_, t) \<Rightarrow> J t))"

named_theorems hoare_rules \<open>triples of the combinators\<close>

lemma hoare_bind:
  assumes "hoare J P m Q" and "\<And>x. hoare J (Q x) (f x) R"
  shows "hoare J P (bind m f) R"
  using assms unfolding hoare_def bind_def by (fastforce split: prod.splits res.splits)

lemma hoare_ret: "(\<And>s. P s \<Longrightarrow> Q x s) \<Longrightarrow> hoare J P (ret x) Q"
  by (simp add: hoare_def)

lemma hoare_throw: "(\<And>s. P s \<Longrightarrow> J s) \<Longrightarrow> hoare J P (throw e) Q"
  and hoare_panic: "(\<And>s. P s \<Longrightarrow> J s) \<Longrightarrow> hoare J P panic Q"
  by (simp_all add: hoare_def)

lemma hoare_gets: "(\<And>s. P s \<Longrightarrow> Q (g s) s) \<Longrightarrow> hoare J P (gets g) Q"
  by (simp add: hoare_def)

lemma hoare_modify: "(\<And>s. P s \<Longrightarrow> Q () (h s)) \<Longrightarrow> hoare J P (modify h) Q"
  by (simp add: hoare_def)

lemma hoare_lift_res: "(\<And>s. P s \<Longrightarrow> J s) \<Longrightarrow> (\<And>s x. P s \<Longrightarrow> r = Ok x \<Longrightarrow> Q x s) \<Longrightarrow> hoare J P (lift_res r) Q"
  by (cases r) (simp_all add: hoare_def)

lemma hoare_guard_err:
  "(\<And>s. P s \<Longrightarrow> J s) \<Longrightarrow> (\<And>s. P s \<Longrightarrow> \<not> b \<Longrightarrow> Q () s) \<Longrightarrow> hoare J P (guard_err b e) Q"
  by (simp add: hoare_def)

lemma hoare_weaken:
  assumes "hoare J P m Q" "\<And>s. P' s \<Longrightarrow> P s" "\<And>x s. Q x s \<Longrightarrow> Q' x s"
  shows "hoare J P' m Q'"
  using assms unfolding hoare_def by (fastforce split: prod.splits res.splits)

lemma hoare_climbs:
  assumes "climbs R m" "\<And>s t. P s \<Longrightarrow> R s t \<Longrightarrow> Q t" "\<And>s t. P s \<Longrightarrow> R s t \<Longrightarrow> J t"
  shows "hoare J P m (\<lambda>_. Q)"
  using assms unfolding hoare_def climbs_def by (fastforce split: prod.splits res.splits)

lemma hoare_for_each:
  assumes "\<And>x. x \<in> set xs \<Longrightarrow> hoare J P (f x) (\<lambda>_. P)" "\<And>s. P s \<Longrightarrow> J s"
  shows "hoare J P (for_each f xs) (\<lambda>_. P)"
  using assms by (induction xs) (auto intro!: hoare_bind hoare_ret)

lemma hoareD: "hoare J P m Q \<Longrightarrow> P s \<Longrightarrow> m s = (Ok x, t) \<Longrightarrow> Q x t"
  by (force simp: hoare_def)

lemma hoare_final:
  assumes "hoare J P m Q" "P s" "\<And>x t. Q x t \<Longrightarrow> J t"
  shows "J (snd (m s))"
  using assms unfolding hoare_def by (fastforce split: prod.splits res.splits)

declare hoare_bind [hoare_rules] hoare_ret [hoare_rules] hoare_throw [hoare_rules]
  hoare_panic [hoare_rules] hoare_lift_res [hoare_rules] hoare_guard_err [hoare_rules]

section \<open>Transition systems\<close>

text \<open>
  A component's life is a sequence of steps from an initial state; an invariant that the
  initial state satisfies and every step keeps holds in every reachable state.
\<close>

inductive reach :: "('s \<Rightarrow> bool) \<Rightarrow> ('s \<Rightarrow> 's \<Rightarrow> bool) \<Rightarrow> 's \<Rightarrow> bool"
  for init step where
  reach_init: "init s \<Longrightarrow> reach init step s"
| reach_step: "reach init step s \<Longrightarrow> step s t \<Longrightarrow> reach init step t"

locale transition_system =
  fixes init :: "'s \<Rightarrow> bool"
    and step :: "'s \<Rightarrow> 's \<Rightarrow> bool"
    and inv :: "'s \<Rightarrow> bool"
  assumes inv_init: "init s \<Longrightarrow> inv s"
    and inv_step: "inv s \<Longrightarrow> step s t \<Longrightarrow> inv t"
begin

lemma reach_inv: "reach init step s \<Longrightarrow> inv s"
  by (induction rule: reach.induct) (auto intro: inv_init inv_step)

lemma reach_pair:
  assumes "reach init step s" and "step s t"
  shows "inv s \<and> inv t"
  using assms reach_inv inv_step by blast

end

section \<open>Checked arithmetic on machine words\<close>

definition checked_add :: "'a::len word \<Rightarrow> 'a word \<Rightarrow> 'a word option" where
  "checked_add a b = (if unat a + unat b < 2 ^ LENGTH('a) then Some (a + b) else None)"

definition checked_sub :: "'a::len word \<Rightarrow> 'a word \<Rightarrow> 'a word option" where
  "checked_sub a b = (if b \<le> a then Some (a - b) else None)"

definition checked_mul :: "'a::len word \<Rightarrow> 'a word \<Rightarrow> 'a word option" where
  "checked_mul a b = (if unat a * unat b < 2 ^ LENGTH('a) then Some (a * b) else None)"

definition saturating_add :: "'a::len word \<Rightarrow> 'a word \<Rightarrow> 'a word" where
  "saturating_add a b = (case checked_add a b of None \<Rightarrow> - 1 | Some c \<Rightarrow> c)"

lemma unat_bound: "unat (w::'a::len word) < 2 ^ LENGTH('a)"
  by (rule unsigned_less)

lemma unat_of_nat_lt: "n < 2 ^ LENGTH('a) \<Longrightarrow> unat (word_of_nat n :: 'a::len word) = n"
  by (simp add: unat_of_nat)

lemma unat_plus_lt: "unat (a::'a::len word) + unat b < 2 ^ LENGTH('a) \<Longrightarrow> unat (a + b) = unat a + unat b"
  by (simp add: unat_word_ariths)

lemma unat_mult_lt: "unat (a::'a::len word) * unat b < 2 ^ LENGTH('a) \<Longrightarrow> unat (a * b) = unat a * unat b"
  by (simp add: unat_word_ariths)

lemma checked_add_Some [word_facts]: "checked_add a b = Some c \<Longrightarrow> unat c = unat a + unat b"
  by (auto simp: checked_add_def unat_plus_lt split: if_splits)

lemma checked_add_None [word_facts]:
  "checked_add (a::'a::len word) b = None \<Longrightarrow> 2 ^ LENGTH('a) \<le> unat a + unat b"
  by (auto simp: checked_add_def split: if_splits)

lemma checked_sub_Some [word_facts]: "checked_sub a b = Some c \<Longrightarrow> unat b \<le> unat a \<and> unat c = unat a - unat b"
  by (auto simp: checked_sub_def unat_sub word_le_nat_alt split: if_splits)

lemma checked_sub_None [word_facts]: "checked_sub a b = None \<Longrightarrow> unat a < unat b"
  by (auto simp: checked_sub_def word_le_nat_alt split: if_splits)

lemma checked_mul_Some [word_facts]: "checked_mul a b = Some c \<Longrightarrow> unat c = unat a * unat b"
  by (auto simp: checked_mul_def unat_mult_lt split: if_splits)

text \<open>
  \<^verbatim>\<open>iter().try_fold(0, |acc, x| acc.checked_add(x))\<close>: the sum of the list when it fits the
  width, nothing otherwise.
\<close>

fun try_fold_add :: "'a::len word \<Rightarrow> 'a word list \<Rightarrow> 'a word option" where
  "try_fold_add acc [] = Some acc"
| "try_fold_add acc (x # xs) =
     (case checked_add acc x of None \<Rightarrow> None | Some acc' \<Rightarrow> try_fold_add acc' xs)"

abbreviation sum_nat :: "'a::len word list \<Rightarrow> nat" where
  "sum_nat xs \<equiv> sum_list (map unat xs)"

lemma try_fold_add_Some:
  "try_fold_add acc xs = Some t \<Longrightarrow> unat t = unat acc + sum_nat xs"
  by (induction xs arbitrary: acc) (auto dest: checked_add_Some split: option.splits)

lemma try_fold_add_None:
  "try_fold_add (acc::'a::len word) xs = None \<Longrightarrow> 2 ^ LENGTH('a) \<le> unat acc + sum_nat xs"
proof (induction xs arbitrary: acc)
  case Nil
  then show ?case by simp
next
  case (Cons x xs)
  show ?case
  proof (cases "checked_add acc x")
    case None
    then show ?thesis using checked_add_None[OF None] by simp
  next
    case (Some a)
    with Cons.prems have "try_fold_add a xs = None" by simp
    from Cons.IH[OF this] show ?thesis by (simp add: checked_add_Some[OF Some])
  qed
qed

lemma checked_sum_Some [word_facts]: "try_fold_add 0 xs = Some t \<Longrightarrow> unat t = sum_nat xs"
  using try_fold_add_Some[of 0 xs t] by simp

section \<open>Association lists as hash maps\<close>

text \<open>
  A \<^verbatim>\<open>HashMap\<close> is an association list read with \<open>map_of\<close> and written with
  \<open>AList.update\<close>; a \<^verbatim>\<open>HashSet\<close> is a list read with \<open>List.member\<close>. The order of the
  list stands for one iteration order of the table.
\<close>

lemma map_of_update [simp]: "map_of (AList.update k v al) = (map_of al)(k \<mapsto> v)"
  by (simp add: update_conv')

end
