(* ===== verification/Rust_Text.thy ===== *)
theory Rust_Text
  imports Prelude
begin

text \<open>
  The parts of Rust's text library the sources use: strings as their UTF-8 bytes
  (\<open>char\<close> is a byte), decimal printing and parsing of \<^verbatim>\<open>u64\<close>, big- and little-endian
  byte encodings, and the search functions on string slices.
\<close>

section \<open>Strings and bytes\<close>

definition byte_of :: "char \<Rightarrow> u8" where
  "byte_of c = word_of_nat (of_char c)"

definition chr_of :: "u8 \<Rightarrow> char" where
  "chr_of b = char_of (unat b)"

abbreviation as_bytes :: "string \<Rightarrow> bytes" where
  "as_bytes s \<equiv> map byte_of s"

abbreviation of_bytes :: "bytes \<Rightarrow> string" where
  "of_bytes b \<equiv> map chr_of b"

lemma of_char_less [simp]: "(of_char c :: nat) < 256"
  by (cases c) (simp add: of_char_def horner_sum_simps of_bool_def)

lemma unat_byte_of [simp]: "unat (byte_of c) = of_char c"
  by (simp add: byte_of_def unat_of_nat_lt)

lemma chr_of_byte_of [simp]: "chr_of (byte_of c) = c"
  by (simp add: chr_of_def)

lemma byte_of_chr_of [simp]: "byte_of (chr_of b) = b"
proof -
  have "unat b < 256" using unat_bound[of b] by simp
  then show ?thesis by (simp add: byte_of_def chr_of_def)
qed

lemma of_bytes_as_bytes [simp]: "of_bytes (as_bytes s) = s"
  by (simp add: comp_def)

lemma as_bytes_of_bytes [simp]: "as_bytes (of_bytes b) = b"
  by (simp add: comp_def)

lemma inj_byte_of: "inj byte_of"
  by (rule inj_on_inverseI[where g = chr_of]) simp

lemma as_bytes_eq_iff [simp]: "as_bytes s = as_bytes t \<longleftrightarrow> s = t"
  using inj_byte_of by (simp add: inj_map_eq_map)

section \<open>Decimal numbers\<close>

definition digit_char :: "nat \<Rightarrow> char" where
  "digit_char d = char_of (48 + d)"

definition digit_val :: "char \<Rightarrow> nat option" where
  "digit_val c = (let n = (of_char c :: nat) in if 48 \<le> n \<and> n \<le> 57 then Some (n - 48) else None)"

text \<open>\<^verbatim>\<open>u64::to_string\<close>.\<close>

fun show_nat :: "nat \<Rightarrow> string" where
  "show_nat n = (if n < 10 then [digit_char n] else show_nat (n div 10) @ [digit_char (n mod 10)])"

declare show_nat.simps [simp del]

definition show_u64 :: "u64 \<Rightarrow> string" where
  "show_u64 w = show_nat (unat w)"

text \<open>
  \<^verbatim>\<open>str::parse::<u64>\<close>: an optional \<open>+\<close>, at least one digit, no other character, and the value
  must fit in 64 bits.
\<close>

fun parse_digits :: "nat \<Rightarrow> string \<Rightarrow> nat option" where
  "parse_digits acc [] = Some acc"
| "parse_digits acc (c # cs) =
     (case digit_val c of None \<Rightarrow> None
      | Some d \<Rightarrow> (if 10 * acc + d < 2 ^ 64 then parse_digits (10 * acc + d) cs else None))"

definition parse_u64 :: "string \<Rightarrow> u64 option" where
  "parse_u64 s =
     (let ds = (case s of c # cs \<Rightarrow> if c = CHR ''+'' then cs else s | [] \<Rightarrow> [])
      in if ds = [] then None else map_option word_of_nat (parse_digits 0 ds))"

lemma digit_val_char [simp]: "d < 10 \<Longrightarrow> digit_val (digit_char d) = Some d"
  by (simp add: digit_val_def digit_char_def Let_def)

lemma digit_char_range: "d < 10 \<Longrightarrow> (of_char (digit_char d) :: nat) \<in> {48..57}"
  by (simp add: digit_char_def)

lemma set_show_nat: "c \<in> set (show_nat n) \<Longrightarrow> (of_char c :: nat) \<in> {48..57}"
proof (induction n rule: show_nat.induct)
  case (1 n)
  then show ?case
    using digit_char_range[of "n mod 10"] digit_char_range[of n]
    by (cases "n < 10") (auto simp: show_nat.simps[of n])
qed

lemma show_nat_nonempty [simp]: "show_nat n \<noteq> []"
  by (simp add: show_nat.simps[of n])

lemma parse_digits_append:
  "parse_digits acc (xs @ ys) =
     (case parse_digits acc xs of None \<Rightarrow> None | Some a \<Rightarrow> parse_digits a ys)"
  by (induction xs arbitrary: acc) (auto split: option.splits)

lemma parse_digits_show_nat: "n < 2 ^ 64 \<Longrightarrow> parse_digits 0 (show_nat n) = Some n"
proof (induction n rule: show_nat.induct)
  case (1 n)
  show ?case
  proof (cases "n < 10")
    case True
    then show ?thesis by (simp add: show_nat.simps[of n])
  next
    case False
    with 1 have "parse_digits 0 (show_nat (n div 10)) = Some (n div 10)" by simp
    with False 1(2) show ?thesis
      by (simp add: show_nat.simps[of n] parse_digits_append)
  qed
qed

lemma parse_show_u64 [simp]: "parse_u64 (show_u64 w) = Some w"
proof -
  have "hd (show_nat (unat w)) \<noteq> CHR ''+''"
    using set_show_nat[of "hd (show_nat (unat w))" "unat w"] by auto
  then have "(case show_nat (unat w) of c # cs \<Rightarrow> if c = CHR ''+'' then cs else show_nat (unat w) | [] \<Rightarrow> [])
       = show_nat (unat w)"
    by (cases "show_nat (unat w)") simp_all
  moreover have "parse_digits 0 (show_nat (unat w)) = Some (unat w)"
    using unat_bound[of w] by (intro parse_digits_show_nat) simp
  ultimately show ?thesis by (simp add: parse_u64_def show_u64_def)
qed

section \<open>Slices\<close>

fun strip_prefix :: "'a list \<Rightarrow> 'a list \<Rightarrow> 'a list option" where
  "strip_prefix [] s = Some s"
| "strip_prefix (p # ps) (c # cs) = (if p = c then strip_prefix ps cs else None)"
| "strip_prefix (p # ps) [] = None"

lemma strip_prefix_append [simp]: "strip_prefix p (p @ s) = Some s"
  by (induction p) simp_all

lemma strip_prefix_Some_iff: "strip_prefix p s = Some t \<longleftrightarrow> s = p @ t"
  by (induction p s rule: strip_prefix.induct) auto

definition starts_with :: "'a list \<Rightarrow> 'a list \<Rightarrow> bool" where
  "starts_with p s \<longleftrightarrow> strip_prefix p s \<noteq> None"

text \<open>\<^verbatim>\<open>str::find\<close>: the offset of the first occurrence.\<close>

fun find_sub :: "'a list \<Rightarrow> 'a list \<Rightarrow> nat option" where
  "find_sub p [] = (if p = [] then Some 0 else None)"
| "find_sub p (c # cs) =
     (if starts_with p (c # cs) then Some 0 else map_option Suc (find_sub p cs))"

text \<open>Big-endian and little-endian bytes of machine words.\<close>

definition to_be_bytes :: "nat \<Rightarrow> nat \<Rightarrow> bytes" where
  "to_be_bytes k n = map (\<lambda>i. word_of_nat (n div 256 ^ (k - 1 - i))) [0..<k]"

definition from_be_bytes :: "bytes \<Rightarrow> nat" where
  "from_be_bytes bs = foldl (\<lambda>acc b. 256 * acc + unat b) 0 bs"

lemma length_to_be_bytes [simp]: "length (to_be_bytes k n) = k"
  by (simp add: to_be_bytes_def)

lemma to_be_bytes_Suc: "to_be_bytes (Suc k) n = to_be_bytes k (n div 256) @ [word_of_nat n]"
proof -
  have "n div 256 ^ (k - i) = n div 256 div 256 ^ (k - 1 - i)" if "i < k" for i
  proof -
    from that have "k - i = Suc (k - 1 - i)" by simp
    then show ?thesis by (simp add: div_mult2_eq)
  qed
  then show ?thesis by (simp add: to_be_bytes_def)
qed

lemma from_be_snoc: "from_be_bytes (bs @ [b]) = 256 * from_be_bytes bs + unat b"
  by (simp add: from_be_bytes_def)

lemma from_to_be_bytes: "n < 256 ^ k \<Longrightarrow> from_be_bytes (to_be_bytes k n) = n"
proof (induction k arbitrary: n)
  case (Suc k)
  then have "n div 256 < 256 ^ k" by (simp add: div_less_iff_less_mult mult.commute)
  moreover have "unat (word_of_nat n :: u8) = n mod 256" by (simp add: unat_of_nat)
  ultimately show ?case by (simp add: to_be_bytes_Suc from_be_snoc Suc.IH)
qed (simp add: to_be_bytes_def from_be_bytes_def)

lemma from_be_Cons_0: "from_be_bytes (0 # bs) = from_be_bytes bs"
  by (simp add: from_be_bytes_def)

lemma from_be_dropWhile: "from_be_bytes (dropWhile (\<lambda>b. b = 0) bs) = from_be_bytes bs"
  by (induction bs) (simp_all add: from_be_Cons_0)

section \<open>Trimming\<close>

text \<open>\<^verbatim>\<open>str::trim\<close>: the UTF-8 forms of the white-space characters of Unicode.\<close>

definition WHITE_SPACE :: "string list" where
  "WHITE_SPACE = map (map char_of)
     [[9], [10], [11], [12], [13], [32], [0xC2, 0x85], [0xC2, 0xA0], [0xE1, 0x9A, 0x80 :: nat],
      [0xE2, 0x80, 0x80], [0xE2, 0x80, 0x81], [0xE2, 0x80, 0x82], [0xE2, 0x80, 0x83], [0xE2, 0x80, 0x84],
      [0xE2, 0x80, 0x85], [0xE2, 0x80, 0x86], [0xE2, 0x80, 0x87], [0xE2, 0x80, 0x88], [0xE2, 0x80, 0x89],
      [0xE2, 0x80, 0x8A], [0xE2, 0x80, 0xA8], [0xE2, 0x80, 0xA9], [0xE2, 0x80, 0xAF], [0xE2, 0x81, 0x9F],
      [0xE3, 0x80, 0x80]]"

fun strip_some :: "string list \<Rightarrow> string \<Rightarrow> string option" where
  "strip_some [] s = None"
| "strip_some (w # ws) s = (case strip_prefix w s of Some r \<Rightarrow> Some r | None \<Rightarrow> strip_some ws s)"

fun strip_all :: "string list \<Rightarrow> nat \<Rightarrow> string \<Rightarrow> string" where
  "strip_all ws 0 s = s"
| "strip_all ws (Suc n) s = (case strip_some ws s of None \<Rightarrow> s | Some r \<Rightarrow> strip_all ws n r)"

definition trim :: "string \<Rightarrow> string" where
  "trim s =
     (let t = strip_all WHITE_SPACE (length s) s
      in rev (strip_all (map rev WHITE_SPACE) (length t) (rev t)))"

definition graphic :: "char \<Rightarrow> bool" where
  "graphic c \<longleftrightarrow> (of_char c :: nat) \<in> {33..126}"

lemma strip_some_None: "\<forall>w \<in> set ws. w \<noteq> [] \<and> hd w \<noteq> c \<Longrightarrow> strip_some ws (c # cs) = None"
proof (induction ws)
  case (Cons w ws)
  then show ?case by (cases w) auto
qed simp

lemma white_ends:
  "list_all (\<lambda>w. w \<noteq> [] \<and> \<not> graphic (hd w) \<and> \<not> graphic (last w)) WHITE_SPACE"
  by (simp add: WHITE_SPACE_def graphic_def)

lemma strip_all_None: "strip_some ws s = None \<Longrightarrow> strip_all ws n s = s"
  by (cases n) simp_all

lemma trim_graphic:
  assumes "s \<noteq> []" "graphic (hd s)" "graphic (last s)"
  shows "trim s = s"
proof -
  have w: "w \<noteq> []" "hd w \<noteq> hd s" "last w \<noteq> last s" if "w \<in> set WHITE_SPACE" for w
    using white_ends assms(2,3) that by (auto simp: list_all_iff)
  have "strip_some WHITE_SPACE (hd s # tl s) = None"
    by (rule strip_some_None) (use w in auto)
  then have front: "strip_some WHITE_SPACE s = None" using assms(1) by simp
  have r: "rev s = last s # rev (butlast s)" using assms(1) by (metis append_butlast_last_id rev_eq_Cons_iff rev_rev_ident)
  have "strip_some (map rev WHITE_SPACE) (rev s) = None"
    unfolding r by (rule strip_some_None) (use w in \<open>auto simp: hd_rev\<close>)
  with front show ?thesis by (simp add: trim_def strip_all_None)
qed

end
