(* ===== verification/Nuts.thy ===== *)
theory Nuts
  imports Rust_Text "HOL-Library.While_Combinator"
begin

text \<open>
  The data model of \<^verbatim>\<open>cashu-core-lite\<close>: the error type, keys, the NUT-00 messages, and the
  requests and responses of NUT-01 to NUT-09, NUT-19 and NUT-29, followed by the NUT-00
  power-of-two split with its equivalence to the bits of the amount. Field names carry a
  prefix naming their struct, because record fields share one name space.
\<close>

section \<open>Errors\<close>

datatype cashu_error =
    Transport string
  | Protocol string
  | Crypto string
  | InvalidAmount
  | QuoteNotFound
  | QuoteNotPaid
  | QuoteAlreadyIssued
  | InsufficientInputs
  | InvalidProof
  | KeysetNotFound
  | AmountMismatch
  | Unknown string
  | Storage string
  | TokensAlreadySpent
  | MeltAlreadyPaid
  | PaymentFailed
  | SpendConditionsNotMet
  | QuoteSignatureInvalid
  | BatchTooLarge
  | TooManyOutputs
  | BatchQuoteNotUnique

section \<open>Keys\<close>

text \<open>
  A public key is represented by its 33-byte compressed encoding and a secret key by its
  32-byte scalar encoding, the encodings the code exchanges, compares and stores.
\<close>

datatype public_key = PublicKey (to_bytes: bytes)

datatype secret_key = SecretKey (to_secret_bytes: bytes)

text \<open>
  Functions of third-party crates. \<open>hex_encode\<close> and \<open>hex_decode\<close> belong to \<^verbatim>\<open>hex\<close>,
  \<open>sha256\<close> to \<^verbatim>\<open>sha2\<close>, \<open>on_curve\<close> and \<open>valid_scalar\<close> say which encodings \<^verbatim>\<open>k256\<close> accepts,
  \<open>pubkey_of\<close> is its scalar multiplication of the generator; \<open>dhke_hash_to_curve\<close>,
  \<open>dhke_sign_message\<close> and \<open>dhke_verify_message\<close> belong to \<^verbatim>\<open>cashu::dhke\<close>; \<open>schnorr_from_str\<close>
  and \<open>schnorr_verify\<close> to \<^verbatim>\<open>bitcoin::secp256k1\<close> behind \<^verbatim>\<open>cashu::PublicKey::verify\<close>;
  \<open>keyset_id_ok\<close> is \<^verbatim>\<open>cashu::nuts::nut02::Id::from_str\<close> succeeding.
\<close>

record externs =
  hex_encode :: "bytes \<Rightarrow> string"
  hex_decode :: "string \<Rightarrow> bytes option"
  sha256 :: "bytes \<Rightarrow> bytes"
  on_curve :: "bytes \<Rightarrow> bool"
  valid_scalar :: "bytes \<Rightarrow> bool"
  pubkey_of :: "secret_key \<Rightarrow> public_key"
  dhke_hash_to_curve :: "bytes \<Rightarrow> public_key option"
  dhke_sign_message :: "secret_key \<Rightarrow> public_key \<Rightarrow> public_key option"
  dhke_verify_message :: "secret_key \<Rightarrow> public_key \<Rightarrow> bytes \<Rightarrow> bool"
  schnorr_from_str :: "string \<Rightarrow> bytes option"
  schnorr_verify :: "public_key \<Rightarrow> bytes \<Rightarrow> bytes \<Rightarrow> bool"
  keyset_id_ok :: "string \<Rightarrow> bool"

definition pk_from_bytes :: "externs \<Rightarrow> bytes \<Rightarrow> public_key option" where
  "pk_from_bytes X b = (if length b = 33 \<and> on_curve X b then Some (PublicKey b) else None)"

definition sk_from_slice :: "externs \<Rightarrow> bytes \<Rightarrow> secret_key option" where
  "sk_from_slice X b = (if length b = 32 \<and> valid_scalar X b then Some (SecretKey b) else None)"

section \<open>NUT-00 and NUT-12 messages\<close>

record blind_signature_dleq =
  bd_e :: secret_key
  bd_s :: secret_key

record proof_dleq =
  pd_e :: secret_key
  pd_s :: secret_key
  pd_r :: secret_key

record blinded_message =
  bm_amount :: u64
  bm_id :: string
  bm_b :: public_key

record blind_signature =
  bs_amount :: u64
  bs_id :: string
  bs_c :: public_key
  bs_dleq :: "blind_signature_dleq option"

record nut_proof =
  pf_amount :: u64
  pf_id :: string
  pf_secret :: string
  pf_c :: public_key
  pf_dleq :: "proof_dleq option"
  pf_witness :: "string option"

section \<open>Requests and responses\<close>

record key_pair =
  kp_amount :: u64
  kp_pubkey :: public_key

record key_set =
  ks_id :: string
  ks_unit :: string
  ks_keys :: "key_pair list"

record keyset_info =
  ki_id :: string
  ki_unit :: string
  ki_active :: bool
  ki_input_fee_ppk :: u64

record contact_info =
  ci_method :: string
  ci_info :: string

record payment_method =
  pm_method :: string
  pm_unit :: string

record cached_endpoint =
  ce_method :: string
  ce_path :: string

record nut_settings =
  ns_methods :: "payment_method list"
  ns_supported :: "bool option"
  ns_ttl :: "u64 option"
  ns_cached_endpoints :: "cached_endpoint list"
  ns_max_batch_size :: "u64 option"

definition nut_settings_default :: nut_settings where
  "nut_settings_default = \<lparr>ns_methods = [], ns_supported = None, ns_ttl = None, ns_cached_endpoints = [],
     ns_max_batch_size = None\<rparr>"

record mint_info =
  mi_name :: string
  mi_pubkey :: string
  mi_version :: string
  mi_description :: string
  mi_contact :: "contact_info list"
  mi_nuts :: "(string \<times> nut_settings) list"

record swap_request =
  sw_inputs :: "nut_proof list"
  sw_outputs :: "blinded_message list"

definition UNPAID :: string where "UNPAID = ''UNPAID''"
definition PAID :: string where "PAID = ''PAID''"
definition ISSUED :: string where "ISSUED = ''ISSUED''"
definition PENDING :: string where "PENDING = ''PENDING''"
definition SPENT :: string where "SPENT = ''SPENT''"
definition UNSPENT :: string where "UNSPENT = ''UNSPENT''"

record mint_quote_request =
  mqr_amount :: u64
  mqr_unit :: string
  mqr_pubkey :: "string option"

record mint_quote_response =
  mq_quote :: string
  mq_request :: string
  mq_paid :: bool
  mq_state :: string
  mq_expiry :: u64
  mq_amount :: u64
  mq_unit :: string
  mq_amount_paid :: u64
  mq_amount_issued :: u64
  mq_updated_at :: u64
  mq_method :: string
  mq_pubkey :: "string option"

record mint_request =
  mr_quote :: string
  mr_outputs :: "blinded_message list"
  mr_signature :: "string option"

record melt_quote_request =
  lqr_request :: string
  lqr_unit :: string
  lqr_amount :: "u64 option"

record melt_quote_response =
  lq_quote :: string
  lq_amount :: u64
  lq_fee_reserve :: u64
  lq_paid :: bool
  lq_state :: string
  lq_expiry :: u64
  lq_request :: string
  lq_unit :: string
  lq_method :: string

record melt_request =
  lr_quote :: string
  lr_inputs :: "nut_proof list"
  lr_outputs :: "blinded_message list option"

record melt_response =
  ls_paid :: bool
  ls_state :: string
  ls_payment_preimage :: "string option"
  ls_change :: "blind_signature list option"
  ls_quote :: string
  ls_amount :: u64
  ls_fee_reserve :: u64
  ls_unit :: string
  ls_expiry :: u64
  ls_request :: string
  ls_method :: string

record proof_state =
  ps_y :: public_key
  ps_state :: string
  ps_witness :: "string option"

record restore_output =
  ro_y :: public_key
  ro_signature :: blind_signature

definition MAX_BATCH_QUOTES :: nat where "MAX_BATCH_QUOTES = 50"
definition MAX_BATCH_OUTPUTS :: nat where "MAX_BATCH_OUTPUTS = 1000"

record batch_mint_request =
  br_quotes :: "string list"
  br_quote_amounts :: "u64 list option"
  br_outputs :: "blinded_message list"
  br_signatures :: "string option list option"

lemma state_names_distinct [simp]:
  "UNPAID \<noteq> PAID" "PAID \<noteq> UNPAID" "UNPAID \<noteq> ISSUED" "ISSUED \<noteq> UNPAID"
  "PAID \<noteq> ISSUED" "ISSUED \<noteq> PAID" "PENDING \<noteq> PAID" "PAID \<noteq> PENDING"
  "PENDING \<noteq> UNPAID" "UNPAID \<noteq> PENDING" "SPENT \<noteq> UNSPENT" "UNSPENT \<noteq> SPENT"
  by (simp_all add: UNPAID_def PAID_def ISSUED_def PENDING_def SPENT_def UNSPENT_def)

section \<open>Splitting an amount into powers of two\<close>

text \<open>
  The two loops of \<^verbatim>\<open>decompose_amount\<close>: the first doubles the denomination while it is at most
  half the amount, the second halves it down to zero and takes it whenever it fits.
\<close>

definition top_denomination :: "u64 \<Rightarrow> u64" where
  "top_denomination amount = while (\<lambda>d. d \<le> amount div 2) (\<lambda>d. push_bit 1 d) 1"

definition take_denominations :: "u64 \<Rightarrow> u64 \<Rightarrow> u64 list \<Rightarrow> u64 list" where
  "take_denominations d r out =
     snd (snd (while (\<lambda>(d, r, out). d > 0)
       (\<lambda>(d, r, out). if d \<le> r then (drop_bit 1 d, r - d, out @ [d]) else (drop_bit 1 d, r, out))
       (d, r, out)))"

definition decompose_amount :: "u64 \<Rightarrow> u64 list" where
  "decompose_amount amount =
     (if amount = 0 then [] else take_denominations (top_denomination amount) amount [])"

lemma unat_pow2: "k < 64 \<Longrightarrow> unat (2 ^ k :: u64) = 2 ^ k"
proof -
  assume "k < 64"
  then have "(2::nat) ^ k < 2 ^ 64" by (intro power_strict_increasing) simp_all
  moreover have "(2 ^ k :: u64) = word_of_nat (2 ^ k)" by simp
  ultimately show ?thesis using unat_of_nat_lt[where 'a = 64, of "2 ^ k"] by simp
qed

lemma push_pow2: "push_bit 1 (2 ^ k :: u64) = 2 ^ Suc k"
  by (simp add: push_bit_eq_mult)

lemma drop_pow2: "Suc k < 64 \<Longrightarrow> drop_bit 1 (2 ^ Suc k :: u64) = 2 ^ k"
proof -
  assume k: "Suc k < 64"
  have "unat (drop_bit 1 (2 ^ Suc k :: u64)) = unat (2 ^ k :: u64)"
    unfolding unat_drop_bit_eq unat_pow2[OF k] using k unat_pow2[of k]
    by (simp add: drop_bit_eq_div)
  then show ?thesis by (simp only: unsigned_word_eqI)
qed

lemma top_denomination_pow2:
  assumes "amount \<noteq> 0"
  shows "\<exists>k<64. top_denomination amount = 2 ^ k \<and> unat amount < 2 ^ Suc k"
proof -
  let ?P = "\<lambda>d::u64. \<exists>k<64. d = 2 ^ k \<and> 2 ^ k \<le> unat amount"
  have step: "?P (push_bit 1 d) \<and> unat d < unat (push_bit 1 d)" if "?P d" "d \<le> amount div 2" for d
  proof -
    from that obtain k where k: "k < 64" "d = 2 ^ k" by auto
    with that(2) have le: "2 ^ Suc k \<le> unat amount"
      by (auto simp: word_le_nat_alt unat_pow2 unat_div)
    then have "(2::nat) ^ Suc k < 2 ^ 64" using unat_bound[of amount] by (simp del: power_Suc)
    then have k': "Suc k < 64" by (rule power_less_imp_less_exp[rotated]) simp
    have "push_bit 1 d = 2 ^ Suc k" by (simp only: k push_pow2)
    moreover have "unat d < unat (2 ^ Suc k :: u64)" using k k' by (simp add: unat_pow2 del: power_Suc)
    ultimately show ?thesis using k' le by (metis)
  qed
  have "unat amount \<noteq> 0" using assms by (simp add: unat_eq_zero)
  then have init: "?P 1" by (intro exI[of _ 0]) simp
  have "?P (top_denomination amount) \<and> \<not> top_denomination amount \<le> amount div 2"
    unfolding top_denomination_def
  proof (rule while_rule[where P = ?P and r = "measure (\<lambda>d. 2 ^ 64 - unat d)"])
    show "?P 1" by (rule init)
  next
    fix d assume "?P d" "d \<le> amount div 2"
    with step[OF this] unat_bound[of "push_bit 1 d"]
    show "?P (push_bit 1 d)" "(push_bit 1 d, d) \<in> measure (\<lambda>d. 2 ^ 64 - unat d)" by auto
  qed auto
  then show ?thesis by (auto simp: word_le_nat_alt unat_pow2 unat_div)
qed

lemma bit_below_pow2:
  fixes n :: nat
  assumes "n < 2 ^ Suc k"
  shows "bit n k \<longleftrightarrow> 2 ^ k \<le> n" and "2 ^ k \<le> n \<Longrightarrow> i < k \<Longrightarrow> bit (n - 2 ^ k) i \<longleftrightarrow> bit n i"
proof -
  have d: "n div 2 ^ k = (if 2 ^ k \<le> n then 1 else 0)"
    using assms by (simp add: div_eq_0_iff) (metis div_less_iff_less_mult div_greater_zero_iff
        less_2_cases_iff mult_2 neq0_conv zero_less_numeral zero_less_power One_nat_def mult.commute power_Suc)
  then show "bit n k \<longleftrightarrow> 2 ^ k \<le> n" by (simp add: bit_iff_odd)
  assume "2 ^ k \<le> n" "i < k"
  with d have "n mod 2 ^ k = n - 2 ^ k" by (simp add: minus_div_mult_eq_mod [symmetric])
  then have "n - 2 ^ k = take_bit k n" by (simp add: take_bit_eq_mod)
  with \<open>i < k\<close> show "bit (n - 2 ^ k) i \<longleftrightarrow> bit n i" by (simp add: bit_take_bit_iff)
qed

lemma bit_unat [simp]: "bit (unat (w::u64)) i \<longleftrightarrow> bit w i"
  by (simp add: bit_unsigned_iff)

definition pow2_bits :: "u64 \<Rightarrow> nat \<Rightarrow> u64 list" where
  "pow2_bits r n = map (\<lambda>i. 2 ^ i) (filter (bit r) (rev [0..<n]))"

lemma pow2_bits_Suc: "pow2_bits r (Suc n) = (if bit r n then [2 ^ n] else []) @ pow2_bits r n"
  by (simp add: pow2_bits_def)

lemma take_denominations_unfold:
  "take_denominations d r out =
     (if d > 0 then (if d \<le> r then take_denominations (drop_bit 1 d) (r - d) (out @ [d])
                     else take_denominations (drop_bit 1 d) r out)
      else out)"
  unfolding take_denominations_def
  by (subst while_unfold) simp

lemma take_denominations_zero: "take_denominations 0 r out = out"
  by (subst take_denominations_unfold) simp

lemma take_denominations_eq:
  assumes "k < 64" and "unat r < 2 ^ Suc k"
  shows "take_denominations (2 ^ k) r out = out @ pow2_bits r (Suc k)"
  using assms
proof (induction k arbitrary: r out)
  case 0
  then have "unat r = unat (0::u64) \<or> unat r = unat (1::u64)" by auto
  then have "r = 0 \<or> r = 1" by (simp only: word_unat_eq_iff)
  then show ?case
    by (auto simp: take_denominations_unfold[of 1] take_denominations_zero pow2_bits_def)
next
  case (Suc k)
  have pos: "(2 ^ Suc k :: u64) > 0"
    using Suc.prems(1) by (simp add: word_less_nat_alt unat_pow2 del: power_Suc)
  have le: "2 ^ Suc k \<le> r \<longleftrightarrow> bit r (Suc k)"
    using bit_below_pow2(1)[OF Suc.prems(2)] Suc.prems(1)
    by (simp add: word_le_nat_alt unat_pow2 del: power_Suc)
  show ?case
  proof (cases "2 ^ Suc k \<le> r")
    case True
    then have sub: "unat (r - 2 ^ Suc k) = unat r - 2 ^ Suc k"
      using Suc.prems(1) by (simp add: unat_sub unat_pow2 del: power_Suc)
    have bits: "bit (r - 2 ^ Suc k) i \<longleftrightarrow> bit r i" if "i < Suc k" for i
      using bit_below_pow2(2)[OF Suc.prems(2) _ that] True Suc.prems(1) sub
      by (metis bit_unat unat_pow2 word_le_nat_alt)
    have "pow2_bits (r - 2 ^ Suc k) (Suc k) = pow2_bits r (Suc k)"
      unfolding pow2_bits_def by (rule arg_cong, rule filter_cong) (use bits in \<open>auto simp del: upt_Suc\<close>)
    moreover have "unat (r - 2 ^ Suc k) < 2 ^ Suc k" using sub Suc.prems(2) by simp
    ultimately show ?thesis
      using True pos le Suc.prems(1) Suc.IH[of "r - 2 ^ Suc k" "out @ [2 ^ Suc k]"]
      by (simp add: take_denominations_unfold[of "2 ^ Suc k"] drop_pow2[unfolded One_nat_def] pow2_bits_Suc[of r "Suc k"]
          del: power_Suc)
  next
    case False
    then have "unat r < 2 ^ Suc k"
      using Suc.prems(1) by (simp add: word_le_nat_alt unat_pow2 del: power_Suc)
    then show ?thesis
      using False pos le Suc.prems(1) Suc.IH[of r out]
      by (simp add: take_denominations_unfold[of "2 ^ Suc k"] drop_pow2[unfolded One_nat_def] pow2_bits_Suc[of r "Suc k"]
          del: power_Suc)
  qed
qed

text \<open>The optimised loops compute the set bits of the amount, highest first.\<close>

lemma pow2_bits_above: "unat r < 2 ^ n \<Longrightarrow> n \<le> m \<Longrightarrow> pow2_bits r m = pow2_bits r n"
proof (induction m)
  case (Suc m)
  show ?case
  proof (cases "n \<le> m")
    case True
    then have "unat r div 2 ^ m = 0"
      using Suc.prems(1) by (metis div_less le_less_trans less_le_trans one_le_numeral power_increasing)
    then have "\<not> bit r m" by (simp flip: bit_unat add: bit_iff_odd)
    with True Suc show ?thesis by (simp add: pow2_bits_Suc)
  next
    case False
    with Suc.prems have "n = Suc m" by simp
    then show ?thesis by simp
  qed
qed simp

lemma decompose_amount_bits: "decompose_amount a = pow2_bits a 64"
proof (cases "a = 0")
  case True
  then show ?thesis by (simp add: decompose_amount_def pow2_bits_def)
next
  case False
  then obtain k where k: "k < 64" "top_denomination a = 2 ^ k" "unat a < 2 ^ Suc k"
    using top_denomination_pow2 by blast
  then show ?thesis using False pow2_bits_above[OF k(3), of 64]
    by (simp add: decompose_amount_def take_denominations_eq del: power_Suc)
qed

lemma sum_pow2_bits: "n \<le> 64 \<Longrightarrow> sum_nat (pow2_bits r n) = unat r mod 2 ^ n"
proof (induction n)
  case 0
  then show ?case by (simp add: pow2_bits_def)
next
  case (Suc n)
  then show ?case
    using take_bit_Suc_from_most[of n "unat r"]
    by (simp add: pow2_bits_Suc unat_pow2 take_bit_eq_mod del: power_Suc)
qed

lemma sum_decompose_amount: "sum_nat (decompose_amount a) = unat a"
  using sum_pow2_bits[of 64 a] unat_bound[of a] by (simp add: decompose_amount_bits)

lemma pow2_bits_members: "d \<in> set (pow2_bits r n) \<longleftrightarrow> (\<exists>i<n. d = 2 ^ i \<and> bit r i)"
  by (auto simp: pow2_bits_def)

end
