(* ===== verification/Json.thy ===== *)
theory Json
  imports Nuts
begin

text \<open>
  The strict JSON scanner of \<^verbatim>\<open>cashu-core-lite/src/nuts/json.rs\<close> and the string escaper of
  \<^verbatim>\<open>nut11.rs\<close>. The scanner's position is the suffix of the input still to be read. Nested
  values recurse, so the scanner carries fuel; \<open>parse_value_fuel\<close> shows that twice the length
  of the input plus one is always enough, and \<open>json_parse\<close> starts with that much. The escaper
  and the string scanner are inverse to each other on strings without C1 control characters.
\<close>

datatype json =
    JNull
  | JBool bool
  | JNumber
  | JString string
  | JArray "json list"
  | JObject "(string \<times> json) list"

fun as_str :: "json \<Rightarrow> string option" where
  "as_str (JString s) = Some s"
| "as_str _ = None"

fun as_array :: "json \<Rightarrow> json list option" where
  "as_array (JArray xs) = Some xs"
| "as_array _ = None"

fun as_object :: "json \<Rightarrow> (string \<times> json) list option" where
  "as_object (JObject ms) = Some ms"
| "as_object _ = None"

definition json_get :: "string \<Rightarrow> json \<Rightarrow> json option" where
  "json_get key j = (case as_object j of None \<Rightarrow> None | Some ms \<Rightarrow> map_of ms key)"

section \<open>UTF-8\<close>

text \<open>\<^verbatim>\<open>String::from_utf8\<close> accepts exactly the well-formed UTF-8 byte sequences.\<close>

fun utf8_ok :: "nat list \<Rightarrow> bool" where
  "utf8_ok [] = True"
| "utf8_ok (a # xs) =
     (if a < 0x80 then utf8_ok xs
      else case xs of [] \<Rightarrow> False
      | b # ys \<Rightarrow>
        (if 0xC2 \<le> a \<and> a \<le> 0xDF then 0x80 \<le> b \<and> b \<le> 0xBF \<and> utf8_ok ys
         else case ys of [] \<Rightarrow> False
         | c # zs \<Rightarrow>
           (if 0xE0 \<le> a \<and> a \<le> 0xEF
            then (if a = 0xE0 then 0xA0 else 0x80) \<le> b \<and> b \<le> (if a = 0xED then 0x9F else 0xBF)
                 \<and> 0x80 \<le> c \<and> c \<le> 0xBF \<and> utf8_ok zs
            else case zs of [] \<Rightarrow> False
            | d # ws \<Rightarrow>
              0xF0 \<le> a \<and> a \<le> 0xF4
              \<and> (if a = 0xF0 then 0x90 else 0x80) \<le> b \<and> b \<le> (if a = 0xF4 then 0x8F else 0xBF)
              \<and> 0x80 \<le> c \<and> c \<le> 0xBF \<and> 0x80 \<le> d \<and> d \<le> 0xBF \<and> utf8_ok ws)))"

definition utf8_valid :: "string \<Rightarrow> bool" where
  "utf8_valid s = utf8_ok (map of_char s)"

text \<open>\<^verbatim>\<open>char::encode_utf8\<close>.\<close>

definition encode_utf8 :: "nat \<Rightarrow> string" where
  "encode_utf8 n =
     map char_of
      (if n < 0x80 then [n]
       else if n < 0x800 then [0xC0 + n div 64, 0x80 + n mod 64]
       else if n < 0x10000 then [0xE0 + n div 4096, 0x80 + n div 64 mod 64, 0x80 + n mod 64]
       else [0xF0 + n div 262144, 0x80 + n div 4096 mod 64, 0x80 + n div 64 mod 64, 0x80 + n mod 64])"

section \<open>The scanner\<close>

definition is_ws :: "char \<Rightarrow> bool" where
  "is_ws c \<longleftrightarrow> c = CHR 0x20 \<or> c = CHR 0x09 \<or> c = CHR 0x0A \<or> c = CHR 0x0D"

fun skip_ws :: "string \<Rightarrow> string" where
  "skip_ws [] = []"
| "skip_ws (c # cs) = (if is_ws c then skip_ws cs else c # cs)"

fun expect :: "char \<Rightarrow> string \<Rightarrow> string option" where
  "expect b [] = None"
| "expect b (c # cs) = (if c = b then Some cs else None)"

definition parse_literal :: "string \<Rightarrow> json \<Rightarrow> string \<Rightarrow> (json \<times> string) option" where
  "parse_literal lit v s = map_option (\<lambda>r. (v, r)) (strip_prefix lit s)"

definition is_digit :: "char \<Rightarrow> bool" where
  "is_digit c \<longleftrightarrow> digit_val c \<noteq> None"

fun skip_digits :: "string \<Rightarrow> string" where
  "skip_digits [] = []"
| "skip_digits (c # cs) = (if is_digit c then skip_digits cs else c # cs)"

definition parse_int :: "string \<Rightarrow> string option" where
  "parse_int s = (case s of [] \<Rightarrow> None
     | c # cs \<Rightarrow> if c = CHR ''0'' then Some cs else if is_digit c then Some (skip_digits cs) else None)"

definition parse_frac :: "string \<Rightarrow> string option" where
  "parse_frac s = (case s of [] \<Rightarrow> Some []
     | c # cs \<Rightarrow> if c = CHR ''.'' then (if skip_digits cs = cs then None else Some (skip_digits cs))
                 else Some (c # cs))"

definition parse_exp :: "string \<Rightarrow> string option" where
  "parse_exp s = (case s of [] \<Rightarrow> Some []
     | c # cs \<Rightarrow> if c = CHR ''e'' \<or> c = CHR ''E''
         then (let r = (case cs of [] \<Rightarrow> [] | d # ds \<Rightarrow> if d = CHR ''+'' \<or> d = CHR ''-'' then ds else cs)
               in if skip_digits r = r then None else Some (skip_digits r))
         else Some (c # cs))"

definition parse_number :: "string \<Rightarrow> (json \<times> string) option" where
  "parse_number s =
     (let s1 = (case s of [] \<Rightarrow> [] | c # cs \<Rightarrow> if c = CHR ''-'' then cs else s)
      in case parse_int s1 of None \<Rightarrow> None
         | Some s2 \<Rightarrow> (case parse_frac s2 of None \<Rightarrow> None
           | Some s3 \<Rightarrow> map_option (\<lambda>r. (JNumber, r)) (parse_exp s3)))"

definition hex_val :: "char \<Rightarrow> nat option" where
  "hex_val c = (let n = (of_char c :: nat) in
     if 48 \<le> n \<and> n \<le> 57 then Some (n - 48)
     else if 97 \<le> n \<and> n \<le> 102 then Some (n - 87)
     else if 65 \<le> n \<and> n \<le> 70 then Some (n - 55) else None)"

text \<open>Four hex digits; the scanner then continues four bytes further on.\<close>

definition parse_hex4 :: "string \<Rightarrow> nat option" where
  "parse_hex4 s = (if length s < 4 then None else
     (case map_opt hex_val (take 4 s) of None \<Rightarrow> None
      | Some ds \<Rightarrow> Some (foldl (\<lambda>v d. 16 * v + d) 0 ds)))"

definition escape_char :: "char \<Rightarrow> char option" where
  "escape_char e =
     (if e = CHR 0x22 then Some (CHR 0x22) else if e = CHR 0x5C then Some (CHR 0x5C)
      else if e = CHR ''/'' then Some (CHR ''/'') else if e = CHR ''b'' then Some (CHR 0x08)
      else if e = CHR ''f'' then Some (CHR 0x0C) else if e = CHR ''n'' then Some (CHR 0x0A)
      else if e = CHR ''r'' then Some (CHR 0x0D) else if e = CHR ''t'' then Some (CHR 0x09)
      else None)"

text \<open>The loop of \<^verbatim>\<open>parse_string\<close> after the opening quote.\<close>

function (sequential) string_body :: "string \<Rightarrow> string \<Rightarrow> (string \<times> string) option" where
  "string_body out [] = None"
| "string_body out (c # cs) =
     (if c = CHR 0x22 then (if utf8_valid out then Some (out, cs) else None)
      else if c = CHR 0x5C then
        (case cs of [] \<Rightarrow> None
         | e # es \<Rightarrow>
           (if e = CHR ''u'' then
              (case parse_hex4 es of None \<Rightarrow> None
               | Some code \<Rightarrow>
                 (if 0xD800 \<le> code \<and> code < 0xDC00 then
                    (case strip_prefix [CHR 0x5C, CHR ''u''] (drop 4 es) of None \<Rightarrow> None
                     | Some r \<Rightarrow>
                       (case parse_hex4 r of None \<Rightarrow> None
                        | Some low \<Rightarrow>
                          (if 0xDC00 \<le> low \<and> low < 0xE000
                           then string_body (out @ encode_utf8 (0x10000 + (code - 0xD800) * 1024 + (low - 0xDC00)))
                                  (drop 4 (drop 2 (drop 4 es)))
                           else None)))
                  else if 0xDC00 \<le> code \<and> code < 0xE000 then None
                  else string_body (out @ encode_utf8 code) (drop 4 es)))
            else (case escape_char e of None \<Rightarrow> None
                  | Some x \<Rightarrow> string_body (out @ [x]) es)))
      else if (of_char c :: nat) < 32 then None
      else string_body (out @ [c]) cs)"
  by pat_completeness auto
termination
  by (relation "measure (\<lambda>(out, s). length s)") auto

definition parse_string :: "string \<Rightarrow> (string \<times> string) option" where
  "parse_string s = (case expect (CHR 0x22) s of None \<Rightarrow> None | Some r \<Rightarrow> string_body [] r)"

fun parse_value :: "nat \<Rightarrow> string \<Rightarrow> (json \<times> string) option"
and parse_members :: "nat \<Rightarrow> string \<Rightarrow> ((string \<times> json) list \<times> string) option"
and parse_items :: "nat \<Rightarrow> string \<Rightarrow> (json list \<times> string) option" where
  "parse_value 0 s = None"
| "parse_value (Suc f) s =
     (case s of [] \<Rightarrow> None
      | c # cs \<Rightarrow>
        (if c = CHR ''{'' then
           (case skip_ws cs of [] \<Rightarrow> None
            | d # ds \<Rightarrow> if d = CHR ''}'' then Some (JObject [], ds)
                else map_option (\<lambda>(ms, r). (JObject ms, r)) (parse_members f (d # ds)))
         else if c = CHR ''['' then
           (case skip_ws cs of [] \<Rightarrow> None
            | d # ds \<Rightarrow> if d = CHR '']'' then Some (JArray [], ds)
                else map_option (\<lambda>(xs, r). (JArray xs, r)) (parse_items f (d # ds)))
         else if c = CHR 0x22 then map_option (\<lambda>(t, r). (JString t, r)) (parse_string s)
         else if c = CHR ''t'' then parse_literal ''true'' (JBool True) s
         else if c = CHR ''f'' then parse_literal ''false'' (JBool False) s
         else if c = CHR ''n'' then parse_literal ''null'' JNull s
         else if c = CHR ''-'' \<or> is_digit c then parse_number s
         else None))"
| "parse_members 0 s = None"
| "parse_members (Suc f) s =
     (case parse_string (skip_ws s) of None \<Rightarrow> None
      | Some (key, s1) \<Rightarrow>
        (case expect (CHR '':'') (skip_ws s1) of None \<Rightarrow> None
         | Some s2 \<Rightarrow>
           (case parse_value f (skip_ws s2) of None \<Rightarrow> None
            | Some (v, s3) \<Rightarrow>
              (case skip_ws s3 of [] \<Rightarrow> None
               | c # cs \<Rightarrow>
                 if c = CHR '','' then map_option (\<lambda>(ms, r). ((key, v) # ms, r)) (parse_members f cs)
                 else if c = CHR ''}'' then Some ([(key, v)], cs)
                 else None))))"
| "parse_items 0 s = None"
| "parse_items (Suc f) s =
     (case parse_value f (skip_ws s) of None \<Rightarrow> None
      | Some (v, s1) \<Rightarrow>
        (case skip_ws s1 of [] \<Rightarrow> None
         | c # cs \<Rightarrow>
           if c = CHR '','' then map_option (\<lambda>(vs, r). (v # vs, r)) (parse_items f cs)
           else if c = CHR '']'' then Some ([v], cs)
           else None))"

definition json_parse :: "string \<Rightarrow> json option" where
  "json_parse input =
     (let s = skip_ws input
      in case parse_value (2 * length s + 1) s of None \<Rightarrow> None
         | Some (v, r) \<Rightarrow> if skip_ws r = [] then Some v else None)"

section \<open>The escaper\<close>

definition hex_lower :: "nat \<Rightarrow> char" where
  "hex_lower n = ''0123456789abcdef'' ! n"

definition escape_byte :: "char \<Rightarrow> string" where
  "escape_byte c = [CHR 0x5C, CHR ''u'', CHR ''0'', CHR ''0'',
     hex_lower (of_char c div 16), hex_lower (of_char c mod 16)]"

text \<open>
  The characters \<^verbatim>\<open>char::is_control\<close> holds of are the bytes below 32, the byte 127 and, in UTF-8,
  the pairs 0xC2 0x80 to 0xC2 0x9F. Each of their bytes is escaped on its own.
\<close>

definition escape_one :: "char \<Rightarrow> string" where
  "escape_one c =
     (if c = CHR 0x22 then [CHR 0x5C, CHR 0x22] else if c = CHR 0x5C then [CHR 0x5C, CHR 0x5C]
      else if (of_char c :: nat) < 32 \<or> c = CHR 0x7F then escape_byte c else [c])"

fun escape_body :: "string \<Rightarrow> string" where
  "escape_body [] = []"
| "escape_body [c] = escape_one c"
| "escape_body (c # d # cs) =
     (if c = CHR 0xC2 \<and> (of_char d :: nat) \<in> {0x80..0x9F} then escape_byte c @ escape_byte d @ escape_body cs
      else escape_one c @ escape_body (d # cs))"

definition json_escape :: "string \<Rightarrow> string" where
  "json_escape raw = CHR 0x22 # escape_body raw @ [CHR 0x22]"

fun c1_free :: "string \<Rightarrow> bool" where
  "c1_free (c # d # cs) = (\<not> (c = CHR 0xC2 \<and> (of_char d :: nat) \<in> {0x80..0x9F}) \<and> c1_free (d # cs))"
| "c1_free _ = True"


section \<open>Fuel\<close>

lemma length_skip_ws [simp]: "length (skip_ws s) \<le> length s"
  by (induction s) auto

lemma skip_ws_Cons_length: "skip_ws s = c # cs \<Longrightarrow> Suc (length cs) \<le> length s"
  using length_skip_ws[of s] by simp

lemma length_skip_digits [simp]: "length (skip_digits s) \<le> length s"
  by (induction s) auto

lemma string_body_length: "string_body out s = Some (t, r) \<Longrightarrow> length r < length s"
proof (induction out s rule: string_body.induct)
  case (2 out c cs)
  consider "c = CHR 0x22" | "c \<noteq> CHR 0x22" "c \<noteq> CHR 0x5C" | e es where "c = CHR 0x5C" "cs = e # es"
    | "c = CHR 0x5C" "cs = []"
    by (cases cs) auto
  then show ?case
  proof cases
    case 1
    with 2(5) show ?thesis by (simp split: if_splits)
  next
    case 2
    with "2.prems" have "string_body (out @ [c]) cs = Some (t, r)" by (simp split: if_splits)
    with 2 "2.prems" "2.IH"(4) show ?thesis by (simp split: if_splits)
  next
    case (3 e es)
    show ?thesis
    proof (cases "e = CHR ''u''")
      case True
      with 3 "2.prems" obtain code where code: "parse_hex4 es = Some code"
        by (auto split: option.splits)
      show ?thesis
      proof (cases "0xD800 \<le> code \<and> code < 0xDC00")
        case high: True
        with 3 True code "2.prems" obtain u low where
          "strip_prefix [CHR 0x5C, CHR ''u''] (drop 4 es) = Some u" "parse_hex4 u = Some low"
          "0xDC00 \<le> low \<and> low < 0xE000"
          "string_body (out @ encode_utf8 (0x10000 + (code - 0xD800) * 1024 + (low - 0xDC00)))
             (drop 4 (drop 2 (drop 4 es))) = Some (t, r)"
          by (auto split: option.splits if_splits)
        from "2.IH"(1)[OF _ _ _ True code high this] 3 show ?thesis by simp
      next
        case low: False
        with 3 True code "2.prems" have "\<not> (0xDC00 \<le> code \<and> code < 0xE000)"
          "string_body (out @ encode_utf8 code) (drop 4 es) = Some (t, r)"
          by (auto split: if_splits)
        from "2.IH"(2)[OF _ _ _ True code low this] 3 show ?thesis by simp
      qed
    next
      case False
      with 3 "2.prems" obtain x where x: "escape_char e = Some x" "string_body (out @ [x]) es = Some (t, r)"
        by (auto split: option.splits)
      from "2.IH"(3)[OF _ _ _ False x] 3 show ?thesis by simp
    qed
  next
    case 4
    with "2.prems" show ?thesis by simp
  qed
qed simp

lemma parse_string_length: "parse_string s = Some (t, r) \<Longrightarrow> length r < length s"
  by (cases s) (auto simp: parse_string_def dest!: string_body_length split: if_splits)

lemma expect_length: "expect b s = Some r \<Longrightarrow> length r < length s"
  by (cases s) (auto split: if_splits)

lemma parse_literal_length: "lit \<noteq> [] \<Longrightarrow> parse_literal lit v s = Some (j, r) \<Longrightarrow> length r < length s"
  by (auto simp: parse_literal_def strip_prefix_Some_iff)

lemma parse_number_length: "parse_number s = Some (j, r) \<Longrightarrow> length r < length s"
proof -
  have int: "length r < length s" if "parse_int s = Some r" for s r
    using that le_less_trans[OF length_skip_digits]
    by (auto simp: parse_int_def less_Suc_eq_le split: list.splits if_splits)
  have frac: "length r \<le> length s" if "parse_frac s = Some r" for s r
    using that le_SucI[OF length_skip_digits] by (auto simp: parse_frac_def split: list.splits if_splits)
  have expo: "length r \<le> length s" if "parse_exp s = Some r" for s r
    using that le_SucI[OF length_skip_digits] le_SucI[OF le_SucI[OF length_skip_digits]]
    by (auto simp: parse_exp_def Let_def split: list.splits if_splits)
  assume "parse_number s = Some (j, r)"
  then obtain s1 s2 s3 where s1: "s1 = (case s of [] \<Rightarrow> [] | c # cs \<Rightarrow> if c = CHR ''-'' then cs else s)"
    and "parse_int s1 = Some s2" "parse_frac s2 = Some s3" "parse_exp s3 = Some r"
    by (auto simp: parse_number_def Let_def split: option.splits)
  then have "length r < length s1" using int frac expo by (meson le_less_trans)
  then show ?thesis by (auto simp: s1 split: list.splits if_splits)
qed

lemma parse_value_cases:
  assumes "parse_value (Suc f) s = Some (v, r)"
  obtains d ds ms where "skip_ws (tl s) = d # ds" "s \<noteq> []" "parse_members f (d # ds) = Some (ms, r)"
  | d ds xs where "skip_ws (tl s) = d # ds" "s \<noteq> []" "parse_items f (d # ds) = Some (xs, r)"
  | "length r < length s"
proof (cases s)
  case Nil
  with assms show ?thesis by simp
next
  case (Cons c cs)
  show ?thesis
  proof (cases "c = CHR ''{'' \<or> c = CHR ''[''")
    case True
    with assms Cons obtain d ds where d: "skip_ws cs = d # ds"
      by (cases "skip_ws cs") auto
    note len = skip_ws_Cons_length[OF d]
    consider "r = ds" | ms where "parse_members f (d # ds) = Some (ms, r)"
      | xs where "parse_items f (d # ds) = Some (xs, r)"
      using assms Cons True d by (auto split: if_splits)
    then show ?thesis
      by cases (use d len Cons that in auto)
  next
    case False
    then consider t where "parse_string s = Some (t, r)" | lit w where "lit \<noteq> []" "parse_literal lit w s = Some (v, r)"
      | "parse_number s = Some (v, r)"
      using assms Cons by (simp split: if_splits) blast+
    then have "length r < length s"
      by cases (auto dest: parse_string_length parse_number_length parse_literal_length)
    with that show ?thesis by blast
  qed
qed

lemma parse_members_cases:
  assumes "parse_members (Suc f) s = Some (ms, r)"
  obtains key s1 s2 v s3 c cs where "parse_string (skip_ws s) = Some (key, s1)"
    "expect (CHR '':'') (skip_ws s1) = Some s2" "parse_value f (skip_ws s2) = Some (v, s3)"
    "skip_ws s3 = c # cs" "(\<exists>ms'. parse_members f cs = Some (ms', r)) \<or> r = cs"
  using assms by (auto split: list.splits if_splits option.splits prod.splits)

lemma parse_items_cases:
  assumes "parse_items (Suc f) s = Some (vs, r)"
  obtains v s1 c cs where "parse_value f (skip_ws s) = Some (v, s1)"
    "skip_ws s1 = c # cs" "(\<exists>vs'. parse_items f cs = Some (vs', r)) \<or> r = cs"
  using assms by (auto split: list.splits if_splits option.splits prod.splits)

lemma scanners_consume:
  "(\<forall>s v r. parse_value f s = Some (v, r) \<longrightarrow> length r < length s)
   \<and> (\<forall>s ms r. parse_members f s = Some (ms, r) \<longrightarrow> length r < length s)
   \<and> (\<forall>s vs r. parse_items f s = Some (vs, r) \<longrightarrow> length r < length s)"
proof (induction f)
  case (Suc f)
  note IH = Suc.IH[THEN conjunct1, rule_format] Suc.IH[THEN conjunct2, THEN conjunct1, rule_format]
    Suc.IH[THEN conjunct2, THEN conjunct2, rule_format]
  have v: "length r < length s" if "parse_value (Suc f) s = Some (v, r)" for s v r
    using that
  proof (rule parse_value_cases)
    fix d ds ms
    assume a: "skip_ws (tl s) = d # ds" "s \<noteq> []" "parse_members f (d # ds) = Some (ms, r)"
    show ?thesis using IH(2)[OF a(3)] skip_ws_Cons_length[OF a(1)] a(2) by simp
  next
    fix d ds xs
    assume a: "skip_ws (tl s) = d # ds" "s \<noteq> []" "parse_items f (d # ds) = Some (xs, r)"
    show ?thesis using IH(3)[OF a(3)] skip_ws_Cons_length[OF a(1)] a(2) by simp
  qed
  have m: "length r < length s" if "parse_members (Suc f) s = Some (ms, r)" for s ms r
    using that
  proof (rule parse_members_cases)
    fix key s1 s2 v s3 c cs
    assume steps: "parse_string (skip_ws s) = Some (key, s1)"
      "expect (CHR '':'') (skip_ws s1) = Some s2" "parse_value f (skip_ws s2) = Some (v, s3)"
      "skip_ws s3 = c # cs" "(\<exists>ms'. parse_members f cs = Some (ms', r)) \<or> r = cs"
    have "length r \<le> length cs" using steps(5) IH(2) by (blast intro: less_imp_le)
    then show ?thesis
      using parse_string_length[OF steps(1)] expect_length[OF steps(2)] skip_ws_Cons_length[OF steps(4)]
        IH(1)[OF steps(3)] length_skip_ws[of s] length_skip_ws[of s1] length_skip_ws[of s2]
      by linarith
  qed
  have i: "length r < length s" if "parse_items (Suc f) s = Some (vs, r)" for s vs r
    using that
  proof (rule parse_items_cases)
    fix v s1 c cs
    assume steps: "parse_value f (skip_ws s) = Some (v, s1)" "skip_ws s1 = c # cs"
      "(\<exists>vs'. parse_items f cs = Some (vs', r)) \<or> r = cs"
    have "length r \<le> length cs" using steps(3) IH(3) by (blast intro: less_imp_le)
    then show ?thesis
      using skip_ws_Cons_length[OF steps(2)] IH(1)[OF steps(1)] length_skip_ws[of s] by linarith
  qed
  from v m i show ?case by blast
qed simp

lemmas value_consumes = scanners_consume[THEN conjunct1, rule_format]

text \<open>Beyond twice the length of the input, more fuel changes nothing.\<close>

lemma scanner_fuel:
  "(\<forall>s. 2 * length s + 1 \<le> f \<longrightarrow> parse_value (Suc f) s = parse_value f s)
   \<and> (\<forall>s. 2 * length s + 2 \<le> f \<longrightarrow> parse_members (Suc f) s = parse_members f s)
   \<and> (\<forall>s. 2 * length s + 2 \<le> f \<longrightarrow> parse_items (Suc f) s = parse_items f s)"
proof (induction f)
  case (Suc f)
  note IH = Suc.IH[THEN conjunct1, rule_format] Suc.IH[THEN conjunct2, THEN conjunct1, rule_format]
    Suc.IH[THEN conjunct2, THEN conjunct2, rule_format]
  have v: "parse_value (Suc (Suc f)) s = parse_value (Suc f) s" if len: "2 * length s + 1 \<le> Suc f" for s
  proof -
    have "parse_members (Suc f) (d # ds) = parse_members f (d # ds)"
      "parse_items (Suc f) (d # ds) = parse_items f (d # ds)"
      if "s = c # cs" "skip_ws cs = d # ds" for c cs d ds
    proof -
      have "2 * length (d # ds) + 2 \<le> f"
        using len that skip_ws_Cons_length[OF that(2)] by simp
      then show "parse_members (Suc f) (d # ds) = parse_members f (d # ds)"
        "parse_items (Suc f) (d # ds) = parse_items f (d # ds)"
        by (rule IH(2), rule IH(3))
    qed
    then show ?thesis
      by (simp only: parse_value.simps cong: list.case_cong option.case_cong if_cong)
  qed
  have m: "parse_members (Suc (Suc f)) s = parse_members (Suc f) s" if len: "2 * length s + 2 \<le> Suc f" for s
  proof -
    have "parse_value (Suc f) (skip_ws s2) = parse_value f (skip_ws s2)"
      and "parse_value f (skip_ws s2) = Some (v, s3) \<Longrightarrow> skip_ws s3 = c # cs \<Longrightarrow>
           parse_members (Suc f) cs = parse_members f cs"
      if st: "parse_string (skip_ws s) = Some (key, s1)" "expect (CHR '':'') (skip_ws s1) = Some s2"
      for key s1 s2 v s3 c cs
    proof -
      have l: "length s2 + 2 \<le> length s"
        using parse_string_length[OF st(1)] expect_length[OF st(2)] length_skip_ws[of s] length_skip_ws[of s1]
        by linarith
      then show "parse_value (Suc f) (skip_ws s2) = parse_value f (skip_ws s2)"
        using len length_skip_ws[of s2] by (intro IH(1)) linarith
      assume "parse_value f (skip_ws s2) = Some (v, s3)" "skip_ws s3 = c # cs"
      with value_consumes[OF this(1)] skip_ws_Cons_length[OF this(2)] length_skip_ws[of s2] l len
      show "parse_members (Suc f) cs = parse_members f cs" by (intro IH(2)) linarith
    qed
    then show ?thesis
      by (auto simp: parse_members.simps split: option.split list.split prod.split)
  qed
  have i: "parse_items (Suc (Suc f)) s = parse_items (Suc f) s" if len: "2 * length s + 2 \<le> Suc f" for s
  proof -
    have "parse_value (Suc f) (skip_ws s) = parse_value f (skip_ws s)"
      using len length_skip_ws[of s] by (intro IH(1)) linarith
    moreover have "parse_items (Suc f) cs = parse_items f cs"
      if "parse_value f (skip_ws s) = Some (v, s1)" "skip_ws s1 = c # cs" for v s1 c cs
      using value_consumes[OF that(1)] skip_ws_Cons_length[OF that(2)] length_skip_ws[of s] len
      by (intro IH(3)) linarith
    ultimately show ?thesis
      by (auto simp: parse_items.simps split: option.split list.split prod.split)
  qed
  from v m i show ?case by blast
qed simp

lemma parse_value_fuel:
  assumes "2 * length s + 1 \<le> f"
  shows "parse_value f s = parse_value (2 * length s + 1) s"
  using assms
proof (induction f)
  case (Suc f)
  then show ?case
    using scanner_fuel[of f] by (cases "2 * length s + 1 \<le> f") (auto simp: le_Suc_eq)
qed simp

section \<open>Escaping and scanning back\<close>

lemma hex_val_lower: "n < 16 \<Longrightarrow> hex_val (hex_lower n) = Some n"
proof -
  have "\<forall>n \<in> set [0..<16]. hex_val (hex_lower n) = Some n" by code_simp
  then show "n < 16 \<Longrightarrow> ?thesis" by simp
qed

lemma parse_hex4_escape:
  "parse_hex4 (CHR ''0'' # CHR ''0'' # hex_lower (of_char c div 16) # hex_lower (of_char c mod 16) # rest)
     = Some (of_char c)"
proof -
  have d: "(of_char c :: nat) div 16 < 16"
    using nat_of_char_less_256[of c] by (simp only: div_less_iff_less_mult)
  have z: "hex_val (CHR ''0'') = Some 0" by (simp add: hex_val_def)
  have t: "take 4 (a # b # u # v # rest) = [a, b, u, v]" for a b u v :: char
    by (simp add: numeral_eq_Suc)
  show ?thesis
    unfolding parse_hex4_def t by (simp add: z hex_val_lower[OF d] hex_val_lower)
qed

lemma string_body_escape_byte:
  assumes "(of_char c :: nat) < 128"
  shows "string_body out (escape_byte c @ rest) = string_body (out @ [c]) rest"
  using assms parse_hex4_escape[of c rest]
  by (simp add: escape_byte_def encode_utf8_def)

lemma string_body_escape_one: "string_body out (escape_one c @ rest) = string_body (out @ [c]) rest"
proof -
  consider "c = CHR 0x22" | "c = CHR 0x5C" | "c \<noteq> CHR 0x22" "c \<noteq> CHR 0x5C" "(of_char c :: nat) < 32 \<or> c = CHR 0x7F"
    | "c \<noteq> CHR 0x22" "c \<noteq> CHR 0x5C" "\<not> ((of_char c :: nat) < 32 \<or> c = CHR 0x7F)"
    by blast
  then show ?thesis
  proof cases
    case 3
    then have "(of_char c :: nat) < 128" by auto
    with 3 show ?thesis by (simp add: escape_one_def string_body_escape_byte del: string_body.simps)
  qed (auto simp: escape_one_def escape_char_def)
qed

lemma escape_body_concat: "c1_free s \<Longrightarrow> escape_body s = concat (map escape_one s)"
  by (induction s rule: escape_body.induct) auto

lemma string_body_escaped_from:
  "string_body out (concat (map escape_one s) @ CHR 0x22 # rest)
     = (if utf8_valid (out @ s) then Some (out @ s, rest) else None)"
  by (induction s arbitrary: out) (simp_all add: string_body_escape_one del: string_body.simps(2), simp)

lemma parse_string_escape:
  assumes "utf8_valid s" "c1_free s"
  shows "parse_string (json_escape s @ rest) = Some (s, rest)"
  using string_body_escaped_from[of "[]" s rest] assms
  by (simp add: parse_string_def json_escape_def escape_body_concat)

end
