(* ===== verification/Conditions.thy ===== *)
theory Conditions
  imports Json
begin

text \<open>
  Spending conditions: the NUT-10 well-known secret (\<^verbatim>\<open>nuts/nut10.rs\<close>), the NUT-11 P2PK lock
  with its tags and witness (\<^verbatim>\<open>nuts/nut11.rs\<close>) and the NUT-14 hash lock (\<^verbatim>\<open>nuts/nut14.rs\<close>).
  The lemmas show that a condition that is accepted is well formed (every threshold can be
  reached, no key counts twice), that no known tag occurs twice, that the refund pathway opens
  strictly after the locktime, and that printed witnesses are read back.
\<close>

section \<open>NUT-10: the well-known secret\<close>

datatype secret_kind = KindP2PK | KindHTLC

definition kind_as_str :: "secret_kind \<Rightarrow> string" where
  "kind_as_str k = (case k of KindP2PK \<Rightarrow> ''P2PK'' | KindHTLC \<Rightarrow> ''HTLC'')"

definition kind_from_wire :: "string \<Rightarrow> secret_kind option" where
  "kind_from_wire s = (if s = ''P2PK'' then Some KindP2PK else if s = ''HTLC'' then Some KindHTLC else None)"

record nut10_secret =
  se_kind :: secret_kind
  se_nonce :: string
  se_data :: string
  se_tags :: "string list list option"

definition parse_tag_rows :: "json list \<Rightarrow> string list list option" where
  "parse_tag_rows rows =
     map_opt (\<lambda>row. case as_array row of None \<Rightarrow> None | Some items \<Rightarrow> map_opt as_str items) rows"

definition find_str :: "string \<Rightarrow> (string \<times> json) list \<Rightarrow> string option" where
  "find_str key ms = (case map_of ms key of None \<Rightarrow> None | Some v \<Rightarrow> as_str v)"

definition parse_tags_field :: "(string \<times> json) list \<Rightarrow> string list list option option" where
  "parse_tags_field ms =
     (case map_of ms ''tags'' of None \<Rightarrow> Some None
      | Some v \<Rightarrow> (if v = JNull then Some None
          else case as_array v of None \<Rightarrow> None
               | Some rows \<Rightarrow> map_option Some (parse_tag_rows rows)))"

definition secret_parse :: "string \<Rightarrow> nut10_secret option" where
  "secret_parse raw =
     (case json_parse raw of None \<Rightarrow> None
      | Some document \<Rightarrow>
        (case as_array document of Some [k, body] \<Rightarrow>
           (case as_str k of None \<Rightarrow> None
            | Some ks \<Rightarrow>
              (case kind_from_wire ks of None \<Rightarrow> None
               | Some kind \<Rightarrow>
                 (case as_object body of None \<Rightarrow> None
                  | Some ms \<Rightarrow>
                    (case find_str ''nonce'' ms of None \<Rightarrow> None
                     | Some nonce \<Rightarrow>
                       (case find_str ''data'' ms of None \<Rightarrow> None
                        | Some data \<Rightarrow>
                          (case parse_tags_field ms of None \<Rightarrow> None
                           | Some tags \<Rightarrow>
                             Some \<lparr>se_kind = kind, se_nonce = nonce, se_data = data, se_tags = tags\<rparr>))))))
         | _ \<Rightarrow> None))"

lemma parse_number_JNumber: "parse_number s = Some (j, r) \<Longrightarrow> j = JNumber"
  by (auto simp: parse_number_def Let_def split: option.splits)

lemma parse_value_not_array:
  assumes "c \<noteq> CHR ''[''" "parse_value f (c # cs) = Some (j, r)"
  shows "as_array j = None"
proof -
  obtain g where f: "f = Suc g" using assms(2) by (cases f) auto
  show ?thesis
  proof (cases "c = CHR ''{''")
    case True
    with assms(2) f obtain ms where "j = JObject ms"
      by (auto split: list.splits if_splits)
    then show ?thesis by simp
  next
    case False
    then consider u where "j = JString u" | lit w where "parse_literal lit w (c # cs) = Some (j, r)" "as_array w = None"
      | "parse_number (c # cs) = Some (j, r)"
      using assms f by (simp split: if_splits) (metis as_array.simps)+
    then show ?thesis
      by cases (auto simp: parse_literal_def dest: parse_number_JNumber)
  qed
qed

text \<open>A secret whose first character opens no array is an ordinary one.\<close>

lemma secret_parse_ordinary:
  assumes "skip_ws raw = c # cs" "c \<noteq> CHR ''[''"
  shows "secret_parse raw = None"
proof (cases "json_parse raw")
  case (Some j)
  then obtain r where "parse_value (2 * length (c # cs) + 1) (c # cs) = Some (j, r)"
    by (simp add: json_parse_def assms(1) Let_def del: parse_value.simps split: option.splits prod.splits if_splits)
  from parse_value_not_array[OF assms(2) this] Some show ?thesis by (simp add: secret_parse_def)
qed (simp add: secret_parse_def)

section \<open>NUT-11: tags\<close>

datatype sig_flag = SigInputs | SigAll

definition sig_flag_parse :: "string \<Rightarrow> sig_flag option" where
  "sig_flag_parse v = (if v = ''SIG_INPUTS'' then Some SigInputs else if v = ''SIG_ALL'' then Some SigAll else None)"

datatype p2pk_error =
    P2pkKindMismatch
  | InvalidDataPubkey
  | EmptyTag
  | InvalidTagValue
  | UnknownSigFlag
  | DuplicateTag
  | ZeroSignatures
  | ImpossibleMultisig u64 u64
  | DuplicatePubkey

record condition_tags =
  ct_pubkeys :: "public_key list"
  ct_num_sigs :: "u64 option"
  ct_locktime :: "u64 option"
  ct_refund_keys :: "public_key list"
  ct_num_sigs_refund :: "u64 option"
  ct_sigflag :: sig_flag

definition condition_tags_default :: condition_tags where
  "condition_tags_default = \<lparr>ct_pubkeys = [], ct_num_sigs = None, ct_locktime = None,
     ct_refund_keys = [], ct_num_sigs_refund = None, ct_sigflag = SigInputs\<rparr>"

definition parse_compressed_pubkey :: "externs \<Rightarrow> string \<Rightarrow> public_key option" where
  "parse_compressed_pubkey X s = (case hex_decode X s of None \<Rightarrow> None | Some b \<Rightarrow> pk_from_bytes X b)"

definition parse_pubkey_row :: "externs \<Rightarrow> string list \<Rightarrow> (p2pk_error, public_key list) res" where
  "parse_pubkey_row X row = map_res (\<lambda>v. ok_or InvalidTagValue (parse_compressed_pubkey X v)) (drop 1 row)"

fun has_duplicate_x_from :: "bytes list \<Rightarrow> public_key list \<Rightarrow> bool" where
  "has_duplicate_x_from seen [] = False"
| "has_duplicate_x_from seen (k # ks) =
     (let x = drop 1 (to_bytes k) in x \<in> set seen \<or> has_duplicate_x_from (seen @ [x]) ks)"

definition has_duplicate_x_coordinates :: "public_key list \<Rightarrow> bool" where
  "has_duplicate_x_coordinates ks = has_duplicate_x_from [] ks"

definition tag_value :: "string list \<Rightarrow> (p2pk_error, string) res" where
  "tag_value row = (if length row < 2 then Err InvalidTagValue else Ok (row ! 1))"

definition tag_number :: "string list \<Rightarrow> (p2pk_error, u64) res" where
  "tag_number row = res_bind (tag_value row) (\<lambda>v. ok_or InvalidTagValue (parse_u64 v))"

definition tag_count :: "string list \<Rightarrow> (p2pk_error, u64) res" where
  "tag_count row = res_bind (tag_number row) (\<lambda>n. if n = 0 then Err ZeroSignatures else Ok n)"

definition known_tags :: "string list" where
  "known_tags = [''sigflag'', ''pubkeys'', ''n_sigs'', ''locktime'', ''refund'', ''n_sigs_refund'']"

text \<open>One iteration of the tag loop. The six \<^verbatim>\<open>saw_\<close> markers are the list of known keys seen.\<close>

definition set_tag ::
  "externs \<Rightarrow> string \<Rightarrow> string list \<Rightarrow> condition_tags \<Rightarrow> (p2pk_error, condition_tags) res" where
  "set_tag X key row t =
     (if key = ''sigflag'' then
        res_bind (tag_value row) (\<lambda>v. res_bind (ok_or UnknownSigFlag (sig_flag_parse v)) (\<lambda>f.
          Ok (t\<lparr>ct_sigflag := f\<rparr>)))
      else if key = ''pubkeys'' then
        res_bind (parse_pubkey_row X row) (\<lambda>ks. Ok (t\<lparr>ct_pubkeys := ks\<rparr>))
      else if key = ''n_sigs'' then
        res_bind (tag_count row) (\<lambda>n. Ok (t\<lparr>ct_num_sigs := Some n\<rparr>))
      else if key = ''locktime'' then
        res_bind (tag_number row) (\<lambda>n. Ok (t\<lparr>ct_locktime := Some n\<rparr>))
      else if key = ''refund'' then
        res_bind (parse_pubkey_row X row) (\<lambda>ks.
          if ks = [] then Err (ImpossibleMultisig 1 0) else Ok (t\<lparr>ct_refund_keys := ks\<rparr>))
      else if key = ''n_sigs_refund'' then
        res_bind (tag_count row) (\<lambda>n. Ok (t\<lparr>ct_num_sigs_refund := Some n\<rparr>))
      else Ok t)"

fun tag_loop ::
  "externs \<Rightarrow> string list \<Rightarrow> string list list \<Rightarrow> condition_tags \<Rightarrow> (p2pk_error, condition_tags) res" where
  "tag_loop X saw [] t = Ok t"
| "tag_loop X saw (row # rows) t =
     (case row of [] \<Rightarrow> Err EmptyTag
      | key # _ \<Rightarrow>
        (if key \<in> set saw then Err DuplicateTag
         else res_bind (set_tag X key row t) (\<lambda>t'.
           tag_loop X (if key \<in> set known_tags then key # saw else saw) rows t')))"

definition parse_condition_tags :: "externs \<Rightarrow> string list list \<Rightarrow> (p2pk_error, condition_tags) res" where
  "parse_condition_tags X tags =
     res_bind (tag_loop X [] tags condition_tags_default) (\<lambda>t.
       case ct_num_sigs_refund t of None \<Rightarrow> Ok t
       | Some required \<Rightarrow>
           (let available = word_of_nat (length (ct_refund_keys t))
            in if required > available then Err (ImpossibleMultisig required available) else Ok t))"

section \<open>NUT-11: conditions\<close>

record p2pk_conditions =
  pc_data_pubkey :: public_key
  pc_pubkeys :: "public_key list"
  pc_num_sigs :: "u64 option"
  pc_locktime :: "u64 option"
  pc_refund_keys :: "public_key list"
  pc_num_sigs_refund :: "u64 option"
  pc_sigflag :: sig_flag

definition p2pk_from_secret :: "externs \<Rightarrow> nut10_secret \<Rightarrow> (p2pk_error, p2pk_conditions) res" where
  "p2pk_from_secret X secret =
     (if se_kind secret \<noteq> KindP2PK then Err P2pkKindMismatch
      else res_bind (ok_or InvalidDataPubkey (parse_compressed_pubkey X (se_data secret))) (\<lambda>data_pubkey.
        res_bind (parse_condition_tags X (case se_tags secret of None \<Rightarrow> [] | Some ts \<Rightarrow> ts)) (\<lambda>tags.
          let primary_available = 1 + word_of_nat (length (ct_pubkeys tags)) in
          if (case ct_num_sigs tags of None \<Rightarrow> False | Some required \<Rightarrow> required > primary_available)
          then Err (ImpossibleMultisig (the (ct_num_sigs tags)) primary_available)
          else if has_duplicate_x_coordinates (data_pubkey # ct_pubkeys tags) then Err DuplicatePubkey
          else if has_duplicate_x_coordinates (ct_refund_keys tags) then Err DuplicatePubkey
          else Ok \<lparr>pc_data_pubkey = data_pubkey, pc_pubkeys = ct_pubkeys tags,
                   pc_num_sigs = ct_num_sigs tags, pc_locktime = ct_locktime tags,
                   pc_refund_keys = ct_refund_keys tags, pc_num_sigs_refund = ct_num_sigs_refund tags,
                   pc_sigflag = ct_sigflag tags\<rparr>)))"

record refund_path =
  rp_pubkeys :: "public_key list"
  rp_required_sigs :: u64

definition refund_anyone :: refund_path where
  "refund_anyone = \<lparr>rp_pubkeys = [], rp_required_sigs = 0\<rparr>"

definition is_anyone_can_spend :: "refund_path \<Rightarrow> bool" where
  "is_anyone_can_spend p \<longleftrightarrow> rp_required_sigs p = 0"

record spending_requirements =
  sr_pubkeys :: "public_key list"
  sr_required_sigs :: u64
  sr_refund_path :: "refund_path option"

definition signing_pubkeys :: "p2pk_conditions \<Rightarrow> public_key list" where
  "signing_pubkeys c = pc_data_pubkey c # pc_pubkeys c"

definition required_sigs :: "p2pk_conditions \<Rightarrow> u64" where
  "required_sigs c = (case pc_num_sigs c of None \<Rightarrow> 1 | Some n \<Rightarrow> n)"

definition required_sigs_refund :: "p2pk_conditions \<Rightarrow> u64" where
  "required_sigs_refund c = (case pc_num_sigs_refund c of None \<Rightarrow> 1 | Some n \<Rightarrow> n)"

definition lock_expired :: "u64 option \<Rightarrow> u64 \<Rightarrow> bool" where
  "lock_expired locktime now = (case locktime of None \<Rightarrow> False | Some l \<Rightarrow> l < now)"

definition p2pk_requirements_at :: "p2pk_conditions \<Rightarrow> u64 \<Rightarrow> spending_requirements" where
  "p2pk_requirements_at c now =
     \<lparr>sr_pubkeys = signing_pubkeys c, sr_required_sigs = required_sigs c,
      sr_refund_path =
        (if lock_expired (pc_locktime c) now
         then Some (if pc_refund_keys c = [] then refund_anyone
                    else \<lparr>rp_pubkeys = pc_refund_keys c, rp_required_sigs = required_sigs_refund c\<rparr>)
         else None)\<rparr>"

section \<open>NUT-11 witness\<close>

record p2pk_witness =
  pw_signatures :: "string list"

definition p2pk_witness_from_json :: "string \<Rightarrow> p2pk_witness option" where
  "p2pk_witness_from_json raw =
     (case json_parse raw of None \<Rightarrow> None
      | Some document \<Rightarrow>
        (case json_get ''signatures'' document of None \<Rightarrow> None
         | Some v \<Rightarrow>
           (case as_array v of None \<Rightarrow> None
            | Some items \<Rightarrow> map_option (\<lambda>sigs. \<lparr>pw_signatures = sigs\<rparr>) (map_opt as_str items))))"

fun join_escaped :: "string list \<Rightarrow> string" where
  "join_escaped [] = []"
| "join_escaped [s] = json_escape s"
| "join_escaped (s # ss) = json_escape s @ '','' @ join_escaped ss"

definition p2pk_witness_to_json :: "p2pk_witness \<Rightarrow> string" where
  "p2pk_witness_to_json w =
     ''{'' @ [CHR 0x22] @ ''signatures'' @ [CHR 0x22] @ '':['' @ join_escaped (pw_signatures w) @ '']}''"

section \<open>NUT-14: hash locks\<close>

datatype htlc_error = HtlcKindMismatch | InvalidDataHash | HtlcTag p2pk_error

record htlc_conditions =
  hc_data_hash :: bytes
  hc_pubkeys :: "public_key list"
  hc_num_sigs :: "u64 option"
  hc_locktime :: "u64 option"
  hc_refund_keys :: "public_key list"
  hc_num_sigs_refund :: "u64 option"
  hc_sigflag :: sig_flag

definition decode_32_bytes :: "externs \<Rightarrow> string \<Rightarrow> bytes option" where
  "decode_32_bytes X s = (case hex_decode X s of None \<Rightarrow> None | Some b \<Rightarrow> if length b = 32 then Some b else None)"

fun map_err :: "('e \<Rightarrow> 'f) \<Rightarrow> ('e, 'a) res \<Rightarrow> ('f, 'a) res" where
  "map_err f (Ok x) = Ok x"
| "map_err f (Err e) = Err (f e)"
| "map_err f Panic = Panic"

definition htlc_from_secret :: "externs \<Rightarrow> nut10_secret \<Rightarrow> (htlc_error, htlc_conditions) res" where
  "htlc_from_secret X secret =
     (if se_kind secret \<noteq> KindHTLC then Err HtlcKindMismatch
      else res_bind (ok_or InvalidDataHash (decode_32_bytes X (se_data secret))) (\<lambda>data_hash.
        res_bind (map_err HtlcTag (parse_condition_tags X (case se_tags secret of None \<Rightarrow> [] | Some ts \<Rightarrow> ts))) (\<lambda>tags.
          let available = word_of_nat (length (ct_pubkeys tags)) in
          if (case ct_num_sigs tags of None \<Rightarrow> False | Some required \<Rightarrow> required > available)
          then Err (HtlcTag (ImpossibleMultisig (the (ct_num_sigs tags)) available))
          else if has_duplicate_x_coordinates (ct_pubkeys tags) then Err (HtlcTag DuplicatePubkey)
          else if has_duplicate_x_coordinates (ct_refund_keys tags) then Err (HtlcTag DuplicatePubkey)
          else Ok \<lparr>hc_data_hash = data_hash, hc_pubkeys = ct_pubkeys tags,
                   hc_num_sigs = ct_num_sigs tags, hc_locktime = ct_locktime tags,
                   hc_refund_keys = ct_refund_keys tags, hc_num_sigs_refund = ct_num_sigs_refund tags,
                   hc_sigflag = ct_sigflag tags\<rparr>)))"

definition matches_preimage :: "externs \<Rightarrow> htlc_conditions \<Rightarrow> string \<Rightarrow> bool" where
  "matches_preimage X c preimage_hex =
     (case decode_32_bytes X preimage_hex of None \<Rightarrow> False
      | Some preimage \<Rightarrow> hc_data_hash c = sha256 X preimage)"

definition htlc_requirements_at :: "htlc_conditions \<Rightarrow> u64 \<Rightarrow> spending_requirements" where
  "htlc_requirements_at c now =
     \<lparr>sr_pubkeys = hc_pubkeys c,
      sr_required_sigs =
        (if hc_pubkeys c = [] then 0 else case hc_num_sigs c of None \<Rightarrow> 1 | Some n \<Rightarrow> n),
      sr_refund_path =
        (if lock_expired (hc_locktime c) now
         then Some (if hc_refund_keys c = [] then refund_anyone
                    else \<lparr>rp_pubkeys = hc_refund_keys c,
                          rp_required_sigs = (case hc_num_sigs_refund c of None \<Rightarrow> 1 | Some n \<Rightarrow> n)\<rparr>)
         else None)\<rparr>"

record htlc_witness =
  hw_preimage :: "string option"
  hw_signatures :: "string list option"

definition htlc_witness_from_json :: "string \<Rightarrow> htlc_witness option" where
  "htlc_witness_from_json raw =
     (case json_parse raw of None \<Rightarrow> None
      | Some document \<Rightarrow>
        (case as_object document of None \<Rightarrow> None
         | Some ms \<Rightarrow>
           (let preimage = find_str ''preimage'' ms;
                signatures = (case map_of ms ''signatures'' of None \<Rightarrow> None
                  | Some v \<Rightarrow> (case as_array v of None \<Rightarrow> None | Some items \<Rightarrow> map_opt as_str items))
            in if preimage = None \<and> signatures = None then None
               else Some \<lparr>hw_preimage = preimage, hw_signatures = signatures\<rparr>)))"

definition htlc_witness_to_json :: "htlc_witness \<Rightarrow> string" where
  "htlc_witness_to_json w =
     ''{''
     @ (case hw_preimage w of None \<Rightarrow> []
        | Some p \<Rightarrow> [CHR 0x22] @ ''preimage'' @ [CHR 0x22] @ '':'' @ json_escape p
            @ (if hw_signatures w \<noteq> None then '','' else []))
     @ (case hw_signatures w of None \<Rightarrow> []
        | Some sigs \<Rightarrow> [CHR 0x22] @ ''signatures'' @ [CHR 0x22] @ '':['' @ join_escaped sigs @ '']'')
     @ ''}''"

section \<open>Accepted conditions are well formed\<close>

definition x_coordinates :: "public_key list \<Rightarrow> bytes list" where
  "x_coordinates ks = map (\<lambda>k. drop 1 (to_bytes k)) ks"

text \<open>A pathway: a threshold that distinct keys can reach.\<close>

definition reachable_threshold :: "u64 \<Rightarrow> public_key list \<Rightarrow> bool" where
  "reachable_threshold n ks \<longleftrightarrow> unat n \<le> length ks \<and> distinct (x_coordinates ks)"

lemma has_duplicate_x_from_iff:
  "distinct seen \<Longrightarrow> has_duplicate_x_from seen ks \<longleftrightarrow> \<not> distinct (seen @ x_coordinates ks)"
proof (induction ks arbitrary: seen)
  case (Cons k ks)
  then show ?case
    by (cases "drop 1 (to_bytes k) \<in> set seen") (simp_all add: x_coordinates_def Let_def)
qed (simp add: x_coordinates_def)

lemma has_duplicate_x_coordinates_iff:
  "has_duplicate_x_coordinates ks \<longleftrightarrow> \<not> distinct (x_coordinates ks)"
  by (simp add: has_duplicate_x_coordinates_def has_duplicate_x_from_iff)

definition tags_ok :: "condition_tags \<Rightarrow> bool" where
  "tags_ok t \<longleftrightarrow> ct_num_sigs t \<noteq> Some 0 \<and> ct_num_sigs_refund t \<noteq> Some 0"

lemma tag_count_pos: "tag_count row = Ok n \<Longrightarrow> n \<noteq> 0"
  by (auto simp: tag_count_def split: if_splits)

lemma set_tag_ok: "set_tag X key row t = Ok t' \<Longrightarrow> tags_ok t \<Longrightarrow> tags_ok t'"
  by (auto simp: set_tag_def tags_ok_def dest: tag_count_pos split: if_splits)

lemma tag_loop_ok: "tag_loop X saw rows t = Ok t' \<Longrightarrow> tags_ok t \<Longrightarrow> tags_ok t'"
  by (induction X saw rows t rule: tag_loop.induct) (auto dest: set_tag_ok split: list.splits if_splits)

definition known_keys :: "string list list \<Rightarrow> string list" where
  "known_keys rows = filter (\<lambda>k. k \<in> set known_tags) (map hd rows)"

lemma tag_loop_unique:
  "tag_loop X saw rows t = Ok t' \<Longrightarrow> distinct saw \<Longrightarrow> set saw \<subseteq> set known_tags \<Longrightarrow>
     distinct (known_keys rows) \<and> set (known_keys rows) \<inter> set saw = {} \<and> [] \<notin> set rows"
proof (induction rows arbitrary: saw t)
  case (Cons row rows)
  then obtain key r u where row: "row = key # r" "key \<notin> set saw"
    and rec: "tag_loop X (if key \<in> set known_tags then key # saw else saw) rows u = Ok t'"
    by (auto split: list.splits if_splits)
  from Cons.IH[OF rec] Cons.prems row show ?case
    by (auto simp: known_keys_def split: if_splits)
qed (simp add: known_keys_def)

lemma word_threshold: "\<not> word_of_nat m < (n::u64) \<Longrightarrow> unat n \<le> m"
proof -
  assume "\<not> word_of_nat m < n"
  then have "unat n \<le> m mod 2 ^ 64" by (simp add: word_le_nat_alt unat_of_nat not_less)
  then show "unat n \<le> m" by (rule le_trans) simp
qed

lemma parse_condition_tags_ok:
  assumes "parse_condition_tags X tags = Ok t"
  shows "tags_ok t" "distinct (known_keys tags)" "[] \<notin> set tags"
    and "ct_num_sigs_refund t = Some n \<Longrightarrow> unat n \<le> length (ct_refund_keys t)"
proof -
  from assms obtain u where u: "tag_loop X [] tags condition_tags_default = Ok u" "t = u"
    by (auto simp: parse_condition_tags_def Let_def split: option.splits if_splits)
  have "tags_ok condition_tags_default" by (simp add: tags_ok_def condition_tags_default_def)
  with u show "tags_ok t" using tag_loop_ok by blast
  show "distinct (known_keys tags)" "[] \<notin> set tags"
    using tag_loop_unique[OF u(1)] by simp_all
  assume n: "ct_num_sigs_refund t = Some n"
  with assms u have "n \<le> word_of_nat (length (ct_refund_keys t))"
    by (auto simp: parse_condition_tags_def Let_def not_less split: if_splits)
  then show "unat n \<le> length (ct_refund_keys t)"
    using word_threshold[of "length (ct_refund_keys t)" n] by (simp add: not_less)
qed

lemma positive_option: "x \<noteq> Some (0::u64) \<Longrightarrow> 1 \<le> unat (case x of None \<Rightarrow> 1 | Some n \<Rightarrow> n)"
  by (cases x) (simp_all add: Suc_le_eq unat_gt_0)

definition requirements_ok :: "u64 option \<Rightarrow> public_key list \<Rightarrow> u64 \<Rightarrow> spending_requirements \<Rightarrow> bool" where
  "requirements_ok locktime refund_keys now r \<longleftrightarrow>
     reachable_threshold (sr_required_sigs r) (sr_pubkeys r)
     \<and> (sr_refund_path r \<noteq> None \<longleftrightarrow> (\<exists>l. locktime = Some l \<and> l < now))
     \<and> (\<forall>p. sr_refund_path r = Some p \<longrightarrow>
          reachable_threshold (rp_required_sigs p) (rp_pubkeys p)
          \<and> (is_anyone_can_spend p \<longleftrightarrow> refund_keys = []))"

lemma refund_pathway_ok:
  assumes "distinct (x_coordinates ks)" and "nr \<noteq> Some 0"
    and "\<And>n. nr = Some n \<Longrightarrow> unat n \<le> length ks"
    and "sr_refund_path r = (if lock_expired lt now
           then Some (if ks = [] then refund_anyone
                      else \<lparr>rp_pubkeys = ks, rp_required_sigs = (case nr of None \<Rightarrow> 1 | Some n \<Rightarrow> n)\<rparr>)
           else None)"
    and "reachable_threshold (sr_required_sigs r) (sr_pubkeys r)"
  shows "requirements_ok lt ks now r"
proof -
  have "length ks \<ge> 1" if "ks \<noteq> []" using that by (cases ks) auto
  then show ?thesis
    using assms positive_option[OF assms(2)]
    by (auto simp: requirements_ok_def reachable_threshold_def lock_expired_def refund_anyone_def
        is_anyone_can_spend_def x_coordinates_def split: option.splits if_splits)
qed

lemma p2pk_from_secret_Ok:
  assumes "p2pk_from_secret X secret = Ok c"
  obtains tags where
    "parse_condition_tags X (case se_tags secret of None \<Rightarrow> [] | Some ts \<Rightarrow> ts) = Ok tags"
    "pc_pubkeys c = ct_pubkeys tags" "pc_num_sigs c = ct_num_sigs tags" "pc_locktime c = ct_locktime tags"
    "pc_refund_keys c = ct_refund_keys tags" "pc_num_sigs_refund c = ct_num_sigs_refund tags"
    "\<And>n. pc_num_sigs c = Some n \<Longrightarrow> unat n \<le> length (signing_pubkeys c)"
    "distinct (x_coordinates (signing_pubkeys c))" "distinct (x_coordinates (pc_refund_keys c))"
proof -
  have one: "\<not> 1 + word_of_nat m < (n::u64) \<Longrightarrow> unat n \<le> Suc m" for m n
    using word_threshold[of "Suc m" n] by (simp add: add.commute)
  from assms that show ?thesis
    by (auto simp: p2pk_from_secret_def Let_def has_duplicate_x_coordinates_iff signing_pubkeys_def
        dest: one split: if_splits option.splits)
qed

lemma p2pk_requirements_ok:
  assumes "p2pk_from_secret X secret = Ok c"
  shows "requirements_ok (pc_locktime c) (pc_refund_keys c) now (p2pk_requirements_at c now)"
    and "1 \<le> unat (sr_required_sigs (p2pk_requirements_at c now))"
proof -
  from p2pk_from_secret_Ok[OF assms] obtain tags where t:
    "parse_condition_tags X (case se_tags secret of None \<Rightarrow> [] | Some ts \<Rightarrow> ts) = Ok tags"
    "pc_pubkeys c = ct_pubkeys tags" "pc_num_sigs c = ct_num_sigs tags"
    "pc_refund_keys c = ct_refund_keys tags" "pc_num_sigs_refund c = ct_num_sigs_refund tags"
    and n: "\<And>n. pc_num_sigs c = Some n \<Longrightarrow> unat n \<le> length (signing_pubkeys c)"
    and d: "distinct (x_coordinates (signing_pubkeys c))" "distinct (x_coordinates (pc_refund_keys c))"
    by metis
  note ok = parse_condition_tags_ok[OF t(1)]
  have "unat (required_sigs c) \<le> length (signing_pubkeys c)"
    using n by (cases "pc_num_sigs c") (simp_all add: required_sigs_def signing_pubkeys_def)
  with d show "requirements_ok (pc_locktime c) (pc_refund_keys c) now (p2pk_requirements_at c now)"
    using ok t by (intro refund_pathway_ok[where nr = "pc_num_sigs_refund c"])
      (simp_all add: tags_ok_def p2pk_requirements_at_def required_sigs_refund_def reachable_threshold_def)
  show "1 \<le> unat (sr_required_sigs (p2pk_requirements_at c now))"
    using positive_option[of "pc_num_sigs c"] ok(1) t
    by (simp add: p2pk_requirements_at_def required_sigs_def tags_ok_def)
qed

lemma htlc_from_secret_Ok:
  assumes "htlc_from_secret X secret = Ok c"
  obtains tags where
    "parse_condition_tags X (case se_tags secret of None \<Rightarrow> [] | Some ts \<Rightarrow> ts) = Ok tags"
    "hc_pubkeys c = ct_pubkeys tags" "hc_num_sigs c = ct_num_sigs tags" "hc_locktime c = ct_locktime tags"
    "hc_refund_keys c = ct_refund_keys tags" "hc_num_sigs_refund c = ct_num_sigs_refund tags"
    "\<And>n. hc_num_sigs c = Some n \<Longrightarrow> unat n \<le> length (hc_pubkeys c)"
    "distinct (x_coordinates (hc_pubkeys c))" "distinct (x_coordinates (hc_refund_keys c))"
    "length (hc_data_hash c) = 32"
proof -
  have err: "map_err HtlcTag r = Ok t \<longleftrightarrow> r = Ok t" for r :: "(p2pk_error, condition_tags) res" and t
    by (cases r) simp_all
  from assms that show ?thesis
    by (auto simp: htlc_from_secret_def Let_def has_duplicate_x_coordinates_iff decode_32_bytes_def err
        dest: word_threshold split: if_splits option.splits)
qed

lemma htlc_requirements_ok:
  assumes "htlc_from_secret X secret = Ok c"
  shows "requirements_ok (hc_locktime c) (hc_refund_keys c) now (htlc_requirements_at c now)"
    and "sr_required_sigs (htlc_requirements_at c now) = 0 \<longleftrightarrow> hc_pubkeys c = []"
proof -
  from htlc_from_secret_Ok[OF assms] obtain tags where t:
    "parse_condition_tags X (case se_tags secret of None \<Rightarrow> [] | Some ts \<Rightarrow> ts) = Ok tags"
    "hc_pubkeys c = ct_pubkeys tags" "hc_num_sigs c = ct_num_sigs tags"
    "hc_refund_keys c = ct_refund_keys tags" "hc_num_sigs_refund c = ct_num_sigs_refund tags"
    and n: "\<And>n. hc_num_sigs c = Some n \<Longrightarrow> unat n \<le> length (hc_pubkeys c)"
    and d: "distinct (x_coordinates (hc_pubkeys c))" "distinct (x_coordinates (hc_refund_keys c))"
    by metis
  note ok = parse_condition_tags_ok[OF t(1)]
  have "unat (sr_required_sigs (htlc_requirements_at c now)) \<le> length (hc_pubkeys c)"
    using n by (cases "hc_num_sigs c"; cases "hc_pubkeys c") (auto simp: htlc_requirements_at_def)
  with d show "requirements_ok (hc_locktime c) (hc_refund_keys c) now (htlc_requirements_at c now)"
    using ok t by (intro refund_pathway_ok[where nr = "hc_num_sigs_refund c"])
      (simp_all add: tags_ok_def htlc_requirements_at_def reachable_threshold_def)
  show "sr_required_sigs (htlc_requirements_at c now) = 0 \<longleftrightarrow> hc_pubkeys c = []"
    using positive_option[of "hc_num_sigs c"] ok(1) t
    by (auto simp: htlc_requirements_at_def tags_ok_def)
qed

section \<open>Printed witnesses are read back\<close>

definition wire_text :: "string \<Rightarrow> bool" where
  "wire_text s \<longleftrightarrow> utf8_valid s \<and> c1_free s"

lemma parse_value_escape:
  "wire_text s \<Longrightarrow> parse_value (Suc f) (json_escape s @ rest) = Some (JString s, rest)"
  using parse_string_escape[of s rest] by (simp add: json_escape_def wire_text_def)

lemma skip_ws_escape [simp]: "skip_ws (json_escape s @ rest) = json_escape s @ rest"
  by (simp add: json_escape_def is_ws_def)

lemma parse_items_escaped:
  assumes "sigs \<noteq> []" "\<forall>s \<in> set sigs. wire_text s" "length sigs < f"
  shows "parse_items f (join_escaped sigs @ CHR '']'' # rest) = Some (map JString sigs, rest)"
  using assms
proof (induction sigs arbitrary: f rule: join_escaped.induct)
  case (2 s)
  then obtain g where "f = Suc (Suc g)" by (cases f; cases "f - 1") auto
  with 2 show ?case by (simp add: parse_value_escape is_ws_def del: parse_value.simps)
next
  case (3 s s' ss)
  then obtain g where g: "f = Suc (Suc g)" by (cases f; cases "f - 1") auto
  have "parse_items (Suc g) (join_escaped (s' # ss) @ CHR '']'' # rest) = Some (map JString (s' # ss), rest)"
    using 3 g by (simp del: parse_items.simps)
  moreover have "wire_text s" using 3 by simp
  ultimately show ?case
    unfolding g by (subst parse_items.simps) (simp add: parse_value_escape is_ws_def del: parse_value.simps parse_items.simps)
qed simp

lemma join_escaped_shape:
  "sigs \<noteq> [] \<Longrightarrow> \<exists>r. join_escaped sigs = CHR 0x22 # r"
  by (induction sigs rule: join_escaped.induct) (simp_all add: json_escape_def)

lemma length_join_escaped: "length sigs \<le> length (join_escaped sigs)"
  by (induction sigs rule: join_escaped.induct) (simp_all add: json_escape_def)

lemma parse_value_array:
  assumes "\<forall>s \<in> set sigs. wire_text s" "length sigs + 1 < f"
  shows "parse_value f (CHR ''['' # join_escaped sigs @ CHR '']'' # rest) = Some (JArray (map JString sigs), rest)"
proof -
  obtain g where g: "f = Suc g" using assms by (cases f) auto
  show ?thesis
  proof (cases "sigs = []")
    case False
    from join_escaped_shape[OF this] obtain r where r: "join_escaped sigs = CHR 0x22 # r" by blast
    have "parse_items g (CHR 0x22 # r @ CHR '']'' # rest) = Some (map JString sigs, rest)"
      using parse_items_escaped[OF False assms(1), of g rest] assms(2) g by (simp add: r)
    then show ?thesis unfolding g by (simp add: r is_ws_def)
  qed (simp add: g is_ws_def)
qed

lemma parse_member_value:
  assumes "wire_text key" "skip_ws v = v" "parse_value f v = Some (j, c # rest)" "\<not> is_ws c"
  shows "parse_members (Suc f) (json_escape key @ CHR '':'' # v) =
    (if c = CHR '','' then map_option (\<lambda>(ms, r). ((key, j) # ms, r)) (parse_members f rest)
     else if c = CHR ''}'' then Some ([(key, j)], rest) else None)"
  using assms parse_string_escape[of key "CHR '':'' # v"]
  by (simp add: wire_text_def is_ws_def)

lemma parse_object_value:
  assumes "parse_members f (json_escape key @ s) = Some (ms, rest)"
  shows "parse_value (Suc f) (CHR ''{'' # json_escape key @ s) = Some (JObject ms, rest)"
  using assms by (simp add: json_escape_def is_ws_def)

lemma field_names [simp]: "wire_text ''signatures''" "wire_text ''preimage''"
  by code_simp+

lemma field_escapes:
  "json_escape ''signatures'' = CHR 0x22 # ''signatures'' @ [CHR 0x22]"
  "json_escape ''preimage'' = CHR 0x22 # ''preimage'' @ [CHR 0x22]"
  by code_simp+

lemma parse_signatures_member:
  assumes "\<forall>s \<in> set sigs. wire_text s" "length sigs + 1 < f"
  shows "parse_members (Suc f) (json_escape ''signatures'' @ CHR '':'' # CHR ''['' # join_escaped sigs @ CHR '']'' # CHR ''}'' # rest)
    = Some ([(''signatures'', JArray (map JString sigs))], rest)"
  using parse_member_value[OF field_names(1) _ parse_value_array[OF assms]]
  by (simp add: is_ws_def del: parse_members.simps)

lemma json_parse_object:
  assumes "parse_members (2 * length (CHR ''{'' # json_escape key @ s)) (json_escape key @ s) = Some (ms, [])"
  shows "json_parse (CHR ''{'' # json_escape key @ s) = Some (JObject ms)"
  using parse_object_value[OF assms] by (simp add: json_parse_def is_ws_def del: parse_value.simps)

lemma map_opt_as_str [simp]: "map_opt as_str (map JString sigs) = Some sigs"
  by (induction sigs) simp_all

lemma p2pk_witness_roundtrip:
  assumes "\<forall>s \<in> set (pw_signatures w). wire_text s"
  shows "p2pk_witness_from_json (p2pk_witness_to_json w) = Some w"
proof -
  let ?s = "CHR '':'' # CHR ''['' # join_escaped (pw_signatures w) @ '']}''"
  obtain f where f: "2 * length (CHR ''{'' # json_escape ''signatures'' @ ?s) = Suc f"
    "length (pw_signatures w) + 1 < f"
    using length_join_escaped[of "pw_signatures w"] by auto
  have "parse_members (2 * length (CHR ''{'' # json_escape ''signatures'' @ ?s)) (json_escape ''signatures'' @ ?s)
      = Some ([(''signatures'', JArray (map JString (pw_signatures w)))], [])"
    unfolding f(1) using parse_signatures_member[OF assms f(2), of "[]"] by simp
  note obj = json_parse_object[OF this]
  have "p2pk_witness_to_json w = CHR ''{'' # json_escape ''signatures'' @ ?s"
    by (simp add: p2pk_witness_to_json_def field_escapes)
  with obj show ?thesis
    by (simp add: p2pk_witness_from_json_def json_get_def)
qed

lemma parse_preimage_member:
  assumes "wire_text p" "\<not> is_ws c"
  shows "parse_members (Suc (Suc f)) (json_escape ''preimage'' @ CHR '':'' # json_escape p @ c # rest) =
    (if c = CHR '','' then map_option (\<lambda>(ms, r). ((''preimage'', JString p) # ms, r)) (parse_members (Suc f) rest)
     else if c = CHR ''}'' then Some ([(''preimage'', JString p)], rest) else None)"
  using parse_member_value[OF field_names(2) _ parse_value_escape[OF assms(1)] assms(2)]
  by (simp del: parse_members.simps)

lemma htlc_witness_roundtrip:
  assumes txts: "\<forall>s \<in> set_option (hw_preimage w). wire_text s"
    "\<forall>s \<in> (\<Union>ss \<in> set_option (hw_signatures w). set ss). wire_text s"
    and some: "hw_preimage w \<noteq> None \<or> hw_signatures w \<noteq> None"
  shows "htlc_witness_from_json (htlc_witness_to_json w) = Some w"
proof -
  let ?sig = "\<lambda>sigs. CHR '':'' # CHR ''['' # join_escaped sigs @ '']}''"
  consider p where "w = \<lparr>hw_preimage = Some p, hw_signatures = None\<rparr>"
    | sigs where "w = \<lparr>hw_preimage = None, hw_signatures = Some sigs\<rparr>"
    | p sigs where "w = \<lparr>hw_preimage = Some p, hw_signatures = Some sigs\<rparr>"
    using some by (cases w; cases "hw_preimage w"; cases "hw_signatures w") auto
  then show ?thesis
  proof cases
    case (1 p)
    let ?s = "CHR '':'' # json_escape p @ ''}''"
    obtain f where "2 * length (CHR ''{'' # json_escape ''preimage'' @ ?s) = Suc (Suc f)" by auto
    then have "parse_members (2 * length (CHR ''{'' # json_escape ''preimage'' @ ?s)) (json_escape ''preimage'' @ ?s)
        = Some ([(''preimage'', JString p)], [])"
      using parse_preimage_member[of p "CHR ''}''" f "[]"] txts 1 by (simp add: is_ws_def del: parse_members.simps)
    note obj = json_parse_object[OF this]
    have "htlc_witness_to_json w = CHR ''{'' # json_escape ''preimage'' @ ?s"
      using 1 by (simp add: htlc_witness_to_json_def field_escapes)
    with obj 1 show ?thesis by (simp add: htlc_witness_from_json_def find_str_def)
  next
    case (2 sigs)
    obtain f where f: "2 * length (CHR ''{'' # json_escape ''signatures'' @ ?sig sigs) = Suc f"
      "length sigs + 1 < f"
      using length_join_escaped[of sigs] by auto
    then have "parse_members (2 * length (CHR ''{'' # json_escape ''signatures'' @ ?sig sigs)) (json_escape ''signatures'' @ ?sig sigs)
        = Some ([(''signatures'', JArray (map JString sigs))], [])"
      using parse_signatures_member[of sigs f "[]"] txts 2 by (simp del: parse_members.simps)
    note obj = json_parse_object[OF this]
    have "htlc_witness_to_json w = CHR ''{'' # json_escape ''signatures'' @ ?sig sigs"
      using 2 by (simp add: htlc_witness_to_json_def field_escapes)
    with obj 2 show ?thesis by (simp add: htlc_witness_from_json_def find_str_def Let_def)
  next
    case (3 p sigs)
    let ?s = "CHR '':'' # json_escape p @ CHR '','' # json_escape ''signatures'' @ ?sig sigs"
    obtain f where f: "2 * length (CHR ''{'' # json_escape ''preimage'' @ ?s) = Suc (Suc f)"
      "length sigs + 1 < f"
      using length_join_escaped[of sigs] by auto
    then have "parse_members (2 * length (CHR ''{'' # json_escape ''preimage'' @ ?s)) (json_escape ''preimage'' @ ?s)
        = Some ([(''preimage'', JString p), (''signatures'', JArray (map JString sigs))], [])"
      using parse_signatures_member[of sigs f "[]"] txts 3
        parse_preimage_member[of p "CHR '',''" f "json_escape ''signatures'' @ ?sig sigs"]
      by (simp add: is_ws_def del: parse_members.simps)
    note obj = json_parse_object[OF this]
    have "htlc_witness_to_json w = CHR ''{'' # json_escape ''preimage'' @ ?s"
      using 3 by (simp add: htlc_witness_to_json_def field_escapes)
    with obj 3 show ?thesis by (simp add: htlc_witness_from_json_def find_str_def Let_def)
  qed
qed

end
