(* ===== verification/Spending.thy ===== *)
theory Spending
  imports Conditions
begin

text \<open>
  The mint's verification of spending conditions (\<^verbatim>\<open>micronuts-mint/src/spending.rs\<close>). The
  abstract specification is \<open>lock_opened\<close>: which sets of keys must have signed which message
  for a lock to open at a given time. The lemmas show that a transaction the mint accepts opens
  the lock of every one of its inputs, and that a malformed condition is never treated as
  anyone-can-spend.
\<close>

section \<open>The engine\<close>

datatype input_lock =
    LockP2pk nut_proof nut10_secret p2pk_conditions
  | LockHtlc nut_proof nut10_secret htlc_conditions

fun lock_proof :: "input_lock \<Rightarrow> nut_proof" where
  "lock_proof (LockP2pk p _ _) = p"
| "lock_proof (LockHtlc p _ _) = p"

fun lock_secret :: "input_lock \<Rightarrow> nut10_secret" where
  "lock_secret (LockP2pk _ s _) = s"
| "lock_secret (LockHtlc _ s _) = s"

fun lock_sigflag :: "input_lock \<Rightarrow> sig_flag" where
  "lock_sigflag (LockP2pk _ _ c) = pc_sigflag c"
| "lock_sigflag (LockHtlc _ _ c) = hc_sigflag c"

fun lock_requirements_at :: "input_lock \<Rightarrow> u64 \<Rightarrow> spending_requirements" where
  "lock_requirements_at (LockP2pk _ _ c) now = p2pk_requirements_at c now"
| "lock_requirements_at (LockHtlc _ _ c) now = htlc_requirements_at c now"

text \<open>
  The nested loops of \<^verbatim>\<open>count_valid_signatures\<close>: the inner one runs over the signatures for one
  key, the outer one over the keys; \<open>seen\<close> is the set of verified x-coordinates.
\<close>

fun verify_key_sigs :: "externs \<Rightarrow> bytes \<Rightarrow> public_key \<Rightarrow> bytes list \<Rightarrow> bytes list \<Rightarrow> bytes list option" where
  "verify_key_sigs X msg k [] seen = Some seen"
| "verify_key_sigs X msg k (sg # sigs) seen =
     (if schnorr_verify X k msg sg then
        (let x = drop 1 (to_bytes k) in
         if x \<in> set seen then None else verify_key_sigs X msg k sigs (x # seen))
      else verify_key_sigs X msg k sigs seen)"

fun verify_keys :: "externs \<Rightarrow> bytes \<Rightarrow> public_key list \<Rightarrow> bytes list \<Rightarrow> bytes list \<Rightarrow> bytes list option" where
  "verify_keys X msg [] sigs seen = Some seen"
| "verify_keys X msg (k # ks) sigs seen =
     (case verify_key_sigs X msg k sigs seen of None \<Rightarrow> None
      | Some seen' \<Rightarrow> verify_keys X msg ks sigs seen')"

definition count_valid_signatures :: "externs \<Rightarrow> bytes \<Rightarrow> public_key list \<Rightarrow> string list \<Rightarrow> u64 option" where
  "count_valid_signatures X msg locked hexes =
     (case map_opt (schnorr_from_str X) hexes of None \<Rightarrow> None
      | Some sigs \<Rightarrow> map_option (\<lambda>seen. word_of_nat (length seen)) (verify_keys X msg locked sigs []))"

definition verify_witness_signatures ::
  "externs \<Rightarrow> bytes \<Rightarrow> public_key list \<Rightarrow> string list \<Rightarrow> u64 \<Rightarrow> (cashu_error, unit) res" where
  "verify_witness_signatures X msg locked hexes required =
     (case count_valid_signatures X msg locked hexes of
        Some count \<Rightarrow> if count \<ge> required then Ok () else Err SpendConditionsNotMet
      | None \<Rightarrow> Err SpendConditionsNotMet)"

definition verify_p2pk_pathways ::
  "externs \<Rightarrow> bytes \<Rightarrow> spending_requirements \<Rightarrow> string list \<Rightarrow> (cashu_error, unit) res" where
  "verify_p2pk_pathways X msg req hexes =
     (if (case count_valid_signatures X msg (sr_pubkeys req) hexes of
            None \<Rightarrow> False | Some primary \<Rightarrow> primary \<ge> sr_required_sigs req)
      then Ok ()
      else case sr_refund_path req of None \<Rightarrow> Err SpendConditionsNotMet
        | Some refund \<Rightarrow>
          (if (case count_valid_signatures X msg (rp_pubkeys refund) hexes of
                 None \<Rightarrow> False | Some refund_count \<Rightarrow> refund_count \<ge> rp_required_sigs refund)
           then Ok () else Err SpendConditionsNotMet))"

definition witness_signatures :: "htlc_witness option \<Rightarrow> (cashu_error, string list) res" where
  "witness_signatures w =
     ok_or SpendConditionsNotMet (case w of None \<Rightarrow> None | Some v \<Rightarrow> hw_signatures v)"

definition verify_htlc_pathways ::
  "externs \<Rightarrow> bytes \<Rightarrow> spending_requirements \<Rightarrow> htlc_witness option \<Rightarrow> bool \<Rightarrow> (cashu_error, unit) res" where
  "verify_htlc_pathways X msg req witness preimage_valid =
     (if \<not> preimage_valid \<and> (case sr_refund_path req of None \<Rightarrow> False | Some r \<Rightarrow> is_anyone_can_spend r)
      then Ok ()
      else if preimage_valid then
        (if sr_required_sigs req = 0 then Ok ()
         else res_bind (witness_signatures witness) (\<lambda>sigs.
           verify_witness_signatures X msg (sr_pubkeys req) sigs (sr_required_sigs req)))
      else case sr_refund_path req of
        Some refund \<Rightarrow> res_bind (witness_signatures witness) (\<lambda>sigs.
           verify_witness_signatures X msg (rp_pubkeys refund) sigs (rp_required_sigs refund))
      | None \<Rightarrow> Err SpendConditionsNotMet)"

definition p2pk_witness_of :: "nut_proof \<Rightarrow> p2pk_witness option" where
  "p2pk_witness_of p = (case pf_witness p of None \<Rightarrow> None | Some raw \<Rightarrow> p2pk_witness_from_json raw)"

definition htlc_witness_of :: "nut_proof \<Rightarrow> htlc_witness option" where
  "htlc_witness_of p = (case pf_witness p of None \<Rightarrow> None | Some raw \<Rightarrow> htlc_witness_from_json raw)"

definition preimage_valid :: "externs \<Rightarrow> htlc_conditions \<Rightarrow> htlc_witness option \<Rightarrow> bool" where
  "preimage_valid X c w =
     (case w of None \<Rightarrow> False
      | Some v \<Rightarrow> (case hw_preimage v of None \<Rightarrow> False | Some p \<Rightarrow> matches_preimage X c p))"

text \<open>
  The body that \<^verbatim>\<open>verify_inputs_individually\<close> runs for each lock and \<^verbatim>\<open>verify_sig_all\<close> for the
  first one: the pathways of the lock against a message, with the witness of a proof.
\<close>

fun verify_lock :: "externs \<Rightarrow> u64 \<Rightarrow> bytes \<Rightarrow> nut_proof \<Rightarrow> input_lock \<Rightarrow> (cashu_error, unit) res" where
  "verify_lock X now msg p (LockP2pk q s c) =
     (let req = p2pk_requirements_at c now in
      if (case sr_refund_path req of None \<Rightarrow> False | Some r \<Rightarrow> is_anyone_can_spend r) then Ok ()
      else res_bind (ok_or SpendConditionsNotMet (p2pk_witness_of p)) (\<lambda>w.
        verify_p2pk_pathways X msg req (pw_signatures w)))"
| "verify_lock X now msg p (LockHtlc q s c) =
     verify_htlc_pathways X msg (htlc_requirements_at c now) (htlc_witness_of p)
       (preimage_valid X c (htlc_witness_of p))"

fun verify_inputs_individually :: "externs \<Rightarrow> input_lock list \<Rightarrow> u64 \<Rightarrow> (cashu_error, unit) res" where
  "verify_inputs_individually X [] now = Ok ()"
| "verify_inputs_individually X (l # ls) now =
     res_bind (verify_lock X now (as_bytes (pf_secret (lock_proof l))) (lock_proof l) l)
       (\<lambda>_. verify_inputs_individually X ls now)"

definition sig_all_message ::
  "externs \<Rightarrow> nut_proof list \<Rightarrow> blinded_message list option \<Rightarrow> string option \<Rightarrow> string" where
  "sig_all_message X inputs outputs quote_id =
     concat (map (\<lambda>p. pf_secret p @ hex_encode X (to_bytes (pf_c p))) inputs)
     @ (case outputs of None \<Rightarrow> []
        | Some os \<Rightarrow> concat (map (\<lambda>m. show_u64 (bm_amount m) @ hex_encode X (to_bytes (bm_b m))) os))
     @ (case quote_id of None \<Rightarrow> [] | Some q \<Rightarrow> q)"

definition same_condition :: "nut10_secret \<Rightarrow> nut10_secret \<Rightarrow> bool" where
  "same_condition a b \<longleftrightarrow> se_kind a = se_kind b \<and> se_data a = se_data b \<and> se_tags a = se_tags b"

definition verify_sig_all ::
  "externs \<Rightarrow> nut_proof list \<Rightarrow> input_lock list \<Rightarrow> blinded_message list option \<Rightarrow> string option \<Rightarrow> u64
   \<Rightarrow> (cashu_error, unit) res" where
  "verify_sig_all X inputs locks outputs quote_id now =
     (if length locks \<noteq> length inputs then Err SpendConditionsNotMet
      else case locks of [] \<Rightarrow> Panic
      | first # rest \<Rightarrow>
        (if lock_sigflag first \<noteq> SigAll then Err SpendConditionsNotMet
         else if \<not> list_all (\<lambda>l. same_condition (lock_secret l) (lock_secret first)) rest
         then Err SpendConditionsNotMet
         else verify_lock X now (as_bytes (sig_all_message X inputs outputs quote_id)) (hd inputs) first))"

definition p2pk_lock :: "externs \<Rightarrow> nut_proof \<Rightarrow> nut10_secret \<Rightarrow> (cashu_error, input_lock) res" where
  "p2pk_lock X p s = (case p2pk_from_secret X s of Ok c \<Rightarrow> Ok (LockP2pk p s c) | _ \<Rightarrow> Err SpendConditionsNotMet)"

definition htlc_lock :: "externs \<Rightarrow> nut_proof \<Rightarrow> nut10_secret \<Rightarrow> (cashu_error, input_lock) res" where
  "htlc_lock X p s = (case htlc_from_secret X s of Ok c \<Rightarrow> Ok (LockHtlc p s c) | _ \<Rightarrow> Err SpendConditionsNotMet)"

fun collect_locks :: "externs \<Rightarrow> nut_proof list \<Rightarrow> (cashu_error, input_lock list) res" where
  "collect_locks X [] = Ok []"
| "collect_locks X (p # ps) =
     (case secret_parse (pf_secret p) of
        None \<Rightarrow> if pf_witness p \<noteq> None then Err SpendConditionsNotMet else collect_locks X ps
      | Some s \<Rightarrow>
          res_bind (case se_kind s of KindP2PK \<Rightarrow> p2pk_lock X p s | KindHTLC \<Rightarrow> htlc_lock X p s) (\<lambda>l.
            res_bind (collect_locks X ps) (\<lambda>ls. Ok (l # ls))))"

definition verify_spending_conditions ::
  "externs \<Rightarrow> nut_proof list \<Rightarrow> blinded_message list option \<Rightarrow> string option \<Rightarrow> u64
   \<Rightarrow> (cashu_error, unit) res" where
  "verify_spending_conditions X inputs outputs quote_id now =
     res_bind (collect_locks X inputs) (\<lambda>locks.
       if list_ex (\<lambda>l. lock_sigflag l = SigAll) locks
       then verify_sig_all X inputs locks outputs quote_id now
       else verify_inputs_individually X locks now)"

section \<open>Specification\<close>

definition valid_signers :: "externs \<Rightarrow> bytes \<Rightarrow> public_key list \<Rightarrow> string list \<Rightarrow> bytes set" where
  "valid_signers X msg ks hexes =
     {drop 1 (to_bytes k) | k. k \<in> set ks \<and>
        (\<exists>h \<in> set hexes. \<exists>sg. schnorr_from_str X h = Some sg \<and> schnorr_verify X k msg sg)}"

definition threshold_met :: "externs \<Rightarrow> bytes \<Rightarrow> public_key list \<Rightarrow> u64 \<Rightarrow> string list \<Rightarrow> bool" where
  "threshold_met X msg ks n hexes \<longleftrightarrow> unat n \<le> card (valid_signers X msg ks hexes)"

fun lock_opened :: "externs \<Rightarrow> u64 \<Rightarrow> bytes \<Rightarrow> nut_proof \<Rightarrow> input_lock \<Rightarrow> bool" where
  "lock_opened X now msg p (LockP2pk q s c) \<longleftrightarrow>
     lock_expired (pc_locktime c) now \<and> pc_refund_keys c = []
     \<or> (\<exists>w. p2pk_witness_of p = Some w \<and>
          (threshold_met X msg (signing_pubkeys c) (required_sigs c) (pw_signatures w)
           \<or> lock_expired (pc_locktime c) now \<and> pc_refund_keys c \<noteq> []
             \<and> threshold_met X msg (pc_refund_keys c) (required_sigs_refund c) (pw_signatures w)))"
| "lock_opened X now msg p (LockHtlc q s c) \<longleftrightarrow>
     preimage_valid X c (htlc_witness_of p)
       \<and> (hc_pubkeys c = [] \<or> (\<exists>sigs. witness_signatures (htlc_witness_of p) = Ok sigs
             \<and> threshold_met X msg (hc_pubkeys c) (case hc_num_sigs c of None \<Rightarrow> 1 | Some n \<Rightarrow> n) sigs))
     \<or> lock_expired (hc_locktime c) now
       \<and> (hc_refund_keys c = [] \<or> (\<exists>sigs. witness_signatures (htlc_witness_of p) = Ok sigs
             \<and> threshold_met X msg (hc_refund_keys c) (case hc_num_sigs_refund c of None \<Rightarrow> 1 | Some n \<Rightarrow> n) sigs))"

section \<open>Counting signatures\<close>

definition signs :: "externs \<Rightarrow> bytes \<Rightarrow> bytes list \<Rightarrow> public_key \<Rightarrow> bool" where
  "signs X msg sigs k \<longleftrightarrow> (\<exists>sg \<in> set sigs. schnorr_verify X k msg sg)"

lemma verify_key_sigs_seen:
  "verify_key_sigs X msg k sigs seen = Some seen' \<Longrightarrow> distinct seen \<Longrightarrow>
     distinct seen' \<and> set seen' = set seen \<union> (if signs X msg sigs k then {drop 1 (to_bytes k)} else {})"
proof (induction sigs arbitrary: seen)
  case (Cons sg sigs)
  show ?case
  proof (cases "schnorr_verify X k msg sg")
    case True
    with Cons.prems(1) have new: "drop 1 (to_bytes k) \<notin> set seen"
      and rec: "verify_key_sigs X msg k sigs (drop 1 (to_bytes k) # seen) = Some seen'"
      by (simp_all add: Let_def split: if_splits)
    from Cons.IH[OF rec] new Cons.prems(2) True show ?thesis by (auto simp: signs_def)
  qed (use Cons in \<open>auto simp: signs_def\<close>)
qed (simp add: signs_def)

lemma verify_keys_seen:
  "verify_keys X msg ks sigs seen = Some seen' \<Longrightarrow> distinct seen \<Longrightarrow>
     distinct seen' \<and> set seen' = set seen \<union> (\<lambda>k. drop 1 (to_bytes k)) ` {k \<in> set ks. signs X msg sigs k}"
proof (induction ks arbitrary: seen)
  case (Cons k ks)
  then obtain s1 where s1: "verify_key_sigs X msg k sigs seen = Some s1"
    and rec: "verify_keys X msg ks sigs s1 = Some seen'"
    by (auto split: option.splits)
  note h = verify_key_sigs_seen[OF s1 Cons.prems(2)]
  from Cons.IH[OF rec] h show ?case by (auto split: if_splits)
qed auto

lemma signs_of_hexes:
  assumes "map_opt (schnorr_from_str X) hexes = Some sigs"
  shows "signs X msg sigs k \<longleftrightarrow> (\<exists>h \<in> set hexes. \<exists>sg. schnorr_from_str X h = Some sg \<and> schnorr_verify X k msg sg)"
proof -
  have "sg \<in> set sigs \<longleftrightarrow> (\<exists>h \<in> set hexes. schnorr_from_str X h = Some sg)" for sg
    using assms[unfolded map_opt_Some_iff] by (induction rule: list_all2_induct) auto
  then show ?thesis unfolding signs_def by blast
qed

lemma count_valid_signatures_card:
  assumes "count_valid_signatures X msg ks hexes = Some n"
  shows "n = word_of_nat (card (valid_signers X msg ks hexes))"
proof -
  from assms obtain sigs seen where s: "map_opt (schnorr_from_str X) hexes = Some sigs"
    "verify_keys X msg ks sigs [] = Some seen" "n = word_of_nat (length seen)"
    by (auto simp: count_valid_signatures_def split: option.splits)
  from verify_keys_seen[OF s(2)] have "distinct seen"
    "set seen = (\<lambda>k. drop 1 (to_bytes k)) ` {k \<in> set ks. signs X msg sigs k}" by auto
  moreover have "(\<lambda>k. drop 1 (to_bytes k)) ` {k \<in> set ks. signs X msg sigs k} = valid_signers X msg ks hexes"
    by (auto simp: valid_signers_def signs_of_hexes[OF s(1)])
  ultimately show ?thesis using s(3) by (metis distinct_card)
qed

lemma count_reaches:
  assumes "count_valid_signatures X msg ks hexes = Some n" "n \<ge> required"
  shows "threshold_met X msg ks required hexes"
  using assms(2) word_threshold[of "card (valid_signers X msg ks hexes)" required]
  by (simp add: count_valid_signatures_card[OF assms(1)] threshold_met_def not_less)

lemma verify_witness_signatures_sound:
  "verify_witness_signatures X msg ks hexes n = Ok u \<Longrightarrow> threshold_met X msg ks n hexes"
  by (auto simp: verify_witness_signatures_def intro: count_reaches split: option.splits if_splits)

section \<open>Accepted transactions\<close>

lemma verify_p2pk_pathways_sound:
  assumes "verify_p2pk_pathways X msg req hexes = Ok u"
  shows "threshold_met X msg (sr_pubkeys req) (sr_required_sigs req) hexes
    \<or> (\<exists>r. sr_refund_path req = Some r \<and> threshold_met X msg (rp_pubkeys r) (rp_required_sigs r) hexes)"
  using assms
  by (auto simp: verify_p2pk_pathways_def intro: count_reaches split: if_splits option.splits)

lemma anyone_iff:
  assumes "requirements_ok lt ks now req"
  shows "(case sr_refund_path req of None \<Rightarrow> False | Some r \<Rightarrow> is_anyone_can_spend r)
    \<longleftrightarrow> lock_expired lt now \<and> ks = []"
  using assms by (auto simp: requirements_ok_def lock_expired_def split: option.splits)

lemma verify_lock_sound:
  assumes "verify_lock X now msg p l = Ok u"
    and "case l of LockP2pk q s c \<Rightarrow> p2pk_from_secret X s = Ok c | LockHtlc q s c \<Rightarrow> htlc_from_secret X s = Ok c"
  shows "lock_opened X now msg p l"
proof (cases l)
  case (LockP2pk q s c)
  with assms(2) have ok: "requirements_ok (pc_locktime c) (pc_refund_keys c) now (p2pk_requirements_at c now)"
    by (auto intro: p2pk_requirements_ok)
  show ?thesis
  proof (cases "lock_expired (pc_locktime c) now \<and> pc_refund_keys c = []")
    case False
    with anyone_iff[OF ok] assms(1) LockP2pk obtain w where w: "p2pk_witness_of p = Some w"
      "verify_p2pk_pathways X msg (p2pk_requirements_at c now) (pw_signatures w) = Ok u"
      by (auto simp: Let_def)
    from verify_p2pk_pathways_sound[OF w(2)] w(1) LockP2pk False show ?thesis
      by (auto simp: p2pk_requirements_at_def split: if_splits)
  qed (simp add: LockP2pk)
next
  case (LockHtlc q s c)
  with assms(2) have h: "htlc_from_secret X s = Ok c" by simp
  note ok = htlc_requirements_ok[OF h, of now]
  from assms(1) LockHtlc anyone_iff[OF ok(1)] ok(2) show ?thesis
    by (auto simp: verify_htlc_pathways_def htlc_requirements_at_def
        dest!: verify_witness_signatures_sound split: if_splits)
qed

definition lock_for :: "externs \<Rightarrow> nut_proof \<Rightarrow> input_lock \<Rightarrow> bool" where
  "lock_for X p l \<longleftrightarrow> secret_parse (pf_secret p) = Some (lock_secret l) \<and> lock_proof l = p \<and>
     (case l of LockP2pk q s c \<Rightarrow> se_kind s = KindP2PK \<and> p2pk_from_secret X s = Ok c
      | LockHtlc q s c \<Rightarrow> se_kind s = KindHTLC \<and> htlc_from_secret X s = Ok c)"

lemma lock_for_new:
  assumes "secret_parse (pf_secret p) = Some s"
    and "(case se_kind s of KindP2PK \<Rightarrow> p2pk_lock X p s | KindHTLC \<Rightarrow> htlc_lock X p s) = Ok l"
  shows "lock_for X p l"
  using assms
  by (auto simp: lock_for_def p2pk_lock_def htlc_lock_def split: secret_kind.splits res.splits)

text \<open>The inputs that carry a condition, in order, each with its lock.\<close>

lemma collect_locks_Ok:
  assumes "collect_locks X ps = Ok ls"
  shows "list_all2 (lock_for X) (filter (\<lambda>p. secret_parse (pf_secret p) \<noteq> None) ps) ls"
    and "p \<in> set ps \<Longrightarrow> secret_parse (pf_secret p) = None \<Longrightarrow> pf_witness p = None"
proof -
  have "list_all2 (lock_for X) (filter (\<lambda>p. secret_parse (pf_secret p) \<noteq> None) ps) ls
    \<and> (\<forall>p \<in> set ps. secret_parse (pf_secret p) = None \<longrightarrow> pf_witness p = None)"
    using assms
  proof (induction ps arbitrary: ls)
    case (Cons p ps)
    then show ?case
      by (cases "secret_parse (pf_secret p)") (auto intro: lock_for_new split: if_splits)
  qed simp
  then show "list_all2 (lock_for X) (filter (\<lambda>p. secret_parse (pf_secret p) \<noteq> None) ps) ls"
    and "p \<in> set ps \<Longrightarrow> secret_parse (pf_secret p) = None \<Longrightarrow> pf_witness p = None"
    by auto
qed

lemma verify_individually_sound:
  assumes "verify_inputs_individually X ls now = Ok u" "list_all2 (lock_for X) ps ls"
  shows "\<forall>p \<in> set ps. \<exists>l. lock_for X p l \<and> lock_opened X now (as_bytes (pf_secret p)) p l"
  using assms(2,1)
proof (induction rule: list_all2_induct)
  case (Cons p ps l ls)
  from Cons.prems Cons.hyps(1) have "verify_lock X now (as_bytes (pf_secret p)) p l = Ok ()"
    "verify_inputs_individually X ls now = Ok u"
    by (auto simp: lock_for_def)
  moreover from this Cons.hyps(1) have "lock_opened X now (as_bytes (pf_secret p)) p l"
    by (intro verify_lock_sound) (auto simp: lock_for_def split: input_lock.splits)
  ultimately show ?case using Cons by auto
qed simp

lemma locks_aligned:
  assumes "list_all2 R (filter P xs) ls" "length ls = length xs"
  shows "list_all2 R xs ls"
proof -
  have "filter P xs = xs"
    using assms list_all2_lengthD by (metis filter_id_conv length_filter_less less_irrefl)
  with assms(1) show ?thesis by simp
qed

text \<open>
  What acceptance means: with \<open>SIG_ALL\<close> somewhere, every input is locked with one and the same
  condition and the first lock is opened by signatures over the whole transaction; otherwise
  every locked input is opened by its own witness over its own secret.
\<close>

definition sig_all_accepted ::
  "externs \<Rightarrow> nut_proof list \<Rightarrow> blinded_message list option \<Rightarrow> string option \<Rightarrow> u64 \<Rightarrow> bool" where
  "sig_all_accepted X inputs outputs quote_id now \<longleftrightarrow>
     (\<exists>first. lock_for X (hd inputs) first \<and> lock_sigflag first = SigAll
        \<and> lock_opened X now (as_bytes (sig_all_message X inputs outputs quote_id)) (hd inputs) first
        \<and> (\<forall>p \<in> set inputs. \<exists>l. lock_for X p l \<and> same_condition (lock_secret l) (lock_secret first)))"

definition inputs_accepted :: "externs \<Rightarrow> nut_proof list \<Rightarrow> u64 \<Rightarrow> bool" where
  "inputs_accepted X inputs now \<longleftrightarrow>
     (\<forall>p \<in> set inputs. case secret_parse (pf_secret p) of
        None \<Rightarrow> pf_witness p = None
      | Some s \<Rightarrow> \<exists>l. lock_for X p l \<and> lock_sigflag l = SigInputs
                 \<and> lock_opened X now (as_bytes (pf_secret p)) p l)"

lemma lock_for_unique: "lock_for X p l \<Longrightarrow> lock_for X p l' \<Longrightarrow> l = l'"
  by (cases l; cases l') (auto simp: lock_for_def)

lemma verify_sig_all_sound:
  assumes "verify_sig_all X inputs ls outputs quote_id now = Ok u"
    and "list_all2 (lock_for X) (filter (\<lambda>p. secret_parse (pf_secret p) \<noteq> None) inputs) ls"
  shows "sig_all_accepted X inputs outputs quote_id now"
proof -
  from assms(1) obtain first rest where ls: "ls = first # rest" "length ls = length inputs"
    and flag: "lock_sigflag first = SigAll"
    and same: "list_all (\<lambda>l. same_condition (lock_secret l) (lock_secret first)) rest"
    and ver: "verify_lock X now (as_bytes (sig_all_message X inputs outputs quote_id)) (hd inputs) first = Ok u"
    by (auto simp: verify_sig_all_def split: if_splits list.splits)
  have al: "list_all2 (lock_for X) inputs (first # rest)"
    using locks_aligned[OF assms(2) ls(2)] ls(1) by simp
  then obtain p ps where ps: "inputs = p # ps" "lock_for X p first" "list_all2 (lock_for X) ps rest"
    by (auto simp: list_all2_Cons2)
  have "lock_opened X now (as_bytes (sig_all_message X inputs outputs quote_id)) (hd inputs) first"
    using ver ps(2) by (intro verify_lock_sound) (auto simp: lock_for_def split: input_lock.splits)
  moreover have "\<exists>l. lock_for X q l \<and> same_condition (lock_secret l) (lock_secret first)" if "q \<in> set ps" for q
    using ps(3) same that by (induction rule: list_all2_induct) auto
  ultimately show ?thesis
    using ps flag by (auto simp: sig_all_accepted_def same_condition_def)
qed

lemma verify_spending_conditions_sound:
  assumes "verify_spending_conditions X inputs outputs quote_id now = Ok u"
  shows "sig_all_accepted X inputs outputs quote_id now \<or> inputs_accepted X inputs now"
proof -
  from assms obtain ls where ls: "collect_locks X inputs = Ok ls"
    by (auto simp: verify_spending_conditions_def)
  note c = collect_locks_Ok[OF ls]
  show ?thesis
  proof (cases "list_ex (\<lambda>l. lock_sigflag l = SigAll) ls")
    case True
    with assms ls have "verify_sig_all X inputs ls outputs quote_id now = Ok u"
      by (simp add: verify_spending_conditions_def)
    from verify_sig_all_sound[OF this c(1)] show ?thesis ..
  next
    case False
    with assms ls have v: "verify_inputs_individually X ls now = Ok u"
      by (simp add: verify_spending_conditions_def)
    have flag: "lock_sigflag l = SigInputs" if "p \<in> set inputs" "lock_for X p l" for p l
    proof -
      from that have "p \<in> set (filter (\<lambda>p. secret_parse (pf_secret p) \<noteq> None) inputs)"
        by (auto simp: lock_for_def)
      with c(1) obtain l' where "l' \<in> set ls" "lock_for X p l'"
        by (blast dest: list_all2_member)
      then have "l \<in> set ls" using lock_for_unique that(2) by blast
      with False show ?thesis by (cases "lock_sigflag l") (auto simp: list_ex_iff)
    qed
    have "\<exists>l. lock_for X p l \<and> lock_sigflag l = SigInputs \<and> lock_opened X now (as_bytes (pf_secret p)) p l"
      if "p \<in> set inputs" "secret_parse (pf_secret p) \<noteq> None" for p
    proof -
      from that have "p \<in> set (filter (\<lambda>p. secret_parse (pf_secret p) \<noteq> None) inputs)" by simp
      with verify_individually_sound[OF v c(1)] flag[OF that(1)] show ?thesis by blast
    qed
    with c(2) have "inputs_accepted X inputs now"
      by (auto simp: inputs_accepted_def split: option.split)
    then show ?thesis ..
  qed
qed

text \<open>A condition that names a known kind but breaks its rules makes the transaction fail.\<close>

lemma collect_locks_malformed:
  assumes "p \<in> set ps" "secret_parse (pf_secret p) = Some s"
    and "case se_kind s of KindP2PK \<Rightarrow> \<not> is_ok (p2pk_from_secret X s) | KindHTLC \<Rightarrow> \<not> is_ok (htlc_from_secret X s)"
  shows "\<not> is_ok (collect_locks X ps)"
proof
  assume "is_ok (collect_locks X ps)"
  then obtain ls where ls: "collect_locks X ps = Ok ls" by (cases "collect_locks X ps") auto
  have "p \<in> set (filter (\<lambda>p. secret_parse (pf_secret p) \<noteq> None) ps)" using assms by simp
  with collect_locks_Ok(1)[OF ls] obtain l where "lock_for X p l"
    by (blast dest: list_all2_member)
  with assms(2,3) show False by (auto simp: lock_for_def split: input_lock.splits secret_kind.splits)
qed

end
