(* ===== verification/Keyset.thy ===== *)
theory Keyset
  imports Spending
begin

text \<open>
  The demo keyset (\<^verbatim>\<open>micronuts-mint/src/keyset.rs\<close>, with the NUT-02 id of
  \<^verbatim>\<open>cashu-core-lite/src/nuts/nut02.rs\<close>) and the NUT-20 quote signature message
  (\<^verbatim>\<open>cashu-core-lite/src/nuts/nut20.rs\<close>). A keyset built by \<open>keyset_new\<close> holds one key pair per
  denomination, every amount below 256 splits into its denominations, and the NUT-20 message
  determines the quote and the outputs it was built from.
\<close>

section \<open>The keyset\<close>

definition DENOMINATIONS :: "u64 list" where
  "DENOMINATIONS = [1, 2, 4, 8, 16, 32, 64, 128]"

record demo_keyset =
  dk_id :: string
  dk_unit :: string
  dk_keys :: "(u64 \<times> secret_key \<times> public_key) list"
  dk_input_fee_ppk :: u64

definition hex_byte :: "u8 \<Rightarrow> string" where
  "hex_byte b = [hex_lower (unat b div 16), hex_lower (unat b mod 16)]"

definition derive_keyset_id :: "externs \<Rightarrow> public_key list \<Rightarrow> string" where
  "derive_keyset_id X sorted_pubkeys =
     ''00'' @ concat (map hex_byte (take 7 (sha256 X (concat (map to_bytes sorted_pubkeys)))))"

definition denomination_key ::
  "externs \<Rightarrow> bytes \<Rightarrow> nat \<Rightarrow> u64 \<Rightarrow> (cashu_error, u64 \<times> secret_key \<times> public_key) res" where
  "denomination_key X seed i amount =
     (case sk_from_slice X (sha256 X (seed @ as_bytes ''cashu-key'' @ to_be_bytes 8 i)) of
        None \<Rightarrow> Panic
      | Some sk \<Rightarrow> Ok (amount, sk, pubkey_of X sk))"

definition keyset_new :: "externs \<Rightarrow> bytes \<Rightarrow> string \<Rightarrow> u64 \<Rightarrow> (cashu_error, demo_keyset) res" where
  "keyset_new X seed unit input_fee_ppk =
     res_bind (map_res (\<lambda>(i, a). denomination_key X seed i a) (enumerate 0 DENOMINATIONS)) (\<lambda>keys.
       Ok \<lparr>dk_id = derive_keyset_id X (map (\<lambda>(_, _, pk). pk) keys), dk_unit = unit,
           dk_keys = keys, dk_input_fee_ppk = input_fee_ppk\<rparr>)"

definition demo_with_fee :: "externs \<Rightarrow> u64 \<Rightarrow> (cashu_error, demo_keyset) res" where
  "demo_with_fee X input_fee_ppk =
     keyset_new X (sha256 X (as_bytes ''micronuts-demo-mint-seed'')) ''sat'' input_fee_ppk"

definition demo_default :: "externs \<Rightarrow> (cashu_error, demo_keyset) res" where
  "demo_default X = keyset_new X (sha256 X (as_bytes ''micronuts-demo-mint-seed'')) ''sat'' 0"

definition to_public_keyset :: "demo_keyset \<Rightarrow> key_set" where
  "to_public_keyset k =
     \<lparr>ks_id = dk_id k, ks_unit = dk_unit k,
      ks_keys = map (\<lambda>(a, _, pk). \<lparr>kp_amount = a, kp_pubkey = pk\<rparr>) (dk_keys k)\<rparr>"

definition to_keyset_info :: "demo_keyset \<Rightarrow> keyset_info" where
  "to_keyset_info k =
     \<lparr>ki_id = dk_id k, ki_unit = dk_unit k, ki_active = True, ki_input_fee_ppk = dk_input_fee_ppk k\<rparr>"

definition get_secret_key :: "demo_keyset \<Rightarrow> u64 \<Rightarrow> secret_key option" where
  "get_secret_key k amount = map_option (\<lambda>(_, sk, _). sk) (find (\<lambda>(a, _, _). a = amount) (dk_keys k))"

definition get_public_key :: "demo_keyset \<Rightarrow> u64 \<Rightarrow> public_key option" where
  "get_public_key k amount = map_option (\<lambda>(_, _, pk). pk) (find (\<lambda>(a, _, _). a = amount) (dk_keys k))"

text \<open>What construction establishes and no operation of the mint changes.\<close>

definition keyset_ok :: "externs \<Rightarrow> demo_keyset \<Rightarrow> bool" where
  "keyset_ok X k \<longleftrightarrow>
     map fst (dk_keys k) = DENOMINATIONS
     \<and> (\<forall>(a, sk, pk) \<in> set (dk_keys k). pk = pubkey_of X sk)
     \<and> dk_id k = derive_keyset_id X (map (\<lambda>(_, _, pk). pk) (dk_keys k))"

lemma denomination_keys:
  assumes "map_res (\<lambda>(i, a). denomination_key X seed i a) (enumerate n ds) = Ok keys"
  shows "map fst keys = ds \<and> (\<forall>(a, sk, pk) \<in> set keys. pk = pubkey_of X sk)"
  using assms
proof (induction ds arbitrary: n keys)
  case (Cons d ds)
  then obtain k ks where "denomination_key X seed n d = Ok k"
    "map_res (\<lambda>(i, a). denomination_key X seed i a) (enumerate (Suc n) ds) = Ok ks" "keys = k # ks"
    by auto
  with Cons.IH[of "Suc n" ks] show ?case
    by (auto simp: denomination_key_def split: option.splits)
qed simp

lemma keyset_new_ok: "keyset_new X seed unit fee = Ok k \<Longrightarrow> keyset_ok X k"
  by (auto simp: keyset_new_def keyset_ok_def dest!: denomination_keys)

lemma find_fst_None: "find (\<lambda>(a, _, _). a = x) ks = None \<longleftrightarrow> x \<notin> set (map fst ks)"
  by (force simp: find_None_iff)

lemma get_secret_key_None: "get_secret_key k a = None \<longleftrightarrow> a \<notin> set (map fst (dk_keys k))"
  unfolding get_secret_key_def find_fst_None [symmetric] by simp

lemma get_secret_key_denomination:
  "keyset_ok X k \<Longrightarrow> get_secret_key k a \<noteq> None \<longleftrightarrow> a \<in> set DENOMINATIONS"
  by (simp add: get_secret_key_None keyset_ok_def)

lemma get_public_key_matches:
  "keyset_ok X k \<Longrightarrow> get_public_key k a = map_option (pubkey_of X) (get_secret_key k a)"
proof -
  assume ok: "keyset_ok X k"
  show ?thesis
  proof (cases "find (\<lambda>(b, _, _). b = a) (dk_keys k)")
    case (Some e)
    obtain b sk pk where e: "e = (b, sk, pk)" by (cases e)
    from Some have "e \<in> set (dk_keys k)" by (metis find_Some_iff nth_mem)
    with ok e have "pk = pubkey_of X sk" by (auto simp: keyset_ok_def)
    with Some e show ?thesis by (simp add: get_public_key_def get_secret_key_def)
  qed (simp add: get_public_key_def get_secret_key_def)
qed

lemma denominations_pow2: "DENOMINATIONS = map (\<lambda>i. 2 ^ i) [0..<8]"
  by (simp add: DENOMINATIONS_def upt_rec)

lemma small_amount_denominations:
  assumes "unat a < 256" "d \<in> set (decompose_amount a)"
  shows "d \<in> set DENOMINATIONS"
proof -
  have "decompose_amount a = pow2_bits a 8"
    using pow2_bits_above[of a 8 64] assms(1) by (simp add: decompose_amount_bits)
  with assms(2) obtain i where "i < 8" "d = 2 ^ i" by (auto simp: pow2_bits_members)
  then show ?thesis by (auto simp: denominations_pow2)
qed

section \<open>NUT-20: the quote signature message\<close>

definition amount_to_minimal_be_bytes :: "u64 \<Rightarrow> bytes" where
  "amount_to_minimal_be_bytes amount =
     (if amount = 0 then [] else dropWhile (\<lambda>b. b = 0) (to_be_bytes 8 (unat amount)))"

definition len_prefixed :: "bytes \<Rightarrow> bytes" where
  "len_prefixed bs = to_be_bytes 4 (length bs mod 2 ^ 32) @ bs"

definition quote_sig_message :: "string \<Rightarrow> blinded_message list \<Rightarrow> bytes" where
  "quote_sig_message quote_id outputs =
     as_bytes ''Cashu_MintQuoteSig_v1'' @ len_prefixed (as_bytes quote_id)
     @ concat (map (\<lambda>m. len_prefixed (amount_to_minimal_be_bytes (bm_amount m))
                     @ len_prefixed (to_bytes (bm_b m))) outputs)"

lemma from_be_minimal: "from_be_bytes (amount_to_minimal_be_bytes a) = unat a"
proof (cases "a = 0")
  case False
  have "from_be_bytes (to_be_bytes 8 (unat a)) = unat a"
    using unat_bound[of a] by (intro from_to_be_bytes) simp
  with False show ?thesis by (simp add: amount_to_minimal_be_bytes_def from_be_dropWhile)
qed (simp add: amount_to_minimal_be_bytes_def from_be_bytes_def)

lemma length_minimal: "length (amount_to_minimal_be_bytes a) \<le> 8"
  using length_dropWhile_le[of "\<lambda>b. b = 0" "to_be_bytes 8 (unat a)"]
  by (simp add: amount_to_minimal_be_bytes_def)

lemma len_prefixed_append_inj:
  assumes "len_prefixed x @ r = len_prefixed y @ s" "length x < 2 ^ 32" "length y < 2 ^ 32"
  shows "x = y \<and> r = s"
proof -
  from assms(1) have eq: "to_be_bytes 4 (length x) = to_be_bytes 4 (length y)" "x @ r = y @ s"
    using assms(2,3) by (simp_all add: len_prefixed_def append_eq_append_conv)
  have "length x = length y"
    using arg_cong[OF eq(1), of from_be_bytes] assms(2,3) by (simp add: from_to_be_bytes)
  with eq(2) show ?thesis by simp
qed

text \<open>The part of an output the message commits to.\<close>

definition committed :: "blinded_message \<Rightarrow> u64 \<times> public_key" where
  "committed m = (bm_amount m, bm_b m)"

definition output_message :: "blinded_message list \<Rightarrow> bytes" where
  "output_message outputs =
     concat (map (\<lambda>m. len_prefixed (amount_to_minimal_be_bytes (bm_amount m))
                     @ len_prefixed (to_bytes (bm_b m))) outputs)"

lemma output_message_inj:
  assumes "output_message os = output_message ps"
    and "\<forall>m \<in> set os \<union> set ps. length (to_bytes (bm_b m)) < 2 ^ 32"
  shows "map committed os = map committed ps"
  using assms
proof (induction os arbitrary: ps)
  case Nil
  then show ?case by (cases ps) (simp_all add: output_message_def len_prefixed_def to_be_bytes_def upt_rec)
next
  case (Cons m os)
  show ?case
  proof (cases ps)
    case Nil
    with Cons.prems show ?thesis by (simp add: output_message_def len_prefixed_def to_be_bytes_def upt_rec)
  next
    case (Cons q qs)
    have short: "length (amount_to_minimal_be_bytes a) < 2 ^ 32" for a
      using length_minimal[of a] by simp
    have "len_prefixed (amount_to_minimal_be_bytes (bm_amount m)) @ len_prefixed (to_bytes (bm_b m)) @ output_message os
        = len_prefixed (amount_to_minimal_be_bytes (bm_amount q)) @ len_prefixed (to_bytes (bm_b q)) @ output_message qs"
      using Cons.prems(1) Cons by (simp add: output_message_def)
    from len_prefixed_append_inj[OF this short short]
    have amount: "amount_to_minimal_be_bytes (bm_amount m) = amount_to_minimal_be_bytes (bm_amount q)"
      and "len_prefixed (to_bytes (bm_b m)) @ output_message os = len_prefixed (to_bytes (bm_b q)) @ output_message qs"
      by simp_all
    from len_prefixed_append_inj[OF this(2)] Cons.prems(2) Cons
    have b: "to_bytes (bm_b m) = to_bytes (bm_b q)" and rest: "output_message os = output_message qs" by auto
    have "bm_amount m = bm_amount q"
      using arg_cong[OF amount, of from_be_bytes] by (simp add: from_be_minimal word_unat_eq_iff)
    moreover have "bm_b m = bm_b q" using b by (simp add: public_key.expand)
    ultimately show ?thesis
      using Cons.IH[OF rest] Cons.prems(2) Cons by (simp add: committed_def)
  qed
qed

lemma quote_sig_message_inj:
  assumes "quote_sig_message q os = quote_sig_message r ps"
    and "length q < 2 ^ 32" "length r < 2 ^ 32"
    and "\<forall>m \<in> set os \<union> set ps. length (to_bytes (bm_b m)) < 2 ^ 32"
  shows "q = r \<and> map committed os = map committed ps"
proof -
  from assms(1) have "len_prefixed (as_bytes q) @ output_message os = len_prefixed (as_bytes r) @ output_message ps"
    by (simp add: quote_sig_message_def output_message_def)
  from len_prefixed_append_inj[OF this] assms(2,3)
  have "as_bytes q = as_bytes r" "output_message os = output_message ps" by simp_all
  then show ?thesis using output_message_inj[OF _ assms(4)] by simp
qed

end
