(* ===== verification/Backend.thy ===== *)
theory Backend
  imports Keyset
begin

text \<open>
  What the mint core is wired to: the Lightning backend and clock of \<^verbatim>\<open>micronuts-mint/src/ln.rs\<close>,
  the durable state types of \<^verbatim>\<open>micronuts-mint/src/persist.rs\<close>, and the record \<open>env\<close> that bundles
  every effect the core calls out for. The contract \<open>lightning_backend\<close> says that an invoice is
  looked up with the amount it was created for; \<^verbatim>\<open>FakeWallet\<close> meets it.
\<close>

section \<open>Durable state\<close>

record mint_quote_entry =
  me_amount :: u64
  me_unit :: string
  me_request :: string
  me_state :: string
  me_expiry :: u64
  me_amount_paid :: u64
  me_amount_issued :: u64
  me_updated_at :: u64
  me_pubkey :: "string option"

record melt_quote_entry =
  le_amount :: u64
  le_fee_reserve :: u64
  le_unit :: string
  le_request :: string
  le_state :: string
  le_expiry :: u64

record dleq_snap =
  ds_e_hex :: string
  ds_s_hex :: string

record blind_signature_snap =
  ss_amount :: u64
  ss_id :: string
  ss_c_hex :: string
  ss_dleq :: "dleq_snap option"

text \<open>
  The snapshot of a quote has the fields of its entry in the same order, so the entries stand for
  \<^verbatim>\<open>MintQuoteSnap\<close> and \<^verbatim>\<open>MeltQuoteSnap\<close> as well.
\<close>

record mint_state_snapshot =
  sn_mint_quotes :: "(string \<times> mint_quote_entry) list"
  sn_melt_quotes :: "(string \<times> melt_quote_entry) list"
  sn_spent_ys :: "string list"
  sn_issued_outputs :: "(string \<times> blind_signature_snap) list"

section \<open>The environment of the mint\<close>

text \<open>
  The fields stand for the methods of the injected trait objects and for the third-party calls
  with an effect: \<open>now_secs\<close> (\<^verbatim>\<open>MintClock\<close>), \<open>now_v7\<close> (\<^verbatim>\<open>uuid\<close>), the four methods of
  \<^verbatim>\<open>LightningBackend\<close>, \<open>dleq_new\<close> (\<^verbatim>\<open>cashu::BlindSignature::new\<close>, which draws a nonce), and the two
  methods of \<^verbatim>\<open>StateStore\<close>. All of them act on a world the mint does not look into.
\<close>

record 'w env =
  now_secs :: "'w \<Rightarrow> u64 \<times> 'w"
  now_v7 :: "'w \<Rightarrow> string \<times> 'w"
  create_invoice :: "u64 \<Rightarrow> string \<Rightarrow> ('w, cashu_error, string) op"
  is_settled :: "string \<Rightarrow> ('w, cashu_error, bool) op"
  lookup_amount :: "string \<Rightarrow> ('w, cashu_error, u64) op"
  pay_invoice :: "string \<Rightarrow> u64 \<Rightarrow> ('w, cashu_error, string) op"
  dleq_new :: "secret_key \<Rightarrow> public_key \<Rightarrow> public_key \<Rightarrow> 'w \<Rightarrow> blind_signature_dleq option \<times> 'w"
  store_save :: "mint_state_snapshot \<Rightarrow> 'w \<Rightarrow> bool \<times> 'w"
  store_load :: "'w \<Rightarrow> (string + mint_state_snapshot option) \<times> 'w"

section \<open>The demo Lightning wallet and the clocks\<close>

definition parse_demo_invoice_amount :: "string \<Rightarrow> u64 option" where
  "parse_demo_invoice_amount invoice =
     (case strip_prefix ''lnbcdemo'' invoice of None \<Rightarrow> None
      | Some stripped \<Rightarrow>
        (case find_sub ''sat'' stripped of None \<Rightarrow> None
         | Some e \<Rightarrow> parse_u64 (take e stripped)))"

definition fake_create_invoice :: "u64 \<Rightarrow> string \<Rightarrow> ('w, cashu_error, string) op" where
  "fake_create_invoice amount_sat description =
     ret (''lnbcdemo'' @ show_u64 amount_sat @ ''sat1micronuts'')"

definition fake_is_settled :: "string \<Rightarrow> ('w, cashu_error, bool) op" where
  "fake_is_settled invoice = ret True"

definition fake_lookup_amount :: "string \<Rightarrow> ('w, cashu_error, u64) op" where
  "fake_lookup_amount invoice =
     lift_res (ok_or (Protocol ''invalid demo invoice amount'') (parse_demo_invoice_amount invoice))"

definition fake_pay_invoice :: "externs \<Rightarrow> string \<Rightarrow> u64 \<Rightarrow> ('w, cashu_error, string) op" where
  "fake_pay_invoice X invoice amount_sat = ret (hex_encode X (sha256 X (as_bytes invoice)))"

text \<open>\<^verbatim>\<open>MockClock\<close>: a settable cell; \<^verbatim>\<open>fetch_add\<close> wraps.\<close>

definition clock_set :: "u64 \<Rightarrow> u64 \<Rightarrow> u64" where
  "clock_set now c = now"

definition clock_advance :: "u64 \<Rightarrow> u64 \<Rightarrow> u64" where
  "clock_advance secs c = c + secs"

lemma find_sub_digits:
  assumes "p \<noteq> []" "\<forall>c \<in> set ds. c \<noteq> hd p"
  shows "find_sub p (ds @ p @ rest) = Some (length ds)"
  using assms(2)
proof (induction ds)
  case Nil
  with assms(1) obtain q qs where "p = q # qs" by (cases p) auto
  moreover have "starts_with p (p @ rest)" by (simp add: starts_with_def)
  ultimately show ?case by simp
next
  case (Cons d ds)
  with assms(1) obtain q qs where "p = q # qs" by (cases p) auto
  with Cons show ?case by (auto simp: starts_with_def)
qed

lemma parse_demo_invoice:
  "parse_demo_invoice_amount (''lnbcdemo'' @ show_u64 a @ ''sat1micronuts'') = Some a"
proof -
  have "\<forall>c \<in> set (show_u64 a). c \<noteq> CHR ''s''"
    using set_show_nat by (fastforce simp: show_u64_def)
  from find_sub_digits[of "''sat''" "show_u64 a" "''1micronuts''"] this
  have "find_sub ''sat'' (show_u64 a @ ''sat1micronuts'') = Some (length (show_u64 a))" by simp
  then show ?thesis
    by (simp only: parse_demo_invoice_amount_def strip_prefix_append) simp
qed

section \<open>The contract of a Lightning backend\<close>

locale lightning_backend =
  fixes create :: "u64 \<Rightarrow> string \<Rightarrow> ('w, cashu_error, string) op"
    and lookup :: "string \<Rightarrow> ('w, cashu_error, u64) op"
  assumes lookup_created:
    "create a d w = (Ok request, w') \<Longrightarrow> \<exists>w''. lookup request v = (Ok a, w'')"
begin

lemma created_amount_unique:
  assumes "create a d w = (Ok request, w')" and "create b d' v = (Ok request, v')"
  shows "a = b"
  using lookup_created[OF assms(1), of w'] lookup_created[OF assms(2), of w'] by auto

lemma created_lookup_total: "create a d w = (Ok request, w') \<Longrightarrow> is_ok (fst (lookup request v))"
  using lookup_created by (metis fst_conv is_ok.simps(1))

end

interpretation fake_wallet: lightning_backend fake_create_invoice fake_lookup_amount
  by unfold_locales (auto simp: fake_create_invoice_def fake_lookup_amount_def
      parse_demo_invoice[simplified])

end
