(* ===== verification/Mint_Core.thy ===== *)
theory Mint_Core
  imports Backend
begin

text \<open>
  The mint core (\<^verbatim>\<open>micronuts-mint/src/mint_core.rs\<close>): its state, and one definition per handler
  and per helper, composed as the code composes them. An operation leaves the state it reached
  behind whatever it returns, so the effects before an early return are part of the model.
  Fixed: \<open>X\<close> are the pure third-party functions, \<open>E\<close> the environment.
\<close>

section \<open>State\<close>

text \<open>
  The backend, the clock and the store live in the world \<open>mt_world\<close> and are reached through \<open>E\<close>;
  \<open>mt_store\<close> says whether a store was injected.
\<close>

record 'w mint =
  mt_keyset :: demo_keyset
  mt_mint_quotes :: "(string \<times> mint_quote_entry) list"
  mt_melt_quotes :: "(string \<times> melt_quote_entry) list"
  mt_spent_ys :: "string list"
  mt_issued_outputs :: "(string \<times> blind_signature) list"
  mt_store :: bool
  mt_world :: 'w

definition QUOTE_TTL_SECS :: u64 where "QUOTE_TTL_SECS = 3600"
definition MELT_STATE_FAILED :: string where "MELT_STATE_FAILED = ''FAILED''"

lemma failed_distinct [simp]:
  "MELT_STATE_FAILED \<noteq> PAID" "MELT_STATE_FAILED \<noteq> UNPAID" "MELT_STATE_FAILED \<noteq> PENDING"
  "PAID \<noteq> MELT_STATE_FAILED" "UNPAID \<noteq> MELT_STATE_FAILED" "PENDING \<noteq> MELT_STATE_FAILED"
  by (simp_all add: MELT_STATE_FAILED_def PAID_def UNPAID_def PENDING_def)

section \<open>Calls to the environment\<close>

definition on_world :: "('w, cashu_error, 'a) op \<Rightarrow> ('w mint, cashu_error, 'a) op" where
  "on_world m = (\<lambda>s. case m (mt_world s) of (r, w) \<Rightarrow> (r, s\<lparr>mt_world := w\<rparr>))"

definition clock_now :: "'w env \<Rightarrow> ('w mint, cashu_error, u64) op" where
  "clock_now E = on_world (\<lambda>w. case now_secs E w of (t, w') \<Rightarrow> (Ok t, w'))"

definition next_quote_id :: "'w env \<Rightarrow> ('w mint, cashu_error, string) op" where
  "next_quote_id E = on_world (\<lambda>w. case now_v7 E w of (q, w') \<Rightarrow> (Ok q, w'))"

definition quote_expiry :: "'w env \<Rightarrow> ('w mint, cashu_error, u64) op" where
  "quote_expiry E = bind (clock_now E) (\<lambda>now. lift_res (ok_or InvalidAmount (checked_add now QUOTE_TTL_SECS)))"

section \<open>Snapshots\<close>

definition signature_snap :: "externs \<Rightarrow> blind_signature \<Rightarrow> blind_signature_snap" where
  "signature_snap X sg =
     \<lparr>ss_amount = bs_amount sg, ss_id = bs_id sg, ss_c_hex = hex_encode X (to_bytes (bs_c sg)),
      ss_dleq = map_option (\<lambda>d. \<lparr>ds_e_hex = hex_encode X (to_secret_bytes (bd_e d)),
                                ds_s_hex = hex_encode X (to_secret_bytes (bd_s d))\<rparr>) (bs_dleq sg)\<rparr>"

definition snapshot :: "externs \<Rightarrow> 'w mint \<Rightarrow> mint_state_snapshot" where
  "snapshot X s =
     \<lparr>sn_mint_quotes = mt_mint_quotes s, sn_melt_quotes = mt_melt_quotes s,
      sn_spent_ys = mt_spent_ys s,
      sn_issued_outputs = map (\<lambda>(b, sg). (b, signature_snap X sg)) (mt_issued_outputs s)\<rparr>"

definition scalar_of_hex :: "externs \<Rightarrow> string \<Rightarrow> secret_key option" where
  "scalar_of_hex X h = (case hex_decode X h of None \<Rightarrow> None | Some b \<Rightarrow> sk_from_slice X b)"

definition dleq_of_snap :: "externs \<Rightarrow> dleq_snap \<Rightarrow> blind_signature_dleq option" where
  "dleq_of_snap X d =
     (case scalar_of_hex X (ds_e_hex d) of None \<Rightarrow> None
      | Some e \<Rightarrow> (case scalar_of_hex X (ds_s_hex d) of None \<Rightarrow> None
        | Some s \<Rightarrow> Some \<lparr>bd_e = e, bd_s = s\<rparr>))"

definition signature_of_snap :: "externs \<Rightarrow> blind_signature_snap \<Rightarrow> blind_signature option" where
  "signature_of_snap X g =
     (case hex_decode X (ss_c_hex g) of None \<Rightarrow> None
      | Some b \<Rightarrow> (case pk_from_bytes X b of None \<Rightarrow> None
        | Some c \<Rightarrow>
          (case ss_dleq g of
             None \<Rightarrow> Some \<lparr>bs_amount = ss_amount g, bs_id = ss_id g, bs_c = c, bs_dleq = None\<rparr>
           | Some d \<Rightarrow> map_option (\<lambda>dl. \<lparr>bs_amount = ss_amount g, bs_id = ss_id g, bs_c = c, bs_dleq = Some dl\<rparr>)
                         (dleq_of_snap X d))))"

text \<open>Collecting pairs into a \<^verbatim>\<open>HashMap\<close>: a later pair with the same key wins.\<close>

definition collect_map :: "('k \<times> 'v) list \<Rightarrow> ('k \<times> 'v) list" where
  "collect_map kvs = fold (\<lambda>(k, v) m. AList.update k v m) kvs []"

definition collect_set :: "'a list \<Rightarrow> 'a list" where
  "collect_set xs = fold List.insert xs []"

text \<open>The boot path panics on a malformed signature.\<close>

definition restore :: "externs \<Rightarrow> mint_state_snapshot \<Rightarrow> ('w mint, cashu_error, unit) op" where
  "restore X snap =
     (case map_opt (\<lambda>(b, g). map_option (Pair b) (signature_of_snap X g)) (sn_issued_outputs snap) of
        None \<Rightarrow> panic
      | Some issued \<Rightarrow>
          modify (\<lambda>s. s\<lparr>mt_mint_quotes := collect_map (sn_mint_quotes snap),
                        mt_melt_quotes := collect_map (sn_melt_quotes snap),
                        mt_spent_ys := collect_set (sn_spent_ys snap),
                        mt_issued_outputs := collect_map issued\<rparr>))"

definition persist :: "externs \<Rightarrow> 'w env \<Rightarrow> ('w mint, cashu_error, unit) op" where
  "persist X E = (\<lambda>s.
     if mt_store s then
       (case store_save E (snapshot X s) (mt_world s) of
          (True, w) \<Rightarrow> (Ok (), s\<lparr>mt_world := w\<rparr>)
        | (False, w) \<Rightarrow> (Panic, s\<lparr>mt_world := w\<rparr>))
     else (Ok (), s))"

section \<open>Construction\<close>

definition with_backend :: "externs \<Rightarrow> 'w \<Rightarrow> u64 \<Rightarrow> (cashu_error, 'w mint) res" where
  "with_backend X w input_fee_ppk =
     res_bind (demo_with_fee X input_fee_ppk) (\<lambda>k.
       Ok \<lparr>mt_keyset = k, mt_mint_quotes = [], mt_melt_quotes = [], mt_spent_ys = [],
           mt_issued_outputs = [], mt_store = False, mt_world = w\<rparr>)"

definition mint_new :: "externs \<Rightarrow> 'w \<Rightarrow> (cashu_error, 'w mint) res" where
  "mint_new X w = with_backend X w 0"

definition with_keyset_seed :: "externs \<Rightarrow> bytes \<Rightarrow> ('w mint, cashu_error, unit) op" where
  "with_keyset_seed X seed =
     bind (gets mt_keyset) (\<lambda>k.
     bind (lift_res (keyset_new X seed (dk_unit k) (dk_input_fee_ppk k))) (\<lambda>k'.
       modify (\<lambda>s. s\<lparr>mt_keyset := k'\<rparr>)))"

definition with_state_store :: "externs \<Rightarrow> 'w env \<Rightarrow> ('w mint, cashu_error, unit) op" where
  "with_state_store X E =
     bind (on_world (\<lambda>w. case store_load E w of (r, w') \<Rightarrow> (Ok r, w'))) (\<lambda>r.
     bind (case r of
             Inr (Some snap) \<Rightarrow> restore X snap
           | Inr None \<Rightarrow> (\<lambda>s. case store_save E (snapshot X s) (mt_world s) of
                 (True, w) \<Rightarrow> (Ok (), s\<lparr>mt_world := w\<rparr>)
               | (False, w) \<Rightarrow> (Panic, s\<lparr>mt_world := w\<rparr>))
           | Inl e \<Rightarrow> panic) (\<lambda>_.
       modify (\<lambda>s. s\<lparr>mt_store := True\<rparr>)))"

section \<open>Helpers\<close>

definition find_mint_quote :: "string \<Rightarrow> ('w mint, cashu_error, mint_quote_entry) op" where
  "find_mint_quote qid = (\<lambda>s. (ok_or QuoteNotFound (map_of (mt_mint_quotes s) qid), s))"

definition update_mint_quote ::
  "string \<Rightarrow> (mint_quote_entry \<Rightarrow> (cashu_error, mint_quote_entry) res) \<Rightarrow> ('w mint, cashu_error, unit) op" where
  "update_mint_quote qid f =
     bind (find_mint_quote qid) (\<lambda>e. bind (lift_res (f e)) (\<lambda>e'.
       modify (\<lambda>s. s\<lparr>mt_mint_quotes := AList.update qid e' (mt_mint_quotes s)\<rparr>)))"

definition find_melt_quote :: "string \<Rightarrow> ('w mint, cashu_error, melt_quote_entry) op" where
  "find_melt_quote qid = (\<lambda>s. (ok_or QuoteNotFound (map_of (mt_melt_quotes s) qid), s))"

definition set_melt_state :: "string \<Rightarrow> string \<Rightarrow> ('w mint, cashu_error, unit) op" where
  "set_melt_state qid st =
     bind (find_melt_quote qid) (\<lambda>e.
       modify (\<lambda>s. s\<lparr>mt_melt_quotes := AList.update qid (e\<lparr>le_state := st\<rparr>) (mt_melt_quotes s)\<rparr>))"

definition input_fee_total :: "demo_keyset \<Rightarrow> nut_proof list \<Rightarrow> (cashu_error, u64) res" where
  "input_fee_total k inputs =
     res_bind (ok_or InvalidAmount (checked_mul (dk_input_fee_ppk k) (word_of_nat (length inputs)))) (\<lambda>sum_ppk.
       ok_or InvalidAmount (map_option (\<lambda>v. v div 1000) (checked_add sum_ppk 999)))"

definition check_outputs_signable :: "demo_keyset \<Rightarrow> blinded_message list \<Rightarrow> (cashu_error, unit) res" where
  "check_outputs_signable k outputs =
     (if list_ex (\<lambda>m. bm_amount m \<noteq> 0 \<and> get_secret_key k (bm_amount m) = None) outputs
      then Err KeysetNotFound else Ok ())"

text \<open>The change-making loop: the largest denomination that fits, until nothing is left.\<close>

definition imprint_pieces :: "demo_keyset \<Rightarrow> u64 \<Rightarrow> (cashu_error, u64 list) res" where
  "imprint_pieces k remainder =
     (case while (\<lambda>(left, pieces, going). left > 0 \<and> going)
             (\<lambda>(left, pieces, going).
                case find (\<lambda>(a, _, _). a \<le> left) (rev (dk_keys k)) of
                  None \<Rightarrow> (left, pieces, False)
                | Some (d, _, _) \<Rightarrow> (left - d, pieces @ [d], True))
             (remainder, [], True)
      of (_, pieces, going) \<Rightarrow> if going then Ok pieces else Err InvalidAmount)"

fun fill_blanks :: "blinded_message list \<Rightarrow> u64 list \<Rightarrow> blinded_message list" where
  "fill_blanks [] ps = []"
| "fill_blanks (m # ms) ps =
     (if bm_amount m = 0 then
        (case ps of [] \<Rightarrow> m # fill_blanks ms [] | p # ps' \<Rightarrow> m\<lparr>bm_amount := p\<rparr> # fill_blanks ms ps')
      else m # fill_blanks ms ps)"

definition imprint_blank_outputs ::
  "demo_keyset \<Rightarrow> blinded_message list \<Rightarrow> u64 \<Rightarrow> nat \<Rightarrow> (cashu_error, blinded_message list) res" where
  "imprint_blank_outputs k outputs remainder blank_count =
     res_bind (imprint_pieces k remainder) (\<lambda>pieces.
       if length pieces > blank_count then Err AmountMismatch else Ok (fill_blanks outputs pieces))"

text \<open>
  The texts of the two DLEQ errors end with the third-party error, which is left out.
\<close>

definition sign_output :: "externs \<Rightarrow> 'w env \<Rightarrow> blinded_message \<Rightarrow> ('w mint, cashu_error, blind_signature) op" where
  "sign_output X E out =
     bind (gets mt_keyset) (\<lambda>k.
     bind (lift_res (ok_or KeysetNotFound (get_secret_key k (bm_amount out)))) (\<lambda>sk.
     bind (lift_res (ok_or (Crypto ''cashu::dhke::sign_message failed'') (dhke_sign_message X sk (bm_b out)))) (\<lambda>c.
     bind (guard_err (\<not> keyset_id_ok X (dk_id k)) (Crypto ''invalid keyset id'')) (\<lambda>_.
     bind (on_world (\<lambda>w. case dleq_new E sk (bm_b out) c w of
              (d, w') \<Rightarrow> (ok_or (Crypto ''DLEQ construction failed'') d, w'))) (\<lambda>dleq.
     bind (ret \<lparr>bs_amount = bm_amount out, bs_id = dk_id k, bs_c = c, bs_dleq = Some dleq\<rparr>) (\<lambda>sg.
     bind (modify (\<lambda>s. s\<lparr>mt_issued_outputs :=
              AList.update (hex_encode X (to_bytes (bm_b out))) sg (mt_issued_outputs s)\<rparr>)) (\<lambda>_.
       ret sg)))))))"

definition sign_outputs ::
  "externs \<Rightarrow> 'w env \<Rightarrow> blinded_message list \<Rightarrow> ('w mint, cashu_error, blind_signature list) op" where
  "sign_outputs X E outputs = map_op (sign_output X E) outputs"

definition proof_y_hex :: "externs \<Rightarrow> string \<Rightarrow> (cashu_error, string) res" where
  "proof_y_hex X secret =
     res_bind (ok_or (Crypto ''hash_to_curve failed'') (dhke_hash_to_curve X (as_bytes secret))) (\<lambda>y.
       Ok (hex_encode X (to_bytes y)))"

fun verify_proofs_from ::
  "externs \<Rightarrow> demo_keyset \<Rightarrow> string list \<Rightarrow> u64 \<Rightarrow> nut_proof list \<Rightarrow> (cashu_error, u64) res" where
  "verify_proofs_from X k spent sum0 [] = Ok sum0"
| "verify_proofs_from X k spent sum0 (p # ps) =
     (if pf_id p \<noteq> dk_id k then Err KeysetNotFound
      else res_bind (proof_y_hex X (pf_secret p)) (\<lambda>y.
        if y \<in> set spent then Err TokensAlreadySpent
        else res_bind (ok_or KeysetNotFound (get_secret_key k (pf_amount p))) (\<lambda>sk.
          if \<not> dhke_verify_message X sk (pf_c p) (as_bytes (pf_secret p)) then Err (Crypto ''verify_message failed'')
          else res_bind (ok_or InvalidAmount (checked_add sum0 (pf_amount p))) (\<lambda>sum'.
            verify_proofs_from X k spent sum' ps))))"

definition verify_proofs :: "externs \<Rightarrow> nut_proof list \<Rightarrow> ('w mint, cashu_error, u64) op" where
  "verify_proofs X proofs = (\<lambda>s. (verify_proofs_from X (mt_keyset s) (mt_spent_ys s) 0 proofs, s))"

text \<open>The two loops of \<^verbatim>\<open>claim_proofs\<close>: the batch check, then the insertions.\<close>

fun claim_check :: "string list \<Rightarrow> string list \<Rightarrow> string list \<Rightarrow> bool" where
  "claim_check spent batch [] = True"
| "claim_check spent batch (y # ys) =
     (if y \<in> set spent \<or> y \<in> set batch then False else claim_check spent (y # batch) ys)"

definition claim_proofs :: "externs \<Rightarrow> nut_proof list \<Rightarrow> ('w mint, cashu_error, unit) op" where
  "claim_proofs X proofs =
     bind (lift_res (map_res (\<lambda>p. proof_y_hex X (pf_secret p)) proofs)) (\<lambda>ys.
     bind (gets mt_spent_ys) (\<lambda>spent.
     bind (guard_err (\<not> claim_check spent [] ys) TokensAlreadySpent) (\<lambda>_.
       modify (\<lambda>s. s\<lparr>mt_spent_ys := fold List.insert ys (mt_spent_ys s)\<rparr>))))"

definition release_proof :: "externs \<Rightarrow> string list \<Rightarrow> nut_proof \<Rightarrow> string list" where
  "release_proof X spent p = (case proof_y_hex X (pf_secret p) of Ok y \<Rightarrow> removeAll y spent | _ \<Rightarrow> spent)"

definition verify_quote_signature ::
  "externs \<Rightarrow> string \<Rightarrow> string \<Rightarrow> blinded_message list \<Rightarrow> string option \<Rightarrow> (cashu_error, unit) res" where
  "verify_quote_signature X pubkey_hex quote_id outputs signature_hex =
     res_bind (ok_or QuoteSignatureInvalid signature_hex) (\<lambda>h.
     res_bind (ok_or QuoteSignatureInvalid (schnorr_from_str X h)) (\<lambda>sg.
     res_bind (ok_or QuoteSignatureInvalid (parse_compressed_pubkey X pubkey_hex)) (\<lambda>pk.
       if schnorr_verify X pk (quote_sig_message quote_id outputs) sg then Ok () else Err QuoteSignatureInvalid)))"

definition sum_amounts :: "blinded_message list \<Rightarrow> (cashu_error, u64) res" where
  "sum_amounts outputs = ok_or InvalidAmount (try_fold_add 0 (map bm_amount outputs))"

section \<open>NUT-06: mint information\<close>

definition bolt11_sat :: "payment_method list" where
  "bolt11_sat = [\<lparr>pm_method = ''bolt11'', pm_unit = ''sat''\<rparr>]"

definition demo_nuts :: "(string \<times> nut_settings) list" where
  "demo_nuts =
     [(''3'', nut_settings_default),
      (''4'', nut_settings_default\<lparr>ns_methods := bolt11_sat\<rparr>),
      (''5'', nut_settings_default\<lparr>ns_methods := bolt11_sat\<rparr>),
      (''6'', nut_settings_default), (''7'', nut_settings_default), (''9'', nut_settings_default),
      (''10'', nut_settings_default), (''11'', nut_settings_default),
      (''19'', nut_settings_default\<lparr>ns_ttl := None, ns_cached_endpoints :=
         [\<lparr>ce_method = ''POST'', ce_path = ''/v1/mint/bolt11''\<rparr>, \<lparr>ce_method = ''POST'', ce_path = ''/v1/swap''\<rparr>]\<rparr>),
      (''20'', nut_settings_default\<lparr>ns_supported := Some True\<rparr>),
      (''29'', nut_settings_default\<lparr>ns_methods := bolt11_sat, ns_max_batch_size := Some (word_of_nat MAX_BATCH_QUOTES)\<rparr>)]"

definition get_info :: "externs \<Rightarrow> 'w mint \<Rightarrow> (cashu_error, mint_info) res" where
  "get_info X s =
     (case dk_keys (mt_keyset s) of [] \<Rightarrow> Panic
      | (_, _, pk) # _ \<Rightarrow> Ok
          \<lparr>mi_name = ''Micronuts Demo Mint'', mi_pubkey = hex_encode X (to_bytes pk),
           mi_version = ''micronuts-mint/0.1.0'',
           mi_description = ''In-memory demo Cashu mint for Micronuts development'',
           mi_contact = [], mi_nuts = demo_nuts\<rparr>)"

section \<open>NUT-01, NUT-02: keys\<close>

definition get_keys :: "'w mint \<Rightarrow> key_set list" where
  "get_keys s = [to_public_keyset (mt_keyset s)]"

definition get_keysets :: "'w mint \<Rightarrow> keyset_info list" where
  "get_keysets s = [to_keyset_info (mt_keyset s)]"

section \<open>NUT-04: minting\<close>

definition post_mint_quote ::
  "externs \<Rightarrow> 'w env \<Rightarrow> mint_quote_request \<Rightarrow> ('w mint, cashu_error, mint_quote_response) op" where
  "post_mint_quote X E request =
     bind (guard_err (mqr_amount request = 0) InvalidAmount) (\<lambda>_.
     bind (next_quote_id E) (\<lambda>quote_id.
     bind (on_world (create_invoice E (mqr_amount request) ''micronuts'')) (\<lambda>invoice.
     bind (quote_expiry E) (\<lambda>expiry.
     bind (clock_now E) (\<lambda>now.
     bind (modify (\<lambda>s. s\<lparr>mt_mint_quotes := AList.update quote_id
              \<lparr>me_amount = mqr_amount request, me_unit = mqr_unit request, me_request = invoice,
               me_state = UNPAID, me_expiry = expiry, me_amount_paid = 0, me_amount_issued = 0,
               me_updated_at = now, me_pubkey = mqr_pubkey request\<rparr> (mt_mint_quotes s)\<rparr>)) (\<lambda>_.
     bind (persist X E) (\<lambda>_.
       ret \<lparr>mq_quote = quote_id, mq_request = invoice, mq_paid = False, mq_state = UNPAID,
            mq_expiry = expiry, mq_amount = mqr_amount request, mq_unit = mqr_unit request,
            mq_amount_paid = 0, mq_amount_issued = 0, mq_updated_at = now, mq_method = ''bolt11'',
            mq_pubkey = mqr_pubkey request\<rparr>)))))))"

definition bump_updated_at :: "u64 \<Rightarrow> mint_quote_entry \<Rightarrow> mint_quote_entry" where
  "bump_updated_at now e = e\<lparr>me_updated_at := max now (me_updated_at e + 1)\<rparr>"

definition refresh_mint_quote_state :: "externs \<Rightarrow> 'w env \<Rightarrow> string \<Rightarrow> ('w mint, cashu_error, unit) op" where
  "refresh_mint_quote_state X E quote_id =
     bind (find_mint_quote quote_id) (\<lambda>entry.
     if me_state entry \<noteq> UNPAID then ret ()
     else bind (clock_now E) (\<lambda>now.
       if now > me_expiry entry then ret ()
       else bind (on_world (is_settled E (me_request entry))) (\<lambda>settled.
         if settled then
           bind (clock_now E) (\<lambda>now.
           bind (update_mint_quote quote_id (\<lambda>e.
              Ok (bump_updated_at now (e\<lparr>me_state := PAID, me_amount_paid := me_amount e\<rparr>)))) (\<lambda>_.
             persist X E))
         else ret ())))"

definition mint_quote_view :: "string \<Rightarrow> mint_quote_entry \<Rightarrow> mint_quote_response" where
  "mint_quote_view quote_id entry =
     \<lparr>mq_quote = quote_id, mq_request = me_request entry,
      mq_paid = (me_state entry = PAID \<or> me_state entry = ISSUED), mq_state = me_state entry,
      mq_expiry = me_expiry entry, mq_amount = me_amount entry, mq_unit = me_unit entry,
      mq_amount_paid = me_amount_paid entry, mq_amount_issued = me_amount_issued entry,
      mq_updated_at = me_updated_at entry, mq_method = ''bolt11'', mq_pubkey = me_pubkey entry\<rparr>"

definition get_mint_quote :: "externs \<Rightarrow> 'w env \<Rightarrow> string \<Rightarrow> ('w mint, cashu_error, mint_quote_response) op" where
  "get_mint_quote X E quote_id =
     bind (refresh_mint_quote_state X E quote_id) (\<lambda>_.
     bind (find_mint_quote quote_id) (\<lambda>entry.
       ret (mint_quote_view quote_id entry)))"

definition require_paid :: "mint_quote_entry \<Rightarrow> ('w mint, cashu_error, unit) op" where
  "require_paid e =
     (if me_state e \<noteq> PAID
      then (if me_state e = ISSUED then throw QuoteAlreadyIssued else throw QuoteNotPaid)
      else ret ())"

definition record_issue :: "u64 \<Rightarrow> u64 \<Rightarrow> u64 \<Rightarrow> mint_quote_entry \<Rightarrow> (cashu_error, mint_quote_entry) res" where
  "record_issue now amount_issued output_sum e =
     res_bind (ok_or InvalidAmount (checked_add amount_issued output_sum)) (\<lambda>issued.
       Ok (bump_updated_at now
             (let e' = e\<lparr>me_amount_issued := issued\<rparr> in
              if issued = me_amount_paid e then e'\<lparr>me_state := ISSUED\<rparr> else e')))"

definition post_mint :: "externs \<Rightarrow> 'w env \<Rightarrow> mint_request \<Rightarrow> ('w mint, cashu_error, blind_signature list) op" where
  "post_mint X E request =
     bind (refresh_mint_quote_state X E (mr_quote request)) (\<lambda>_.
     bind (find_mint_quote (mr_quote request)) (\<lambda>entry.
     bind (require_paid entry) (\<lambda>_.
     bind (case me_pubkey entry of None \<Rightarrow> ret ()
           | Some pubkey_hex \<Rightarrow> lift_res (verify_quote_signature X pubkey_hex (mr_quote request)
                 (mr_outputs request) (mr_signature request))) (\<lambda>_.
     bind (lift_res (ok_or (Protocol ''amount_issued exceeded amount_paid'')
              (checked_sub (me_amount_paid entry) (me_amount_issued entry)))) (\<lambda>mintable.
     bind (lift_res (sum_amounts (mr_outputs request))) (\<lambda>output_sum.
     bind (guard_err (output_sum > mintable) AmountMismatch) (\<lambda>_.
     bind (sign_outputs X E (mr_outputs request)) (\<lambda>signatures.
     bind (clock_now E) (\<lambda>now.
     bind (update_mint_quote (mr_quote request) (record_issue now (me_amount_issued entry) output_sum)) (\<lambda>_.
     bind (persist X E) (\<lambda>_.
       ret signatures)))))))))))"

section \<open>NUT-29: batches\<close>

definition batch_check_mint_quotes ::
  "externs \<Rightarrow> 'w env \<Rightarrow> string list \<Rightarrow> ('w mint, cashu_error, mint_quote_response list) op" where
  "batch_check_mint_quotes X E quotes =
     bind (guard_err (length quotes > MAX_BATCH_QUOTES) BatchTooLarge) (\<lambda>_.
       map_op (get_mint_quote X E) quotes)"

text \<open>
  The loading loop of \<^verbatim>\<open>batch_mint\<close> over the quotes with their claimed amounts; it returns the
  entries and adds their amounts to the running total.
\<close>

fun batch_load ::
  "externs \<Rightarrow> 'w env \<Rightarrow> (string \<times> u64 option) list \<Rightarrow> u64
   \<Rightarrow> ('w mint, cashu_error, u64 \<times> (string \<times> u64 \<times> string option) list) op" where
  "batch_load X E [] sum0 = ret (sum0, [])"
| "batch_load X E ((quote_id, claimed) # qs) sum0 =
     bind (refresh_mint_quote_state X E quote_id) (\<lambda>_.
     bind (find_mint_quote quote_id) (\<lambda>entry.
     bind (require_paid entry) (\<lambda>_.
     bind (guard_err (me_unit entry \<noteq> ''sat'' \<or> me_amount entry = 0) AmountMismatch) (\<lambda>_.
     bind (guard_err (claimed \<noteq> None \<and> claimed \<noteq> Some (me_amount entry)) AmountMismatch) (\<lambda>_.
     bind (lift_res (ok_or InvalidAmount (checked_add sum0 (me_amount entry)))) (\<lambda>sum'.
     bind (batch_load X E qs sum') (\<lambda>(t, es).
       ret (t, (quote_id, me_amount entry, me_pubkey entry) # es))))))))"

fun batch_signatures ::
  "externs \<Rightarrow> blinded_message list \<Rightarrow> (string \<times> u64 \<times> string option) list \<Rightarrow> string option list
   \<Rightarrow> (cashu_error, unit) res" where
  "batch_signatures X outputs ((quote_id, _, pubkey) # es) (sg # sgs) =
     res_bind (case (pubkey, sg) of
         (Some pk, Some h) \<Rightarrow> verify_quote_signature X pk quote_id outputs (Some h)
       | (Some _, None) \<Rightarrow> Err QuoteSignatureInvalid
       | (None, Some _) \<Rightarrow> Err QuoteSignatureInvalid
       | (None, None) \<Rightarrow> Ok ()) (\<lambda>_. batch_signatures X outputs es sgs)"
| "batch_signatures X outputs _ _ = Ok ()"

definition claimed_amounts :: "string list \<Rightarrow> u64 list option \<Rightarrow> (string \<times> u64 option) list" where
  "claimed_amounts quotes amounts =
     zip quotes (case amounts of None \<Rightarrow> replicate (length quotes) None | Some as \<Rightarrow> map Some as)"

definition batch_mint :: "externs \<Rightarrow> 'w env \<Rightarrow> batch_mint_request \<Rightarrow> ('w mint, cashu_error, blind_signature list) op" where
  "batch_mint X E request =
     bind (guard_err (length (br_outputs request) > MAX_BATCH_OUTPUTS) TooManyOutputs) (\<lambda>_.
     bind (guard_err (br_quotes request = []) (Protocol ''batch mint requires at least one quote'')) (\<lambda>_.
     bind (guard_err (length (br_quotes request) > MAX_BATCH_QUOTES) BatchTooLarge) (\<lambda>_.
     bind (guard_err (\<not> distinct (br_quotes request)) BatchQuoteNotUnique) (\<lambda>_.
     bind (guard_err (case br_quote_amounts request of None \<Rightarrow> False
                      | Some as \<Rightarrow> length as \<noteq> length (br_quotes request)) AmountMismatch) (\<lambda>_.
     bind (batch_load X E (claimed_amounts (br_quotes request) (br_quote_amounts request)) 0) (\<lambda>(total_amount, entries).
     bind (case br_signatures request of
             None \<Rightarrow> guard_err (list_ex (\<lambda>(_, _, pk). pk \<noteq> None) entries) QuoteSignatureInvalid
           | Some sgs \<Rightarrow> bind (guard_err (length sgs \<noteq> length (br_quotes request)) QuoteSignatureInvalid) (\<lambda>_.
               lift_res (batch_signatures X (br_outputs request) entries sgs))) (\<lambda>_.
     bind (lift_res (sum_amounts (br_outputs request))) (\<lambda>output_sum.
     bind (guard_err (output_sum \<noteq> total_amount) AmountMismatch) (\<lambda>_.
     bind (gets mt_keyset) (\<lambda>k.
     bind (lift_res (check_outputs_signable k (br_outputs request))) (\<lambda>_.
     bind (sign_outputs X E (br_outputs request)) (\<lambda>signatures.
     bind (clock_now E) (\<lambda>now.
     bind (for_each (\<lambda>(quote_id, amount, _). update_mint_quote quote_id (\<lambda>e.
              Ok (bump_updated_at now (e\<lparr>me_amount_issued := amount, me_state := ISSUED\<rparr>)))) entries) (\<lambda>_.
     bind (persist X E) (\<lambda>_.
       ret signatures)))))))))))))))"

section \<open>NUT-05: melting\<close>

definition post_melt_quote ::
  "externs \<Rightarrow> 'w env \<Rightarrow> melt_quote_request \<Rightarrow> ('w mint, cashu_error, melt_quote_response) op" where
  "post_melt_quote X E request =
     bind (on_world (lookup_amount E (lqr_request request))) (\<lambda>amount.
     bind (next_quote_id E) (\<lambda>quote_id.
     bind (quote_expiry E) (\<lambda>expiry.
     bind (modify (\<lambda>s. s\<lparr>mt_melt_quotes := AList.update quote_id
              \<lparr>le_amount = amount, le_fee_reserve = 0, le_unit = lqr_unit request,
               le_request = lqr_request request, le_state = UNPAID, le_expiry = expiry\<rparr>
              (mt_melt_quotes s)\<rparr>)) (\<lambda>_.
     bind (persist X E) (\<lambda>_.
       ret \<lparr>lq_quote = quote_id, lq_amount = amount, lq_fee_reserve = 0, lq_paid = False,
            lq_state = UNPAID, lq_expiry = expiry, lq_request = lqr_request request,
            lq_unit = lqr_unit request, lq_method = ''bolt11''\<rparr>)))))"

definition get_melt_quote :: "string \<Rightarrow> ('w mint, cashu_error, melt_quote_response) op" where
  "get_melt_quote quote_id =
     bind (find_melt_quote quote_id) (\<lambda>entry.
       ret \<lparr>lq_quote = quote_id, lq_amount = le_amount entry, lq_fee_reserve = le_fee_reserve entry,
            lq_paid = (le_state entry = PAID), lq_state = le_state entry, lq_expiry = le_expiry entry,
            lq_request = le_request entry, lq_unit = le_unit entry, lq_method = ''bolt11''\<rparr>)"

text \<open>The loop that keeps the change outputs that fit the overpay, in request order.\<close>

fun fit_change :: "u64 \<Rightarrow> blinded_message list \<Rightarrow> blinded_message list \<times> u64 \<times> nat" where
  "fit_change budget [] = ([], budget, 0)"
| "fit_change budget (m # ms) =
     (if bm_amount m = 0 then
        (case fit_change budget ms of (fs, b, n) \<Rightarrow> (m # fs, b, Suc n))
      else if bm_amount m \<le> budget then
        (case fit_change (budget - bm_amount m) ms of (fs, b, n) \<Rightarrow> (m # fs, b, n))
      else fit_change budget ms)"

definition melt_change ::
  "demo_keyset \<Rightarrow> u64 \<Rightarrow> u64 \<Rightarrow> blinded_message list option \<Rightarrow> (cashu_error, blinded_message list option) res" where
  "melt_change k input_sum required outputs =
     (case outputs of None \<Rightarrow> Ok None
      | Some os \<Rightarrow>
          res_bind (ok_or AmountMismatch (checked_sub input_sum required)) (\<lambda>overpay.
            case fit_change overpay os of (filled, budget, blank_count) \<Rightarrow>
              res_bind (check_outputs_signable k filled) (\<lambda>_.
                if blank_count > 0 then map_ok Some (imprint_blank_outputs k filled budget blank_count)
                else Ok (Some filled))))"

definition check_melt_state :: "string \<Rightarrow> (cashu_error, unit) res" where
  "check_melt_state st =
     (if st = PAID then Err MeltAlreadyPaid
      else if st = UNPAID then Ok ()
      else if st = MELT_STATE_FAILED then Err PaymentFailed
      else Err (Protocol ''melt quote in unexpected state''))"

definition melt_required :: "u64 \<Rightarrow> u64 \<Rightarrow> u64 \<Rightarrow> (cashu_error, u64) res" where
  "melt_required amount fee_reserve fee =
     ok_or InvalidAmount (case checked_add amount fee_reserve of None \<Rightarrow> None | Some v \<Rightarrow> checked_add v fee)"

text \<open>Payment made: sign the change that was given an amount, and close the quote.\<close>

definition melt_paid ::
  "externs \<Rightarrow> 'w env \<Rightarrow> melt_request \<Rightarrow> blinded_message list option \<Rightarrow> string \<Rightarrow> ('w mint, cashu_error, melt_response) op" where
  "melt_paid X E request change_outputs preimage =
     bind (case change_outputs of None \<Rightarrow> ret None
           | Some os \<Rightarrow>
             (let filled = filter (\<lambda>m. bm_amount m > 0) os in
              if filled = [] then ret None
              else bind (sign_outputs X E filled) (\<lambda>sgs. ret (Some sgs)))) (\<lambda>change.
     bind (set_melt_state (lr_quote request) PAID) (\<lambda>_.
     bind (persist X E) (\<lambda>_.
     bind (find_melt_quote (lr_quote request)) (\<lambda>entry.
       ret \<lparr>ls_paid = True, ls_state = PAID, ls_payment_preimage = Some preimage, ls_change = change,
            ls_quote = lr_quote request, ls_amount = le_amount entry, ls_fee_reserve = le_fee_reserve entry,
            ls_unit = le_unit entry, ls_expiry = le_expiry entry, ls_request = le_request entry,
            ls_method = ''bolt11''\<rparr>))))"

definition melt_failed :: "externs \<Rightarrow> 'w env \<Rightarrow> melt_request \<Rightarrow> ('w mint, cashu_error, melt_response) op" where
  "melt_failed X E request =
     bind (modify (\<lambda>s. s\<lparr>mt_spent_ys := foldl (release_proof X) (mt_spent_ys s) (lr_inputs request)\<rparr>)) (\<lambda>_.
     bind (set_melt_state (lr_quote request) MELT_STATE_FAILED) (\<lambda>_.
     bind (persist X E) (\<lambda>_.
       throw PaymentFailed)))"

definition try_pay :: "'w env \<Rightarrow> string \<Rightarrow> u64 \<Rightarrow> ('w mint, cashu_error, string option) op" where
  "try_pay E invoice amount = (\<lambda>s.
     case on_world (pay_invoice E invoice amount) s of
       (Ok preimage, t) \<Rightarrow> (Ok (Some preimage), t)
     | (Err e, t) \<Rightarrow> (Ok None, t)
     | (Panic, t) \<Rightarrow> (Panic, t))"

definition post_melt :: "externs \<Rightarrow> 'w env \<Rightarrow> melt_request \<Rightarrow> ('w mint, cashu_error, melt_response) op" where
  "post_melt X E request =
     bind (find_melt_quote (lr_quote request)) (\<lambda>entry.
     bind (lift_res (check_melt_state (le_state entry))) (\<lambda>_.
     bind (verify_proofs X (lr_inputs request)) (\<lambda>input_sum.
     bind (clock_now E) (\<lambda>now.
     bind (lift_res (verify_spending_conditions X (lr_inputs request) (lr_outputs request)
              (Some (lr_quote request)) now)) (\<lambda>_.
     bind (gets mt_keyset) (\<lambda>k.
     bind (lift_res (input_fee_total k (lr_inputs request))) (\<lambda>fee.
     bind (lift_res (melt_required (le_amount entry) (le_fee_reserve entry) fee)) (\<lambda>required.
     bind (guard_err (input_sum < required) InsufficientInputs) (\<lambda>_.
     bind (lift_res (melt_change k input_sum required (lr_outputs request))) (\<lambda>change_outputs.
     bind (claim_proofs X (lr_inputs request)) (\<lambda>_.
     bind (set_melt_state (lr_quote request) PENDING) (\<lambda>_.
     bind (persist X E) (\<lambda>_.
     bind (try_pay E (le_request entry) (le_amount entry)) (\<lambda>paid.
       case paid of Some preimage \<Rightarrow> melt_paid X E request change_outputs preimage
       | None \<Rightarrow> melt_failed X E request))))))))))))))"

section \<open>NUT-03, NUT-07, NUT-09\<close>

definition post_swap :: "externs \<Rightarrow> 'w env \<Rightarrow> swap_request \<Rightarrow> ('w mint, cashu_error, blind_signature list) op" where
  "post_swap X E request =
     bind (verify_proofs X (sw_inputs request)) (\<lambda>input_sum.
     bind (clock_now E) (\<lambda>now.
     bind (lift_res (verify_spending_conditions X (sw_inputs request) (Some (sw_outputs request)) None now)) (\<lambda>_.
     bind (lift_res (sum_amounts (sw_outputs request))) (\<lambda>output_sum.
     bind (gets mt_keyset) (\<lambda>k.
     bind (lift_res (input_fee_total k (sw_inputs request))) (\<lambda>fee.
     bind (lift_res (ok_or InvalidAmount (checked_add output_sum fee))) (\<lambda>required.
     bind (guard_err (input_sum \<noteq> required) AmountMismatch) (\<lambda>_.
     bind (lift_res (check_outputs_signable k (sw_outputs request))) (\<lambda>_.
     bind (claim_proofs X (sw_inputs request)) (\<lambda>_.
     bind (sign_outputs X E (sw_outputs request)) (\<lambda>signatures.
     bind (persist X E) (\<lambda>_.
       ret signatures))))))))))))"

definition post_check_state :: "externs \<Rightarrow> public_key list \<Rightarrow> 'w mint \<Rightarrow> proof_state list" where
  "post_check_state X ys s =
     map (\<lambda>y. \<lparr>ps_y = y,
               ps_state = (if hex_encode X (to_bytes y) \<in> set (mt_spent_ys s) then SPENT else UNSPENT),
               ps_witness = None\<rparr>) ys"

definition post_restore :: "externs \<Rightarrow> public_key list \<Rightarrow> 'w mint \<Rightarrow> restore_output list" where
  "post_restore X outputs s =
     List.map_filter (\<lambda>b. map_option (\<lambda>sg. \<lparr>ro_y = b, ro_signature = sg\<rparr>)
       (map_of (mt_issued_outputs s) (hex_encode X (to_bytes b)))) outputs"

end
