(* ===== verification/Mint_Invariants.thy ===== *)
theory Mint_Invariants
  imports Mint_Core
begin

text \<open>
  What every handler of the mint keeps and how it may move the state. \<open>mint_inv\<close> is the
  well-formedness of the state; \<open>advance\<close> says how a state may change: quotes only move forward
  and keep their terms, proofs are never unspent, signatures are never forgotten. \<open>lawful\<close>
  combines both and is an instance of the contract \<open>state_preorder\<close>, so operations built from
  lawful ones are lawful; the handlers whose steps depend on each other are proved with triples.
\<close>

section \<open>Well-formed states\<close>

definition quote_ok :: "mint_quote_entry \<Rightarrow> bool" where
  "quote_ok e \<longleftrightarrow>
     me_state e = UNPAID \<and> me_amount_paid e = 0 \<and> me_amount_issued e = 0
     \<or> me_state e = PAID \<and> me_amount_paid e = me_amount e \<and> me_amount_issued e \<le> me_amount_paid e
     \<or> me_state e = ISSUED \<and> me_amount_paid e = me_amount e \<and> me_amount_issued e = me_amount_paid e"

definition signature_ok :: "demo_keyset \<Rightarrow> blind_signature \<Rightarrow> bool" where
  "signature_ok k sg \<longleftrightarrow> bs_id sg = dk_id k \<and> get_secret_key k (bs_amount sg) \<noteq> None \<and> bs_dleq sg \<noteq> None"

definition melt_states :: "string set" where
  "melt_states = {UNPAID, PENDING, PAID, MELT_STATE_FAILED}"

definition mint_inv :: "externs \<Rightarrow> 'w mint \<Rightarrow> bool" where
  "mint_inv X s \<longleftrightarrow>
     keyset_ok X (mt_keyset s)
     \<and> (\<forall>e \<in> ran (map_of (mt_mint_quotes s)). quote_ok e)
     \<and> (\<forall>e \<in> ran (map_of (mt_melt_quotes s)). le_state e \<in> melt_states)
     \<and> distinct (mt_spent_ys s)
     \<and> (\<forall>sg \<in> ran (map_of (mt_issued_outputs s)). signature_ok (mt_keyset s) sg)"

section \<open>How states may move\<close>

definition quote_rank :: "mint_quote_entry \<Rightarrow> nat" where
  "quote_rank e = (if me_state e = UNPAID then 0 else if me_state e = PAID then 1 else 2)"

definition quote_le :: "mint_quote_entry \<Rightarrow> mint_quote_entry \<Rightarrow> bool" where
  "quote_le e e' \<longleftrightarrow>
     me_amount e' = me_amount e \<and> me_unit e' = me_unit e \<and> me_request e' = me_request e
     \<and> me_expiry e' = me_expiry e \<and> me_pubkey e' = me_pubkey e
     \<and> quote_rank e \<le> quote_rank e' \<and> me_amount_paid e \<le> me_amount_paid e'
     \<and> me_amount_issued e \<le> me_amount_issued e'"

definition melt_rank :: "melt_quote_entry \<Rightarrow> nat" where
  "melt_rank e = (if le_state e = UNPAID then 0 else if le_state e = PENDING then 1 else 2)"

definition melt_le :: "melt_quote_entry \<Rightarrow> melt_quote_entry \<Rightarrow> bool" where
  "melt_le e e' \<longleftrightarrow>
     le_amount e' = le_amount e \<and> le_fee_reserve e' = le_fee_reserve e \<and> le_unit e' = le_unit e
     \<and> le_request e' = le_request e \<and> le_expiry e' = le_expiry e
     \<and> (melt_rank e < melt_rank e' \<or> le_state e' = le_state e)"

definition table_le :: "('v \<Rightarrow> 'v \<Rightarrow> bool) \<Rightarrow> ('k \<times> 'v) list \<Rightarrow> ('k \<times> 'v) list \<Rightarrow> bool" where
  "table_le le al bl \<longleftrightarrow> (\<forall>k v. map_of al k = Some v \<longrightarrow> (\<exists>v'. map_of bl k = Some v' \<and> le v v'))"

definition advance :: "'w mint \<Rightarrow> 'w mint \<Rightarrow> bool" where
  "advance s t \<longleftrightarrow>
     mt_keyset t = mt_keyset s \<and> mt_store t = mt_store s
     \<and> table_le quote_le (mt_mint_quotes s) (mt_mint_quotes t)
     \<and> table_le melt_le (mt_melt_quotes s) (mt_melt_quotes t)
     \<and> set (mt_spent_ys s) \<subseteq> set (mt_spent_ys t)
     \<and> table_le (\<lambda>_ _. True) (mt_issued_outputs s) (mt_issued_outputs t)"

definition lawful :: "externs \<Rightarrow> 'w mint \<Rightarrow> 'w mint \<Rightarrow> bool" where
  "lawful X s t \<longleftrightarrow> (mint_inv X s \<longrightarrow> mint_inv X t \<and> advance s t)"

lemma table_le_refl: "(\<And>v. le v v) \<Longrightarrow> table_le le al al"
  by (auto simp: table_le_def)

lemma table_le_trans:
  assumes "table_le le al bl" "table_le le bl cl" "\<And>u v w. le u v \<Longrightarrow> le v w \<Longrightarrow> le u w"
  shows "table_le le al cl"
  using assms unfolding table_le_def by meson

lemma table_le_update:
  assumes "\<And>v. le v v" "\<And>v. map_of al k = Some v \<Longrightarrow> le v v'"
  shows "table_le le al (AList.update k v' al)"
  using assms by (auto simp: table_le_def)

lemma quote_le_refl [simp]: "quote_le e e"
  by (simp add: quote_le_def)

lemma quote_le_trans: "quote_le a b \<Longrightarrow> quote_le b c \<Longrightarrow> quote_le a c"
  by (auto simp: quote_le_def)

lemma melt_le_refl [simp]: "melt_le e e"
  by (simp add: melt_le_def)

lemma melt_le_trans: "melt_le a b \<Longrightarrow> melt_le b c \<Longrightarrow> melt_le a c"
  by (auto simp: melt_le_def melt_rank_def split: if_splits)

lemma advance_refl: "advance s s"
  by (simp add: advance_def table_le_refl)

lemma advance_trans: "advance s t \<Longrightarrow> advance t u \<Longrightarrow> advance s u"
  unfolding advance_def
  using quote_le_trans melt_le_trans by (auto intro: table_le_trans)

interpretation lawful: state_preorder "lawful X" for X
  by unfold_locales (auto simp: lawful_def advance_refl intro: advance_trans)

text \<open>Operations that only touch the world, and those that also add signatures.\<close>

definition signing :: "'w mint \<Rightarrow> 'w mint \<Rightarrow> bool" where
  "signing s t \<longleftrightarrow>
     mt_keyset t = mt_keyset s \<and> mt_store t = mt_store s \<and> mt_mint_quotes t = mt_mint_quotes s
     \<and> mt_melt_quotes t = mt_melt_quotes s \<and> mt_spent_ys t = mt_spent_ys s"

definition quiet :: "'w mint \<Rightarrow> 'w mint \<Rightarrow> bool" where
  "quiet s t \<longleftrightarrow> signing s t \<and> mt_issued_outputs t = mt_issued_outputs s"

interpretation quiet: state_preorder quiet
  by unfold_locales (auto simp: quiet_def signing_def)

interpretation signing: state_preorder signing
  by unfold_locales (auto simp: signing_def)

lemma climbs_weaken: "climbs R m \<Longrightarrow> (\<And>s t. R s t \<Longrightarrow> R' s t) \<Longrightarrow> climbs R' m"
  by (auto simp: climbs_def)

named_theorems quiet_ops \<open>operations that only touch the world\<close>

lemma quiet_on_world [quiet_ops]: "climbs quiet (on_world m)"
  by (auto simp: climbs_def on_world_def quiet_def signing_def split: prod.splits)

lemma quiet_clock [quiet_ops]: "climbs quiet (clock_now E)"
  and quiet_id [quiet_ops]: "climbs quiet (next_quote_id E)"
  by (simp_all add: clock_now_def next_quote_id_def quiet_on_world)

lemma quiet_expiry [quiet_ops]: "climbs quiet (quote_expiry E)"
  by (simp add: quote_expiry_def quiet.climbs_bind quiet_clock quiet.climbs_lift_res)

lemma quiet_persist [quiet_ops]: "climbs quiet (persist X E)"
  by (auto simp: climbs_def persist_def quiet_def signing_def split: prod.splits bool.splits)

lemma quiet_find [quiet_ops]: "climbs quiet (find_mint_quote q)" "climbs quiet (find_melt_quote q)"
  by (simp_all add: climbs_def find_mint_quote_def find_melt_quote_def quiet.R_refl)

lemma quiet_verify_proofs [quiet_ops]: "climbs quiet (verify_proofs X ps)"
  by (simp add: climbs_def verify_proofs_def quiet.R_refl)

lemma quiet_require_paid [quiet_ops]: "climbs quiet (require_paid e)"
  by (simp add: require_paid_def quiet.climbs_rules)

lemma quiet_try_pay [quiet_ops]: "climbs quiet (try_pay E iv a)"
  using quiet_on_world[of "pay_invoice E iv a"]
  by (auto simp: climbs_def try_pay_def split: prod.split res.split) (metis snd_conv)+

lemma lawful_quiet: "quiet s t \<Longrightarrow> lawful X s t"
  by (auto simp: quiet_def signing_def lawful_def mint_inv_def advance_def table_le_refl)

lemma lawful_world: "climbs quiet m \<Longrightarrow> climbs (lawful X) m"
  by (erule climbs_weaken) (rule lawful_quiet)

section \<open>Signing\<close>

lemma ran_update: "v \<in> ran (m(k \<mapsto> x)) \<Longrightarrow> v = x \<or> v \<in> ran m"
  by (auto simp: ran_def split: if_splits)

lemma signing_sign_output: "climbs signing (sign_output X E m)"
  unfolding sign_output_def
  by (intro signing.climbs_rules signing.climbs_modify climbs_weaken[OF quiet_on_world])
    (auto simp: signing_def quiet_def)

lemma signing_sign_outputs: "climbs signing (sign_outputs X E ms)"
  unfolding sign_outputs_def by (intro signing.climbs_map_op signing_sign_output)

lemma sign_output_Ok:
  assumes "sign_output X E m s = (Ok sg, t)"
  obtains sk d where "get_secret_key (mt_keyset s) (bm_amount m) = Some sk"
    "dhke_sign_message X sk (bm_b m) = Some (bs_c sg)"
    "sg = \<lparr>bs_amount = bm_amount m, bs_id = dk_id (mt_keyset s), bs_c = bs_c sg, bs_dleq = Some d\<rparr>"
    "mt_issued_outputs t = AList.update (hex_encode X (to_bytes (bm_b m))) sg (mt_issued_outputs s)"
  using assms
  by (auto simp: sign_output_def on_world_def bind_def
      split: res.splits prod.splits if_splits option.splits)

lemma sign_output_unchanged:
  assumes "sign_output X E m s = (r, t)" "\<not> is_ok r"
  shows "mt_issued_outputs t = mt_issued_outputs s"
  using assms
  by (auto simp: sign_output_def on_world_def bind_def
      split: res.splits prod.splits if_splits option.splits)

lemma lawful_sign_output: "climbs (lawful X) (sign_output X E m)"
  unfolding climbs_def
proof
  fix s :: "'a mint"
  obtain r t where rt: "sign_output X E m s = (r, t)" by fastforce
  have sg: "signing s t" using climbsD[OF signing_sign_output rt] .
  show "lawful X s (snd (sign_output X E m s))"
  proof (cases r)
    case (Ok g)
    with rt have eq: "sign_output X E m s = (Ok g, t)" by simp
    obtain sk d where k: "get_secret_key (mt_keyset s) (bm_amount m) = Some sk"
      "g = \<lparr>bs_amount = bm_amount m, bs_id = dk_id (mt_keyset s), bs_c = bs_c g, bs_dleq = Some d\<rparr>"
      "mt_issued_outputs t = AList.update (hex_encode X (to_bytes (bm_b m))) g (mt_issued_outputs s)"
      by (rule sign_output_Ok[OF eq])
    from k(1) have "signature_ok (mt_keyset s) g"
      by (subst k(2)) (simp add: signature_ok_def)
    with sg k(3) rt show ?thesis
      by (auto simp: lawful_def mint_inv_def advance_def signing_def table_le_refl dest!: ran_update
          intro!: table_le_update)
  next
    case (Err e)
    with sg rt sign_output_unchanged[OF rt] show ?thesis by (simp add: lawful_quiet quiet_def)
  next
    case Panic
    with sg rt sign_output_unchanged[OF rt] show ?thesis by (simp add: lawful_quiet quiet_def)
  qed
qed

lemma lawful_sign_outputs: "climbs (lawful X) (sign_outputs X E ms)"
  unfolding sign_outputs_def by (intro lawful.climbs_map_op lawful_sign_output)

section \<open>Mint quotes\<close>

lemma update_mint_quote_lawful:
  assumes "map_of (mt_mint_quotes s) q = Some e" "f e = Ok e'" "quote_le e e'" "quote_ok e'"
  shows "lawful X s (s\<lparr>mt_mint_quotes := AList.update q e' (mt_mint_quotes s)\<rparr>)"
  using assms
  by (auto simp: lawful_def mint_inv_def advance_def table_le_refl dest!: ran_update intro!: table_le_update)

definition settle :: "u64 \<Rightarrow> mint_quote_entry \<Rightarrow> mint_quote_entry" where
  "settle now e = bump_updated_at now (e\<lparr>me_state := PAID, me_amount_paid := me_amount e\<rparr>)"

lemma settle_ok:
  assumes "quote_ok e" "me_state e = UNPAID"
  shows "quote_ok (settle now e)" "quote_le e (settle now e)"
  using assms
  by (auto simp: settle_def quote_ok_def quote_le_def quote_rank_def bump_updated_at_def)

definition along :: "externs \<Rightarrow> 'w mint \<Rightarrow> 'w mint \<Rightarrow> bool" where
  "along X s0 s \<longleftrightarrow> mint_inv X s0 \<and> mint_inv X s \<and> advance s0 s"

lemma along_lawful: "along X s0 s \<Longrightarrow> lawful X s t \<Longrightarrow> along X s0 t"
  by (auto simp: along_def lawful_def intro: advance_trans)

lemma along_start: "mint_inv X s0 \<Longrightarrow> along X s0 s0"
  by (simp add: along_def advance_refl)

lemma lawfulI:
  assumes "\<And>s0. hoare (along X s0) (along X s0) m (\<lambda>_. along X s0)"
  shows "climbs (lawful X) m"
proof -
  have "along X s (snd (m s))" if "mint_inv X s" for s
    using hoare_final[OF assms[of s] along_start[OF that]] by simp
  then show ?thesis by (auto simp: climbs_def lawful_def along_def)
qed

lemma along_quote_ok: "along X s0 s \<Longrightarrow> map_of (mt_mint_quotes s) q = Some e \<Longrightarrow> quote_ok e"
  by (auto simp: along_def mint_inv_def ranI)

text \<open>Steps of a triple: looking a quote up, a quiet step, a signing step, updating a quote.\<close>

lemma hoare_find_mint_quote:
  assumes "\<And>s. P s \<Longrightarrow> J s"
  shows "hoare J P (find_mint_quote q) (\<lambda>e s. P s \<and> map_of (mt_mint_quotes s) q = Some e)"
  using assms by (auto simp: hoare_def find_mint_quote_def split: res.split)

lemma hoare_lift:
  assumes "\<And>s. P s \<Longrightarrow> J s"
  shows "hoare J P (lift_res r) (\<lambda>x s. P s \<and> r = Ok x)"
  using assms by (intro hoare_lift_res) auto

lemma hoare_guard:
  assumes "\<And>s. P s \<Longrightarrow> J s"
  shows "hoare J P (guard_err b e) (\<lambda>_ s. P s \<and> \<not> b)"
  using assms by (intro hoare_guard_err) auto

lemma hoare_require_paid:
  assumes "\<And>s. P s \<Longrightarrow> J s"
  shows "hoare J P (require_paid e) (\<lambda>_ s. P s \<and> me_state e = PAID)"
  using assms by (simp add: require_paid_def hoare_def)

lemma hoare_quiet:
  assumes "climbs quiet m" "\<And>s t. P s \<Longrightarrow> quiet s t \<Longrightarrow> P t" "\<And>s. P s \<Longrightarrow> J s"
  shows "hoare J P m (\<lambda>_. P)"
  using assms by (intro hoare_climbs[OF assms(1)]) auto

lemma hoare_signs:
  assumes "\<And>s t. P s \<Longrightarrow> lawful X s t \<Longrightarrow> signing s t \<Longrightarrow> P t" "\<And>s. P s \<Longrightarrow> J s"
  shows "hoare J P (sign_outputs X E ms) (\<lambda>_. P)"
proof (rule hoare_climbs[where R = "\<lambda>s t. lawful X s t \<and> signing s t"])
  show "climbs (\<lambda>s t. lawful X s t \<and> signing s t) (sign_outputs X E ms)"
    using lawful_sign_outputs signing_sign_outputs by (fastforce simp: climbs_def)
qed (use assms in auto)

lemma hoare_update_quote:
  assumes "\<And>s. P s \<Longrightarrow> J s" "\<And>s. P s \<Longrightarrow> map_of (mt_mint_quotes s) q = Some e"
    and "\<And>s e'. P s \<Longrightarrow> f e = Ok e' \<Longrightarrow> Q (s\<lparr>mt_mint_quotes := AList.update q e' (mt_mint_quotes s)\<rparr>)"
  shows "hoare J P (update_mint_quote q f) (\<lambda>_. Q)"
  unfolding hoare_def
proof (intro allI impI)
  fix s assume s: "P s"
  then show "case update_mint_quote q f s of (Ok x, t) \<Rightarrow> Q t | (Err x, t) \<Rightarrow> J t | (Panic, t) \<Rightarrow> J t"
    using assms(1,2)[OF s] assms(3)[OF s]
    by (auto simp: update_mint_quote_def find_mint_quote_def bind_def split: res.split)
qed

lemma along_quiet: "along X s0 s \<Longrightarrow> quiet s t \<Longrightarrow> along X s0 t"
  by (blast intro: along_lawful lawful_quiet)

lemma quiet_tables: "quiet s t \<Longrightarrow> mt_mint_quotes t = mt_mint_quotes s"
  "quiet s t \<Longrightarrow> mt_melt_quotes t = mt_melt_quotes s"
  "quiet s t \<Longrightarrow> mt_spent_ys t = mt_spent_ys s"
  "quiet s t \<Longrightarrow> mt_keyset t = mt_keyset s"
  by (simp_all add: quiet_def signing_def)

lemma along_update:
  assumes "along X s0 s" "map_of (mt_mint_quotes s) q = Some e" "quote_le e e'" "quote_ok e'"
  shows "along X s0 (s\<lparr>mt_mint_quotes := AList.update q e' (mt_mint_quotes s)\<rparr>)"
  using along_lawful[OF assms(1) update_mint_quote_lawful[where f = "\<lambda>_. Ok e'"]] assms by blast

lemma lawful_refresh: "climbs (lawful X) (refresh_mint_quote_state X E q)"
proof (rule lawfulI)
  fix s0 :: "'a mint"
  let ?P = "\<lambda>e s. along X s0 s \<and> map_of (mt_mint_quotes s) q = Some e"
  have quiet: "?P e t" if "?P e s" "quiet s t" for e s t
    using that along_quiet quiet_tables(1) by metis
  show "hoare (along X s0) (along X s0) (refresh_mint_quote_state X E q) (\<lambda>_. along X s0)"
    unfolding refresh_mint_quote_state_def
  proof (rule hoare_bind[where Q = ?P])
    show "hoare (along X s0) (along X s0) (find_mint_quote q) ?P"
      by (rule hoare_find_mint_quote)
  next
    fix e
    show "hoare (along X s0) (?P e)
       (if me_state e \<noteq> UNPAID then ret ()
        else bind (clock_now E) (\<lambda>now. if me_expiry e < now then ret ()
          else bind (on_world (is_settled E (me_request e))) (\<lambda>settled.
            if settled then bind (clock_now E) (\<lambda>now.
              bind (update_mint_quote q (\<lambda>e. Ok (bump_updated_at now (e\<lparr>me_state := PAID, me_amount_paid := me_amount e\<rparr>))))
                (\<lambda>_. persist X E))
            else ret ()))) (\<lambda>_. along X s0)"
    proof (cases "me_state e = UNPAID")
      case True
      have upd: "hoare (along X s0) (?P e)
          (update_mint_quote q (\<lambda>e. Ok (bump_updated_at now (e\<lparr>me_state := PAID, me_amount_paid := me_amount e\<rparr>))))
          (\<lambda>_. along X s0)" for now
        using True settle_ok[of e now]
        by (intro hoare_update_quote) (auto simp: settle_def dest: along_quote_ok intro: along_update)
      have pers: "hoare (along X s0) (along X s0) (persist X E) (\<lambda>_. along X s0)"
        by (intro hoare_quiet quiet_ops) (auto intro: along_quiet)
      from True show ?thesis
        by (auto intro!: hoare_bind[OF hoare_quiet[OF quiet_clock quiet]] hoare_ret
            hoare_bind[OF hoare_quiet[OF quiet_on_world quiet]] hoare_bind[OF upd] pers)
    qed (auto intro!: hoare_ret)
  qed
qed

lemma record_issue_ok:
  assumes "quote_ok e" "me_state e = PAID"
    and "checked_sub (me_amount_paid e) (me_amount_issued e) = Some mintable" "\<not> mintable < output_sum"
    and "record_issue now (me_amount_issued e) output_sum e = Ok e'"
  shows "quote_ok e' \<and> quote_le e e'"
    and "unat (me_amount_issued e') = unat (me_amount_issued e) + unat output_sum"
    and "me_state e' = ISSUED \<longleftrightarrow> me_amount_issued e' = me_amount_paid e'"
proof -
  from assms(5) obtain issued where i: "checked_add (me_amount_issued e) output_sum = Some issued"
    "e' = bump_updated_at now (if issued = me_amount_paid e then e\<lparr>me_amount_issued := issued, me_state := ISSUED\<rparr>
            else e\<lparr>me_amount_issued := issued\<rparr>)"
    by (auto simp: record_issue_def Let_def)
  note n = checked_add_Some[OF i(1)] checked_sub_Some[OF assms(3)]
  from n assms(4) have "me_amount_issued e \<le> issued" "issued \<le> me_amount_paid e"
    by (auto simp: word_le_nat_alt word_less_nat_alt)
  with i(2) assms(1,2) show "quote_ok e' \<and> quote_le e e'"
    by (auto simp: quote_ok_def quote_le_def quote_rank_def bump_updated_at_def)
  show "unat (me_amount_issued e') = unat (me_amount_issued e) + unat output_sum"
    using n i(2) by (auto simp: bump_updated_at_def)
  show "me_state e' = ISSUED \<longleftrightarrow> me_amount_issued e' = me_amount_paid e'"
    using i(2) assms(2) by (cases "issued = me_amount_paid e") (simp_all add: bump_updated_at_def)
qed

lemma hoare_persist: "hoare (along X s0) (along X s0) (persist X E) (\<lambda>_. along X s0)"
  by (intro hoare_quiet quiet_ops) (auto intro: along_quiet)

lemma hoare_optional:
  assumes "\<And>s. P s \<Longrightarrow> J s"
  shows "hoare J P (case x of None \<Rightarrow> ret () | Some v \<Rightarrow> lift_res (g v)) (\<lambda>_. P)"
  using assms by (auto intro!: hoare_ret hoare_lift_res split: option.split)

lemma hoare_gets_keep: "hoare J P (gets g) (\<lambda>x s. P s \<and> x = g s)"
  by (simp add: hoare_def)

lemma hoare_lawful:
  assumes "climbs (lawful X) m"
  shows "hoare (along X s0) (along X s0) m (\<lambda>_. along X s0)"
  by (rule hoare_climbs[OF assms]) (auto intro: along_lawful)

lemmas hoare_steps =
  hoare_bind[OF hoare_find_mint_quote] hoare_bind[OF hoare_lift] hoare_bind[OF hoare_guard]
  hoare_bind[OF hoare_require_paid] hoare_bind[OF hoare_optional] hoare_bind[OF hoare_signs]
  hoare_bind[OF hoare_gets_keep] hoare_bind[OF hoare_quiet[OF quiet_clock]]
  hoare_bind[OF hoare_quiet[OF quiet_on_world]] hoare_bind[OF hoare_quiet[OF quiet_verify_proofs]]
  hoare_bind[OF hoare_persist]

text \<open>The same steps where the values they return do not matter.\<close>

lemma hoare_lift_keep: "(\<And>s. P s \<Longrightarrow> J s) \<Longrightarrow> hoare J P (lift_res r) (\<lambda>_. P)"
  and hoare_guard_keep: "(\<And>s. P s \<Longrightarrow> J s) \<Longrightarrow> hoare J P (guard_err b e) (\<lambda>_. P)"
  by (cases r) (simp_all add: hoare_def)

lemma hoare_gets_drop: "hoare J P (gets g) (\<lambda>_. P)"
  by (simp add: hoare_def)

text \<open>Facts that do not depend on the state are better kept outside the assertion.\<close>

lemma hoare_guard_then:
  assumes "\<not> b \<Longrightarrow> hoare J P m R" "\<And>s. P s \<Longrightarrow> J s"
  shows "hoare J P (bind (guard_err b e) (\<lambda>_. m)) R"
  using assms by (cases b) (auto simp: hoare_def)

lemma hoare_lift_then:
  assumes "\<And>x. r = Ok x \<Longrightarrow> hoare J P (f x) R" "\<And>s. P s \<Longrightarrow> J s"
  shows "hoare J P (bind (lift_res r) f) R"
  using assms by (cases r) (auto simp: hoare_def)

lemma hoare_assume:
  assumes "A \<Longrightarrow> hoare J P m R"
  shows "hoare J (\<lambda>s. P s \<and> A) m R"
  using assms by (auto simp: hoare_def)

lemmas hoare_keeps =
  hoare_bind[OF hoare_lift_keep] hoare_bind[OF hoare_guard_keep] hoare_bind[OF hoare_gets_drop]
  hoare_bind[OF hoare_signs] hoare_bind[OF hoare_quiet[OF quiet_clock]] hoare_bind[OF hoare_persist]

lemmas along_facts = along_quiet along_lawful along_quote_ok

lemma along_issue:
  assumes "along X s0 s" "map_of (mt_mint_quotes s) q = Some e" "me_state e = PAID"
    and "checked_sub (me_amount_paid e) (me_amount_issued e) = Some m" "\<not> m < n"
    and "record_issue now (me_amount_issued e) n e = Ok e'"
  shows "along X s0 (s\<lparr>mt_mint_quotes := AList.update q e' (mt_mint_quotes s)\<rparr>)"
  using along_update[OF assms(1,2)] record_issue_ok(1)[OF along_quote_ok[OF assms(1,2)] assms(3-6)] by blast

lemma lawful_post_mint: "climbs (lawful X) (post_mint X E r)"
proof (rule lawfulI)
  fix s0 :: "'a mint"
  show "hoare (along X s0) (along X s0) (post_mint X E r) (\<lambda>_. along X s0)"
    unfolding post_mint_def
    by (rule hoare_bind[OF hoare_lawful[OF lawful_refresh]],
        intro hoare_steps hoare_bind[OF hoare_update_quote[where Q = "along X s0"]])
      (auto simp: quiet_tables signing_def intro!: hoare_ret intro: along_facts along_issue)
qed

lemma lawful_get_mint_quote: "climbs (lawful X) (get_mint_quote X E q)"
  unfolding get_mint_quote_def
  by (intro lawful.climbs_rules lawful_refresh lawful_world quiet_ops)

lemma lawful_batch_check: "climbs (lawful X) (batch_check_mint_quotes X E qs)"
  unfolding batch_check_mint_quotes_def
  by (intro lawful.climbs_rules lawful_get_mint_quote)

section \<open>Batches\<close>

text \<open>Refreshing a quote leaves every other quote, and every quote that was paid, alone.\<close>

definition refreshed :: "string \<Rightarrow> 'w mint \<Rightarrow> 'w mint \<Rightarrow> bool" where
  "refreshed q s t \<longleftrightarrow>
     mt_mint_quotes t = mt_mint_quotes s
     \<or> (\<exists>e now. map_of (mt_mint_quotes s) q = Some e \<and> me_state e = UNPAID
          \<and> mt_mint_quotes t = AList.update q (settle now e) (mt_mint_quotes s))"

lemma refresh_quotes:
  assumes "refresh_mint_quote_state X E q s = (r, t)"
  shows "refreshed q s t"
proof -
  let ?D = "refreshed q s"
  let ?same = "\<lambda>t. mt_mint_quotes t = mt_mint_quotes s"
  have same: "?same u \<Longrightarrow> ?D u" for u by (simp add: refreshed_def)
  have pers: "hoare ?D ?D (persist X E) (\<lambda>_. ?D)"
    by (intro hoare_quiet quiet_ops) (auto simp: quiet_tables refreshed_def)
  have upd: "hoare ?D (\<lambda>u. ?same u \<and> map_of (mt_mint_quotes s) q = Some e)
      (update_mint_quote q (\<lambda>e. Ok (bump_updated_at now (e\<lparr>me_state := PAID, me_amount_paid := me_amount e\<rparr>)))) (\<lambda>_. ?D)"
    if "me_state e = UNPAID" for e now
    using that by (intro hoare_update_quote[where e = e]) (auto simp: refreshed_def simp flip: settle_def)
  have "hoare ?D ?same (refresh_mint_quote_state X E q) (\<lambda>_. ?D)"
    unfolding refresh_mint_quote_state_def
  proof (rule hoare_bind[where Q = "\<lambda>e u. ?same u \<and> map_of (mt_mint_quotes s) q = Some e"])
    show "hoare ?D ?same (find_mint_quote q) (\<lambda>e u. ?same u \<and> map_of (mt_mint_quotes s) q = Some e)"
      by (auto simp: hoare_def find_mint_quote_def same split: res.split)
  qed (auto intro!: hoare_ret hoare_bind[OF hoare_quiet[OF quiet_clock]] hoare_bind[OF upd] pers
      hoare_bind[OF hoare_quiet[OF quiet_on_world]] simp: quiet_tables same)
  from hoare_final[OF this, of s] show ?thesis by (simp add: assms)
qed

definition paid_entry :: "'w mint \<Rightarrow> string \<times> u64 \<times> string option \<Rightarrow> bool" where
  "paid_entry s x = (case x of (q, a, pk) \<Rightarrow>
     \<exists>e. map_of (mt_mint_quotes s) q = Some e \<and> me_state e = PAID \<and> me_amount e = a \<and> me_pubkey e = pk)"

lemma refresh_keeps_paid:
  assumes "refresh_mint_quote_state X E q s = (r, t)" "paid_entry s x"
  shows "paid_entry t x"
  using refresh_quotes[OF assms(1)] assms(2) by (auto simp: refreshed_def paid_entry_def split: if_splits)

lemma hoare_refresh_paid:
  "hoare (along X s0) (\<lambda>s. along X s0 s \<and> list_all (paid_entry s) es)
     (refresh_mint_quote_state X E q) (\<lambda>_ s. along X s0 s \<and> list_all (paid_entry s) es)"
proof -
  have "along X s0 t \<and> (list_all (paid_entry s) es \<longrightarrow> list_all (paid_entry t) es)"
    if "along X s0 s" "refresh_mint_quote_state X E q s = (r, t)" for s r t
    using climbsD[OF lawful_refresh that(2)] that along_lawful refresh_keeps_paid[OF that(2)]
    by (auto simp: list_all_iff)
  then show ?thesis unfolding hoare_def by (auto split: prod.split res.split)
qed

lemma paid_entry_quotes: "mt_mint_quotes t = mt_mint_quotes s \<Longrightarrow> paid_entry t = paid_entry s"
  by (simp add: paid_entry_def fun_eq_iff)

lemma along_paid_quiet:
  "along X s0 s \<and> list_all (paid_entry s) es \<Longrightarrow> quiet s t \<Longrightarrow> along X s0 t \<and> list_all (paid_entry t) es"
  using along_quiet paid_entry_quotes[OF quiet_tables(1)] by metis

lemma along_paid_signing:
  assumes "along X s0 s \<and> list_all (paid_entry s) es" "lawful X s t" "signing s t"
  shows "along X s0 t \<and> list_all (paid_entry t) es"
  using assms along_lawful paid_entry_quotes[of t s] by (auto simp: signing_def)

lemma hoare_batch_load:
  "hoare (along X s0) (\<lambda>s. along X s0 s \<and> list_all (paid_entry s) es)
     (batch_load X E qs n)
     (\<lambda>(m, fs) s. along X s0 s \<and> list_all (paid_entry s) (es @ fs) \<and> map fst fs = map fst qs
        \<and> unat m = unat n + sum_nat (map (\<lambda>(_, a, _). a) fs))"
proof (induction qs arbitrary: n es)
  case Nil
  show ?case unfolding batch_load.simps by (rule hoare_ret) auto
next
  case (Cons x qs)
  obtain q c where x: "x = (q, c)" by (cases x)
  let ?P = "\<lambda>es s. along X s0 s \<and> list_all (paid_entry s) es"
  have rest: "hoare (along X s0) (?P (es @ [(q, me_amount e, me_pubkey e)]))
      (bind (batch_load X E qs n') (\<lambda>(t, fs). ret (t, (q, me_amount e, me_pubkey e) # fs)))
      (\<lambda>(m, fs) s. ?P (es @ fs) s \<and> map fst fs = q # map fst qs
        \<and> unat m = unat n + sum_nat (map (\<lambda>(_, a, _). a) fs))"
    if "checked_add n (me_amount e) = Some n'" for e n'
    using checked_add_Some[OF that]
    by (intro hoare_bind[OF Cons.IH]) (auto intro!: hoare_ret)
  show ?case
    unfolding x batch_load.simps
  proof (rule hoare_bind[OF hoare_refresh_paid], rule hoare_bind[OF hoare_find_mint_quote],
      simp, intro hoare_bind[OF hoare_lift] hoare_bind[OF hoare_guard] hoare_bind[OF hoare_require_paid])
    fix e n'
    show "hoare (along X s0)
        (\<lambda>s. (((((?P es s \<and> map_of (mt_mint_quotes s) q = Some e) \<and> me_state e = PAID)
          \<and> \<not> (me_unit e \<noteq> ''sat'' \<or> me_amount e = 0)) \<and> \<not> (c \<noteq> None \<and> c \<noteq> Some (me_amount e)))
          \<and> ok_or InvalidAmount (checked_add n (me_amount e)) = Ok n'))
        (bind (batch_load X E qs n') (\<lambda>(t, fs). ret (t, (q, me_amount e, me_pubkey e) # fs)))
        (\<lambda>(m, fs) s. along X s0 s \<and> list_all (paid_entry s) (es @ fs) \<and> map fst fs = map fst ((q, c) # qs)
          \<and> unat m = unat n + sum_nat (map (\<lambda>(_, a, _). a) fs))"
    proof (cases "checked_add n (me_amount e) = Some n'")
      case True
      show ?thesis by (rule hoare_weaken[OF rest[OF True]]) (auto simp: paid_entry_def)
    qed (simp add: hoare_def)
  qed auto
qed

definition issue_all :: "u64 \<Rightarrow> u64 \<Rightarrow> mint_quote_entry \<Rightarrow> (cashu_error, mint_quote_entry) res" where
  "issue_all now amount e = Ok (bump_updated_at now (e\<lparr>me_amount_issued := amount, me_state := ISSUED\<rparr>))"

lemma issue_all_ok:
  assumes "quote_ok e" "me_state e = PAID" "issue_all now (me_amount e) e = Ok e'"
  shows "quote_le e e' \<and> quote_ok e'"
  using assms by (auto simp: issue_all_def quote_ok_def quote_le_def quote_rank_def bump_updated_at_def)

lemma hoare_issue_all:
  assumes "distinct (map fst es)"
  shows "hoare (along X s0) (\<lambda>s. along X s0 s \<and> list_all (paid_entry s) es)
     (for_each (\<lambda>(q, a, _). update_mint_quote q (issue_all now a)) es) (\<lambda>_. along X s0)"
  using assms
proof (induction es)
  case (Cons x es)
  obtain q a pk where x: "x = (q, a, pk)" by (cases x)
  let ?P = "\<lambda>s. along X s0 s \<and> list_all (paid_entry s) es"
  have "hoare (along X s0) (\<lambda>s. along X s0 s \<and> list_all (paid_entry s) (x # es))
      (update_mint_quote q (issue_all now a)) (\<lambda>_. ?P)"
    unfolding hoare_def
  proof (intro allI impI, elim conjE)
    fix s assume s: "along X s0 s" "list_all (paid_entry s) (x # es)"
    then obtain e where e: "map_of (mt_mint_quotes s) q = Some e" "me_state e = PAID" "me_amount e = a"
      by (auto simp: x paid_entry_def)
    let ?e = "bump_updated_at now (e\<lparr>me_amount_issued := a, me_state := ISSUED\<rparr>)"
    let ?t = "s\<lparr>mt_mint_quotes := AList.update q ?e (mt_mint_quotes s)\<rparr>"
    have "along X s0 ?t"
      using issue_all_ok[OF along_quote_ok[OF s(1) e(1)] e(2), of now ?e] e s(1)
      by (intro along_update) (auto simp: issue_all_def)
    moreover have "list_all (paid_entry ?t) es"
      using s(2) Cons.prems by (force simp: list_all_iff paid_entry_def x)
    ultimately show "case update_mint_quote q (issue_all now a) s of (Ok u, t) \<Rightarrow> ?P t
       | (Err u, t) \<Rightarrow> along X s0 t | (Panic, t) \<Rightarrow> along X s0 t"
      using e(1) by (simp add: update_mint_quote_def find_mint_quote_def bind_def issue_all_def)
  qed
  with Cons show ?case by (auto simp: x intro: hoare_bind)
qed (auto intro!: hoare_ret)

lemma map_fst_claimed: "length as = length qs \<Longrightarrow> map fst (claimed_amounts qs (Some as)) = qs"
  "map fst (claimed_amounts qs None) = qs"
  by (simp_all add: claimed_amounts_def)

lemma hoare_batch_signatures:
  assumes "\<And>s. P s \<Longrightarrow> J s"
  shows "hoare J P (case br_signatures request of
             None \<Rightarrow> guard_err b QuoteSignatureInvalid
           | Some sgs \<Rightarrow> bind (guard_err (c sgs) QuoteSignatureInvalid) (\<lambda>_. lift_res (f sgs))) (\<lambda>_. P)"
  using assms by (auto intro!: hoare_guard_err hoare_bind[OF hoare_guard] hoare_lift_res split: option.split)

lemma lawful_batch_mint: "climbs (lawful X) (batch_mint X E r)"
proof (rule lawfulI)
  fix s0 :: "'a mint"
  have tail: "hoare (along X s0)
      (\<lambda>s. along X s0 s \<and> list_all (paid_entry s) es)
      (bind (case br_signatures r of
             None \<Rightarrow> guard_err (list_ex (\<lambda>(_, _, pk). pk \<noteq> None) es) QuoteSignatureInvalid
           | Some sgs \<Rightarrow> bind (guard_err (length sgs \<noteq> length (br_quotes r)) QuoteSignatureInvalid) (\<lambda>_.
               lift_res (batch_signatures X (br_outputs r) es sgs))) (\<lambda>_.
       bind (lift_res (sum_amounts (br_outputs r))) (\<lambda>output_sum.
       bind (guard_err (output_sum \<noteq> m) AmountMismatch) (\<lambda>_.
       bind (gets mt_keyset) (\<lambda>k.
       bind (lift_res (check_outputs_signable k (br_outputs r))) (\<lambda>_.
       bind (sign_outputs X E (br_outputs r)) (\<lambda>signatures.
       bind (clock_now E) (\<lambda>now.
       bind (for_each (\<lambda>(q, a, _). update_mint_quote q (\<lambda>e.
              Ok (bump_updated_at now (e\<lparr>me_amount_issued := a, me_state := ISSUED\<rparr>)))) es) (\<lambda>_.
       bind (persist X E) (\<lambda>_. ret signatures)))))))))) (\<lambda>_. along X s0)"
    if "distinct (map fst es)" for m es
  proof -
    show ?thesis
      by (intro hoare_bind[OF hoare_batch_signatures] hoare_keeps hoare_ret
          hoare_bind[OF hoare_issue_all[OF that, unfolded issue_all_def]])
       (erule (2) along_paid_signing | erule (1) along_paid_quiet | simp)+
  qed
  have load: "hoare (along X s0) (along X s0)
      (batch_load X E (claimed_amounts (br_quotes r) (br_quote_amounts r)) 0)
      (\<lambda>(m, es) s. (along X s0 s \<and> list_all (paid_entry s) es)
         \<and> map fst es = map fst (claimed_amounts (br_quotes r) (br_quote_amounts r)))"
    using hoare_batch_load[of X s0 "[]" E "claimed_amounts (br_quotes r) (br_quote_amounts r)" 0]
    by (rule hoare_weaken) auto
  show "hoare (along X s0) (along X s0) (batch_mint X E r) (\<lambda>_. along X s0)"
    unfolding batch_mint_def
  proof (intro hoare_guard_then hoare_bind[OF load], goal_cases)
    case (1 x)
    then have d: "distinct (map fst (claimed_amounts (br_quotes r) (br_quote_amounts r)))"
      by (cases "br_quote_amounts r") (simp_all add: map_fst_claimed)
    obtain m es where x: "x = (m, es)" by (cases x)
    show ?case unfolding x prod.case by (rule hoare_assume, rule tail) (simp add: d)
  qed auto
qed

section \<open>Spending\<close>

lemma fold_insert_set: "set (fold List.insert ys xs) = set xs \<union> set ys"
  by (induction ys arbitrary: xs) auto

lemma fold_insert_distinct: "distinct xs \<Longrightarrow> distinct (fold List.insert ys xs)"
  by (induction ys arbitrary: xs) auto

lemma lawful_claim: "climbs (lawful X) (claim_proofs X ps)"
  unfolding claim_proofs_def
  by (intro lawful.climbs_rules lawful.climbs_modify)
    (auto simp: lawful_def mint_inv_def advance_def table_le_refl fold_insert_set fold_insert_distinct)

lemma lawful_post_swap: "climbs (lawful X) (post_swap X E r)"
  unfolding post_swap_def
  by (intro lawful.climbs_rules lawful_claim lawful_sign_outputs lawful_world quiet_ops)

section \<open>Melting\<close>

lemma claim_check_iff: "claim_check spent batch ys \<longleftrightarrow> distinct ys \<and> set ys \<inter> (set spent \<union> set batch) = {}"
  by (induction spent batch ys rule: claim_check.induct) auto

lemma release_all:
  assumes "map_res (\<lambda>p. proof_y_hex X (pf_secret p)) ps = Ok ys"
  shows "set (foldl (release_proof X) spent ps) = set spent - set ys"
  using assms
proof (induction ps arbitrary: spent ys)
  case (Cons p ps)
  then obtain z zs where "proof_y_hex X (pf_secret p) = Ok z" "ys = z # zs"
    "map_res (\<lambda>p. proof_y_hex X (pf_secret p)) ps = Ok zs" by auto
  with Cons.IH[of zs] show ?case by (auto simp: release_proof_def)
qed simp

lemma release_distinct: "distinct spent \<Longrightarrow> distinct (foldl (release_proof X) spent ps)"
  by (induction ps arbitrary: spent) (auto simp: release_proof_def distinct_removeAll split: res.split)

definition claimed_fresh :: "externs \<Rightarrow> 'w mint \<Rightarrow> nut_proof list \<Rightarrow> bool" where
  "claimed_fresh X s0 ps \<longleftrightarrow>
     (\<exists>ys. map_res (\<lambda>p. proof_y_hex X (pf_secret p)) ps = Ok ys \<and> distinct ys
        \<and> set ys \<inter> set (mt_spent_ys s0) = {})"

definition melting :: "externs \<Rightarrow> 'w mint \<Rightarrow> string \<Rightarrow> melt_quote_entry \<Rightarrow> 'w mint \<Rightarrow> bool" where
  "melting X s0 q e s \<longleftrightarrow> along X s0 s \<and> map_of (mt_melt_quotes s) q = Some e"

lemma melting_quiet: "melting X s0 q e s \<Longrightarrow> quiet s t \<Longrightarrow> melting X s0 q e t"
  by (auto simp: melting_def quiet_tables intro: along_quiet)

lemma melting_signing: "melting X s0 q e s \<Longrightarrow> lawful X s t \<Longrightarrow> signing s t \<Longrightarrow> melting X s0 q e t"
  using along_lawful by (auto simp: melting_def signing_def)

lemma melting_along: "melting X s0 q e s \<Longrightarrow> along X s0 s"
  by (simp add: melting_def)

lemma hoare_find_melt:
  "hoare (along X s0) (along X s0) (find_melt_quote q) (\<lambda>e. melting X s0 q e)"
  by (auto simp: hoare_def find_melt_quote_def melting_def split: res.split)

lemma hoare_claim:
  "hoare (along X s0) (melting X s0 q e) (claim_proofs X ps)
     (\<lambda>_ s. melting X s0 q e s \<and> claimed_fresh X s0 ps)"
  unfolding hoare_def
proof (intro allI impI)
  fix s assume s: "melting X s0 q e s"
  obtain r t where rt: "claim_proofs X ps s = (r, t)" by fastforce
  have al: "along X s0 t" using climbsD[OF lawful_claim rt] s along_lawful by (auto simp: melting_def)
  have sub: "set (mt_spent_ys s0) \<subseteq> set (mt_spent_ys s)" using s by (simp add: melting_def along_def advance_def)
  have "melting X s0 q e t \<and> claimed_fresh X s0 ps" if "r = Ok u" for u
    using rt that al s sub
    by (auto simp: claim_proofs_def melting_def claimed_fresh_def claim_check_iff bind_def
        split: res.splits if_splits)
  with rt al show "case claim_proofs X ps s of (Ok x, t) \<Rightarrow> melting X s0 q e t \<and> claimed_fresh X s0 ps
      | (Err x, t) \<Rightarrow> along X s0 t | (Panic, t) \<Rightarrow> along X s0 t"
    by (auto split: res.split)
qed

lemma hoare_set_melt_state:
  assumes "melt_le e (e\<lparr>le_state := st\<rparr>)" "st \<in> melt_states"
  shows "hoare (along X s0) (melting X s0 q e) (set_melt_state q st) (\<lambda>_. melting X s0 q (e\<lparr>le_state := st\<rparr>))"
  unfolding hoare_def
proof (intro allI impI)
  fix s assume s: "melting X s0 q e s"
  let ?t = "s\<lparr>mt_melt_quotes := AList.update q (e\<lparr>le_state := st\<rparr>) (mt_melt_quotes s)\<rparr>"
  have "lawful X s ?t"
    using s assms
    by (auto simp: melting_def lawful_def mint_inv_def advance_def table_le_refl dest!: ran_update intro!: table_le_update)
  then have "melting X s0 q (e\<lparr>le_state := st\<rparr>) ?t"
    using s along_lawful by (auto simp: melting_def)
  with s show "case set_melt_state q st s of (Ok x, t) \<Rightarrow> melting X s0 q (e\<lparr>le_state := st\<rparr>) t
      | (Err x, t) \<Rightarrow> along X s0 t | (Panic, t) \<Rightarrow> along X s0 t"
    by (simp add: set_melt_state_def find_melt_quote_def bind_def melting_def)
qed

lemma hoare_release:
  assumes "claimed_fresh X s0 ps"
  shows "hoare (along X s0) (melting X s0 q e)
     (modify (\<lambda>s. s\<lparr>mt_spent_ys := foldl (release_proof X) (mt_spent_ys s) ps\<rparr>)) (\<lambda>_. melting X s0 q e)"
proof (rule hoare_modify)
  fix s assume s: "melting X s0 q e s"
  obtain ys where ys: "map_res (\<lambda>p. proof_y_hex X (pf_secret p)) ps = Ok ys" "set ys \<inter> set (mt_spent_ys s0) = {}"
    using assms by (auto simp: claimed_fresh_def)
  from s show "melting X s0 q e (s\<lparr>mt_spent_ys := foldl (release_proof X) (mt_spent_ys s) ps\<rparr>)"
    using ys(2) by (auto simp: melting_def along_def mint_inv_def advance_def release_all[OF ys(1)] release_distinct)
qed

lemma hoare_melt_failed:
  assumes "le_state e = PENDING"
  shows "hoare (along X s0) (\<lambda>s. melting X s0 (lr_quote r) e s \<and> claimed_fresh X s0 (lr_inputs r))
     (melt_failed X E r) (\<lambda>_. along X s0)"
proof (rule hoare_assume)
  assume "claimed_fresh X s0 (lr_inputs r)"
  then show "hoare (along X s0) (melting X s0 (lr_quote r) e) (melt_failed X E r) (\<lambda>_. along X s0)"
    unfolding melt_failed_def using assms
    by (intro hoare_bind[OF hoare_release] hoare_bind[OF hoare_set_melt_state]
        hoare_bind[OF hoare_quiet[OF quiet_persist]] hoare_throw)
      (auto simp: melt_le_def melt_rank_def melt_states_def intro: melting_quiet melting_along)
qed

lemma hoare_melt_change:
  "hoare (along X s0) (melting X s0 q e)
     (case ch of None \<Rightarrow> ret None
      | Some os \<Rightarrow> (let filled = filter (\<lambda>m. bm_amount m > 0) os in
          if filled = [] then ret None
          else bind (sign_outputs X E filled) (\<lambda>sgs. ret (Some sgs)))) (\<lambda>_. melting X s0 q e)"
  by (auto simp: Let_def split: option.split intro!: hoare_ret hoare_bind[OF hoare_signs]
      intro: melting_signing melting_along)

lemma hoare_melt_paid:
  assumes "le_state e = PENDING"
  shows "hoare (along X s0) (melting X s0 (lr_quote r) e) (melt_paid X E r ch pre) (\<lambda>_. along X s0)"
  unfolding melt_paid_def using assms
  by (intro hoare_bind[OF hoare_melt_change] hoare_bind[OF hoare_set_melt_state]
      hoare_bind[OF hoare_quiet[OF quiet_persist]] hoare_bind[OF hoare_quiet[OF quiet_find(2)]])
    (auto simp: melt_le_def melt_rank_def melt_states_def intro!: hoare_ret intro: melting_quiet melting_along)

lemma check_melt_state_Ok: "check_melt_state st = Ok u \<Longrightarrow> st = UNPAID"
  by (auto simp: check_melt_state_def split: if_splits)

lemma hoare_claim_then:
  assumes "claimed_fresh X s0 ps \<Longrightarrow> hoare (along X s0) (melting X s0 q e) m R"
  shows "hoare (along X s0) (melting X s0 q e) (bind (claim_proofs X ps) (\<lambda>_. m)) R"
  by (rule hoare_bind[OF hoare_claim], rule hoare_assume, rule assms)

lemma hoare_melting:
  assumes "climbs quiet m" "\<And>x. hoare (along X s0) (melting X s0 q e) (f x) R"
  shows "hoare (along X s0) (melting X s0 q e) (bind m f) R"
  by (rule hoare_bind[OF hoare_quiet[OF assms(1)] assms(2)]) (auto intro: melting_quiet melting_along)

lemma lawful_post_melt: "climbs (lawful X) (post_melt X E r)"
proof (rule lawfulI)
  fix s0 :: "'a mint"
  let ?q = "lr_quote r"
  have outcome: "hoare (along X s0) (melting X s0 ?q (e\<lparr>le_state := PENDING\<rparr>))
      (case paid of Some preimage \<Rightarrow> melt_paid X E r ch preimage | None \<Rightarrow> melt_failed X E r) (\<lambda>_. along X s0)"
    if "claimed_fresh X s0 (lr_inputs r)" for e ch paid
    using hoare_melt_failed[of "e\<lparr>le_state := PENDING\<rparr>" X s0 r E] that
    by (auto split: option.split intro!: hoare_melt_paid)
  have pend: "hoare (along X s0) (melting X s0 ?q e) (set_melt_state ?q PENDING) (\<lambda>_. melting X s0 ?q (e\<lparr>le_state := PENDING\<rparr>))"
    if "check_melt_state (le_state e) = Ok u" for e u
    using check_melt_state_Ok[OF that]
    by (intro hoare_set_melt_state) (auto simp: melt_le_def melt_rank_def melt_states_def)
  show "hoare (along X s0) (along X s0) (post_melt X E r) (\<lambda>_. along X s0)"
    unfolding post_melt_def
    by (intro hoare_bind[OF hoare_find_melt] hoare_lift_then hoare_guard_then hoare_claim_then
        hoare_bind[OF pend] hoare_melting quiet_ops quiet.climbs_gets outcome)
      (assumption | rule melting_along)+
qed

lemma lawful_get_melt_quote: "climbs (lawful X) (get_melt_quote q)"
  unfolding get_melt_quote_def by (intro lawful.climbs_rules lawful_world quiet_ops)

section \<open>New quotes\<close>

lemma advance_new_quote:
  assumes "mint_inv X s" "map_of (mt_mint_quotes s) q = None" "quote_ok e"
  shows "along X s (s\<lparr>mt_mint_quotes := AList.update q e (mt_mint_quotes s)\<rparr>)"
  using assms
  by (auto simp: along_def mint_inv_def advance_def table_le_refl dest!: ran_update intro!: table_le_update)

lemma advance_new_melt_quote:
  assumes "mint_inv X s" "map_of (mt_melt_quotes s) q = None" "le_state e = UNPAID"
  shows "along X s (s\<lparr>mt_melt_quotes := AList.update q e (mt_melt_quotes s)\<rparr>)"
  using assms
  by (auto simp: along_def mint_inv_def advance_def table_le_refl melt_states_def dest!: ran_update intro!: table_le_update)

text \<open>
  \<^verbatim>\<open>uuid\<close> promises ids that were not handed out before; a quote under an old id would replace it.
\<close>

definition fresh_mint_id :: "'w env \<Rightarrow> 'w mint \<Rightarrow> bool" where
  "fresh_mint_id E s \<longleftrightarrow> map_of (mt_mint_quotes s) (fst (now_v7 E (mt_world s))) = None"

definition fresh_melt_id :: "'w env \<Rightarrow> melt_quote_request \<Rightarrow> 'w mint \<Rightarrow> bool" where
  "fresh_melt_id E r s \<longleftrightarrow>
     map_of (mt_melt_quotes s) (fst (now_v7 E (snd (lookup_amount E (lqr_request r) (mt_world s))))) = None"

lemma quiet_world [simp]: "quiet s (s\<lparr>mt_world := w\<rparr>)"
  by (simp add: quiet_def signing_def)

definition unmoved :: "externs \<Rightarrow> 'w mint \<Rightarrow> 'w mint \<Rightarrow> bool" where
  "unmoved X s u \<longleftrightarrow> along X s u \<and> mt_mint_quotes u = mt_mint_quotes s \<and> mt_melt_quotes u = mt_melt_quotes s"

lemma hoare_unmoved:
  assumes "climbs quiet m" "\<And>x. hoare (along X s) (unmoved X s) (f x) R"
  shows "hoare (along X s) (unmoved X s) (bind m f) R"
  by (rule hoare_bind[OF hoare_quiet[OF assms(1)] assms(2)])
    (auto simp: unmoved_def quiet_tables intro: along_quiet)

lemma hoare_new_id:
  assumes "unmoved X s u" "\<And>q. q = fst (now_v7 E (mt_world u)) \<Longrightarrow> hoare (along X s) (unmoved X s) (f q) R"
  shows "hoare (along X s) (\<lambda>v. v = u) (bind (next_quote_id E) f) R"
proof (rule hoare_bind)
  show "hoare (along X s) (\<lambda>v. v = u) (next_quote_id E) (\<lambda>q v. unmoved X s v \<and> q = fst (now_v7 E (mt_world u)))"
    using assms(1) along_quiet[of X s u]
    by (auto simp: hoare_def next_quote_id_def on_world_def unmoved_def split: prod.split)
  show "hoare (along X s) (\<lambda>v. unmoved X s v \<and> q = fst (now_v7 E (mt_world u))) (f q) R" for q
    by (rule hoare_assume, rule assms(2))
qed

lemma unmoved_start: "mint_inv X s \<Longrightarrow> unmoved X s s"
  by (simp add: unmoved_def along_start)

lemma unmoved_along: "unmoved X s u \<Longrightarrow> along X s u"
  by (simp add: unmoved_def)

lemma hoare_insert_quote:
  assumes "map_of (mt_mint_quotes s) q = None" "quote_ok e"
  shows "hoare (along X s) (unmoved X s)
    (modify (\<lambda>u. u\<lparr>mt_mint_quotes := AList.update q e (mt_mint_quotes u)\<rparr>)) (\<lambda>_. along X s)"
  using assms
  by (intro hoare_modify) (auto simp: unmoved_def along_def mint_inv_def advance_def table_le_refl
      dest!: ran_update intro!: table_le_update)

lemma hoare_insert_melt_quote:
  assumes "map_of (mt_melt_quotes s) q = None" "le_state e = UNPAID"
  shows "hoare (along X s) (unmoved X s)
    (modify (\<lambda>u. u\<lparr>mt_melt_quotes := AList.update q e (mt_melt_quotes u)\<rparr>)) (\<lambda>_. along X s)"
  using assms
  by (intro hoare_modify) (auto simp: unmoved_def along_def mint_inv_def advance_def table_le_refl melt_states_def
      dest!: ran_update intro!: table_le_update)

lemma lawful_from:
  assumes "mint_inv X s \<Longrightarrow> hoare (along X s) (\<lambda>u. u = s) m (\<lambda>_. along X s)"
  shows "lawful X s (snd (m s))"
  unfolding lawful_def
proof
  assume "mint_inv X s"
  from hoare_final[OF assms[OF this], of s] show "mint_inv X (snd (m s)) \<and> advance s (snd (m s))"
    by (simp add: along_def)
qed

lemma post_mint_quote_lawful:
  assumes "fresh_mint_id E s"
  shows "lawful X s (snd (post_mint_quote X E r s))"
proof (rule lawful_from)
  assume "mint_inv X s"
  then show "hoare (along X s) (\<lambda>u. u = s) (post_mint_quote X E r) (\<lambda>_. along X s)"
    unfolding post_mint_quote_def using assms
    by (intro hoare_guard_then hoare_new_id unmoved_start hoare_unmoved quiet_on_world quiet_expiry quiet_clock
        hoare_bind[OF hoare_insert_quote] hoare_bind[OF hoare_persist] hoare_ret)
      (auto simp: fresh_mint_id_def quote_ok_def along_start)
qed

lemma post_melt_quote_lawful:
  assumes "fresh_melt_id E r s"
  shows "lawful X s (snd (post_melt_quote X E r s))"
proof (rule lawful_from)
  assume inv: "mint_inv X s"
  let ?w = "snd (lookup_amount E (lqr_request r) (mt_world s))"
  have start: "unmoved X s (s\<lparr>mt_world := ?w\<rparr>)"
    using along_quiet[OF along_start[OF inv]] by (simp add: unmoved_def)
  have look: "hoare (along X s) (\<lambda>u. u = s) (on_world (lookup_amount E (lqr_request r))) (\<lambda>_ u. u = s\<lparr>mt_world := ?w\<rparr>)"
    using unmoved_along[OF start] by (auto simp: hoare_def on_world_def split: prod.split res.split)
  show "hoare (along X s) (\<lambda>u. u = s) (post_melt_quote X E r) (\<lambda>_. along X s)"
    unfolding post_melt_quote_def using assms
    by (intro hoare_bind[OF look] hoare_new_id start hoare_unmoved quiet_expiry
        hoare_bind[OF hoare_insert_melt_quote] hoare_bind[OF hoare_persist] hoare_ret)
      (auto simp: fresh_melt_id_def)
qed

section \<open>The life of a mint\<close>

text \<open>
  One step is one handler call, successful or not; the id source may only hand out fresh ids.
\<close>

inductive mint_step :: "externs \<Rightarrow> 'w env \<Rightarrow> 'w mint \<Rightarrow> 'w mint \<Rightarrow> bool" for X E where
  step_mint_quote: "fresh_mint_id E s \<Longrightarrow> mint_step X E s (snd (post_mint_quote X E r s))"
| step_get_quote: "mint_step X E s (snd (get_mint_quote X E q s))"
| step_mint: "mint_step X E s (snd (post_mint X E mr s))"
| step_batch_check: "mint_step X E s (snd (batch_check_mint_quotes X E qs s))"
| step_batch_mint: "mint_step X E s (snd (batch_mint X E br s))"
| step_melt_quote: "fresh_melt_id E lqr s \<Longrightarrow> mint_step X E s (snd (post_melt_quote X E lqr s))"
| step_melt: "mint_step X E s (snd (post_melt X E lr s))"
| step_swap: "mint_step X E s (snd (post_swap X E sw s))"

inductive_cases mint_step_cases: "mint_step X E s t"

lemmas lawful_handlers =
  lawful_get_mint_quote[unfolded climbs_def, rule_format] lawful_post_mint[unfolded climbs_def, rule_format]
  lawful_batch_check[unfolded climbs_def, rule_format] lawful_batch_mint[unfolded climbs_def, rule_format]
  lawful_post_melt[unfolded climbs_def, rule_format] lawful_post_swap[unfolded climbs_def, rule_format]
  post_mint_quote_lawful post_melt_quote_lawful

lemma mint_step_lawful: "mint_step X E s t \<Longrightarrow> lawful X s t"
  by (elim mint_step_cases) (simp_all add: lawful_handlers)

text \<open>The states a mint can be in, from construction on.\<close>

definition fresh_mint :: "externs \<Rightarrow> 'w mint \<Rightarrow> bool" where
  "fresh_mint X s \<longleftrightarrow> (\<exists>w fee. with_backend X w fee = Ok s)"

lemma fresh_mint_inv: "fresh_mint X s \<Longrightarrow> mint_inv X s"
  by (auto simp: fresh_mint_def with_backend_def mint_inv_def demo_with_fee_def dest!: keyset_new_ok)

interpretation mint_life: transition_system "fresh_mint X" "mint_step X E" "mint_inv X" for X E
  by unfold_locales (auto dest: fresh_mint_inv mint_step_lawful simp: lawful_def)

lemma steps_advance:
  assumes "(mint_step X E)\<^sup>*\<^sup>* s t" "mint_inv X s"
  shows "mint_inv X t \<and> advance s t"
  using assms(1)
proof (induction rule: rtranclp_induct)
  case base
  with assms(2) show ?case by (simp add: advance_refl)
next
  case (step t u)
  with mint_step_lawful[OF step.hyps(2)] show ?case by (auto simp: lawful_def intro: advance_trans)
qed

end
