(* ===== verification/Sample.thy ===== *)
theory Sample
  imports Nuts
begin

text \<open>
  Simple functions standing in for the third-party crates: texts encode bytes as themselves, every
  secret hashes to a point of its own, signing leaves a point alone. The witnesses of the
  development evaluate the model with them.
\<close>

definition demo_hash :: "bytes \<Rightarrow> public_key" where
  "demo_hash msg = PublicKey msg"

definition demo_externs :: externs where
  "demo_externs =
     \<lparr>hex_encode = (\<lambda>b. of_bytes b), hex_decode = (\<lambda>s. Some (as_bytes s)), sha256 = (\<lambda>b. replicate 32 0),
      on_curve = (\<lambda>b. True), valid_scalar = (\<lambda>b. True),
      pubkey_of = (\<lambda>k. PublicKey []),
      dhke_hash_to_curve = (\<lambda>msg. Some (demo_hash msg)),
      dhke_sign_message = (\<lambda>k p. Some p),
      dhke_verify_message = (\<lambda>k c msg. c = demo_hash msg),
      schnorr_from_str = (\<lambda>s. Some (as_bytes s)),
      schnorr_verify = (\<lambda>pk msg sg. sg = to_bytes pk),
      keyset_id_ok = (\<lambda>i. True)\<rparr>"

end
