(* ===== verification/Demo.thy ===== *)
theory Demo
  imports Mint_Invariants Sample
begin

text \<open>
  A concrete environment in which the model runs: \<^verbatim>\<open>FakeWallet\<close>, a \<^verbatim>\<open>MockClock\<close>, a counter as
  id source, a store holding one snapshot, and simple functions standing in for the third-party
  crates (texts encode bytes as themselves, every secret hashes to a point of its own, signing
  leaves a point alone). The witnesses of the theorems evaluate the model here.
\<close>

named_theorems demo_simps \<open>evaluation in the demo environment\<close>

record demo_world =
  dw_now :: u64
  dw_next :: nat
  dw_pays :: bool
  dw_saved :: "mint_state_snapshot option"

definition demo_pay :: "string \<Rightarrow> u64 \<Rightarrow> (demo_world, cashu_error, string) op" where
  "demo_pay iv a = (\<lambda>w. if dw_pays w then fake_pay_invoice demo_externs iv a w else (Err PaymentFailed, w))"

definition demo_env :: "demo_world env" where
  "demo_env =
     \<lparr>now_secs = (\<lambda>w. (dw_now w, w)),
      now_v7 = (\<lambda>w. (''q'' @ show_nat (dw_next w), w\<lparr>dw_next := Suc (dw_next w)\<rparr>)),
      create_invoice = fake_create_invoice, is_settled = fake_is_settled,
      lookup_amount = fake_lookup_amount, pay_invoice = demo_pay,
      dleq_new = (\<lambda>k p c w. (Some \<lparr>bd_e = k, bd_s = k\<rparr>, w)),
      store_save = (\<lambda>snap w. (True, w\<lparr>dw_saved := Some snap\<rparr>)),
      store_load = (\<lambda>w. (Inr (dw_saved w), w))\<rparr>"

definition demo_start :: demo_world where
  "demo_start = \<lparr>dw_now = 1000, dw_next = 0, dw_pays = True, dw_saved = None\<rparr>"

definition demo_keys :: "(u64 \<times> secret_key \<times> public_key) list" where
  "demo_keys = map (\<lambda>a. (a, SecretKey (replicate 32 0), PublicKey [])) DENOMINATIONS"

definition DEMO_ID :: string where
  "DEMO_ID = derive_keyset_id demo_externs (map (\<lambda>(_, _, pk). pk) demo_keys)"

definition demo_keyset :: demo_keyset where
  "demo_keyset = \<lparr>dk_id = DEMO_ID, dk_unit = ''sat'', dk_keys = demo_keys, dk_input_fee_ppk = 0\<rparr>"

definition demo_mint :: "demo_world mint" where
  "demo_mint = \<lparr>mt_keyset = demo_keyset, mt_mint_quotes = [], mt_melt_quotes = [], mt_spent_ys = [],
     mt_issued_outputs = [], mt_store = True, mt_world = demo_start\<rparr>"

lemma demo_keyset_ok: "keyset_ok demo_externs demo_keyset"
  by (simp add: keyset_ok_def demo_keyset_def DEMO_ID_def demo_keys_def DENOMINATIONS_def demo_externs_def)

lemma demo_mint_inv: "mint_inv demo_externs demo_mint"
  by (simp add: mint_inv_def demo_mint_def demo_keyset_ok)

definition demo_proof :: "u64 \<Rightarrow> string \<Rightarrow> nut_proof" where
  "demo_proof a secret =
     \<lparr>pf_amount = a, pf_id = DEMO_ID, pf_secret = secret, pf_c = demo_hash (as_bytes secret),
      pf_dleq = None, pf_witness = None\<rparr>"

definition demo_output :: "u64 \<Rightarrow> string \<Rightarrow> blinded_message" where
  "demo_output a secret = \<lparr>bm_amount = a, bm_id = DEMO_ID, bm_b = demo_hash (as_bytes secret)\<rparr>"

lemma demo_secret_key [demo_simps]:
  "get_secret_key demo_keyset a = (if a \<in> set DENOMINATIONS then Some (SecretKey (replicate 32 0)) else None)"
  by (simp add: get_secret_key_def demo_keyset_def demo_keys_def DENOMINATIONS_def)

lemma demo_keyset_fields [demo_simps]: "dk_id demo_keyset = DEMO_ID" "dk_input_fee_ppk demo_keyset = 0"
  by (simp_all add: demo_keyset_def)

lemma demo_y [demo_simps]: "proof_y_hex demo_externs secret = Ok secret"
  by (simp add: proof_y_hex_def demo_externs_def demo_hash_def comp_def)

lemma demo_sign [demo_simps]:
  "sign_output demo_externs demo_env (demo_output a b) s =
     (case get_secret_key (mt_keyset s) a of None \<Rightarrow> (Err KeysetNotFound, s)
      | Some sk \<Rightarrow>
        let sg = \<lparr>bs_amount = a, bs_id = dk_id (mt_keyset s), bs_c = demo_hash (as_bytes b),
                  bs_dleq = Some \<lparr>bd_e = sk, bd_s = sk\<rparr>\<rparr>
        in (Ok sg, s\<lparr>mt_issued_outputs := AList.update b sg (mt_issued_outputs s)\<rparr>))"
  by (cases "get_secret_key (mt_keyset s) a")
    (simp_all add: sign_output_def demo_externs_def demo_env_def demo_output_def demo_hash_def on_world_def bind_def Let_def comp_def)

lemma demo_now [demo_simps]: "clock_now demo_env s = (Ok (dw_now (mt_world s)), s)"
  by (simp add: clock_now_def on_world_def demo_env_def)

lemma demo_persist [demo_simps]:
  "persist demo_externs demo_env s =
     (Ok (), if mt_store s then s\<lparr>mt_world := (mt_world s)\<lparr>dw_saved := Some (snapshot demo_externs s)\<rparr>\<rparr> else s)"
  by (simp add: persist_def demo_env_def)

lemma demo_try_pay [demo_simps]:
  "try_pay demo_env iv a s = (Ok (if dw_pays (mt_world s) then Some (of_bytes (replicate 32 0)) else None), s)"
  by (simp add: try_pay_def on_world_def demo_env_def demo_pay_def fake_pay_invoice_def demo_externs_def)

lemma demo_verify [demo_simps]: "dhke_verify_message demo_externs k c msg \<longleftrightarrow> c = demo_hash msg"
  by (simp add: demo_externs_def)

lemma demo_fields [demo_simps]:
  "bm_amount (demo_output a b) = a" "bm_b (demo_output a b) = demo_hash (as_bytes b)"
  "pf_amount (demo_proof a b) = a" "pf_id (demo_proof a b) = DEMO_ID" "pf_secret (demo_proof a b) = b"
  "pf_c (demo_proof a b) = demo_hash (as_bytes b)" "pf_witness (demo_proof a b) = None"
  by (simp_all add: demo_output_def demo_proof_def)

lemma demo_ordinary [demo_simps]: "secret_parse ''a'' = None" "secret_parse ''b'' = None"
  "secret_parse ''c'' = None" "secret_parse ''d'' = None"
  by (simp_all add: secret_parse_ordinary is_ws_def)

lemma demo_conditions [demo_simps]:
  "verify_spending_conditions X [demo_proof a ''a''] os q now = Ok ()"
  "verify_spending_conditions X [demo_proof a ''a'', demo_proof b ''b''] os q now = Ok ()"
  "verify_spending_conditions X [demo_proof a ''a'', demo_proof b ''a''] os q now = Ok ()"
  by (simp_all add: verify_spending_conditions_def demo_simps)

lemma demo_pieces [demo_simps]: "imprint_pieces demo_keyset 2 = Ok [2]"
proof -
  have "imprint_pieces (demo_keyset\<lparr>dk_id := []\<rparr>) 2 = Ok [2]"
    unfolding demo_keyset_def by code_simp
  then show ?thesis by (simp add: imprint_pieces_def)
qed

lemma demo_imprint [demo_simps]: "demo_output a b\<lparr>bm_amount := c\<rparr> = demo_output c b"
  by (simp add: demo_output_def)

text \<open>The definitions that running a handler unfolds.\<close>

lemmas demo_run = bind_def verify_proofs_def claim_proofs_def sign_outputs_def demo_mint_def demo_start_def
  DENOMINATIONS_def checked_add_def checked_mul_def checked_sub_def input_fee_total_def sum_amounts_def
  check_outputs_signable_def Let_def demo_simps

section \<open>Runs\<close>

definition demo_swap :: swap_request where
  "demo_swap = \<lparr>sw_inputs = [demo_proof 4 ''a'', demo_proof 1 ''b''],
                sw_outputs = [demo_output 4 ''c'', demo_output 1 ''d'']\<rparr>"

lemma demo_swap_runs: "\<exists>sgs t. post_swap demo_externs demo_env demo_swap demo_mint = (Ok sgs, t)"
  by (simp add: post_swap_def demo_swap_def demo_run)

text \<open>A paid mint quote of 5, of which 1 is issued, and an unpaid melt quote of 4.\<close>

definition demo_quote :: mint_quote_entry where
  "demo_quote = \<lparr>me_amount = 5, me_unit = ''sat'', me_request = ''i'', me_state = PAID, me_expiry = 2000,
     me_amount_paid = 5, me_amount_issued = 1, me_updated_at = 900, me_pubkey = None\<rparr>"

definition demo_melt_quote :: melt_quote_entry where
  "demo_melt_quote = \<lparr>le_amount = 4, le_fee_reserve = 0, le_unit = ''sat'', le_request = ''i'',
     le_state = UNPAID, le_expiry = 2000\<rparr>"

definition demo_busy :: "demo_world mint" where
  "demo_busy = demo_mint\<lparr>mt_mint_quotes := [(''q'', demo_quote)], mt_melt_quotes := [(''m'', demo_melt_quote)]\<rparr>"

lemma demo_busy_inv: "mint_inv demo_externs demo_busy"
  using demo_mint_inv
  by (simp add: mint_inv_def demo_busy_def demo_mint_def demo_quote_def demo_melt_quote_def quote_ok_def melt_states_def)

definition demo_mint_request :: mint_request where
  "demo_mint_request = \<lparr>mr_quote = ''q'', mr_outputs = [demo_output 2 ''c'', demo_output 1 ''d''], mr_signature = None\<rparr>"

lemma demo_mint_runs: "\<exists>sgs t. post_mint demo_externs demo_env demo_mint_request demo_busy = (Ok sgs, t)"
  by (simp add: post_mint_def demo_mint_request_def demo_busy_def demo_quote_def refresh_mint_quote_state_def
      find_mint_quote_def require_paid_def update_mint_quote_def record_issue_def demo_run)

definition demo_melt_request :: melt_request where
  "demo_melt_request = \<lparr>lr_quote = ''m'', lr_inputs = [demo_proof 4 ''a'', demo_proof 2 ''b''],
     lr_outputs = Some [demo_output 0 ''c'', demo_output 0 ''d'']\<rparr>"

lemma demo_melt_runs: "\<exists>rs t. post_melt demo_externs demo_env demo_melt_request demo_busy = (Ok rs, t)"
  by (simp add: post_melt_def demo_melt_request_def demo_busy_def demo_melt_quote_def find_melt_quote_def
      check_melt_state_def melt_required_def melt_change_def imprint_blank_outputs_def map_ok_def
      set_melt_state_def melt_paid_def demo_run)

text \<open>The same quote locked to a key, and a signature of that key.\<close>

definition DEMO_PK :: string where
  "DEMO_PK = ''kkkkkkkkkkkkkkkkkkkkkkkkkkkkkkkkk''"

definition demo_locked :: "demo_world mint" where
  "demo_locked = demo_busy\<lparr>mt_mint_quotes := [(''q'', demo_quote\<lparr>me_pubkey := Some DEMO_PK\<rparr>)]\<rparr>"

definition demo_locked_request :: mint_request where
  "demo_locked_request = demo_mint_request\<lparr>mr_signature := Some DEMO_PK\<rparr>"

lemma demo_signed: "verify_quote_signature demo_externs DEMO_PK q os (Some DEMO_PK) = Ok ()"
  by (simp add: verify_quote_signature_def demo_externs_def parse_compressed_pubkey_def pk_from_bytes_def DEMO_PK_def)

lemma demo_locked_runs: "\<exists>sgs t. post_mint demo_externs demo_env demo_locked_request demo_locked = (Ok sgs, t)"
  by (simp add: post_mint_def demo_mint_request_def demo_locked_request_def demo_locked_def demo_busy_def demo_quote_def
      refresh_mint_quote_state_def find_mint_quote_def require_paid_def update_mint_quote_def record_issue_def
      demo_signed demo_run)

end
