(* ===== verification/Mint_Theorems.thy ===== *)
theory Mint_Theorems
  imports Demo
begin

text \<open>
  What the handlers of the mint do when they succeed, and what they leave behind when they do
  not: value conservation of swaps, mints and melts, single spending over the whole life of the
  mint, quote locks, recovery of signatures, and the failures that are not atomic.
\<close>

section \<open>What the helpers return\<close>

definition proof_ys :: "externs \<Rightarrow> nut_proof list \<Rightarrow> (cashu_error, string list) res" where
  "proof_ys X ps = map_res (\<lambda>p. proof_y_hex X (pf_secret p)) ps"

definition proof_valid :: "externs \<Rightarrow> demo_keyset \<Rightarrow> nut_proof \<Rightarrow> bool" where
  "proof_valid X k p \<longleftrightarrow> pf_id p = dk_id k \<and>
     (\<exists>sk. get_secret_key k (pf_amount p) = Some sk \<and> dhke_verify_message X sk (pf_c p) (as_bytes (pf_secret p)))"

definition unspent :: "externs \<Rightarrow> string list \<Rightarrow> nut_proof \<Rightarrow> bool" where
  "unspent X spent p \<longleftrightarrow> (\<exists>y. proof_y_hex X (pf_secret p) = Ok y \<and> y \<notin> set spent)"

abbreviation input_value :: "nut_proof list \<Rightarrow> nat" where
  "input_value ps \<equiv> sum_nat (map pf_amount ps)"

abbreviation output_value :: "blinded_message list \<Rightarrow> nat" where
  "output_value ms \<equiv> sum_nat (map bm_amount ms)"

abbreviation signed_value :: "blind_signature list \<Rightarrow> nat" where
  "signed_value sgs \<equiv> sum_nat (map bs_amount sgs)"

text \<open>The NUT-02 fee: the parts per thousand of all inputs, rounded up.\<close>

definition fee_of :: "demo_keyset \<Rightarrow> nat \<Rightarrow> nat" where
  "fee_of k n = (unat (dk_input_fee_ppk k) * n + 999) div 1000"

lemma verify_proofs_from_Ok:
  "verify_proofs_from X k spent n ps = Ok m \<Longrightarrow>
     unat m = unat n + input_value ps \<and> (\<forall>p \<in> set ps. proof_valid X k p \<and> unspent X spent p)"
  by (induction X k spent n ps rule: verify_proofs_from.induct)
    (auto simp: proof_valid_def unspent_def dest!: checked_add_Some split: if_splits)

lemma verify_proofs_Ok:
  assumes "verify_proofs X ps s = (Ok n, t)"
  shows "t = s" "unat n = input_value ps"
    "\<forall>p \<in> set ps. proof_valid X (mt_keyset s) p \<and> unspent X (mt_spent_ys s) p"
  using verify_proofs_from_Ok[of X "mt_keyset s" "mt_spent_ys s" 0 ps n] assms
  by (auto simp: verify_proofs_def)

lemma input_fee_total_Ok:
  assumes "input_fee_total k ps = Ok fee" "length ps < 2 ^ 64"
  shows "unat fee = fee_of k (length ps)"
proof -
  from assms(1) obtain a b where ab: "checked_mul (dk_input_fee_ppk k) (word_of_nat (length ps)) = Some a"
    "checked_add a 999 = Some b" "fee = b div 1000"
    by (auto simp: input_fee_total_def)
  have "unat a = unat (dk_input_fee_ppk k) * length ps"
    using checked_mul_Some[OF ab(1)] assms(2) by (simp add: unat_of_nat_lt)
  moreover have "unat b = unat a + 999" using checked_add_Some[OF ab(2)] by simp
  ultimately show ?thesis using ab(3) by (simp add: fee_of_def unat_div)
qed

lemma sum_amounts_Ok: "sum_amounts ms = Ok n \<Longrightarrow> unat n = output_value ms"
  by (auto simp: sum_amounts_def dest: checked_sum_Some)

lemma claim_proofs_Ok:
  assumes "claim_proofs X ps s = (Ok u, t)"
  obtains ys where "proof_ys X ps = Ok ys" "distinct ys" "set ys \<inter> set (mt_spent_ys s) = {}"
    "t = s\<lparr>mt_spent_ys := fold List.insert ys (mt_spent_ys s)\<rparr>"
proof -
  from assms obtain ys where "proof_ys X ps = Ok ys" "claim_check (mt_spent_ys s) [] ys"
    "t = s\<lparr>mt_spent_ys := fold List.insert ys (mt_spent_ys s)\<rparr>"
    by (auto simp: claim_proofs_def proof_ys_def bind_Ok_iff simp del: bind_lift_res bind_guard_err split: if_splits)
  with that show ?thesis by (simp add: claim_check_iff)
qed

lemma proof_ys_member:
  assumes "proof_ys X ps = Ok ys" "p \<in> set ps"
  shows "\<exists>y \<in> set ys. proof_y_hex X (pf_secret p) = Ok y"
  using list_all2_member[OF assms(1)[unfolded proof_ys_def map_res_Ok_iff] assms(2)] .

text \<open>A signature answers an output: same amount, the active keyset, and the blinded point signed.\<close>

definition answers :: "externs \<Rightarrow> demo_keyset \<Rightarrow> blinded_message \<Rightarrow> blind_signature \<Rightarrow> bool" where
  "answers X k m sg \<longleftrightarrow>
     bs_amount sg = bm_amount m \<and> bs_id sg = dk_id k \<and> bs_dleq sg \<noteq> None
     \<and> (\<exists>sk. get_secret_key k (bm_amount m) = Some sk \<and> dhke_sign_message X sk (bm_b m) = Some (bs_c sg))"

definition index_key :: "externs \<Rightarrow> blinded_message \<Rightarrow> string" where
  "index_key X m = hex_encode X (to_bytes (bm_b m))"

lemma sign_outputs_Ok:
  assumes "sign_outputs X E ms s = (Ok sgs, t)"
  shows "list_all2 (answers X (mt_keyset s)) ms sgs"
    and "mt_issued_outputs t = fold (\<lambda>(m, sg). AList.update (index_key X m) sg) (zip ms sgs) (mt_issued_outputs s)"
proof -
  have "list_all2 (answers X (mt_keyset s)) ms sgs
    \<and> mt_issued_outputs t = fold (\<lambda>(m, sg). AList.update (index_key X m) sg) (zip ms sgs) (mt_issued_outputs s)"
    using assms unfolding sign_outputs_def
  proof (induction ms arbitrary: s sgs)
    case (Cons m ms)
    then obtain sg u sgs' where step: "sign_output X E m s = (Ok sg, u)"
      "map_op (sign_output X E) ms u = (Ok sgs', t)" "sgs = sg # sgs'"
      by (auto simp: bind_Ok_iff)
    have k: "mt_keyset u = mt_keyset s"
      using climbsD[OF signing_sign_output step(1)] by (simp add: signing_def)
    have "answers X (mt_keyset s) m sg
        \<and> mt_issued_outputs u = AList.update (index_key X m) sg (mt_issued_outputs s)"
    proof (rule sign_output_Ok[OF step(1)])
      fix sk d
      assume k: "get_secret_key (mt_keyset s) (bm_amount m) = Some sk"
        "dhke_sign_message X sk (bm_b m) = Some (bs_c sg)"
        "mt_issued_outputs u = AList.update (hex_encode X (to_bytes (bm_b m))) sg (mt_issued_outputs s)"
      assume sg: "sg = \<lparr>bs_amount = bm_amount m, bs_id = dk_id (mt_keyset s), bs_c = bs_c sg, bs_dleq = Some d\<rparr>"
      have "bs_amount sg = bm_amount m" "bs_id sg = dk_id (mt_keyset s)" "bs_dleq sg = Some d"
        by (subst sg, simp)+
      with k show ?thesis by (simp add: answers_def index_key_def)
    qed
    with Cons.IH[OF step(2)] step(3) k show ?case by simp
  qed simp
  then show "list_all2 (answers X (mt_keyset s)) ms sgs"
    and "mt_issued_outputs t = fold (\<lambda>(m, sg). AList.update (index_key X m) sg) (zip ms sgs) (mt_issued_outputs s)"
    by auto
qed

lemma answers_value: "list_all2 (answers X k) ms sgs \<Longrightarrow> map bs_amount sgs = map bm_amount ms"
  by (induction rule: list_all2_induct) (auto simp: answers_def)

lemma map_of_fold_update:
  "map_of (fold (\<lambda>(m, v). AList.update (f m) v) ps al) = fold (\<lambda>(m, v) g. g(f m \<mapsto> v)) ps (map_of al)"
  by (induction ps arbitrary: al) auto

lemma fold_upd_other:
  "k \<notin> f ` set (map fst ps) \<Longrightarrow> fold (\<lambda>(m, v) g. g(f m \<mapsto> v)) ps g0 k = g0 k"
  by (induction ps arbitrary: g0) auto

lemma fold_upd_distinct:
  assumes "distinct (map f (map fst ps))" "(m, v) \<in> set ps"
  shows "fold (\<lambda>(m, v) g. g(f m \<mapsto> v)) ps g0 (f m) = Some v"
  using assms
proof (induction ps arbitrary: g0)
  case (Cons p ps)
  show ?case
  proof (cases "p = (m, v)")
    case True
    then have "f m \<notin> f ` set (map fst ps)" using Cons.prems(1) by (auto simp: image_image)
    from fold_upd_other[OF this, of "g0(f m \<mapsto> v)"] True show ?thesis by (simp del: fun_upd_apply) simp
  next
    case False
    with Cons show ?thesis by (cases p) auto
  qed
qed simp

section \<open>Swaps\<close>

lemma clock_now_Ok: "clock_now E s = (Ok now, t) \<Longrightarrow> now = fst (now_secs E (mt_world s))"
  by (auto simp: clock_now_def on_world_def split: prod.splits)

lemma post_swap_Ok:
  assumes "post_swap X E r s = (Ok sgs, t)"
  obtains n now fee :: u64 and ys where
    "unat n = input_value (sw_inputs r)"
    "\<forall>p \<in> set (sw_inputs r). proof_valid X (mt_keyset s) p \<and> unspent X (mt_spent_ys s) p"
    "verify_spending_conditions X (sw_inputs r) (Some (sw_outputs r)) None now = Ok ()"
    "input_fee_total (mt_keyset s) (sw_inputs r) = Ok fee" "unat n = output_value (sw_outputs r) + unat fee"
    "proof_ys X (sw_inputs r) = Ok ys" "distinct ys" "set ys \<inter> set (mt_spent_ys s) = {}"
    "set (mt_spent_ys t) = set (mt_spent_ys s) \<union> set ys"
    "list_all2 (answers X (mt_keyset s)) (sw_outputs r) sgs"
    "mt_issued_outputs t = fold (\<lambda>(m, sg). AList.update (index_key X m) sg) (zip (sw_outputs r) sgs) (mt_issued_outputs s)"
    "mt_mint_quotes t = mt_mint_quotes s" "mt_melt_quotes t = mt_melt_quotes s"
    "now = fst (now_secs E (mt_world s))"
proof -
  from assms obtain n s1 now s2 m fee req s3 s4 where
    v: "verify_proofs X (sw_inputs r) s = (Ok n, s1)" and c: "clock_now E s1 = (Ok now, s2)"
    and cond: "verify_spending_conditions X (sw_inputs r) (Some (sw_outputs r)) None now = Ok ()"
    and m: "sum_amounts (sw_outputs r) = Ok m"
    and fee: "input_fee_total (mt_keyset s2) (sw_inputs r) = Ok fee"
    and req: "checked_add m fee = Some req" "n = req"
    and claim: "claim_proofs X (sw_inputs r) s2 = (Ok (), s3)"
    and sign: "sign_outputs X E (sw_outputs r) s3 = (Ok sgs, s4)"
    and pers: "persist X E s4 = (Ok (), t)"
    by (auto simp: post_swap_def bind_Ok_iff simp del: bind_lift_res bind_guard_err split: if_splits)
  have q: "quiet s1 s2" "quiet s4 t" "signing s3 s4"
    using climbsD[OF quiet_clock c] climbsD[OF quiet_persist pers] climbsD[OF signing_sign_outputs sign] .
  obtain ys where ys: "proof_ys X (sw_inputs r) = Ok ys" "distinct ys" "set ys \<inter> set (mt_spent_ys s2) = {}"
    "s3 = s2\<lparr>mt_spent_ys := fold List.insert ys (mt_spent_ys s2)\<rparr>"
    by (rule claim_proofs_Ok[OF claim])
  note vp = verify_proofs_Ok[OF v]
  have frame: "mt_keyset s2 = mt_keyset s" "mt_spent_ys s2 = mt_spent_ys s" "mt_keyset s3 = mt_keyset s"
    "mt_issued_outputs s3 = mt_issued_outputs s" "mt_issued_outputs t = mt_issued_outputs s4"
    "mt_spent_ys t = mt_spent_ys s3" "mt_mint_quotes t = mt_mint_quotes s" "mt_melt_quotes t = mt_melt_quotes s"
    using q vp(1) ys(4) by (simp_all add: quiet_def signing_def)
  have "unat n = output_value (sw_outputs r) + unat fee"
    using req(2) checked_add_Some[OF req(1)] sum_amounts_Ok[OF m] by simp
  moreover have "set (mt_spent_ys t) = set (mt_spent_ys s) \<union> set ys"
    using frame ys(4) by (simp add: fold_insert_set)
  moreover have "now = fst (now_secs E (mt_world s))"
    using clock_now_Ok[OF c] vp(1) by simp
  ultimately show ?thesis
    by (intro that[of n now fee ys]) (use vp cond fee ys frame sign_outputs_Ok[OF sign] in simp_all)
qed

text \<open>C1: a successful swap conserves value: what the inputs are worth is what the signatures are
  worth plus the input fee, and the signatures answer the requested outputs one by one.\<close>

theorem swap_conserves_value:
  assumes "post_swap X E r s = (Ok sgs, t)" "length (sw_inputs r) < 2 ^ 64"
  shows "input_value (sw_inputs r) = signed_value sgs + fee_of (mt_keyset s) (length (sw_inputs r))
    \<and> list_all2 (answers X (mt_keyset s)) (sw_outputs r) sgs"
proof (rule post_swap_Ok[OF assms(1)])
  fix n fee
  assume "unat n = input_value (sw_inputs r)" "input_fee_total (mt_keyset s) (sw_inputs r) = Ok fee"
    "unat n = output_value (sw_outputs r) + unat fee" "list_all2 (answers X (mt_keyset s)) (sw_outputs r) sgs"
  then show ?thesis using input_fee_total_Ok[OF _ assms(2)] by (simp add: answers_value)
qed

theorem swap_conserves_value_witness:
  "\<exists>sgs t. post_swap demo_externs demo_env demo_swap demo_mint = (Ok sgs, t) \<and> signed_value sgs = 5"
proof -
  obtain sgs t where run: "post_swap demo_externs demo_env demo_swap demo_mint = (Ok sgs, t)"
    using demo_swap_runs by blast
  from swap_conserves_value[OF run] have "signed_value sgs = 5"
    by (simp add: demo_swap_def demo_simps fee_of_def demo_mint_def)
  with run show ?thesis by blast
qed

text \<open>C2: a successful swap consumes its inputs: every input was signed by the mint for its
  amount and unspent, no two inputs are the same proof, exactly the inputs become spent, and the
  spending conditions of all inputs were met at the time the mint's clock shows when the request
  arrives.\<close>

theorem swap_consumes_inputs:
  assumes "post_swap X E r s = (Ok sgs, t)" "now = fst (now_secs E (mt_world s))"
  shows "\<exists>ys. proof_ys X (sw_inputs r) = Ok ys \<and> distinct ys
    \<and> set ys \<inter> set (mt_spent_ys s) = {} \<and> set (mt_spent_ys t) = set (mt_spent_ys s) \<union> set ys
    \<and> (\<forall>p \<in> set (sw_inputs r). proof_valid X (mt_keyset s) p)
    \<and> (sig_all_accepted X (sw_inputs r) (Some (sw_outputs r)) None now \<or> inputs_accepted X (sw_inputs r) now)"
proof -
  obtain ys where
    "\<forall>p \<in> set (sw_inputs r). proof_valid X (mt_keyset s) p \<and> unspent X (mt_spent_ys s) p"
    "verify_spending_conditions X (sw_inputs r) (Some (sw_outputs r)) None now = Ok ()"
    "proof_ys X (sw_inputs r) = Ok ys" "distinct ys" "set ys \<inter> set (mt_spent_ys s) = {}"
    "set (mt_spent_ys t) = set (mt_spent_ys s) \<union> set ys"
    by (rule post_swap_Ok[OF assms(1), folded assms(2)], rule that; simp)
  with verify_spending_conditions_sound[OF this(2)] show ?thesis
    by (intro exI[of _ ys] conjI) simp_all
qed

theorem swap_consumes_inputs_witness:
  "\<exists>sgs t. post_swap demo_externs demo_env demo_swap demo_mint = (Ok sgs, t)
     \<and> set (mt_spent_ys t) = {''a'', ''b''}
     \<and> (\<forall>p \<in> set (sw_inputs demo_swap). proof_valid demo_externs demo_keyset p)
     \<and> inputs_accepted demo_externs (sw_inputs demo_swap) 1000"
proof -
  obtain sgs t where run: "post_swap demo_externs demo_env demo_swap demo_mint = (Ok sgs, t)"
    using demo_swap_runs by blast
  have clock: "1000 = fst (now_secs demo_env (mt_world demo_mint))"
    by (simp add: demo_env_def demo_mint_def demo_start_def)
  have ys: "proof_ys demo_externs (sw_inputs demo_swap) = Ok [''a'', ''b'']"
    by (simp add: proof_ys_def demo_swap_def demo_simps)
  have "\<not> sig_all_accepted demo_externs (sw_inputs demo_swap) (Some (sw_outputs demo_swap)) None 1000"
    by (auto simp: sig_all_accepted_def demo_swap_def lock_for_def demo_simps)
  with swap_consumes_inputs[OF run clock] run ys show ?thesis
    by (auto simp: demo_mint_def)
qed

section \<open>Single spending\<close>

lemma verify_proofs_spent:
  assumes "p \<in> set ps" "proof_y_hex X (pf_secret p) = Ok y" "y \<in> set (mt_spent_ys s)"
  shows "\<not> is_ok (fst (verify_proofs X ps s))"
proof
  assume "is_ok (fst (verify_proofs X ps s))"
  then obtain n t where "verify_proofs X ps s = (Ok n, t)"
    by (cases "verify_proofs X ps s"; cases "fst (verify_proofs X ps s)") auto
  from verify_proofs_Ok(3)[OF this] assms show False by (auto simp: unspent_def)
qed

lemma bind_not_ok:
  "(\<And>x t. m s = (Ok x, t) \<Longrightarrow> \<not> is_ok (fst (f x t))) \<Longrightarrow> \<not> is_ok (fst (bind m f s))"
  by (auto simp: bind_def split: prod.split res.split)

lemma swap_rejects_spent:
  assumes "p \<in> set (sw_inputs r)" "proof_y_hex X (pf_secret p) = Ok y" "y \<in> set (mt_spent_ys s)"
  shows "\<not> is_ok (fst (post_swap X E r s))"
  unfolding post_swap_def
  by (rule bind_not_ok) (use verify_proofs_spent[OF assms] in simp)

lemma melt_rejects_spent:
  assumes "p \<in> set (lr_inputs r)" "proof_y_hex X (pf_secret p) = Ok y" "y \<in> set (mt_spent_ys s)"
  shows "\<not> is_ok (fst (post_melt X E r s))"
  unfolding post_melt_def
proof (rule bind_not_ok, rule bind_not_ok, rule bind_not_ok)
  fix e u v n x t
  assume "find_melt_quote (lr_quote r) s = (Ok e, u)" "lift_res (check_melt_state (le_state e)) u = (Ok x, v)"
    "verify_proofs X (lr_inputs r) v = (Ok n, t)"
  then have "verify_proofs X (lr_inputs r) s = (Ok n, t)" by (simp add: find_melt_quote_def)
  with verify_proofs_spent[OF assms] have False by simp
  then show "\<not> is_ok (fst (bind (clock_now E) f t))" for f :: "u64 \<Rightarrow> ('a mint, cashu_error, melt_response) op" ..
qed

text \<open>C3: no double spending. Once a swap has succeeded, whatever requests the mint handles
  afterwards, a proof with the secret of one of its inputs is never accepted again, neither by
  a swap nor by a melt.\<close>

theorem no_double_spend:
  assumes "post_swap X E r s = (Ok sgs, t)" "mint_inv X s" "(mint_step X E)\<^sup>*\<^sup>* t u"
    and "p \<in> set (sw_inputs r)" "pf_secret p' = pf_secret p"
  shows "(p' \<in> set (sw_inputs r') \<longrightarrow> \<not> is_ok (fst (post_swap X E r' u)))
    \<and> (p' \<in> set (lr_inputs l) \<longrightarrow> \<not> is_ok (fst (post_melt X E l u)))"
proof -
  have "mint_inv X t"
    using climbsD[OF lawful_post_swap assms(1)] assms(2) by (simp add: lawful_def)
  then have sub: "set (mt_spent_ys t) \<subseteq> set (mt_spent_ys u)"
    using steps_advance[OF assms(3)] by (simp add: advance_def)
  obtain ys where ys: "proof_ys X (sw_inputs r) = Ok ys" "set (mt_spent_ys t) = set (mt_spent_ys s) \<union> set ys"
    by (rule post_swap_Ok[OF assms(1)], rule that; assumption)
  obtain y where y: "proof_y_hex X (pf_secret p') = Ok y" "y \<in> set (mt_spent_ys u)"
    using proof_ys_member[OF ys(1) assms(4)] ys(2) sub assms(5) by auto
  show ?thesis
    using swap_rejects_spent[OF _ y] melt_rejects_spent[OF _ y] by simp
qed

theorem no_double_spend_witness:
  "\<exists>sgs t. post_swap demo_externs demo_env demo_swap demo_mint = (Ok sgs, t)
     \<and> \<not> is_ok (fst (post_swap demo_externs demo_env demo_swap t))"
proof -
  obtain sgs t where run: "post_swap demo_externs demo_env demo_swap demo_mint = (Ok sgs, t)"
    using demo_swap_runs by blast
  have "demo_proof 4 ''a'' \<in> set (sw_inputs demo_swap)" by (simp add: demo_swap_def)
  note again = no_double_spend[OF run demo_mint_inv rtranclp.rtrancl_refl this refl, of demo_swap, THEN conjunct1]
  have "\<not> is_ok (fst (post_swap demo_externs demo_env demo_swap t))"
    by (rule again[rule_format]) (simp add: demo_swap_def)
  with run show ?thesis by metis
qed

section \<open>Minting\<close>

lemma optional_Ok_iff:
  "(case x of None \<Rightarrow> ret () | Some v \<Rightarrow> lift_res (g v)) s = (Ok (), t) \<longleftrightarrow> t = s \<and> (\<forall>v. x = Some v \<longrightarrow> g v = Ok ())"
  by (auto split: option.split)

definition same_keyset :: "'w mint \<Rightarrow> 'w mint \<Rightarrow> bool" where
  "same_keyset s t \<longleftrightarrow> mt_keyset t = mt_keyset s \<and> mt_issued_outputs t = mt_issued_outputs s"

interpretation same_keyset: state_preorder same_keyset
  by unfold_locales (auto simp: same_keyset_def)

lemma keyset_quiet: "climbs quiet m \<Longrightarrow> climbs same_keyset m"
  by (erule climbs_weaken) (auto simp: quiet_def signing_def same_keyset_def)

lemma keyset_update: "climbs same_keyset (update_mint_quote q f)"
  unfolding update_mint_quote_def
  by (intro same_keyset.climbs_rules same_keyset.climbs_modify keyset_quiet quiet_ops) (simp add: same_keyset_def)

lemma keyset_refresh: "climbs same_keyset (refresh_mint_quote_state X E q)"
  unfolding refresh_mint_quote_state_def
  by (auto intro!: same_keyset.climbs_rules keyset_update quiet_ops[THEN keyset_quiet])

lemma post_mint_Ok:
  assumes "post_mint X E r s = (Ok sgs, t)"
  obtains u e e' m n now where "refresh_mint_quote_state X E (mr_quote r) s = (Ok (), u)"
    "map_of (mt_mint_quotes u) (mr_quote r) = Some e" "me_state e = PAID"
    "\<And>pk. me_pubkey e = Some pk \<Longrightarrow>
       verify_quote_signature X pk (mr_quote r) (mr_outputs r) (mr_signature r) = Ok ()"
    "checked_sub (me_amount_paid e) (me_amount_issued e) = Some m"
    "unat n = output_value (mr_outputs r)" "\<not> m < n"
    "record_issue now (me_amount_issued e) n e = Ok e'"
    "map_of (mt_mint_quotes t) (mr_quote r) = Some e'"
    "list_all2 (answers X (mt_keyset s)) (mr_outputs r) sgs"
    "mt_issued_outputs t = fold (\<lambda>(m, sg). AList.update (index_key X m) sg) (zip (mr_outputs r) sgs) (mt_issued_outputs u)"
proof -
  from assms obtain u e m n s3 now s4 e1 e' where
    ref: "refresh_mint_quote_state X E (mr_quote r) s = (Ok (), u)"
    and find: "map_of (mt_mint_quotes u) (mr_quote r) = Some e" "me_state e = PAID"
    and lck: "\<forall>pk. me_pubkey e = Some pk \<longrightarrow>
       verify_quote_signature X pk (mr_quote r) (mr_outputs r) (mr_signature r) = Ok ()"
    and m: "checked_sub (me_amount_paid e) (me_amount_issued e) = Some m"
    and n: "sum_amounts (mr_outputs r) = Ok n" and le: "\<not> m < n"
    and sign: "sign_outputs X E (mr_outputs r) u = (Ok sgs, s3)"
    and clock: "clock_now E s3 = (Ok now, s4)"
    and e1: "map_of (mt_mint_quotes s4) (mr_quote r) = Some e1" "record_issue now (me_amount_issued e) n e1 = Ok e'"
    and pers: "persist X E (s4\<lparr>mt_mint_quotes := AList.update (mr_quote r) e' (mt_mint_quotes s4)\<rparr>) = (Ok (), t)"
    by (auto simp: post_mint_def bind_Ok_iff find_mint_quote_def require_paid_def update_mint_quote_def optional_Ok_iff
        simp del: bind_lift_res bind_guard_err split: if_splits)
  have q: "signing u s3" "quiet s3 s4" "mt_keyset u = mt_keyset s"
    "quiet (s4\<lparr>mt_mint_quotes := AList.update (mr_quote r) e' (mt_mint_quotes s4)\<rparr>) t"
    using climbsD[OF signing_sign_outputs sign] climbsD[OF quiet_clock clock] climbsD[OF quiet_persist pers]
      climbsD[OF keyset_refresh ref] by (simp_all add: same_keyset_def)
  then have "mt_mint_quotes s4 = mt_mint_quotes u" by (simp add: quiet_def signing_def)
  with e1(1) find(1) have "e1 = e" by simp
  with e1 m n le find lck q sum_amounts_Ok[OF n] sign_outputs_Ok[OF sign] show ?thesis
    by (intro that[OF ref find(1), of m n now e']) (auto simp: quiet_def signing_def)
qed

lemma refreshed_entry:
  assumes "refreshed q s u" "map_of (mt_mint_quotes u) q = Some e"
  obtains e0 where "map_of (mt_mint_quotes s) q = Some e0" "me_amount_issued e = me_amount_issued e0"
    "me_amount e = me_amount e0" "me_pubkey e = me_pubkey e0"
  using assms that by (auto simp: refreshed_def settle_def bump_updated_at_def)

text \<open>C4: minting never issues more than was paid. A successful mint raises the issued amount of
  the quote by exactly the value of the signatures it returns, never above the quoted amount,
  and the quote becomes ISSUED exactly when nothing is left to issue.\<close>

theorem mint_within_paid:
  assumes "post_mint X E r s = (Ok sgs, t)" "mint_inv X s"
  shows "\<exists>e e'. map_of (mt_mint_quotes s) (mr_quote r) = Some e \<and> map_of (mt_mint_quotes t) (mr_quote r) = Some e'
    \<and> unat (me_amount_issued e') = unat (me_amount_issued e) + signed_value sgs
    \<and> me_amount e' = me_amount e \<and> me_amount_issued e' \<le> me_amount e'
    \<and> (me_state e' = ISSUED \<longleftrightarrow> me_amount_issued e' = me_amount e')"
proof -
  obtain u e e' m now and n :: u64 where ref: "refresh_mint_quote_state X E (mr_quote r) s = (Ok (), u)"
    and e: "map_of (mt_mint_quotes u) (mr_quote r) = Some e" "me_state e = PAID"
    and m: "checked_sub (me_amount_paid e) (me_amount_issued e) = Some m"
    and n: "unat n = output_value (mr_outputs r)" "\<not> m < n"
    and rec: "record_issue now (me_amount_issued e) n e = Ok e'"
    and t: "map_of (mt_mint_quotes t) (mr_quote r) = Some e'"
    and sgs: "list_all2 (answers X (mt_keyset s)) (mr_outputs r) sgs"
    by (rule post_mint_Ok[OF assms(1)], rule that; assumption)
  have inv: "mint_inv X u" "mint_inv X t"
    using climbsD[OF lawful_refresh ref] climbsD[OF lawful_post_mint assms(1)] assms(2) by (simp_all add: lawful_def)
  with e(1) t have ok: "quote_ok e" "quote_ok e'" by (auto simp: mint_inv_def ranI)
  note r = record_issue_ok[OF ok(1) e(2) m n(2) rec]
  obtain e0 where e0: "map_of (mt_mint_quotes s) (mr_quote r) = Some e0"
    "me_amount_issued e = me_amount_issued e0" "me_amount e = me_amount e0"
    by (rule refreshed_entry[OF refresh_quotes[OF ref] e(1)])
  have "me_state e' \<noteq> UNPAID" using r(1) e(2) by (auto simp: quote_le_def quote_rank_def split: if_splits)
  with ok(2) have paid: "me_amount_paid e' = me_amount e'" "me_amount_issued e' \<le> me_amount e'"
    by (auto simp: quote_ok_def)
  have "me_amount e' = me_amount e" using r(1) by (simp add: quote_le_def)
  with r(2) n(1) answers_value[OF sgs] e0 t r(3) paid show ?thesis by auto
qed

theorem mint_within_paid_witness:
  "\<exists>sgs t e'. post_mint demo_externs demo_env demo_mint_request demo_busy = (Ok sgs, t)
     \<and> map_of (mt_mint_quotes t) ''q'' = Some e' \<and> me_amount_issued e' \<le> me_amount e'"
proof -
  obtain sgs t where run: "post_mint demo_externs demo_env demo_mint_request demo_busy = (Ok sgs, t)"
    using demo_mint_runs by blast
  from mint_within_paid[OF run demo_busy_inv] run show ?thesis by (auto simp: demo_mint_request_def)
qed

text \<open>C5: a locked quote (NUT-20) mints only with a signature of its key over the quote id and
  all outputs.\<close>

theorem locked_quote_needs_signature:
  assumes "post_mint X E r s = (Ok sgs, t)"
    and "map_of (mt_mint_quotes s) (mr_quote r) = Some e" "me_pubkey e = Some pk_hex"
  shows "\<exists>h sg pk. mr_signature r = Some h \<and> schnorr_from_str X h = Some sg
    \<and> parse_compressed_pubkey X pk_hex = Some pk
    \<and> schnorr_verify X pk (quote_sig_message (mr_quote r) (mr_outputs r)) sg"
proof -
  obtain u e1 where ref: "refresh_mint_quote_state X E (mr_quote r) s = (Ok (), u)"
    and e1: "map_of (mt_mint_quotes u) (mr_quote r) = Some e1"
    and sig: "\<And>pk. me_pubkey e1 = Some pk \<Longrightarrow>
       verify_quote_signature X pk (mr_quote r) (mr_outputs r) (mr_signature r) = Ok ()"
    by (rule post_mint_Ok[OF assms(1)], rule that; assumption)
  obtain e0 where "map_of (mt_mint_quotes s) (mr_quote r) = Some e0" "me_pubkey e1 = me_pubkey e0"
    by (rule refreshed_entry[OF refresh_quotes[OF ref] e1])
  with assms(2,3) have "me_pubkey e1 = Some pk_hex" by simp
  from sig[OF this] show ?thesis by (auto simp: verify_quote_signature_def split: if_splits)
qed

theorem locked_quote_needs_signature_witness:
  "\<exists>sgs t. post_mint demo_externs demo_env demo_locked_request demo_locked = (Ok sgs, t)
     \<and> (\<exists>h sg. mr_signature demo_locked_request = Some h \<and> schnorr_from_str demo_externs h = Some sg)"
proof -
  obtain sgs t where run: "post_mint demo_externs demo_env demo_locked_request demo_locked = (Ok sgs, t)"
    using demo_locked_runs by blast
  have "map_of (mt_mint_quotes demo_locked) (mr_quote demo_locked_request) = Some (demo_quote\<lparr>me_pubkey := Some DEMO_PK\<rparr>)"
    by (simp add: demo_locked_def demo_locked_request_def demo_mint_request_def)
  from locked_quote_needs_signature[OF run this] run show ?thesis by auto
qed

section \<open>Recovering signatures\<close>

lemma fold_index_lookup:
  assumes "distinct (map (index_key X) ms)" "length ms = length sgs" "i < length ms"
  shows "map_of (fold (\<lambda>(m, sg). AList.update (index_key X m) sg) (zip ms sgs) al) (index_key X (ms ! i)) = Some (sgs ! i)"
  unfolding map_of_fold_update
  by (rule fold_upd_distinct) (use assms in \<open>auto simp: set_zip\<close>)

lemma restore_indexed:
  assumes "mt_issued_outputs t = fold (\<lambda>(m, sg). AList.update (index_key X m) sg) (zip ms sgs) al"
    and "distinct (map (index_key X) ms)" "length ms = length sgs"
  shows "post_restore X (map bm_b ms) t = map2 (\<lambda>m sg. \<lparr>ro_y = bm_b m, ro_signature = sg\<rparr>) ms sgs"
proof -
  have "map_of (mt_issued_outputs t) (index_key X (ms ! i)) = Some (sgs ! i)" if "i < length ms" for i
    using fold_index_lookup[OF assms(2,3) that, of al] assms(1) by simp
  then have "list_all2 (\<lambda>m sg. map_of (mt_issued_outputs t) (hex_encode X (to_bytes (bm_b m))) = Some sg) ms sgs"
    using assms(3) by (simp add: list_all2_conv_all_nth index_key_def)
  then show ?thesis
    by (induction rule: list_all2_induct) (simp_all add: post_restore_def map_filter_simps)
qed

text \<open>C6: a wallet that lost the answer of a swap gets it back: restoring the blinded points of
  the outputs returns exactly the signatures of the swap, in order.\<close>

theorem swap_restorable:
  assumes "post_swap X E r s = (Ok sgs, t)" "distinct (map (\<lambda>m. hex_encode X (to_bytes (bm_b m))) (sw_outputs r))"
  shows "post_restore X (map bm_b (sw_outputs r)) t = map2 (\<lambda>m sg. \<lparr>ro_y = bm_b m, ro_signature = sg\<rparr>) (sw_outputs r) sgs"
proof -
  obtain "list_all2 (answers X (mt_keyset s)) (sw_outputs r) sgs"
    "mt_issued_outputs t = fold (\<lambda>(m, sg). AList.update (index_key X m) sg) (zip (sw_outputs r) sgs) (mt_issued_outputs s)"
    by (rule post_swap_Ok[OF assms(1)], rule that; assumption)
  with assms(2) show ?thesis
    by (intro restore_indexed) (auto simp: index_key_def[abs_def] dest: list_all2_lengthD)
qed

theorem swap_restorable_witness:
  "\<exists>sgs t. post_swap demo_externs demo_env demo_swap demo_mint = (Ok sgs, t)
     \<and> post_restore demo_externs (map bm_b (sw_outputs demo_swap)) t
         = map2 (\<lambda>m sg. \<lparr>ro_y = bm_b m, ro_signature = sg\<rparr>) (sw_outputs demo_swap) sgs"
proof -
  obtain sgs t where run: "post_swap demo_externs demo_env demo_swap demo_mint = (Ok sgs, t)"
    using demo_swap_runs by blast
  have "distinct (map (\<lambda>m. hex_encode demo_externs (to_bytes (bm_b m))) (sw_outputs demo_swap))"
    by (simp add: demo_swap_def demo_simps demo_hash_def demo_externs_def)
  from swap_restorable[OF run this] run show ?thesis by blast
qed

end
