(* ===== verification/Melt_Theorems.thy ===== *)
theory Melt_Theorems
  imports Mint_Theorems
begin

text \<open>
  Melting: the NUT-08 change never exceeds the overpay and, on blank outputs, equals it; the
  change-making loop ends; a successful melt conserves value; a failed payment gives every
  input back and parks the quote.
\<close>

section \<open>Making change\<close>

lemma find_fitting:
  assumes "keyset_ok X k" "left > (0::u64)"
  obtains d sk pk where "find (\<lambda>(a, _, _). a \<le> left) (rev (dk_keys k)) = Some (d, sk, pk)"
    "d \<in> set DENOMINATIONS" "d \<le> left" "d > 0"
proof (cases "find (\<lambda>(a, _, _). a \<le> left) (rev (dk_keys k))")
  case None
  have "1 \<in> set (map fst (dk_keys k))" using assms(1) by (simp add: keyset_ok_def DENOMINATIONS_def)
  then obtain sk pk where "(1, sk, pk) \<in> set (dk_keys k)" by auto
  with None have "\<not> 1 \<le> left" by (auto simp: find_None_iff)
  with assms(2) show ?thesis by (simp add: word_le_nat_alt word_less_nat_alt)
next
  case (Some e)
  obtain d sk pk where e: "e = (d, sk, pk)" by (cases e)
  from Some obtain i where "i < length (rev (dk_keys k))" "rev (dk_keys k) ! i = e" "d \<le> left"
    using e by (auto simp: find_Some_iff)
  then have "e \<in> set (dk_keys k)" "d \<le> left" using nth_mem[of i "rev (dk_keys k)"] by simp_all
  then have "d \<in> set (map fst (dk_keys k))" using e by force
  then have den: "d \<in> set DENOMINATIONS" using assms(1) by (simp add: keyset_ok_def del: set_map)
  then have "d > 0" by (auto simp: DENOMINATIONS_def)
  with that Some e den \<open>d \<le> left\<close> show ?thesis by blast
qed

lemma imprint_pieces_exact:
  assumes "keyset_ok X k"
  obtains pieces where "imprint_pieces k remainder = Ok pieces"
    "sum_nat pieces = unat remainder" "set pieces \<subseteq> set DENOMINATIONS"
proof -
  let ?b = "\<lambda>(left::u64, pieces::u64 list, going). left > 0 \<and> going"
  let ?c = "\<lambda>(left, pieces, going::bool). case find (\<lambda>(a, _, _). a \<le> left) (rev (dk_keys k)) of
      None \<Rightarrow> (left, pieces, False) | Some (d, _, _) \<Rightarrow> (left - d, pieces @ [d], True)"
  let ?P = "\<lambda>(left::u64, pieces::u64 list, going). going \<and> sum_nat pieces + unat left = unat remainder
      \<and> set pieces \<subseteq> set DENOMINATIONS"
  have step: "?P (?c s) \<and> unat (fst (?c s)) < unat (fst s)" if P: "?P s" and b: "?b s" for s
  proof -
    obtain left pieces going where s: "s = (left, pieces, going)" by (cases s) auto
    with b have "left > 0" by simp
    then obtain d sk pk where d: "find (\<lambda>(a, _, _). a \<le> left) (rev (dk_keys k)) = Some (d, sk, pk)"
      "d \<in> set DENOMINATIONS" "d \<le> left" "d > 0"
      using find_fitting[OF assms] by blast
    with P s show ?thesis by (auto simp: unat_sub word_le_nat_alt word_less_nat_alt)
  qed
  have fin: "?P (while ?b ?c (remainder, [], True)) \<and> \<not> ?b (while ?b ?c (remainder, [], True))"
  proof (rule while_rule[where P = ?P and r = "measure (\<lambda>s. unat (fst s))"])
    fix s assume "?P s" "?b s"
    from step[OF this] show "?P (?c s)" "(?c s, s) \<in> measure (\<lambda>s. unat (fst s))" by simp_all
  qed auto
  obtain left pieces going where w: "while ?b ?c (remainder, [], True) = (left, pieces, going)"
    by (cases "while ?b ?c (remainder, [], True)") auto
  from fin have "going" "left = 0" "sum_nat pieces + unat left = unat remainder" "set pieces \<subseteq> set DENOMINATIONS"
    unfolding w by (auto simp: word_greater_zero_iff)
  moreover from \<open>going\<close> have "imprint_pieces k remainder = Ok pieces"
    unfolding imprint_pieces_def w by simp
  ultimately show ?thesis by (intro that[of pieces]) simp_all
qed

lemma fit_change_sum:
  "fit_change budget os = (fs, b, n) \<Longrightarrow>
     output_value fs + unat b = unat budget \<and> n = length (filter (\<lambda>m. bm_amount m = 0) fs)"
proof (induction os arbitrary: budget fs b n)
  case (Cons m ms)
  show ?case
  proof (cases "bm_amount m = 0 \<or> bm_amount m \<le> budget")
    case True
    then show ?thesis
      using Cons.prems Cons.IH
      by (fastforce simp: unat_sub word_le_nat_alt split: if_splits prod.splits)
  next
    case False
    with Cons.prems Cons.IH show ?thesis by simp
  qed
qed simp

lemma fill_blanks_sum:
  "length ps \<le> length (filter (\<lambda>m. bm_amount m = 0) os) \<Longrightarrow>
     output_value (fill_blanks os ps) = output_value os + sum_nat ps"
proof (induction os ps rule: fill_blanks.induct)
  case (2 m ms ps)
  then show ?case by (cases "bm_amount m = 0"; cases ps) simp_all
qed simp

lemma sum_positive: "output_value (filter (\<lambda>m. bm_amount m > 0) os) = output_value os"
  by (induction os) (auto simp: word_greater_zero_iff)

lemma melt_change_Ok:
  assumes "melt_change k input_sum required outputs = Ok ch" "keyset_ok X k"
  shows "case ch of None \<Rightarrow> outputs = None
    | Some os \<Rightarrow> unat required \<le> unat input_sum \<and> output_value os + unat required \<le> unat input_sum
        \<and> (\<forall>m ms. outputs = Some (m # ms) \<and> bm_amount m = 0 \<longrightarrow> output_value os + unat required = unat input_sum)"
proof (cases outputs)
  case None
  with assms(1) show ?thesis by (auto simp: melt_change_def)
next
  case (Some os)
  with assms(1) obtain overpay where o: "checked_sub input_sum required = Some overpay"
    by (auto simp: melt_change_def)
  obtain filled budget n where f: "fit_change overpay os = (filled, budget, n)"
    by (cases "fit_change overpay os") auto
  have r: "(if n > 0 then map_ok Some (imprint_blank_outputs k filled budget n) else Ok (Some filled)) = Ok ch"
    using assms(1) Some o f by (auto simp: melt_change_def)
  note over = checked_sub_Some[OF o] and fit = fit_change_sum[OF f]
  show ?thesis
  proof (cases "n > 0")
    case True
    obtain pieces where p: "imprint_pieces k budget = Ok pieces" "sum_nat pieces = unat budget"
      using imprint_pieces_exact[OF assms(2)] by metis
    with r True have "length pieces \<le> n" "ch = Some (fill_blanks filled pieces)"
      by (auto simp: map_ok_def imprint_blank_outputs_def split: if_splits)
    with fit over p fill_blanks_sum[of pieces filled] show ?thesis by auto
  next
    case False
    with fit have "\<not> (\<exists>m \<in> set filled. bm_amount m = 0)" by (auto simp: filter_empty_conv)
    moreover have "bm_amount m = 0 \<Longrightarrow> os = m # ms \<Longrightarrow> m \<in> set filled" for m ms
      using f by (auto split: prod.splits)
    ultimately show ?thesis using r False fit over Some by fastforce
  qed
qed

section \<open>Paying\<close>

lemma set_melt_state_Ok:
  "set_melt_state q st s = (Ok u, t) \<longleftrightarrow>
     (\<exists>e. map_of (mt_melt_quotes s) q = Some e \<and> t = s\<lparr>mt_melt_quotes := AList.update q (e\<lparr>le_state := st\<rparr>) (mt_melt_quotes s)\<rparr>)"
  by (auto simp: set_melt_state_def find_melt_quote_def bind_Ok_iff)

lemma try_pay_Some:
  "try_pay E iv a s = (Ok (Some p), t) \<Longrightarrow> \<exists>w w'. pay_invoice E iv a w = (Ok p, w')"
  by (auto simp: try_pay_def on_world_def split: prod.splits res.splits)

lemma melt_required_Ok: "melt_required a f g = Ok n \<Longrightarrow> unat n = unat a + unat f + unat g"
  by (auto simp: melt_required_def dest!: checked_add_Some split: option.splits)

text \<open>What holds once the checks of a melt have passed and its inputs are claimed.\<close>

definition melt_admitted ::
  "externs \<Rightarrow> melt_request \<Rightarrow> 'w mint \<Rightarrow> melt_quote_entry \<Rightarrow> u64 \<Rightarrow> blinded_message list option \<Rightarrow> string list \<Rightarrow> bool" where
  "melt_admitted X r s e fee ch ys \<longleftrightarrow>
     map_of (mt_melt_quotes s) (lr_quote r) = Some e \<and> le_state e = UNPAID
     \<and> input_fee_total (mt_keyset s) (lr_inputs r) = Ok fee
     \<and> unat (le_amount e) + unat (le_fee_reserve e) + unat fee \<le> input_value (lr_inputs r)
     \<and> (\<exists>n m :: u64. unat n = input_value (lr_inputs r) \<and> unat m = unat (le_amount e) + unat (le_fee_reserve e) + unat fee
          \<and> melt_change (mt_keyset s) n m (lr_outputs r) = Ok ch)
     \<and> (\<forall>p \<in> set (lr_inputs r). proof_valid X (mt_keyset s) p \<and> unspent X (mt_spent_ys s) p)
     \<and> (\<exists>now. verify_spending_conditions X (lr_inputs r) (lr_outputs r) (Some (lr_quote r)) now = Ok ())
     \<and> proof_ys X (lr_inputs r) = Ok ys \<and> distinct ys \<and> set ys \<inter> set (mt_spent_ys s) = {}"

text \<open>The state in which the payment is tried: the inputs are spent and the quote is pending.\<close>

definition melt_pending :: "melt_request \<Rightarrow> 'w mint \<Rightarrow> melt_quote_entry \<Rightarrow> string list \<Rightarrow> 'w mint \<Rightarrow> bool" where
  "melt_pending r s e ys u \<longleftrightarrow>
     quiet (s\<lparr>mt_spent_ys := fold List.insert ys (mt_spent_ys s),
            mt_melt_quotes := AList.update (lr_quote r) (e\<lparr>le_state := PENDING\<rparr>) (mt_melt_quotes s)\<rparr>) u"


text \<open>The read-only half of \<open>post_melt\<close>: every check, up to the change to hand out.\<close>

definition melt_checks ::
  "externs \<Rightarrow> 'w env \<Rightarrow> melt_request \<Rightarrow> ('w mint, cashu_error, melt_quote_entry \<times> blinded_message list option) op" where
  "melt_checks X E request =
     bind (find_melt_quote (lr_quote request)) (\<lambda>entry.
     bind (lift_res (check_melt_state (le_state entry))) (\<lambda>_.
     bind (verify_proofs X (lr_inputs request)) (\<lambda>input_sum.
     bind (clock_now E) (\<lambda>now.
     bind (lift_res (verify_spending_conditions X (lr_inputs request) (lr_outputs request)
              (Some (lr_quote request)) now)) (\<lambda>_.
     bind (gets mt_keyset) (\<lambda>k.
     bind (lift_res (input_fee_total k (lr_inputs request))) (\<lambda>fee.
     bind (lift_res (melt_required (le_amount entry) (le_fee_reserve entry) fee)) (\<lambda>required.
     bind (guard_err (input_sum < required) InsufficientInputs) (\<lambda>_.
     bind (lift_res (melt_change k input_sum required (lr_outputs request))) (\<lambda>change_outputs.
       ret (entry, change_outputs)))))))))))"

lemma post_melt_phases:
  "post_melt X E r = bind (melt_checks X E r) (\<lambda>(entry, ch).
     bind (claim_proofs X (lr_inputs r)) (\<lambda>_.
     bind (set_melt_state (lr_quote r) PENDING) (\<lambda>_.
     bind (persist X E) (\<lambda>_.
     bind (try_pay E (le_request entry) (le_amount entry)) (\<lambda>paid.
       case paid of Some preimage \<Rightarrow> melt_paid X E r ch preimage | None \<Rightarrow> melt_failed X E r)))))"
  by (simp add: post_melt_def melt_checks_def bind_assoc)

lemma quiet_melt_checks: "climbs quiet (melt_checks X E r)"
  unfolding melt_checks_def by (intro quiet.climbs_rules quiet_ops)

lemma melt_checks_Ok:
  assumes "melt_checks X E r s = (Ok (e, ch), t)" "claim_proofs X (lr_inputs r) t = (Ok x, u)"
  obtains fee ys where "melt_admitted X r s e fee ch ys" "u = t\<lparr>mt_spent_ys := fold List.insert ys (mt_spent_ys t)\<rparr>"
proof -
  from assms(1) obtain n now s1 fee m where
    q: "map_of (mt_melt_quotes s) (lr_quote r) = Some e" "check_melt_state (le_state e) = Ok ()"
    and v: "verify_proofs X (lr_inputs r) s = (Ok n, s1)" and c: "clock_now E s1 = (Ok now, t)"
    and cond: "verify_spending_conditions X (lr_inputs r) (lr_outputs r) (Some (lr_quote r)) now = Ok ()"
    and fee: "input_fee_total (mt_keyset t) (lr_inputs r) = Ok fee"
    and m: "melt_required (le_amount e) (le_fee_reserve e) fee = Ok m" "\<not> n < m"
    and ch: "melt_change (mt_keyset t) n m (lr_outputs r) = Ok ch"
    by (auto simp: melt_checks_def find_melt_quote_def bind_Ok_iff simp del: bind_lift_res bind_guard_err split: if_splits)
  have "quiet s t" using climbsD[OF quiet_melt_checks assms(1)] .
  then have same: "mt_keyset t = mt_keyset s" "mt_spent_ys t = mt_spent_ys s" by (simp_all add: quiet_def signing_def)
  obtain ys where ys: "proof_ys X (lr_inputs r) = Ok ys" "distinct ys" "set ys \<inter> set (mt_spent_ys t) = {}"
    "u = t\<lparr>mt_spent_ys := fold List.insert ys (mt_spent_ys t)\<rparr>"
    by (rule claim_proofs_Ok[OF assms(2)])
  note vp = verify_proofs_Ok[OF v] and req = melt_required_Ok[OF m(1)]
  have "unat m \<le> unat n" using m(2) by (simp add: word_less_nat_alt)
  then show ?thesis
    using q vp cond fee ch ys req same check_melt_state_Ok[OF q(2)]
    by (intro that[of fee ys]) (auto simp: melt_admitted_def)
qed

lemma persist_result: "persist X E s = (res, t) \<Longrightarrow> res = Ok () \<or> res = Panic"
  by (auto simp: persist_def split: if_splits prod.splits bool.splits)

lemma try_pay_result: "try_pay E iv a s = (res, t) \<Longrightarrow> (\<exists>p. res = Ok p) \<or> res = Panic"
  by (auto simp: try_pay_def split: prod.splits res.splits)

text \<open>
  Every run of \<open>post_melt\<close> that does not panic either stops at a check with nothing changed, or
  reaches the payment with the inputs claimed and the quote pending.
\<close>

lemma bind_run:
  assumes "bind m f s = (res, t)" "res \<noteq> Panic"
  obtains (Err) e where "m s = (Err e, t)" "res = Err e" | (Ok) x u where "m s = (Ok x, u)" "f x u = (res, t)"
  using assms by (auto simp: bind_def split: prod.splits res.splits)

lemma claim_proofs_Err: "claim_proofs X ps s = (Err e, t) \<Longrightarrow> t = s"
  by (auto simp: claim_proofs_def bind_def split: if_splits res.splits)

lemma melt_claimed_cases:
  assumes "melt_admitted X r s e fee ch ys" "quiet (s\<lparr>mt_spent_ys := fold List.insert ys (mt_spent_ys s)\<rparr>) s2" "res \<noteq> Panic"
    and run: "bind (set_melt_state (lr_quote r) PENDING) (\<lambda>_. bind (persist X E) (\<lambda>_.
      bind (try_pay E (le_request e) (le_amount e)) k)) s2 = (res, t)"
  obtains u paid v where "melt_pending r s e ys u"
    "try_pay E (le_request e) (le_amount e) u = (Ok paid, v)" "k paid v = (res, t)"
proof -
  let ?s3 = "s2\<lparr>mt_melt_quotes := AList.update (lr_quote r) (e\<lparr>le_state := PENDING\<rparr>) (mt_melt_quotes s2)\<rparr>"
  have "set_melt_state (lr_quote r) PENDING s2 = (Ok (), ?s3)"
    using assms(1,2) by (auto simp: set_melt_state_Ok melt_admitted_def quiet_def signing_def)
  with run have "bind (persist X E) (\<lambda>_. bind (try_pay E (le_request e) (le_amount e)) k) ?s3 = (res, t)"
    by (simp add: bind_apply_Ok)
  then obtain x u where p: "persist X E ?s3 = (Ok x, u)" "bind (try_pay E (le_request e) (le_amount e)) k u = (res, t)"
    by (rule bind_run[OF _ assms(3)]) (auto dest: persist_result)
  then obtain paid v where y: "try_pay E (le_request e) (le_amount e) u = (Ok paid, v)" "k paid v = (res, t)"
    by (elim bind_run[OF _ assms(3)]) (auto dest: try_pay_result)
  have "quiet ?s3 u" using climbsD[OF quiet_persist p(1)] .
  then have "melt_pending r s e ys u"
    using assms(2) by (simp add: melt_pending_def quiet_def signing_def)
  with y show ?thesis by (rule that[rotated])
qed

text \<open>
  Only the payment itself fails with \<open>PaymentFailed\<close>: no check of an unpaid quote does. Results
  that are no such failure are closed under sequencing, so each check is a line.
\<close>

definition unrefused :: "(cashu_error, 'a) res \<Rightarrow> bool" where
  "unrefused res \<longleftrightarrow> res \<noteq> Err PaymentFailed"

lemma unrefused_rules [simp, intro]:
  "unrefused (Ok x)" "unrefused Panic" "er \<noteq> PaymentFailed \<Longrightarrow> unrefused (Err er)"
  "er \<noteq> PaymentFailed \<Longrightarrow> unrefused (ok_or er v)"
  by (simp_all add: unrefused_def)

lemma unrefused_bind [intro]: "unrefused r \<Longrightarrow> (\<And>x. r = Ok x \<Longrightarrow> unrefused (f x)) \<Longrightarrow> unrefused (res_bind r f)"
  by (cases r) (auto simp: unrefused_def)

lemma unrefused_map_ok [intro]: "unrefused r \<Longrightarrow> unrefused (map_ok f r)"
  unfolding map_ok_def by blast

lemma unrefused_proof_y: "unrefused (proof_y_hex X sec)"
  unfolding proof_y_hex_def by (intro unrefused_bind) auto

lemma unrefused_verify_proofs: "unrefused (verify_proofs_from X k spent n ps)"
  by (induction X k spent n ps rule: verify_proofs_from.induct) (auto intro!: unrefused_bind unrefused_proof_y)

lemma unrefused_lock: "unrefused (verify_lock X now msg p l)"
  by (cases l)
    (auto intro!: unrefused_bind simp: Let_def verify_p2pk_pathways_def verify_htlc_pathways_def
      verify_witness_signatures_def witness_signatures_def split: option.splits)

lemma unrefused_individually: "unrefused (verify_inputs_individually X ls now)"
  by (induction ls) (auto intro: unrefused_lock)

lemma unrefused_collect: "unrefused (collect_locks X ps)"
proof (induction ps)
  case (Cons p ps)
  have "unrefused (p2pk_lock X p s)" "unrefused (htlc_lock X p s)" for s
    by (auto simp: p2pk_lock_def htlc_lock_def split: res.splits)
  with Cons show ?case
    by (auto intro!: unrefused_bind split: option.splits secret_kind.splits)
qed simp

lemma unrefused_conditions: "unrefused (verify_spending_conditions X inputs outputs q now)"
  unfolding verify_spending_conditions_def verify_sig_all_def
  by (auto intro!: unrefused_bind unrefused_collect unrefused_individually unrefused_lock split: list.splits)

lemma unrefused_change: "unrefused (melt_change k n m outputs)"
  by (auto intro!: unrefused_bind unrefused_map_ok
      simp: melt_change_def check_outputs_signable_def imprint_blank_outputs_def imprint_pieces_def split: option.splits prod.splits)

definition never_refused :: "('s, cashu_error, 'a) op \<Rightarrow> bool" where
  "never_refused m \<longleftrightarrow> (\<forall>s. unrefused (fst (m s)))"

lemma never_refused_bind: "never_refused m \<Longrightarrow> (\<And>x. never_refused (f x)) \<Longrightarrow> never_refused (bind m f)"
  unfolding never_refused_def unrefused_def
proof
  fix s
  assume "\<forall>s. fst (m s) \<noteq> Err PaymentFailed" "\<And>x. \<forall>s. fst (f x s) \<noteq> Err PaymentFailed"
  then have "fst (m s) \<noteq> Err PaymentFailed" "\<And>x u. fst (f x u) \<noteq> Err PaymentFailed" by blast+
  then show "fst (bind m f s) \<noteq> Err PaymentFailed"
    by (cases "m s"; cases "fst (m s)") (simp_all add: bind_def)
qed

lemma never_refused_ops:
  "never_refused (ret x)" "never_refused (gets h)" "unrefused res \<Longrightarrow> never_refused (lift_res res)"
  "er \<noteq> PaymentFailed \<Longrightarrow> never_refused (guard_err c er)"
  "never_refused (clock_now E)" "never_refused (verify_proofs X ps)"
  by (simp_all add: never_refused_def clock_now_def on_world_def verify_proofs_def unrefused_verify_proofs split: prod.split)

lemma unrefused_sums: "unrefused (input_fee_total k ps)" "unrefused (melt_required a f g)"
  by (auto intro!: unrefused_bind simp: input_fee_total_def melt_required_def)

lemma melt_checks_unrefused:
  assumes "melt_checks X E r s = (Err er, t)" "map_of (mt_melt_quotes s) (lr_quote r) = Some e" "le_state e = UNPAID"
  shows "er \<noteq> PaymentFailed"
proof -
  let ?rest = "bind (verify_proofs X (lr_inputs r)) (\<lambda>input_sum. bind (clock_now E) (\<lambda>now.
     bind (lift_res (verify_spending_conditions X (lr_inputs r) (lr_outputs r) (Some (lr_quote r)) now)) (\<lambda>_.
     bind (gets mt_keyset) (\<lambda>k. bind (lift_res (input_fee_total k (lr_inputs r))) (\<lambda>fee.
     bind (lift_res (melt_required (le_amount e) (le_fee_reserve e) fee)) (\<lambda>required.
     bind (guard_err (input_sum < required) InsufficientInputs) (\<lambda>_.
     bind (lift_res (melt_change k input_sum required (lr_outputs r))) (\<lambda>change_outputs.
       ret (e, change_outputs)))))))))"
  have same: "melt_checks X E r s = ?rest s"
    unfolding melt_checks_def using assms(2,3)
    by (simp add: find_melt_quote_def check_melt_state_def bind_apply_Ok del: bind_lift_res bind_guard_err)
  have "never_refused ?rest"
    by (intro never_refused_bind never_refused_ops unrefused_conditions unrefused_sums unrefused_change) simp
  then have "unrefused (fst (melt_checks X E r s))" unfolding same never_refused_def ..
  then show ?thesis unfolding assms(1) unrefused_def by simp
qed

lemma claim_proofs_unrefused: "claim_proofs X ps s = (Err er, t) \<Longrightarrow> er \<noteq> PaymentFailed"
proof -
  have "unrefused (map_res (\<lambda>p. proof_y_hex X (pf_secret p)) ps)"
    by (induction ps) (auto intro!: unrefused_bind unrefused_proof_y)
  then show "claim_proofs X ps s = (Err er, t) \<Longrightarrow> er \<noteq> PaymentFailed"
    by (auto simp: claim_proofs_def unrefused_def split: if_splits res.splits)
qed

lemma post_melt_cases:
  assumes "post_melt X E r s = (res, t)" "res \<noteq> Panic"
  obtains (refused) e where "res = Err e" "quiet s t"
      "\<And>q. map_of (mt_melt_quotes s) (lr_quote r) = Some q \<Longrightarrow> le_state q = UNPAID \<Longrightarrow> e \<noteq> PaymentFailed"
  | (tried) e fee ch ys u paid v where "melt_admitted X r s e fee ch ys" "melt_pending r s e ys u"
      "try_pay E (le_request e) (le_amount e) u = (Ok paid, v)"
      "(case paid of Some preimage \<Rightarrow> melt_paid X E r ch preimage | None \<Rightarrow> melt_failed X E r) v = (res, t)"
  using assms(1)[unfolded post_melt_phases] assms(2)
proof (cases rule: bind_run)
  case (Err e)
  then show ?thesis using refused climbsD[OF quiet_melt_checks] melt_checks_unrefused[OF Err(1)] by blast
next
  case (Ok ech s1)
  obtain e ch where ech: "ech = (e, ch)" by (cases ech)
  note checks = Ok(1)[unfolded ech]
  have q1: "quiet s s1" using climbsD[OF quiet_melt_checks checks] .
  from Ok(2)[unfolded ech prod.case] assms(2) show ?thesis
  proof (cases rule: bind_run)
    case (Err x)
    then show ?thesis using refused q1 claim_proofs_Err claim_proofs_unrefused[OF Err(1)] by blast
  next
    case (Ok x s2)
    obtain fee ys where ad: "melt_admitted X r s e fee ch ys" "s2 = s1\<lparr>mt_spent_ys := fold List.insert ys (mt_spent_ys s1)\<rparr>"
      using melt_checks_Ok[OF checks Ok(1)] .
    have "quiet (s\<lparr>mt_spent_ys := fold List.insert ys (mt_spent_ys s)\<rparr>) s2"
      using q1 ad(2) by (simp add: quiet_def signing_def)
    from melt_claimed_cases[OF ad(1) this assms(2) Ok(2)] tried[OF ad(1)] show ?thesis by metis
  qed
qed

definition change_value :: "melt_response \<Rightarrow> nat" where
  "change_value rs = (case ls_change rs of None \<Rightarrow> 0 | Some sgs \<Rightarrow> signed_value sgs)"

lemma change_signed:
  assumes "(case ch of None \<Rightarrow> ret None | Some os \<Rightarrow> (let filled = filter (\<lambda>m. bm_amount m > 0) os in
      if filled = [] then ret None else bind (sign_outputs X E filled) (\<lambda>sgs. ret (Some sgs)))) v = (Ok change, u)"
  shows "signing v u" "(case change of None \<Rightarrow> 0 | Some sgs \<Rightarrow> signed_value sgs) = (case ch of None \<Rightarrow> 0 | Some os \<Rightarrow> output_value os)"
proof -
  let ?f = "filter (\<lambda>m. bm_amount m > 0)"
  consider (none) "change = None" "u = v" "ch = None" | (nil) os where "change = None" "u = v" "ch = Some os" "?f os = []"
    | (signs) os sgs where "ch = Some os" "change = Some sgs" "sign_outputs X E (?f os) v = (Ok sgs, u)"
    using assms by (cases ch) (auto simp: Let_def bind_Ok_iff split: if_splits)
  then have "signing v u \<and> (case change of None \<Rightarrow> 0 | Some sgs \<Rightarrow> signed_value sgs) = (case ch of None \<Rightarrow> 0 | Some os \<Rightarrow> output_value os)"
  proof cases
    case none
    then show ?thesis by (simp add: signing_def)
  next
    case nil
    then show ?thesis using sum_positive[of os] by (simp add: signing_def)
  next
    case signs
    then show ?thesis
      using climbsD[OF signing_sign_outputs signs(3)] answers_value[OF sign_outputs_Ok(1)[OF signs(3)]] sum_positive[of os]
      by simp
  qed
  then show "signing v u" "(case change of None \<Rightarrow> 0 | Some sgs \<Rightarrow> signed_value sgs) = (case ch of None \<Rightarrow> 0 | Some os \<Rightarrow> output_value os)"
    by simp_all
qed

lemma melt_paid_Ok:
  assumes "melt_paid X E r ch preimage v = (Ok rs, t)" "map_of (mt_melt_quotes v) (lr_quote r) = Some e"
  shows "change_value rs = (case ch of None \<Rightarrow> 0 | Some os \<Rightarrow> output_value os)"
    and "map_of (mt_melt_quotes t) (lr_quote r) = Some (e\<lparr>le_state := PAID\<rparr>)" "mt_spent_ys t = mt_spent_ys v"
    and "ls_payment_preimage rs = Some preimage"
proof -
  from assms(1) obtain change u u1 where
    sg: "(case ch of None \<Rightarrow> ret None | Some os \<Rightarrow> (let filled = filter (\<lambda>m. bm_amount m > 0) os in
           if filled = [] then ret None else bind (sign_outputs X E filled) (\<lambda>sgs. ret (Some sgs)))) v = (Ok change, u)"
    and st: "set_melt_state (lr_quote r) PAID u = (Ok (), u1)" and pers: "persist X E u1 = (Ok (), t)"
    and rs: "ls_change rs = change" "ls_payment_preimage rs = Some preimage"
    unfolding melt_paid_def by (auto simp: bind_Ok_iff find_melt_quote_def simp del: bind_lift_res)
  note change = change_signed[OF sg]
  have "quiet u1 t" using climbsD[OF quiet_persist pers] .
  with change(1) st assms(2) show "map_of (mt_melt_quotes t) (lr_quote r) = Some (e\<lparr>le_state := PAID\<rparr>)"
    "mt_spent_ys t = mt_spent_ys v"
    by (auto simp: set_melt_state_Ok signing_def quiet_def)
  show "change_value rs = (case ch of None \<Rightarrow> 0 | Some os \<Rightarrow> output_value os)"
    using change(2) rs(1) by (simp add: change_value_def)
  show "ls_payment_preimage rs = Some preimage" by (rule rs(2))
qed

lemma quiet_try_payD: "try_pay E iv a s = (res, t) \<Longrightarrow> quiet s t"
  by (rule climbsD[OF quiet_try_pay])

text \<open>C7: a successful melt conserves value. The quote was unpaid, the inputs cover the quoted
  amount, the fee reserve and the input fee; the backend paid the quote's invoice and gave the
  returned preimage; the mint keeps the whole reserve: the change handed out never exceeds what the inputs are worth beyond that,
  and equals it when the request's outputs start with a blank one; the inputs are spent and the quote is PAID.\<close>

theorem melt_conserves_value:
  assumes "post_melt X E r s = (Ok rs, t)" "mint_inv X s" "length (lr_inputs r) < 2 ^ 64"
  shows "\<exists>e ys preimage. map_of (mt_melt_quotes s) (lr_quote r) = Some e \<and> le_state e = UNPAID
    \<and> change_value rs + unat (le_amount e) + unat (le_fee_reserve e) + fee_of (mt_keyset s) (length (lr_inputs r))
        \<le> input_value (lr_inputs r)
    \<and> (\<forall>m ms. lr_outputs r = Some (m # ms) \<and> bm_amount m = 0 \<longrightarrow>
        change_value rs + unat (le_amount e) + unat (le_fee_reserve e) + fee_of (mt_keyset s) (length (lr_inputs r))
        = input_value (lr_inputs r))
    \<and> (\<exists>w w'. pay_invoice E (le_request e) (le_amount e) w = (Ok preimage, w')) \<and> ls_payment_preimage rs = Some preimage
    \<and> proof_ys X (lr_inputs r) = Ok ys \<and> set (mt_spent_ys t) = set (mt_spent_ys s) \<union> set ys
    \<and> map_of (mt_melt_quotes t) (lr_quote r) = Some (e\<lparr>le_state := PAID\<rparr>)"
proof (rule post_melt_cases[OF assms(1)])
  fix e fee ch ys u paid v
  assume tried: "melt_admitted X r s e fee ch ys" "melt_pending r s e ys u"
    "try_pay E (le_request e) (le_amount e) u = (Ok paid, v)"
    "(case paid of Some preimage \<Rightarrow> melt_paid X E r ch preimage | None \<Rightarrow> melt_failed X E r) v = (Ok rs, t)"
  from tried(4) obtain preimage where paid: "paid = Some preimage" "melt_paid X E r ch preimage v = (Ok rs, t)"
    by (cases paid) (auto simp: melt_failed_def bind_def split: prod.splits res.splits)
  have v: "quiet u v" using quiet_try_payD[OF tried(3)] .
  have here: "map_of (mt_melt_quotes v) (lr_quote r) = Some (e\<lparr>le_state := PENDING\<rparr>)"
    "set (mt_spent_ys v) = set (mt_spent_ys s) \<union> set ys"
    using tried(2) v by (simp_all add: melt_pending_def quiet_def signing_def fold_insert_set)
  have fee: "unat fee = fee_of (mt_keyset s) (length (lr_inputs r))"
    using tried(1) input_fee_total_Ok[OF _ assms(3)] by (simp add: melt_admitted_def)
  obtain n m :: u64 where nm: "unat n = input_value (lr_inputs r)" "unat m = unat (le_amount e) + unat (le_fee_reserve e) + unat fee"
    "melt_change (mt_keyset s) n m (lr_outputs r) = Ok ch"
    using tried(1) by (auto simp: melt_admitted_def)
  have "keyset_ok X (mt_keyset s)" using assms(2) by (simp add: mint_inv_def)
  note change = melt_change_Ok[OF nm(3) this] and closed = melt_paid_Ok[OF paid(2) here(1)]
  have "pay_invoice E (le_request e) (le_amount e) w = (Ok preimage, w') \<Longrightarrow> ?thesis" for w w'
    using change closed here(2) tried(1) nm fee
    by (intro exI[of _ e] exI[of _ ys] exI[of _ preimage]) (auto simp: melt_admitted_def split: option.splits)
  with try_pay_Some[OF tried(3)[unfolded paid(1)]] show ?thesis by blast
qed simp_all

theorem melt_conserves_value_witness:
  "\<exists>rs t. post_melt demo_externs demo_env demo_melt_request demo_busy = (Ok rs, t) \<and> change_value rs = 2"
proof -
  obtain rs t where run: "post_melt demo_externs demo_env demo_melt_request demo_busy = (Ok rs, t)"
    using demo_melt_runs by blast
  from melt_conserves_value[OF run demo_busy_inv] have "change_value rs = 2"
    by (simp add: demo_melt_request_def demo_busy_def demo_melt_quote_def demo_mint_def demo_simps fee_of_def)
  with run show ?thesis by blast
qed










text \<open>Making change ends and is exact. On the mint's keyset the loop that splits the change
  over blank outputs always returns, with denominations of the keyset that add up to the
  remainder.\<close>

theorem imprint_pieces_terminates:
  assumes "keyset_ok X k"
  shows "\<exists>pieces. imprint_pieces k remainder = Ok pieces \<and> sum_nat pieces = unat remainder
    \<and> set pieces \<subseteq> set DENOMINATIONS"
  using imprint_pieces_exact[OF assms] by metis

theorem imprint_pieces_terminates_witness:
  "\<exists>pieces. imprint_pieces demo_keyset 1000 = Ok pieces \<and> sum_nat pieces = 1000 \<and> set pieces \<subseteq> set DENOMINATIONS"
  using imprint_pieces_terminates[OF demo_keyset_ok, of 1000] by simp

end
