(* ===== verification/Protocol.thy ===== *)
theory Protocol
  imports Rust_Text
begin

text \<open>
  The USB protocol of the device (\<^verbatim>\<open>micronuts-app/src/protocol.rs\<close>): commands, status codes,
  frames, responses and the byte-at-a-time frame decoder. The fixed arrays \<^verbatim>\<open>[u8; 1024]\<close> are
  lists of that length, and every index or slice of the source that could be out of range is a
  panic of the model.
\<close>

section \<open>Codes\<close>

definition MAX_PAYLOAD_SIZE :: nat where
  "MAX_PAYLOAD_SIZE = 1024"

datatype command = ImportToken | GetTokenInfo | GetBlinded | SendSignatures | GetProofs
  | ScannerStatus | ScannerTrigger | ScannerData | ScannerHeal | ScannerFactoryHeal
  | NfcPoll | NfcData | NfcHeal

primrec command_byte :: "command \<Rightarrow> u8" where
  "command_byte ImportToken = 0x01"
| "command_byte GetTokenInfo = 0x02"
| "command_byte GetBlinded = 0x03"
| "command_byte SendSignatures = 0x04"
| "command_byte GetProofs = 0x05"
| "command_byte ScannerStatus = 0x10"
| "command_byte ScannerTrigger = 0x11"
| "command_byte ScannerData = 0x12"
| "command_byte ScannerHeal = 0x13"
| "command_byte ScannerFactoryHeal = 0x14"
| "command_byte NfcPoll = 0x15"
| "command_byte NfcData = 0x16"
| "command_byte NfcHeal = 0x17"

definition command_from_byte :: "u8 \<Rightarrow> command option" where
  "command_from_byte b =
     (if b = 0x01 then Some ImportToken else if b = 0x02 then Some GetTokenInfo
      else if b = 0x03 then Some GetBlinded else if b = 0x04 then Some SendSignatures
      else if b = 0x05 then Some GetProofs else if b = 0x10 then Some ScannerStatus
      else if b = 0x11 then Some ScannerTrigger else if b = 0x12 then Some ScannerData
      else if b = 0x13 then Some ScannerHeal else if b = 0x14 then Some ScannerFactoryHeal
      else if b = 0x15 then Some NfcPoll else if b = 0x16 then Some NfcData
      else if b = 0x17 then Some NfcHeal else None)"

datatype status = StOk | StError | InvalidCommand | InvalidPayload | StBufferOverflow | CryptoError
  | ScannerNotConnected | ScannerBusy | NoScanData | NfcNotConnected | NfcNoTag

primrec status_to_byte :: "status \<Rightarrow> u8" where
  "status_to_byte StOk = 0x00"
| "status_to_byte StError = 0xFF"
| "status_to_byte InvalidCommand = 0x01"
| "status_to_byte InvalidPayload = 0x02"
| "status_to_byte StBufferOverflow = 0x03"
| "status_to_byte CryptoError = 0x04"
| "status_to_byte ScannerNotConnected = 0x10"
| "status_to_byte ScannerBusy = 0x11"
| "status_to_byte NoScanData = 0x12"
| "status_to_byte NfcNotConnected = 0x20"
| "status_to_byte NfcNoTag = 0x21"

lemma command_from_byte_byte [simp]: "command_from_byte (command_byte c) = Some c"
  by (cases c) (simp_all add: command_from_byte_def)

lemma command_from_byte_Some: "command_from_byte b = Some c \<longleftrightarrow> b = command_byte c"
proof
  show "command_from_byte b = Some c \<Longrightarrow> b = command_byte c"
    by (auto simp: command_from_byte_def split: if_splits)
qed simp

lemma status_to_byte_inj: "status_to_byte s = status_to_byte t \<longleftrightarrow> s = t"
  by (cases s; cases t) simp_all

section \<open>Frames and responses\<close>

record frame =
  fr_command :: command
  fr_length :: u16
  fr_payload :: bytes

definition frame_new :: "command \<Rightarrow> frame" where
  "frame_new c = \<lparr>fr_command = c, fr_length = 0, fr_payload = replicate MAX_PAYLOAD_SIZE 0\<rparr>"

text \<open>\<^verbatim>\<open>buf[..n].copy_from_slice(data)\<close> into a buffer that is long enough.\<close>

definition overwrite :: "nat \<Rightarrow> bytes \<Rightarrow> bytes \<Rightarrow> bytes" where
  "overwrite i data buf = take i buf @ data @ drop (i + length data) buf"

definition frame_with_payload :: "command \<Rightarrow> bytes \<Rightarrow> frame option" where
  "frame_with_payload c data =
     (if length data > MAX_PAYLOAD_SIZE then None
      else Some ((frame_new c)\<lparr>fr_length := word_of_nat (length data),
                               fr_payload := overwrite 0 data (fr_payload (frame_new c))\<rparr>))"

text \<open>A slice past the end of the array panics.\<close>

definition slice_to :: "nat \<Rightarrow> bytes \<Rightarrow> (unit, bytes) res" where
  "slice_to n buf = (if n \<le> length buf then Ok (take n buf) else Panic)"

definition frame_payload :: "frame \<Rightarrow> (unit, bytes) res" where
  "frame_payload f = slice_to (unat (fr_length f)) (fr_payload f)"

text \<open>The three header bytes: a code and the length, high byte first.\<close>

definition header_bytes :: "u8 \<Rightarrow> u16 \<Rightarrow> bytes" where
  "header_bytes b len = [b, ucast (drop_bit 8 len), ucast (len AND 0xFF)]"

text \<open>\<open>encode\<close> returns the number of bytes written and the buffer it leaves.\<close>

definition frame_encode :: "frame \<Rightarrow> bytes \<Rightarrow> (unit, nat \<times> bytes) res" where
  "frame_encode f buf =
     (let total_len = 3 + unat (fr_length f) in
      if length buf < total_len then Ok (0, buf)
      else res_bind (frame_payload f) (\<lambda>p.
        Ok (total_len, overwrite 0 (header_bytes (command_byte (fr_command f)) (fr_length f) @ p) buf)))"

definition frame_encoded_size :: "frame \<Rightarrow> nat" where
  "frame_encoded_size f = 3 + unat (fr_length f)"

record response =
  rs_status :: status
  rs_length :: u16
  rs_payload :: bytes

definition response_new :: "status \<Rightarrow> response" where
  "response_new s = \<lparr>rs_status = s, rs_length = 0, rs_payload = replicate MAX_PAYLOAD_SIZE 0\<rparr>"

definition response_with_payload :: "status \<Rightarrow> bytes \<Rightarrow> response option" where
  "response_with_payload s data =
     (if length data > MAX_PAYLOAD_SIZE then None
      else Some ((response_new s)\<lparr>rs_length := word_of_nat (length data),
                                  rs_payload := overwrite 0 data (rs_payload (response_new s))\<rparr>))"

definition response_payload :: "response \<Rightarrow> (unit, bytes) res" where
  "response_payload r = slice_to (unat (rs_length r)) (rs_payload r)"

definition response_encode :: "response \<Rightarrow> bytes \<Rightarrow> (unit, nat \<times> bytes) res" where
  "response_encode r buf =
     (let total_len = 3 + unat (rs_length r) in
      if length buf < total_len then Ok (0, buf)
      else res_bind (response_payload r) (\<lambda>p.
        Ok (total_len, overwrite 0 (header_bytes (status_to_byte (rs_status r)) (rs_length r) @ p) buf)))"

definition response_encoded_size :: "response \<Rightarrow> nat" where
  "response_encoded_size r = 3 + unat (rs_length r)"

section \<open>The decoder\<close>

datatype decode_state = Idle | LenHigh | LenLow | Payload

record frame_decoder =
  fd_state :: decode_state
  fd_command_byte :: u8
  fd_length :: u16
  fd_payload_idx :: nat
  fd_payload :: bytes

definition decoder_new :: frame_decoder where
  "decoder_new = \<lparr>fd_state = Idle, fd_command_byte = 0, fd_length = 0, fd_payload_idx = 0,
     fd_payload = replicate MAX_PAYLOAD_SIZE 0\<rparr>"

definition decoder_reset :: "frame_decoder \<Rightarrow> frame_decoder" where
  "decoder_reset d = d\<lparr>fd_state := Idle, fd_command_byte := 0, fd_length := 0, fd_payload_idx := 0\<rparr>"

text \<open>One turn of the loop either goes on or returns from \<^verbatim>\<open>decode\<close>.\<close>

datatype decode_flow = Continue | Return "frame option"

definition decode_byte :: "u8 \<Rightarrow> (frame_decoder, unit, decode_flow) op" where
  "decode_byte byte d =
     (case fd_state d of
        Idle \<Rightarrow> (Ok Continue, d\<lparr>fd_command_byte := byte, fd_state := LenHigh\<rparr>)
      | LenHigh \<Rightarrow> (Ok Continue, d\<lparr>fd_length := push_bit 8 (ucast byte), fd_state := LenLow\<rparr>)
      | LenLow \<Rightarrow>
          (let d1 = d\<lparr>fd_length := fd_length d OR ucast byte\<rparr> in
           if unat (fd_length d1) > MAX_PAYLOAD_SIZE then (Ok Continue, decoder_reset d1)
           else if fd_length d1 = 0 then
             (case command_from_byte (fd_command_byte d1) of
                None \<Rightarrow> (Ok Continue, decoder_reset d1)
              | Some cmd \<Rightarrow> (Ok (Return (Some (frame_new cmd))), decoder_reset d1))
           else (Ok Continue, d1\<lparr>fd_payload_idx := 0, fd_state := Payload\<rparr>))
      | Payload \<Rightarrow>
          (if fd_payload_idx d < length (fd_payload d) then
             (let d1 = d\<lparr>fd_payload := (fd_payload d)[fd_payload_idx d := byte],
                         fd_payload_idx := fd_payload_idx d + 1\<rparr> in
              if fd_payload_idx d1 \<ge> unat (fd_length d1) then
                (case command_from_byte (fd_command_byte d1) of
                   None \<Rightarrow> (Ok Continue, decoder_reset d1)
                 | Some cmd \<Rightarrow>
                     (case slice_to (fd_payload_idx d1) (fd_payload d1) of
                        Ok p \<Rightarrow> (Ok (Return (frame_with_payload cmd p)), decoder_reset d1)
                      | _ \<Rightarrow> (Panic, decoder_reset d1)))
              else (Ok Continue, d1))
           else (Panic, d)))"

fun decode :: "bytes \<Rightarrow> (frame_decoder, unit, frame option) op" where
  "decode [] = ret None"
| "decode (byte # data) =
     bind (decode_byte byte) (\<lambda>flow. case flow of Continue \<Rightarrow> decode data | Return r \<Rightarrow> ret r)"

section \<open>Lengths\<close>

lemma join_bytes:
  "unat (push_bit 8 (ucast h :: u16) OR ucast l) = 256 * unat (h::u8) + unat (l::u8)"
proof -
  have bound: "unat h < 256" "unat l < 256" using unat_bound[of h] unat_bound[of l] by simp_all
  have "push_bit 8 (ucast h :: u16) AND ucast l = 0"
    by (rule bit_eqI) (auto simp: bit_and_iff bit_push_bit_iff bit_ucast_iff dest: bit_imp_le_length)
  then have "push_bit 8 (ucast h :: u16) OR ucast l = push_bit 8 (ucast h) + ucast l"
    by (simp add: disjunctive_add_eq_or)
  moreover have ext: "unat (ucast h :: u16) = unat h" "unat (ucast l :: u16) = unat l"
    using bound by (simp_all add: unsigned_ucast_eq take_bit_nat_def)
  moreover have "unat (push_bit 8 (ucast h :: u16)) = 256 * unat h"
    using bound ext unat_mult_lt[of "ucast h :: u16" 256] by (simp add: push_bit_eq_mult)
  ultimately show ?thesis
    using bound by (simp add: unat_plus_lt)
qed

lemma split_bytes:
  "256 * unat (ucast (drop_bit 8 (n::u16)) :: u8) + unat (ucast (n AND 0xFF) :: u8) = unat n"
proof -
  have bound: "unat n < 65536" using unat_bound[of n] by simp
  have "unat (ucast (drop_bit 8 n) :: u8) = unat n div 256"
    using bound by (simp add: unsigned_ucast_eq drop_bit_eq_div unat_div take_bit_nat_def)
  moreover have "n AND 0xFF = take_bit 8 n" by (simp add: take_bit_eq_mask mask_eq_exp_minus_1)
  then have "unat (ucast (n AND 0xFF) :: u8) = unat n mod 256"
    by (simp add: unsigned_ucast_eq unsigned_take_bit_eq take_bit_nat_def)
  ultimately show ?thesis by simp
qed

section \<open>What the decoder computes\<close>

text \<open>
  The specification works on the whole input: skip frames that are too long or carry an unknown
  command, and return the first other frame.
\<close>

fun next_frame :: "bytes \<Rightarrow> (command \<times> bytes) option" where
  "next_frame (c # h # l # rest) =
     (let n = 256 * unat h + unat l in
      if n > MAX_PAYLOAD_SIZE then next_frame rest
      else if length rest < n then None
      else (case command_from_byte c of None \<Rightarrow> next_frame (drop n rest) | Some cmd \<Rightarrow> Some (cmd, take n rest)))"
| "next_frame _ = None"

definition decoder_ok :: "frame_decoder \<Rightarrow> bool" where
  "decoder_ok d \<longleftrightarrow> length (fd_payload d) = MAX_PAYLOAD_SIZE
     \<and> (fd_state d = Payload \<longrightarrow> fd_payload_idx d < unat (fd_length d) \<and> unat (fd_length d) \<le> MAX_PAYLOAD_SIZE)"

definition decoder_idle :: "frame_decoder \<Rightarrow> bool" where
  "decoder_idle d \<longleftrightarrow> fd_state d = Idle \<and> length (fd_payload d) = MAX_PAYLOAD_SIZE"

lemma decoder_new_idle: "decoder_idle decoder_new"
  by (simp add: decoder_idle_def decoder_new_def)

lemma decoder_reset_idle [simp]: "length (fd_payload d) = MAX_PAYLOAD_SIZE \<Longrightarrow> decoder_idle (decoder_reset d)"
  by (simp add: decoder_idle_def decoder_reset_def)

lemma frame_with_payload_Some: "length p \<le> MAX_PAYLOAD_SIZE \<Longrightarrow> \<exists>f. frame_with_payload c p = Some f"
  by (simp add: frame_with_payload_def)

lemma frame_with_payload_fields:
  assumes "frame_with_payload c p = Some f"
  shows "fr_command f = c" "unat (fr_length f) = length p" "frame_payload f = Ok p" "length p \<le> MAX_PAYLOAD_SIZE"
  using assms by (auto simp: frame_with_payload_def frame_payload_def slice_to_def overwrite_def frame_new_def
      unat_of_nat_lt MAX_PAYLOAD_SIZE_def split: if_splits)

lemma frame_with_no_payload: "frame_with_payload c [] = Some (frame_new c)"
  by (simp add: frame_with_payload_def overwrite_def frame_new_def)

lemma overwrite_Cons:
  assumes "i < length buf"
  shows "overwrite (Suc i) p (buf[i := b]) = overwrite i (b # p) buf" "take (Suc i) (buf[i := b]) = take i buf @ [b]"
  using assms by (simp_all add: overwrite_def take_Suc_conv_app_nth)

lemma length_overwrite: "i + length p \<le> length buf \<Longrightarrow> length (overwrite i p buf) = length buf"
  by (simp add: overwrite_def)

lemma decode_byte_payload:
  assumes "fd_state d = Payload" "fd_payload_idx d < length (fd_payload d)"
  shows "decode_byte b d = (let d1 = d\<lparr>fd_payload := (fd_payload d)[fd_payload_idx d := b], fd_payload_idx := Suc (fd_payload_idx d)\<rparr> in
      if Suc (fd_payload_idx d) \<ge> unat (fd_length d) then
        (case command_from_byte (fd_command_byte d) of None \<Rightarrow> (Ok Continue, decoder_reset d1)
         | Some cmd \<Rightarrow> (Ok (Return (frame_with_payload cmd (take (fd_payload_idx d) (fd_payload d) @ [b]))), decoder_reset d1))
      else (Ok Continue, d1))"
  using assms by (simp add: decode_byte_def Let_def slice_to_def overwrite_Cons split: option.split)

lemma decode_payload_partial:
  assumes "fd_state d = Payload" "fd_payload_idx d + length p < unat (fd_length d)"
    "unat (fd_length d) \<le> length (fd_payload d)"
  shows "decode p d = (Ok None, d\<lparr>fd_payload := overwrite (fd_payload_idx d) p (fd_payload d),
      fd_payload_idx := fd_payload_idx d + length p\<rparr>)"
  using assms
proof (induction p arbitrary: d)
  case (Cons b p)
  then show ?case
    by (simp add: decode_byte_payload Let_def bind_def overwrite_Cons)
qed (simp add: overwrite_def)

lemma decode_payload_full:
  assumes "fd_state d = Payload" "fd_payload_idx d + length p = unat (fd_length d)" "p \<noteq> []"
    "unat (fd_length d) \<le> length (fd_payload d)"
  shows "decode (p @ rest) d =
    (let d' = decoder_reset (d\<lparr>fd_payload := overwrite (fd_payload_idx d) p (fd_payload d)\<rparr>) in
     case command_from_byte (fd_command_byte d) of None \<Rightarrow> decode rest d'
     | Some cmd \<Rightarrow> (Ok (frame_with_payload cmd (take (fd_payload_idx d) (fd_payload d) @ p)), d'))"
  using assms
proof (induction p arbitrary: d)
  case (Cons b p)
  note step = decode_byte_payload[OF Cons.prems(1), of b]
  show ?case
  proof (cases "p = []")
    case True
    with Cons.prems show ?thesis
      by (simp add: step Let_def bind_def decoder_reset_def overwrite_Cons[symmetric] overwrite_def upd_conv_take_nth_drop split: option.split)
  next
    case False
    let ?d = "d\<lparr>fd_payload := (fd_payload d)[fd_payload_idx d := b], fd_payload_idx := Suc (fd_payload_idx d)\<rparr>"
    have "decode ((b # p) @ rest) d = decode (p @ rest) ?d"
      using Cons.prems False by (cases p) (simp_all add: step Let_def bind_def)
    moreover have "decoder_reset (?d\<lparr>fd_payload := x\<rparr>) = decoder_reset (d\<lparr>fd_payload := x\<rparr>)" for x
      by (simp add: decoder_reset_def)
    ultimately show ?thesis
      using Cons.IH[of ?d] Cons.prems False by (simp add: overwrite_Cons Let_def split: option.split)
  qed
qed simp

text \<open>The three header bytes of an idle decoder.\<close>

lemma decode_header:
  assumes "decoder_idle d"
  shows "decode (c # h # l # rest) d =
    (let n = 256 * unat h + unat l; w = push_bit 8 (ucast h) OR ucast l;
         d1 = d\<lparr>fd_command_byte := c, fd_length := w, fd_state := LenLow\<rparr> in
     if n > MAX_PAYLOAD_SIZE then decode rest (decoder_reset d1)
     else if n = 0 then
       (case command_from_byte c of None \<Rightarrow> decode rest (decoder_reset d1)
        | Some cmd \<Rightarrow> (Ok (Some (frame_new cmd)), decoder_reset d1))
     else decode rest (d1\<lparr>fd_payload_idx := 0, fd_state := Payload\<rparr>))"
  using assms
  by (simp add: decoder_idle_def decode_byte_def bind_def Let_def join_bytes unat_eq_zero[symmetric]
      decoder_reset_def MAX_PAYLOAD_SIZE_def split: option.split)

lemma decode_short: "decoder_idle d \<Longrightarrow> length data < 3 \<Longrightarrow> fst (decode data d) = Ok None"
  by (cases data rule: next_frame.cases) (auto simp: decoder_idle_def decode_byte_def bind_def)

definition yields :: "(command \<times> bytes) option \<Rightarrow> (unit, frame option) res \<times> frame_decoder \<Rightarrow> bool" where
  "yields x out \<longleftrightarrow> (case x of None \<Rightarrow> fst out = Ok None
     | Some (cmd, p) \<Rightarrow> fst out = Ok (frame_with_payload cmd p) \<and> decoder_idle (snd out) \<and> length p \<le> MAX_PAYLOAD_SIZE)"

lemma decode_next_frame: "decoder_idle d \<Longrightarrow> yields (next_frame data) (decode data d)"
proof (induction data arbitrary: d rule: next_frame.induct)
  case (1 c h l rest)
  let ?n = "256 * unat h + unat l"
  let ?d1 = "d\<lparr>fd_command_byte := c, fd_length := push_bit 8 (ucast h) OR ucast l, fd_state := LenLow\<rparr>"
  let ?d2 = "?d1\<lparr>fd_payload_idx := 0, fd_state := Payload\<rparr>"
  have len: "length (fd_payload d) = MAX_PAYLOAD_SIZE" using 1(3) by (simp add: decoder_idle_def)
  note head = decode_header[OF 1(3), of c h l rest]
  consider (long) "?n > MAX_PAYLOAD_SIZE" | (empty) "?n = 0" | (more) "?n \<le> MAX_PAYLOAD_SIZE" "?n > 0" "length rest < ?n"
    | (full) "?n \<le> MAX_PAYLOAD_SIZE" "?n > 0" "?n \<le> length rest" by linarith
  then show ?case
  proof cases
    case long
    with 1(1)[OF refl, of "decoder_reset ?d1"] len head show ?thesis by (simp add: Let_def del: decode.simps)
  next
    case empty
    with 1(2)[OF refl, of "decoder_reset ?d1"] len head show ?thesis
      by (cases "command_from_byte c") (auto simp: Let_def yields_def[of "Some _"] frame_with_no_payload simp del: decode.simps)
  next
    case more
    with decode_payload_partial[of ?d2 rest] len head show ?thesis by (auto simp: Let_def join_bytes yields_def simp del: decode.simps)
  next
    case full
    then have ne: "take ?n rest \<noteq> []" "rest = take ?n rest @ drop ?n rest" by auto
    let ?d3 = "decoder_reset (?d2\<lparr>fd_payload := overwrite 0 (take ?n rest) (fd_payload d)\<rparr>)"
    have idle: "decoder_idle ?d3" using len full by (simp add: length_overwrite)
    have "decode rest ?d2 = (case command_from_byte c of None \<Rightarrow> decode (drop ?n rest) ?d3
        | Some cmd \<Rightarrow> (Ok (frame_with_payload cmd (take ?n rest)), ?d3))"
      using decode_payload_full[of ?d2 "take ?n rest" "drop ?n rest"] ne len full
      by (simp add: join_bytes Let_def split: option.split)
    then show ?thesis
      using 1(2)[OF refl, of ?d3] idle head full
      by (cases "command_from_byte c") (auto simp: Let_def yields_def[of "Some _"] simp del: decode.simps)
  qed
qed (simp_all add: yields_def decode_short del: decode.simps)

definition decode_flow_ok :: "(unit, decode_flow) res \<times> frame_decoder \<Rightarrow> bool" where
  "decode_flow_ok out \<longleftrightarrow> decoder_ok (snd out)
     \<and> (fst out = Ok Continue \<or> (\<exists>f. fst out = Ok (Return (Some f))) \<and> decoder_idle (snd out))"

lemma decode_byte_flow:
  assumes "decoder_ok d"
  shows "decode_flow_ok (decode_byte b d)"
proof (cases "fd_state d")
  case LenLow
  with assms show ?thesis
    by (auto simp: decode_flow_ok_def decoder_ok_def decoder_idle_def decode_byte_def decoder_reset_def Let_def
        unat_gt_0 word_greater_zero_iff split: option.splits if_splits)
next
  case Payload
  with assms have i: "fd_payload_idx d < length (fd_payload d)" "fd_payload_idx d < MAX_PAYLOAD_SIZE"
    "length (fd_payload d) = MAX_PAYLOAD_SIZE"
    by (simp_all add: decoder_ok_def)
  then have f: "\<exists>f. frame_with_payload cmd (take (fd_payload_idx d) (fd_payload d) @ [b]) = Some f" for cmd
    by (intro frame_with_payload_Some) simp
  show ?thesis
    using decode_byte_payload[OF Payload i(1), of b] i f assms Payload
    by (auto simp: decode_flow_ok_def Let_def decoder_ok_def decoder_idle_def decoder_reset_def split: option.splits if_splits)
qed (use assms in \<open>auto simp: decode_flow_ok_def decoder_ok_def decode_byte_def\<close>)

lemma decode_byte_ok:
  assumes "decoder_ok d"
  obtains flow d' where "decode_byte b d = (Ok flow, d')" "decoder_ok d'"
    "flow = Continue \<or> (\<exists>f. flow = Return (Some f) \<and> decoder_idle d')"
  using decode_byte_flow[OF assms, of b] that
  by (cases "decode_byte b d") (auto simp: decode_flow_ok_def)

lemma decode_total:
  assumes "decoder_ok d"
  obtains r d' where "decode data d = (Ok r, d')" "decoder_ok d'" "r \<noteq> None \<Longrightarrow> decoder_idle d'"
  using assms
proof (induction data arbitrary: d thesis)
  case (Cons b data)
  obtain flow d1 where step: "decode_byte b d = (Ok flow, d1)" "decoder_ok d1"
    "flow = Continue \<or> (\<exists>f. flow = Return (Some f) \<and> decoder_idle d1)"
    by (rule decode_byte_ok[OF Cons.prems(2)])
  show ?case
  proof (cases flow)
    case Continue
    with Cons.IH[OF _ step(2)] Cons.prems(1) step(1) show ?thesis by (auto simp: bind_def)
  next
    case (Return r)
    with step Cons.prems(1) show ?thesis by (auto simp: bind_def)
  qed
qed simp

lemma decode_append:
  assumes "decoder_ok d"
  shows "decode (a @ b) d = bind (decode a) (\<lambda>r. case r of None \<Rightarrow> decode b | Some f \<Rightarrow> ret (Some f)) d"
  using assms
proof (induction a arbitrary: d)
  case (Cons x a)
  obtain flow d1 where step: "decode_byte x d = (Ok flow, d1)" "decoder_ok d1"
    "flow = Continue \<or> (\<exists>f. flow = Return (Some f) \<and> decoder_idle d1)"
    by (rule decode_byte_ok[OF Cons.prems])
  show ?case
  proof (cases flow)
    case Continue
    with Cons.IH[OF step(2)] step(1) show ?thesis by (simp add: bind_apply_Ok bind_assoc bind_def)
  next
    case (Return r)
    with step show ?thesis by (auto simp: bind_def)
  qed
qed simp

section \<open>Properties\<close>

text \<open>C15: the frame decoder never panics and keeps its invariant on any input in any state it can
  be in: the write index stays below the announced length and the announced length within the
  buffer, so no byte is ever written out of bounds.\<close>

theorem decoder_never_panics:
  assumes "decoder_ok d"
  shows "\<exists>r d'. decode data d = (Ok r, d') \<and> decoder_ok d' \<and> (r \<noteq> None \<longrightarrow> decoder_idle d')"
  by (rule decode_total[OF assms, of data]) blast

theorem decoder_never_panics_witness:
  "\<exists>r d'. decode [0xFF, 0x04, 0x00] decoder_new = (Ok r, d') \<and> decoder_ok d'"
proof -
  have "decoder_ok decoder_new" by (simp add: decoder_ok_def decoder_new_def)
  from decoder_never_panics[OF this, of "[0xFF, 0x04, 0x00]"] show ?thesis by blast
qed

text \<open>C16: from an idle decoder, a chunk yields exactly the frame the specification finds first:
  frames that announce too long a payload or an unknown command are skipped, an incomplete frame
  yields nothing.\<close>

theorem decode_refines_next_frame:
  assumes "decoder_idle d"
  shows "fst (decode data d) =
    Ok (case next_frame data of None \<Rightarrow> None | Some (cmd, p) \<Rightarrow> frame_with_payload cmd p)"
  using decode_next_frame[OF assms, of data] by (auto simp: yields_def split: option.splits)

theorem decode_refines_next_frame_witness:
  "fst (decode [0xFF, 0x00, 0x00, 0x01, 0x00, 0x00] decoder_new) = Ok (Some (frame_new ImportToken))"
  using decode_refines_next_frame[OF decoder_new_idle, of "[0xFF, 0x00, 0x00, 0x01, 0x00, 0x00]"]
  by (simp add: MAX_PAYLOAD_SIZE_def command_from_byte_def frame_with_no_payload del: decode.simps)

lemma frame_encode_bytes:
  assumes "frame_with_payload c p = Some f" "3 + length p \<le> length buf"
  shows "frame_encode f buf = Ok (3 + length p, overwrite 0 (header_bytes (command_byte c) (fr_length f) @ p) buf)"
  using frame_with_payload_fields[OF assms(1)] assms(2) by (simp add: frame_encode_def)

lemma next_frame_header:
  assumes "frame_with_payload c p = Some f"
  shows "next_frame (header_bytes (command_byte c) (fr_length f) @ p @ rest) = Some (c, p)"
  using frame_with_payload_fields[OF assms] split_bytes[of "fr_length f"] by (simp add: header_bytes_def Let_def)

lemma next_frame_partial:
  assumes "frame_with_payload c p = Some f" "k < 3 + length p"
  shows "next_frame (take k (header_bytes (command_byte c) (fr_length f) @ p)) = None"
proof (cases "k < 3")
  case True
  then have "k = 0 \<or> k = 1 \<or> k = 2" by linarith
  then show ?thesis by (auto simp: header_bytes_def numeral_2_eq_2)
next
  case False
  then obtain j where k: "k = Suc (Suc (Suc j))" using less_eqE[of 3 k] by (auto simp: numeral_3_eq_3)
  with assms(2) frame_with_payload_fields[OF assms(1)] split_bytes[of "fr_length f"] show ?thesis
    by (simp add: header_bytes_def Let_def)
qed

lemma decode_idle_ok: "decoder_idle d \<Longrightarrow> decoder_ok d"
  by (simp add: decoder_idle_def decoder_ok_def)

text \<open>C17: a frame survives the wire. Encoding a frame into a large enough buffer and feeding the bytes
  to an idle decoder in two chunks, cut anywhere before the last byte, returns nothing for the
  first chunk and the frame for the second.\<close>

theorem frame_roundtrip_chunked:
  assumes "length p \<le> MAX_PAYLOAD_SIZE" "3 + length p \<le> length buf" "decoder_idle d" "k < 3 + length p"
  shows "\<exists>f buf' d1 d2. frame_with_payload c p = Some f \<and> frame_encode f buf = Ok (3 + length p, buf')
    \<and> decode (take k buf') d = (Ok None, d1)
    \<and> decode (drop k (take (3 + length p) buf')) d1 = (Ok (Some f), d2) \<and> decoder_idle d2"
proof -
  obtain f where f: "frame_with_payload c p = Some f" using frame_with_payload_Some[OF assms(1)] by blast
  define enc where "enc = header_bytes (command_byte c) (fr_length f) @ p"
  let ?buf = "overwrite 0 enc buf"
  have len: "length enc = 3 + length p" by (simp add: enc_def header_bytes_def)
  have bytes: "take (3 + length p) ?buf = enc" "take k ?buf = take k enc"
    using assms(4) len by (simp_all add: overwrite_def)
  obtain r d1 where d1: "decode (take k enc) d = (Ok r, d1)"
    by (rule decode_total[OF decode_idle_ok[OF assms(3)]])
  have "r = None"
    using decode_next_frame[OF assms(3), of "take k enc"] next_frame_partial[OF f assms(4), folded enc_def] d1 by (simp add: yields_def)
  moreover have "decode (take k enc @ drop k enc) d
      = bind (decode (take k enc)) (\<lambda>r. case r of None \<Rightarrow> decode (drop k enc) | Some f \<Rightarrow> ret (Some f)) d"
    by (rule decode_append[OF decode_idle_ok[OF assms(3)]])
  ultimately have "decode enc d = decode (drop k enc) d1" using d1 by (simp add: bind_apply_Ok)
  moreover have "fst (decode enc d) = Ok (Some f)" "decoder_idle (snd (decode enc d))"
    using decode_next_frame[OF assms(3), of enc] next_frame_header[OF f, of "[]", unfolded append_Nil2, folded enc_def] f by (simp_all add: yields_def)
  ultimately show ?thesis
    using f frame_encode_bytes[OF f assms(2), folded enc_def] d1 bytes \<open>r = None\<close>
    by (intro exI[of _ f] exI[of _ ?buf] exI[of _ d1] exI[of _ "snd (decode enc d)"]) (simp add: prod_eq_iff)
qed

theorem frame_roundtrip_chunked_witness:
  "\<exists>f buf' d1 d2. frame_with_payload ImportToken [7, 8] = Some f \<and> frame_encode f (replicate 9 0) = Ok (5, buf')
    \<and> decode (take 2 buf') decoder_new = (Ok None, d1) \<and> decode (drop 2 (take 5 buf')) d1 = (Ok (Some f), d2) \<and> decoder_idle d2"
proof -
  have a: "length [7, 8::u8] \<le> MAX_PAYLOAD_SIZE" by (simp add: MAX_PAYLOAD_SIZE_def)
  have b: "3 + length [7, 8::u8] \<le> length (replicate 9 (0::u8))" by simp
  have c: "2 < 3 + length [7, 8::u8]" by simp
  have "3 + length [7, 8::u8] = 5" by simp
  with frame_roundtrip_chunked[OF a b decoder_new_idle c, of ImportToken] show ?thesis by simp
qed

text \<open>Bytes after a frame in the same chunk are dropped. When a chunk holds a whole frame and
  more, the decoder returns the frame and forgets the rest, so a second frame in the chunk is
  lost; the same two frames in two chunks are both decoded.\<close>

theorem decoder_drops_rest_of_chunk:
  assumes "decoder_ok d" "decode data d = (Ok (Some f), d')"
  shows "decode (data @ rest) d = (Ok (Some f), d')"
  using decode_append[OF assms(1), of data rest] assms(2) by (simp add: bind_apply_Ok)

theorem decoder_drops_rest_of_chunk_witness:
  "fst (decode ([0x01, 0, 0] @ [0x02, 0, 0]) decoder_new) = Ok (Some (frame_new ImportToken))"
proof -
  obtain d' where d': "decode [0x01, 0, 0] decoder_new = (Ok (Some (frame_new ImportToken)), d')"
    by (simp add: decode_byte_def decoder_new_def bind_def command_from_byte_def MAX_PAYLOAD_SIZE_def Let_def)
  have "decoder_ok decoder_new" by (rule decode_idle_ok[OF decoder_new_idle])
  from decoder_drops_rest_of_chunk[OF this d', of "[0x02, 0, 0]"] show ?thesis by simp
qed

end
