(* ===== verification/Frag.thy ===== *)
theory Frag
  imports Rust_Text
begin

text \<open>
  Segmentation of service datagrams (\<^verbatim>\<open>micronuts-fips-responder/src/frag.rs\<close>): the sender that
  splits a frame into segments with a two-byte header, and the strictly in-order reassembler.
  Lengths and offsets are \<^verbatim>\<open>usize\<close> values below the size of a slice, so natural numbers; the
  header bytes and the segment counter keep their width.
\<close>

section \<open>The sender\<close>

definition SEGMENT_HEADER_LEN :: nat where
  "SEGMENT_HEADER_LEN = 2"

definition LAST_FLAG :: u8 where
  "LAST_FLAG = 0x80"

definition MAX_SEGMENTS :: nat where
  "MAX_SEGMENTS = 128"

datatype frag_error = TruncatedHeader | OutOfOrder | FragBufferOverflow

text \<open>A failed assertion is a panic.\<close>

definition segment_count :: "nat \<Rightarrow> nat \<Rightarrow> (frag_error, nat) res" where
  "segment_count frame_len mtu =
     (if mtu > SEGMENT_HEADER_LEN then
        (let cap = mtu - SEGMENT_HEADER_LEN in Ok (max ((frame_len + cap - 1) div cap) 1))
      else Panic)"

text \<open>The loop of \<open>for_each_segment\<close>: the headers and payloads it emits from an index on.\<close>

function emit_from :: "nat \<Rightarrow> nat \<Rightarrow> u8 \<Rightarrow> bytes \<Rightarrow> nat \<Rightarrow> nat \<Rightarrow> (bytes \<times> bytes) list" where
  "emit_from cap segs msg_id frm idx offset =
     (if idx < segs then
        (let stop = min (offset + cap) (length frm);
             is_last = (idx + 1 = segs);
             flags = (if is_last then LAST_FLAG OR word_of_nat idx else word_of_nat idx)
         in ([msg_id, flags], take (stop - offset) (drop offset frm)) # emit_from cap segs msg_id frm (idx + 1) stop)
      else [])"
  by pat_completeness auto
termination by (relation "measure (\<lambda>(cap, segs, msg_id, frm, idx, offset). segs - idx)") auto

declare emit_from.simps [simp del]

definition for_each_segment :: "bytes \<Rightarrow> nat \<Rightarrow> u8 \<Rightarrow> (frag_error, (bytes \<times> bytes) list) res" where
  "for_each_segment frm mtu msg_id =
     (if mtu > SEGMENT_HEADER_LEN then
        res_bind (segment_count (length frm) mtu) (\<lambda>segs.
          if segs \<le> MAX_SEGMENTS then Ok (emit_from (mtu - SEGMENT_HEADER_LEN) segs msg_id frm 0 0) else Panic)
      else Panic)"

section \<open>The reassembler\<close>

record reassembler =
  ra_buf :: bytes
  ra_len :: nat
  ra_next_idx :: u8
  ra_msg_id :: u8
  ra_active :: bool

definition reassembler_new :: "nat \<Rightarrow> reassembler" where
  "reassembler_new n = \<lparr>ra_buf = replicate n 0, ra_len = 0, ra_next_idx = 0, ra_msg_id = 0, ra_active = False\<rparr>"

text \<open>\<open>push\<close>, on a buffer whose size is the length of \<open>ra_buf\<close>.\<close>

definition push :: "bytes \<Rightarrow> (reassembler, frag_error, bytes option) op" where
  "push segment r =
     (if length segment < SEGMENT_HEADER_LEN then (Err TruncatedHeader, r)
      else
        (let msg_id = segment ! 0;
             flags = segment ! 1;
             payload = drop SEGMENT_HEADER_LEN segment;
             is_last = (flags AND LAST_FLAG \<noteq> 0);
             idx = flags AND NOT LAST_FLAG;
             in_order = (ra_active r \<and> msg_id = ra_msg_id r \<and> idx = ra_next_idx r)
         in if \<not> in_order \<and> idx \<noteq> 0 then (Err OutOfOrder, r\<lparr>ra_active := False\<rparr>)
         else
           (let r1 = (if in_order then r else r\<lparr>ra_active := True, ra_msg_id := msg_id, ra_next_idx := 0, ra_len := 0\<rparr>)
            in if ra_len r1 + length payload > length (ra_buf r1) then (Err FragBufferOverflow, r1\<lparr>ra_active := False\<rparr>)
            else
              (let r2 = r1\<lparr>ra_buf := take (ra_len r1) (ra_buf r1) @ payload @ drop (ra_len r1 + length payload) (ra_buf r1),
                           ra_len := ra_len r1 + length payload, ra_next_idx := ra_next_idx r1 + 1\<rparr>
               in if is_last then (Ok (Some (take (ra_len r2) (ra_buf r2))), r2\<lparr>ra_active := False\<rparr>)
                  else (Ok None, r2)))))"

section \<open>Flags\<close>

lemma unat_flags: "n < 128 \<Longrightarrow> unat (word_of_nat n :: u8) = n"
  by (simp add: unat_of_nat_lt)

lemma LAST_FLAG_nonzero [simp]: "LAST_FLAG \<noteq> 0"
  by (simp add: LAST_FLAG_def)

lemma flags_of_index:
  assumes "n < 128"
  shows "(word_of_nat n :: u8) AND LAST_FLAG = 0" "(word_of_nat n :: u8) AND NOT LAST_FLAG = word_of_nat n"
    "(LAST_FLAG OR word_of_nat n) AND LAST_FLAG \<noteq> 0" "(LAST_FLAG OR word_of_nat n) AND NOT LAST_FLAG = word_of_nat n"
proof -
  have flag: "bit LAST_FLAG k \<longleftrightarrow> k = 7" for k
    using bit_exp_iff[where 'a = "8 word", of 7 k] by (auto simp: LAST_FLAG_def)
  have "unat ((word_of_nat n :: u8) div 128) = 0"
    using assms by (simp add: unat_div unat_flags)
  then have "\<not> bit (word_of_nat n :: u8) 7"
    by (simp add: bit_iff_odd unat_eq_zero)
  then have none: "(word_of_nat n :: u8) AND LAST_FLAG = 0"
    by (intro bit_eqI) (auto simp: flag bit_and_iff)
  then show "(word_of_nat n :: u8) AND LAST_FLAG = 0" .
  show keep: "(word_of_nat n :: u8) AND NOT LAST_FLAG = word_of_nat n"
    by (intro bit_eqI) (use none in \<open>auto simp: bit_eq_iff bit_and_iff bit_not_iff dest: bit_imp_le_length\<close>)
  have "bit ((LAST_FLAG OR word_of_nat n) AND LAST_FLAG) 7"
    by (simp add: flag bit_and_iff bit_or_iff)
  then show "(LAST_FLAG OR word_of_nat n) AND LAST_FLAG \<noteq> 0" by auto
  show "(LAST_FLAG OR word_of_nat n) AND NOT LAST_FLAG = word_of_nat n"
    using keep by (simp add: bit.conj_disj_distrib2)
qed

section \<open>Segments of a frame\<close>

definition segment_flags :: "nat \<Rightarrow> nat \<Rightarrow> u8" where
  "segment_flags segs i = (if i + 1 = segs then LAST_FLAG OR word_of_nat i else word_of_nat i)"

definition chunk :: "nat \<Rightarrow> bytes \<Rightarrow> nat \<Rightarrow> bytes" where
  "chunk cap frm i = take cap (drop (i * cap) frm)"

lemma emit_from_map:
  "emit_from cap segs m frm idx (min (idx * cap) (length frm))
     = map (\<lambda>i. ([m, segment_flags segs i], chunk cap frm i)) [idx..<segs]"
proof (induction "segs - idx" arbitrary: idx)
  case 0
  then show ?case by (simp add: emit_from.simps)
next
  case (Suc n)
  then have "idx < segs" and IH: "emit_from cap segs m frm (Suc idx) (min (Suc idx * cap) (length frm))
      = map (\<lambda>i. ([m, segment_flags segs i], chunk cap frm i)) [Suc idx..<segs]"
    by (simp_all only: Suc.hyps(1)[of "Suc idx"])+
  have "take (min (min (idx * cap) (length frm) + cap) (length frm) - min (idx * cap) (length frm))
      (drop (min (idx * cap) (length frm)) frm) = chunk cap frm idx"
    by (auto simp: chunk_def min_def)
  moreover have "min (min (idx * cap) (length frm) + cap) (length frm) = min (Suc idx * cap) (length frm)" by auto
  ultimately show ?case
    using \<open>idx < segs\<close> IH
    by (subst emit_from.simps) (simp add: Let_def segment_flags_def upt_conv_Cons)
qed

lemma concat_chunks: "concat (map (chunk cap frm) [0..<n]) = take (n * cap) frm"
  by (induction n) (simp_all add: chunk_def take_add[symmetric] add.commute)

lemma segment_count_covers:
  assumes "segment_count len mtu = Ok n"
  shows "0 < n" "len \<le> n * (mtu - 2)" "2 < mtu" "n = 1 \<or> (n - 1) * (mtu - 2) < len"
proof -
  from assms have mtu: "2 < mtu" and n: "n = max ((len + (mtu - 2) - 1) div (mtu - 2)) 1"
    by (auto simp: segment_count_def SEGMENT_HEADER_LEN_def Let_def split: if_splits)
  obtain c where c: "mtu - 2 = Suc c" using mtu by (metis Suc_diff_Suc diff_Suc_1 zero_less_diff gr0_implies_Suc)
  let ?q = "(len + c) div Suc c"
  have q: "len + c < Suc ?q * Suc c" "?q * Suc c \<le> len + c"
    using dividend_less_div_times[of "Suc c" "len + c"] div_times_less_eq_dividend[of "len + c" "Suc c"]
    by (simp_all add: add.commute)
  have nq: "n = max ?q 1" using n c by simp
  show "0 < n" "2 < mtu" using nq mtu by simp_all
  show "len \<le> n * (mtu - 2)" using q nq c by (cases "?q = 0") auto
  show "n = 1 \<or> (n - 1) * (mtu - 2) < len"
  proof (cases "?q \<le> 1")
    case False
    then have "n = ?q" using nq by simp
    moreover have "(?q - 1) * Suc c + Suc c = ?q * Suc c"
      using False by (metis Suc_diff_1 Suc_lessD mult_Suc add.commute not_le One_nat_def)
    ultimately show ?thesis using q(2) c by simp
  qed (simp add: nq)
qed

lemma for_each_segment_Ok:
  assumes "for_each_segment frm mtu m = Ok segs"
  obtains n where "segment_count (length frm) mtu = Ok n" "n \<le> 128"
    "segs = map (\<lambda>i. ([m, segment_flags n i], chunk (mtu - 2) frm i)) [0..<n]"
proof -
  from assms obtain n where n: "segment_count (length frm) mtu = Ok n" "n \<le> 128"
    "segs = emit_from (mtu - 2) n m frm 0 0"
    by (auto simp: for_each_segment_def SEGMENT_HEADER_LEN_def MAX_SEGMENTS_def split: if_splits)
  with emit_from_map[of "mtu - 2" n m frm 0] that show ?thesis by simp
qed

section \<open>Reassembly\<close>

text \<open>The reassembler holds the payloads of the segments \<open>0 .. k - 1\<close> of message \<open>m\<close>.\<close>

definition collecting :: "u8 \<Rightarrow> nat \<Rightarrow> bytes \<Rightarrow> reassembler \<Rightarrow> bool" where
  "collecting m k acc r \<longleftrightarrow> ra_active r \<and> ra_msg_id r = m \<and> ra_next_idx r = word_of_nat k
     \<and> ra_len r = length acc \<and> take (length acc) (ra_buf r) = acc"

definition reassembler_ok :: "reassembler \<Rightarrow> bool" where
  "reassembler_ok r \<longleftrightarrow> (ra_active r \<longrightarrow> ra_len r \<le> length (ra_buf r) \<and> 0 < ra_next_idx r \<and> ra_next_idx r \<le> 128)"

lemma push_collects:
  assumes "collecting m k acc r" "k < 128" "length acc + length p \<le> length (ra_buf r)"
  shows "\<exists>r'. push (m # word_of_nat k # p) r = (Ok None, r') \<and> collecting m (Suc k) (acc @ p) r' \<and> length (ra_buf r') = length (ra_buf r)"
    and "\<exists>r'. push (m # (LAST_FLAG OR word_of_nat k) # p) r = (Ok (Some (acc @ p)), r') \<and> \<not> ra_active r'"
  using assms
  by (simp_all add: push_def Let_def collecting_def flags_of_index SEGMENT_HEADER_LEN_def add.commute)

lemma push_starts:
  assumes "reassembler_ok r" "length p \<le> length (ra_buf r)"
  shows "\<exists>r'. push (m # 0 # p) r = (Ok None, r') \<and> collecting m 1 p r' \<and> length (ra_buf r') = length (ra_buf r)"
    and "\<exists>r'. push (m # LAST_FLAG # p) r = (Ok (Some p), r') \<and> \<not> ra_active r'"
  using assms flags_of_index[of 0]
  by (auto simp: push_def Let_def collecting_def reassembler_ok_def SEGMENT_HEADER_LEN_def)

lemma push_rest:
  assumes "collecting m k acc r" "k < n" "n \<le> 128" "length acc + length (concat (map f [k..<n])) \<le> length (ra_buf r)"
  shows "\<exists>r'. map_op push (map (\<lambda>i. m # segment_flags n i # f i) [k..<n]) r
    = (Ok (replicate (n - k - 1) None @ [Some (acc @ concat (map f [k..<n]))]), r') \<and> \<not> ra_active r'"
  using assms
proof (induction "n - k" arbitrary: k acc r)
  case (Suc d)
  have upt: "[k..<n] = k # [Suc k..<n]" using Suc.prems(2) by (simp add: upt_conv_Cons)
  have fits: "length acc + length (f k) \<le> length (ra_buf r)" "k < 128" using Suc.prems upt by simp_all
  show ?case
  proof (cases "Suc k = n")
    case True
    then show ?thesis
      using push_collects(2)[OF Suc.prems(1) fits(2,1)] by (auto simp: segment_flags_def bind_apply_Ok)
  next
    case False
    then have "k + 1 \<noteq> n" "Suc k < n" "d = n - Suc k" using Suc.prems(2) Suc.hyps(2) by simp_all
    obtain r1 where r1: "push (m # word_of_nat k # f k) r = (Ok None, r1)" "collecting m (Suc k) (acc @ f k) r1"
      "length (ra_buf r1) = length (ra_buf r)"
      using push_collects(1)[OF Suc.prems(1) fits(2,1)] by blast
    obtain r' where "map_op push (map (\<lambda>i. m # segment_flags n i # f i) [Suc k..<n]) r1
        = (Ok (replicate (n - Suc k - 1) None @ [Some ((acc @ f k) @ concat (map f [Suc k..<n]))]), r')" "\<not> ra_active r'"
      using Suc.hyps(1)[OF \<open>d = n - Suc k\<close> r1(2) \<open>Suc k < n\<close> Suc.prems(3)] Suc.prems(4) r1(3) upt by auto
    moreover have "replicate (n - k - 1) None = None # replicate (n - Suc k - 1) (None :: bytes option)"
      using \<open>Suc k < n\<close> by (metis Suc_diff_Suc diff_Suc_eq_diff_pred minus_nat.diff_0 replicate_Suc One_nat_def diff_commute)
    ultimately show ?thesis
      using r1(1) \<open>k + 1 \<noteq> n\<close> by (simp add: upt segment_flags_def bind_apply_Ok)
  qed
qed simp

lemma push_segments:
  assumes "reassembler_ok r" "0 < n" "n \<le> 128" "length (concat (map f [0..<n])) \<le> length (ra_buf r)"
  shows "\<exists>r'. map_op push (map (\<lambda>i. m # segment_flags n i # f i) [0..<n]) r
    = (Ok (replicate (n - 1) None @ [Some (concat (map f [0..<n]))]), r') \<and> \<not> ra_active r'"
proof -
  have upt: "[0..<n] = 0 # [1..<n]" using assms(2) by (simp add: upt_conv_Cons)
  then have len: "length (f 0) \<le> length (ra_buf r)" using assms(4) by simp
  show ?thesis
  proof (cases "n = 1")
    case True
    with push_starts(2)[OF assms(1) len, of m] show ?thesis by (auto simp: segment_flags_def bind_apply_Ok)
  next
    case False
    with assms(2) have "1 < n" by simp
    obtain r1 where r1: "push (m # 0 # f 0) r = (Ok None, r1)" "collecting m 1 (f 0) r1" "length (ra_buf r1) = length (ra_buf r)"
      using push_starts(1)[OF assms(1) len] by blast
    have room: "length (f 0) + length (concat (map f [1..<n])) \<le> length (ra_buf r1)"
      using assms(4) r1(3) upt by simp
    obtain r' where rest: "map_op push (map (\<lambda>i. m # segment_flags n i # f i) [1..<n]) r1
        = (Ok (replicate (n - 1 - 1) None @ [Some (f 0 @ concat (map f [1..<n]))]), r')" "\<not> ra_active r'"
      using push_rest[OF r1(2) \<open>1 < n\<close> assms(3) room] by blast
    have "segment_flags n 0 = 0" using False by (simp add: segment_flags_def)
    moreover have "replicate (n - 1) None = None # replicate (n - 1 - 1) (None :: bytes option)"
      using \<open>1 < n\<close> by (cases "n - 1") simp_all
    ultimately show ?thesis using r1(1) rest by (simp add: upt bind_apply_Ok del: upt_Suc)
  qed
qed

section \<open>Properties\<close>

text \<open>C18: a frame split into segments is reassembled. Every segment fits the datagram budget, and a
  reassembler in any reachable state, with a buffer that can hold the frame, asks for more after each
  segment but the last and returns exactly the frame on the last, whatever message was in
  flight before.\<close>

theorem frag_roundtrip:
  assumes "for_each_segment frm mtu m = Ok segs" "reassembler_ok r" "length frm \<le> length (ra_buf r)"
  shows "segment_count (length frm) mtu = Ok (length segs) \<and> (\<forall>(h, p) \<in> set segs. length h + length p \<le> mtu)
    \<and> (\<exists>r'. map_op push (map (\<lambda>(h, p). h @ p) segs) r
          = (Ok (replicate (length segs - 1) None @ [Some frm]), r') \<and> \<not> ra_active r')"
proof -
  obtain n where n: "segment_count (length frm) mtu = Ok n" "n \<le> 128"
    "segs = map (\<lambda>i. ([m, segment_flags n i], chunk (mtu - 2) frm i)) [0..<n]"
    by (rule for_each_segment_Ok[OF assms(1)])
  note cover = segment_count_covers[OF n(1)]
  have whole: "concat (map (chunk (mtu - 2) frm) [0..<n]) = frm" using cover(2) by (simp add: concat_chunks)
  have wire: "map (\<lambda>(h, p). h @ p) segs = map (\<lambda>i. m # segment_flags n i # chunk (mtu - 2) frm i) [0..<n]"
    "length segs = n" by (simp_all add: n(3))
  have "\<forall>(h, p) \<in> set segs. length h + length p \<le> mtu"
    using cover(3) by (auto simp: n(3) chunk_def)
  moreover note push_segments[OF assms(2) cover(1) n(2), of "chunk (mtu - 2) frm" m, unfolded whole, OF assms(3)]
  ultimately show ?thesis unfolding wire using n(1) by blast
qed

theorem frag_roundtrip_witness:
  "\<exists>segs r'. for_each_segment [1, 2, 3, 4, 5] 4 7 = Ok segs
     \<and> map_op push (map (\<lambda>(h, p). h @ p) segs) (reassembler_new 8) = (Ok [None, None, Some [1, 2, 3, 4, 5]], r')"
proof -
  obtain segs where segs: "for_each_segment [1, 2, 3, 4, 5] 4 7 = Ok segs" "length segs = 3"
    by (simp add: for_each_segment_def segment_count_def SEGMENT_HEADER_LEN_def MAX_SEGMENTS_def emit_from.simps Let_def)
  have "reassembler_ok (reassembler_new 8)" "length [1, 2, 3, 4, 5::u8] \<le> length (ra_buf (reassembler_new 8))"
    by (simp_all add: reassembler_ok_def reassembler_new_def)
  from frag_roundtrip[OF segs(1) this] segs show ?thesis by (auto simp: numeral_2_eq_2)
qed

section \<open>No frame is made up\<close>

lemma flag_parts:
  "f AND LAST_FLAG \<noteq> 0 \<Longrightarrow> f = LAST_FLAG OR (f AND NOT LAST_FLAG)" (is "?a \<Longrightarrow> ?b")
  "f AND LAST_FLAG = 0 \<Longrightarrow> f AND NOT LAST_FLAG = f" (is "?c \<Longrightarrow> ?d")
  "f AND NOT LAST_FLAG \<noteq> LAST_FLAG"
proof -
  have flag: "bit LAST_FLAG k \<longleftrightarrow> k = 7" for k
    using bit_exp_iff[where 'a = "8 word", of 7 k] by (auto simp: LAST_FLAG_def)
  show ?b if ?a
  proof -
    from that obtain k where "bit (f AND LAST_FLAG) k" by (auto simp: bit_eq_iff)
    then have "bit f 7" by (auto simp: flag bit_and_iff)
    then show ?thesis
      by (intro bit_eqI) (auto simp: flag bit_and_iff bit_or_iff bit_not_iff)
  qed
  show ?d if ?c
  proof -
    from that have "\<not> bit (f AND LAST_FLAG) 7" by simp
    then have "\<not> bit f 7" by (simp add: flag bit_and_iff)
    then show ?thesis by (intro bit_eqI) (auto simp: flag bit_and_iff bit_not_iff)
  qed
  have "\<not> bit (f AND NOT LAST_FLAG) 7" by (simp add: flag bit_and_iff bit_not_iff)
  moreover have "bit LAST_FLAG 7" by (simp add: flag)
  ultimately show "f AND NOT LAST_FLAG \<noteq> LAST_FLAG" by metis
qed

definition numbered :: "u8 \<Rightarrow> bytes list \<Rightarrow> bool" where
  "numbered m ps \<longleftrightarrow> length ps \<le> 128 \<and> (\<forall>i < length ps. \<exists>p. ps ! i = m # word_of_nat i # p)"

text \<open>The segments pushed so far end in the ones the reassembler has collected.\<close>

definition tracks :: "bytes list \<Rightarrow> reassembler \<Rightarrow> bool" where
  "tracks segs r \<longleftrightarrow> (ra_active r \<longrightarrow> (\<exists>pre ps. segs = pre @ ps \<and> ps \<noteq> [] \<and> numbered (ra_msg_id r) ps
     \<and> collecting (ra_msg_id r) (length ps) (concat (map (drop 2) ps)) r))"

definition completes :: "bytes list \<Rightarrow> bytes \<Rightarrow> bytes \<Rightarrow> bool" where
  "completes segs seg f \<longleftrightarrow> (\<exists>pre ps m q. segs = pre @ ps \<and> numbered m ps \<and> length ps < 128
     \<and> seg = m # (LAST_FLAG OR word_of_nat (length ps)) # q \<and> f = concat (map (drop 2) ps) @ q)"

lemma numbered_snoc:
  "numbered m (ps @ [s]) \<longleftrightarrow> numbered m ps \<and> length ps < 128 \<and> (\<exists>p. s = m # word_of_nat (length ps) # p)"
  by (auto simp: numbered_def nth_append less_Suc_eq)

text \<open>Segment \<open>m # fl # q\<close> continues the collected segments \<open>ps\<close>.\<close>

lemma push_continues:
  assumes seg: "seg = m # fl # q" and ps: "numbered m ps" "segs = pre @ ps" "fl AND NOT LAST_FLAG = word_of_nat (length ps)"
    and r1: "ra_active r1" "ra_msg_id r1 = m" "ra_next_idx r1 = word_of_nat (length ps)"
      "ra_len r1 = length (concat (map (drop 2) ps))" "take (ra_len r1) (ra_buf r1) = concat (map (drop 2) ps)"
    and room: "ra_len r1 + length q \<le> length (ra_buf r1)"
  defines "r2 \<equiv> r1\<lparr>ra_buf := take (ra_len r1) (ra_buf r1) @ q @ drop (ra_len r1 + length q) (ra_buf r1),
      ra_len := ra_len r1 + length q, ra_next_idx := ra_next_idx r1 + 1\<rparr>"
  shows "fl AND LAST_FLAG \<noteq> 0 \<Longrightarrow> completes segs seg (take (ra_len r2) (ra_buf r2))"
    and "fl AND LAST_FLAG = 0 \<Longrightarrow> tracks (segs @ [seg]) r2"
proof -
  have lt: "length ps < 128"
    using ps(1,3) flag_parts(3)[of fl] by (auto simp: numbered_def LAST_FLAG_def le_less)
  have buf: "take (ra_len r2) (ra_buf r2) = concat (map (drop 2) ps) @ q" "ra_len r2 = length (concat (map (drop 2) ps)) + length q"
    using r1(4,5) room by (simp_all add: r2_def)
  { assume "fl AND LAST_FLAG \<noteq> 0"
    from flag_parts(1)[OF this] have "fl = LAST_FLAG OR word_of_nat (length ps)" by (simp add: ps(3))
    then show "completes segs seg (take (ra_len r2) (ra_buf r2))"
      unfolding completes_def using seg ps(1,2) lt buf(1) by blast }
  { assume "fl AND LAST_FLAG = 0"
    with flag_parts(2) ps(3) have "fl = word_of_nat (length ps)" by metis
    then have "numbered m (ps @ [seg])" using ps(1) lt seg by (simp add: numbered_snoc)
    moreover have "collecting m (length (ps @ [seg])) (concat (map (drop 2) (ps @ [seg]))) r2"
      using r1 buf seg by (simp add: collecting_def r2_def)
    ultimately show "tracks (segs @ [seg]) r2"
      unfolding tracks_def using ps(2) r1(2) by (intro impI exI[of _ pre] exI[of _ "ps @ [seg]"]) (simp add: r2_def) }
qed

lemma push_tracks:
  assumes "push seg r = (out, r')" "tracks segs r" "2 \<le> length seg"
  shows "tracks (segs @ [seg]) r'" and "out = Ok (Some f) \<Longrightarrow> completes segs seg f"
proof -
  obtain m fl q where seg: "seg = m # fl # q"
    using assms(3) by (cases seg; cases "tl seg") auto
  define ord where "ord \<longleftrightarrow> ra_active r \<and> m = ra_msg_id r \<and> fl AND NOT LAST_FLAG = ra_next_idx r"
  define r1 where "r1 = (if ord then r else r\<lparr>ra_active := True, ra_msg_id := m, ra_next_idx := 0, ra_len := 0\<rparr>)"
  define r2 where "r2 = r1\<lparr>ra_buf := take (ra_len r1) (ra_buf r1) @ q @ drop (ra_len r1 + length q) (ra_buf r1),
      ra_len := ra_len r1 + length q, ra_next_idx := ra_next_idx r1 + 1\<rparr>"
  have run: "push seg r = (if \<not> ord \<and> fl AND NOT LAST_FLAG \<noteq> 0 then (Err OutOfOrder, r\<lparr>ra_active := False\<rparr>)
      else if ra_len r1 + length q > length (ra_buf r1) then (Err FragBufferOverflow, r1\<lparr>ra_active := False\<rparr>)
      else if fl AND LAST_FLAG \<noteq> 0 then (Ok (Some (take (ra_len r2) (ra_buf r2))), r2\<lparr>ra_active := False\<rparr>)
      else (Ok None, r2))"
    unfolding push_def seg Let_def SEGMENT_HEADER_LEN_def r2_def r1_def ord_def by simp
  have idle: "tracks xs (x\<lparr>ra_active := False\<rparr>)" for xs x by (simp add: tracks_def)
  have "\<exists>pre ps. segs = pre @ ps \<and> numbered m ps \<and> fl AND NOT LAST_FLAG = word_of_nat (length ps)
      \<and> collecting m (length ps) (concat (map (drop 2) ps)) r1" if ok: "ord \<or> fl AND NOT LAST_FLAG = 0"
  proof (cases ord)
    case True
    then obtain pre ps where "segs = pre @ ps" "numbered m ps" "collecting m (length ps) (concat (map (drop 2) ps)) r"
      using assms(2) by (auto simp: ord_def tracks_def)
    with True show ?thesis by (intro exI[of _ pre] exI[of _ ps]) (simp add: r1_def ord_def collecting_def)
  next
    case False
    with ok show ?thesis by (intro exI[of _ segs] exI[of _ "[]"]) (simp add: r1_def numbered_def collecting_def)
  qed
  then have go: "(fl AND LAST_FLAG \<noteq> 0 \<longrightarrow> completes segs seg (take (ra_len r2) (ra_buf r2)))
      \<and> (fl AND LAST_FLAG = 0 \<longrightarrow> tracks (segs @ [seg]) r2)"
    if "ord \<or> fl AND NOT LAST_FLAG = 0" "ra_len r1 + length q \<le> length (ra_buf r1)"
    using that push_continues[OF seg, of _ segs _ r1, folded r2_def] unfolding collecting_def by metis
  show "tracks (segs @ [seg]) r'" and "out = Ok (Some f) \<Longrightarrow> completes segs seg f"
    using assms(1) go idle unfolding run by (simp_all split: if_splits) auto
qed

definition datagrams :: "bytes list \<Rightarrow> bytes list" where
  "datagrams segs = filter (\<lambda>s. SEGMENT_HEADER_LEN \<le> length s) segs"

lemma tracks_run: "tracks (datagrams segs) (fold (\<lambda>s r. snd (push s r)) segs (reassembler_new n))"
proof (induction segs rule: rev_induct)
  case Nil
  show ?case by (simp add: tracks_def reassembler_new_def)
next
  case (snoc s segs)
  let ?r = "fold (\<lambda>s r. snd (push s r)) segs (reassembler_new n)"
  show ?case
  proof (cases "SEGMENT_HEADER_LEN \<le> length s")
    case True
    with push_tracks(1)[of s ?r "fst (push s ?r)" "snd (push s ?r)" "datagrams segs"] snoc show ?thesis
      by (simp add: datagrams_def SEGMENT_HEADER_LEN_def)
  next
    case False
    with snoc show ?thesis by (simp add: datagrams_def push_def)
  qed
qed

text \<open>C19: the reassembler never makes a frame up. Whatever datagrams arrive, in whatever order, a frame it
  returns is the payloads, in order, of the last datagrams received (truncated ones apart), which
  all belong to the same message, carry the indices 0, 1, 2, ... without a gap, and of which only
  the last has the last-segment flag.\<close>

theorem reassembly_sound:
  assumes "r = fold (\<lambda>s r. snd (push s r)) segs (reassembler_new n)" "push seg r = (Ok (Some f), r')"
  shows "\<exists>pre ps m q. datagrams segs = pre @ ps \<and> (\<forall>i < length ps. \<exists>p. ps ! i = m # word_of_nat i # p) \<and> length ps < 128
    \<and> seg = m # (LAST_FLAG OR word_of_nat (length ps)) # q \<and> f = concat (map (drop 2) ps) @ q"
proof -
  have "tracks (datagrams segs) r" using tracks_run[of segs n] assms(1) by simp
  moreover have "2 \<le> length seg" using assms(2) by (auto simp: push_def SEGMENT_HEADER_LEN_def split: if_splits)
  ultimately have "completes (datagrams segs) seg f" using push_tracks(2)[OF assms(2)] by blast
  then show ?thesis unfolding completes_def numbered_def by blast
qed

theorem reassembly_sound_witness:
  "\<exists>pre ps m q. datagrams [[5, 0, 1]] = pre @ ps \<and> [5, 0x81, 2] = m # (LAST_FLAG OR word_of_nat (length ps)) # q
     \<and> [1, 2] = concat (map (drop 2) ps) @ q"
proof -
  let ?r = "fold (\<lambda>s r. snd (push s r)) [[5, 0, 1]] (reassembler_new 4)"
  have "replicate 4 (0::u8) = [0, 0, 0, 0]" by (simp add: numeral_eq_Suc)
  then obtain r' where "push [5, 0x81, 2] ?r = (Ok (Some [1, 2]), r')"
    by (simp add: push_def reassembler_new_def SEGMENT_HEADER_LEN_def LAST_FLAG_def Let_def)
  from reassembly_sound[OF refl this] show ?thesis by blast
qed

text \<open>Errors and the message in flight. Out-of-order and oversized segments drop the message in flight,
  but a datagram shorter than the header is reported without touching the reassembler.\<close>

theorem push_errors:
  "(push seg r = (Err e, r') \<longrightarrow> (e = TruncatedHeader \<longrightarrow> r' = r) \<and> (e \<noteq> TruncatedHeader \<longrightarrow> \<not> ra_active r'))
    \<and> fst (push seg r) \<noteq> Panic"
  by (auto simp: push_def Let_def split: if_splits)

theorem push_errors_witness:
  "push [1] (reassembler_new 4) = (Err TruncatedHeader, reassembler_new 4) \<and> fst (push [1] (reassembler_new 4)) \<noteq> Panic"
  using push_errors[of "[1]" "reassembler_new 4" TruncatedHeader "snd (push [1] (reassembler_new 4))"]
  by (simp add: push_def SEGMENT_HEADER_LEN_def)

end
