(* ===== verification/Dhke.thy ===== *)
theory Dhke
  imports Sample
begin

text \<open>
  Blind Diffie-Hellman signatures (\<^verbatim>\<open>cashu-core-lite/src/crypto.rs\<close>) and their NUT-12 proofs of
  equal discrete logarithm (\<^verbatim>\<open>nuts/nut12.rs\<close>) over the group operations of \<^verbatim>\<open>k256\<close>, which are
  the fields of a record. \<open>curve_ok\<close> states that they form a group of prime order on which
  scalars act, and that keys encode its points and its nonzero scalars.
\<close>

section \<open>The group\<close>

text \<open>
  \<open>c_mul\<close> multiplies a point by a scalar; \<open>of_point\<close> is \<^verbatim>\<open>PublicKey::from_affine\<close>, which refuses
  the identity; \<open>uncompressed\<close> is the 65-byte encoding of a public key.
\<close>

record 'p curve =
  c_add :: "'p \<Rightarrow> 'p \<Rightarrow> 'p"
  c_neg :: "'p \<Rightarrow> 'p"
  c_zero :: 'p
  c_gen :: 'p
  c_mul :: "int \<Rightarrow> 'p \<Rightarrow> 'p"
  c_order :: int
  to_point :: "public_key \<Rightarrow> 'p"
  of_point :: "'p \<Rightarrow> public_key option"
  uncompressed :: "public_key \<Rightarrow> bytes"

definition c_sub :: "'p curve \<Rightarrow> 'p \<Rightarrow> 'p \<Rightarrow> 'p" where
  "c_sub K P Q = c_add K P (c_neg K Q)"

text \<open>\<^verbatim>\<open>SecretKey::to_scalar\<close> and \<^verbatim>\<open>Scalar::to_bytes\<close>: 32 bytes, big endian.\<close>

definition to_scalar :: "secret_key \<Rightarrow> int" where
  "to_scalar k = int (from_be_bytes (to_secret_bytes k))"

definition scalar_bytes :: "'p curve \<Rightarrow> int \<Rightarrow> bytes" where
  "scalar_bytes K v = to_be_bytes 32 (nat (v mod c_order K))"

section \<open>Hashing to the curve\<close>

datatype crypto_error = HashToCurveError | IdentityPoint | CryptoUnit

definition DOMAIN_SEPARATOR :: string where
  "DOMAIN_SEPARATOR = ''Secp256k1_HashToCurve_Cashu_''"

fun hash_to_curve_from :: "externs \<Rightarrow> bytes \<Rightarrow> nat \<Rightarrow> nat \<Rightarrow> (crypto_error, public_key) res" where
  "hash_to_curve_from X msg_hash counter 0 = Err HashToCurveError"
| "hash_to_curve_from X msg_hash counter (Suc left) =
     (case pk_from_bytes X (0x02 # sha256 X (msg_hash @ rev (to_be_bytes 4 counter))) of
        Some point \<Rightarrow> Ok point
      | None \<Rightarrow> hash_to_curve_from X msg_hash (Suc counter) left)"

definition hash_to_curve :: "externs \<Rightarrow> bytes \<Rightarrow> (crypto_error, public_key) res" where
  "hash_to_curve X message =
     hash_to_curve_from X (sha256 X (as_bytes DOMAIN_SEPARATOR @ message)) 0 65536"

section \<open>Blinding, signing, unblinding\<close>

record blinded =
  bl_blinded :: public_key
  bl_blinder :: secret_key

text \<open>Without a blinder the code draws one; the drawn scalar is the argument \<open>fresh\<close>.\<close>

definition blind_message ::
  "externs \<Rightarrow> 'p curve \<Rightarrow> bytes \<Rightarrow> secret_key option \<Rightarrow> secret_key \<Rightarrow> (crypto_error, blinded) res" where
  "blind_message X K secret blinder fresh =
     res_bind (hash_to_curve X secret) (\<lambda>y.
       let r_sk = (case blinder of Some sk \<Rightarrow> sk | None \<Rightarrow> fresh)
       in res_bind (ok_or HashToCurveError (of_point K (c_add K (to_point K y) (to_point K (pubkey_of X r_sk))))) (\<lambda>b.
            Ok \<lparr>bl_blinded = b, bl_blinder = r_sk\<rparr>))"

definition unblind_signature ::
  "'p curve \<Rightarrow> public_key \<Rightarrow> secret_key \<Rightarrow> public_key \<Rightarrow> (crypto_error, public_key) res" where
  "unblind_signature K blinded_sig blinder mint_pubkey =
     ok_or CryptoUnit (of_point K (c_sub K (to_point K blinded_sig) (c_mul K (to_scalar blinder) (to_point K mint_pubkey))))"

definition sign_message :: "'p curve \<Rightarrow> secret_key \<Rightarrow> public_key \<Rightarrow> (crypto_error, public_key) res" where
  "sign_message K a blinded_message =
     (case of_point K (c_mul K (to_scalar a) (to_point K blinded_message)) of Some c \<Rightarrow> Ok c | None \<Rightarrow> Panic)"

definition verify_signature_with_privkey ::
  "externs \<Rightarrow> 'p curve \<Rightarrow> bytes \<Rightarrow> public_key \<Rightarrow> secret_key \<Rightarrow> (crypto_error, bool) res" where
  "verify_signature_with_privkey X K secret unblinded_sig a =
     res_bind (hash_to_curve X secret) (\<lambda>y.
       Ok (c_mul K (to_scalar a) (to_point K y) = to_point K unblinded_sig))"

section \<open>Proofs of equal discrete logarithm\<close>

definition hash_e :: "externs \<Rightarrow> 'p curve \<Rightarrow> public_key \<Rightarrow> public_key \<Rightarrow> public_key \<Rightarrow> public_key \<Rightarrow> bytes" where
  "hash_e X K r1 r2 a c_prime =
     sha256 X (as_bytes (concat (map (\<lambda>pk. hex_encode X (uncompressed K pk)) [r1, r2, a, c_prime])))"

text \<open>The two commitments the verifier recomputes.\<close>

definition dleq_r1 :: "'p curve \<Rightarrow> secret_key \<Rightarrow> secret_key \<Rightarrow> public_key \<Rightarrow> 'p" where
  "dleq_r1 K e s mint_pubkey =
     c_sub K (c_mul K (to_scalar s) (c_gen K)) (c_mul K (to_scalar e) (to_point K mint_pubkey))"

definition dleq_r2 :: "'p curve \<Rightarrow> secret_key \<Rightarrow> secret_key \<Rightarrow> public_key \<Rightarrow> public_key \<Rightarrow> 'p" where
  "dleq_r2 K e s blinded_message blinded_signature =
     c_sub K (c_mul K (to_scalar s) (to_point K blinded_message)) (c_mul K (to_scalar e) (to_point K blinded_signature))"

definition verify_dleq ::
  "externs \<Rightarrow> 'p curve \<Rightarrow> public_key \<Rightarrow> public_key \<Rightarrow> secret_key \<Rightarrow> secret_key \<Rightarrow> public_key \<Rightarrow> (crypto_error, bool) res" where
  "verify_dleq X K blinded_message blinded_signature e s mint_pubkey =
     res_bind (ok_or IdentityPoint (of_point K (dleq_r1 K e s mint_pubkey))) (\<lambda>r1.
     res_bind (ok_or IdentityPoint (of_point K (dleq_r2 K e s blinded_message blinded_signature))) (\<lambda>r2.
       Ok (to_secret_bytes e = hash_e X K r1 r2 mint_pubkey blinded_signature)))"

definition verify_signature ::
  "externs \<Rightarrow> 'p curve \<Rightarrow> public_key \<Rightarrow> public_key \<Rightarrow> secret_key \<Rightarrow> secret_key \<Rightarrow> public_key \<Rightarrow> (crypto_error, bool) res" where
  "verify_signature X K blinded_message blinded_signature e s mint_pubkey =
     verify_dleq X K blinded_message blinded_signature e s mint_pubkey"

definition verify_proof_dleq :: "externs \<Rightarrow> 'p curve \<Rightarrow> bytes \<Rightarrow> public_key \<Rightarrow> proof_dleq \<Rightarrow> public_key \<Rightarrow> bool" where
  "verify_proof_dleq X K secret c dleq mint_amount_pubkey =
     (case blind_message X K secret (Some (pd_r dleq)) (pd_r dleq) of
        Ok bm \<Rightarrow>
          (case of_point K (c_add K (to_point K c) (c_mul K (to_scalar (pd_r dleq)) (to_point K mint_amount_pubkey))) of
             None \<Rightarrow> False
           | Some c_prime \<Rightarrow>
               (case verify_dleq X K (bl_blinded bm) c_prime (pd_e dleq) (pd_s dleq) mint_amount_pubkey of
                  Ok b \<Rightarrow> b | _ \<Rightarrow> False))
      | _ \<Rightarrow> False)"

definition prove_dleq ::
  "externs \<Rightarrow> 'p curve \<Rightarrow> public_key \<Rightarrow> secret_key \<Rightarrow> secret_key option \<Rightarrow> secret_key option \<Rightarrow> (crypto_error, blind_signature_dleq) res" where
  "prove_dleq X K b_prime mint_key nonce fresh =
     res_bind (case nonce of Some n \<Rightarrow> Ok n | None \<Rightarrow> ok_or CryptoUnit fresh) (\<lambda>rho.
     res_bind (ok_or CryptoUnit (of_point K (c_mul K (to_scalar mint_key) (to_point K b_prime)))) (\<lambda>c_prime.
     res_bind (ok_or CryptoUnit (of_point K (c_mul K (to_scalar rho) (c_gen K)))) (\<lambda>r1.
     res_bind (ok_or CryptoUnit (of_point K (c_mul K (to_scalar rho) (to_point K b_prime)))) (\<lambda>r2.
     res_bind (ok_or CryptoUnit (sk_from_slice X (hash_e X K r1 r2 (pubkey_of X mint_key) c_prime))) (\<lambda>e.
     res_bind (ok_or CryptoUnit (sk_from_slice X (scalar_bytes K (to_scalar rho + to_scalar e * to_scalar mint_key)))) (\<lambda>s.
       Ok \<lparr>bd_e = e, bd_s = s\<rparr>))))))"

section \<open>What the sources rely on\<close>

definition group_laws :: "'p curve \<Rightarrow> bool" where
  "group_laws K \<longleftrightarrow>
     (\<forall>P Q R. c_add K (c_add K P Q) R = c_add K P (c_add K Q R))
     \<and> (\<forall>P Q. c_add K P Q = c_add K Q P)
     \<and> (\<forall>P. c_add K P (c_zero K) = P) \<and> (\<forall>P. c_add K P (c_neg K P) = c_zero K)"

definition scalar_laws :: "'p curve \<Rightarrow> bool" where
  "scalar_laws K \<longleftrightarrow>
     (\<forall>u v P. c_mul K (u + v) P = c_add K (c_mul K u P) (c_mul K v P))
     \<and> (\<forall>u P Q. c_mul K u (c_add K P Q) = c_add K (c_mul K u P) (c_mul K u Q))
     \<and> (\<forall>u v P. c_mul K (u * v) P = c_mul K u (c_mul K v P))
     \<and> (\<forall>P. c_mul K 1 P = P) \<and> (\<forall>P. c_mul K (c_order K) P = c_zero K)"

definition order_laws :: "'p curve \<Rightarrow> bool" where
  "order_laws K \<longleftrightarrow> 1 < c_order K \<and> c_order K \<le> 2 ^ 256
     \<and> (\<forall>u. 0 < u \<and> u < c_order K \<longrightarrow> gcd u (c_order K) = 1)"

definition encoding_laws :: "externs \<Rightarrow> 'p curve \<Rightarrow> bool" where
  "encoding_laws X K \<longleftrightarrow>
     of_point K (c_zero K) = None \<and> (\<forall>P pk. of_point K P = Some pk \<longrightarrow> to_point K pk = P)
     \<and> (\<forall>P. P \<noteq> c_zero K \<longrightarrow> of_point K P \<noteq> None) \<and> (\<forall>b. on_curve X b \<longrightarrow> to_point K (PublicKey b) \<noteq> c_zero K)
     \<and> (\<forall>sk. 0 < to_scalar sk \<and> to_scalar sk < c_order K \<longrightarrow> to_point K (pubkey_of X sk) = c_mul K (to_scalar sk) (c_gen K))
     \<and> (\<forall>b. length b = 32 \<longrightarrow> (valid_scalar X b \<longleftrightarrow> 0 < from_be_bytes b \<and> int (from_be_bytes b) < c_order K))"

definition curve_ok :: "externs \<Rightarrow> 'p curve \<Rightarrow> bool" where
  "curve_ok X K \<longleftrightarrow> group_laws K \<and> scalar_laws K \<and> order_laws K \<and> encoding_laws X K"

text \<open>The invariant of \<^verbatim>\<open>SecretKey\<close>: a scalar between 1 and the order.\<close>

definition key_ok :: "'p curve \<Rightarrow> secret_key \<Rightarrow> bool" where
  "key_ok K sk \<longleftrightarrow> 0 < to_scalar sk \<and> to_scalar sk < c_order K"

section \<open>Group algebra\<close>

lemma curve_assoc: "curve_ok X K \<Longrightarrow> c_add K (c_add K P Q) R = c_add K P (c_add K Q R)"
  and curve_comm: "curve_ok X K \<Longrightarrow> c_add K P Q = c_add K Q P"
  and curve_right: "curve_ok X K \<Longrightarrow> c_add K P (c_zero K) = P"
  and curve_neg: "curve_ok X K \<Longrightarrow> c_add K P (c_neg K P) = c_zero K"
  by (auto simp: curve_ok_def group_laws_def)

lemma curve_left: "curve_ok X K \<Longrightarrow> c_add K (c_zero K) P = P"
  by (metis curve_comm curve_right)

lemma curve_mul:
  assumes "curve_ok X K"
  shows "c_mul K (u + v) P = c_add K (c_mul K u P) (c_mul K v P)"
    "c_mul K u (c_add K P Q) = c_add K (c_mul K u P) (c_mul K u Q)" "c_mul K (u * v) P = c_mul K u (c_mul K v P)"
    "c_mul K 1 P = P" "c_mul K (c_order K) P = c_zero K"
  using assms by (simp_all add: curve_ok_def scalar_laws_def)

lemma curve_cancel:
  assumes "curve_ok X K" "c_add K P Q = c_add K P R"
  shows "Q = R"
proof -
  have "c_add K (c_neg K P) (c_add K P S) = S" for S
    using curve_assoc[OF assms(1)] curve_comm[OF assms(1)] curve_neg[OF assms(1)] curve_left[OF assms(1)] by metis
  with assms(2) show ?thesis by metis
qed

lemma curve_zero: "curve_ok X K \<Longrightarrow> c_mul K 0 P = c_zero K"
  using curve_cancel[of X K "c_mul K 0 P" "c_mul K 0 P" "c_zero K"] curve_mul(1)[of X K 0 0 P] curve_right[of X K "c_mul K 0 P"]
  by simp

lemma curve_sub:
  assumes "curve_ok X K"
  shows "c_sub K (c_mul K u P) (c_mul K v P) = c_mul K (u - v) P" "c_sub K (c_add K P Q) Q = P"
proof -
  have "c_add K (c_mul K (u - v) P) (c_mul K v P) = c_mul K u P"
    using curve_mul(1)[OF assms, of "u - v" v P] by simp
  moreover show "c_sub K (c_add K P Q) Q = P" for P Q
    unfolding c_sub_def using curve_assoc[OF assms] curve_neg[OF assms] curve_right[OF assms] by metis
  ultimately show "c_sub K (c_mul K u P) (c_mul K v P) = c_mul K (u - v) P" by metis
qed

lemma curve_exchange:
  assumes "curve_ok X K" "c_sub K P Q = c_sub K R S"
  shows "c_sub K P R = c_sub K Q S"
proof -
  note ac = curve_assoc[OF assms(1)] curve_comm[OF assms(1)]
  have lc: "c_add K P (c_add K Q R) = c_add K Q (c_add K P R)" for P Q R using ac by metis
  have "P = c_add K (c_sub K P Q) Q"
    unfolding c_sub_def using ac curve_neg[OF assms(1)] curve_right[OF assms(1)] by metis
  then have "c_sub K P R = c_add K (c_add K (c_add K R (c_neg K S)) Q) (c_neg K R)"
    unfolding assms(2) by (simp add: c_sub_def)
  also have "\<dots> = c_add K (c_add K R (c_neg K R)) (c_add K Q (c_neg K S))" by (simp add: ac lc)
  finally show ?thesis by (simp add: curve_neg[OF assms(1)] curve_left[OF assms(1)] c_sub_def)
qed

lemma curve_mod:
  assumes "curve_ok X K"
  shows "c_mul K (u mod c_order K) P = c_mul K u P"
proof -
  have "c_mul K (u div c_order K * c_order K) P = c_mul K (u div c_order K) (c_zero K)"
    using curve_mul(3,5)[OF assms] by simp
  also have "\<dots> = c_mul K (u div c_order K * 0) P" using curve_mul(3)[OF assms] curve_zero[OF assms] by metis
  finally have z: "c_mul K (u div c_order K * c_order K) P = c_zero K" using curve_zero[OF assms] by simp
  have "c_mul K u P = c_add K (c_mul K (u div c_order K * c_order K) P) (c_mul K (u mod c_order K) P)"
    using curve_mul(1)[OF assms, of "u div c_order K * c_order K" "u mod c_order K" P] by simp
  with z curve_left[OF assms] show ?thesis by simp
qed

text \<open>Division by a scalar that is not zero modulo the order.\<close>

lemma curve_divide:
  assumes "curve_ok X K" "0 < \<bar>d\<bar>" "\<bar>d\<bar> < c_order K"
  obtains x where "\<And>P. c_mul K x (c_mul K d P) = P"
proof -
  have "order_laws K" using assms(1) by (simp add: curve_ok_def)
  then have "gcd \<bar>d\<bar> (c_order K) = 1" using assms(2,3) unfolding order_laws_def by blast
  then have "gcd d (c_order K) = 1" by simp
  then obtain x y where xy: "x * d + y * c_order K = 1" using bezout_int[of d "c_order K"] by auto
  have "c_mul K x (c_mul K d P) = P" for P
  proof -
    have "P = c_mul K (x * d + y * c_order K) P" using xy curve_mul(4)[OF assms(1)] by simp
    also have "\<dots> = c_add K (c_mul K x (c_mul K d P)) (c_mul K y (c_zero K))"
      using curve_mul[OF assms(1)] by simp
    also have "c_mul K y (c_zero K) = c_zero K"
      using curve_mul(3)[OF assms(1), of y 0 P] curve_zero[OF assms(1)] by simp
    finally show ?thesis using curve_right[OF assms(1)] by metis
  qed
  with that show ?thesis by blast
qed

lemma curve_nonzero:
  assumes "curve_ok X K" "key_ok K a" "P \<noteq> c_zero K"
  shows "c_mul K (to_scalar a) P \<noteq> c_zero K"
proof
  assume z: "c_mul K (to_scalar a) P = c_zero K"
  have "0 < \<bar>to_scalar a\<bar>" "\<bar>to_scalar a\<bar> < c_order K" using assms(2) by (simp_all add: key_ok_def)
  then obtain x where x: "c_mul K x (c_mul K (to_scalar a) P) = P"
    using curve_divide[OF assms(1)] by metis
  have "c_mul K x (c_zero K) = c_zero K"
    using curve_mul(3)[OF assms(1), of x 0 P] curve_zero[OF assms(1)] by simp
  with x z assms(3) show False by simp
qed

lemma of_pointD: "curve_ok X K \<Longrightarrow> of_point K P = Some pk \<Longrightarrow> to_point K pk = P \<and> P \<noteq> c_zero K"
  by (auto simp: curve_ok_def encoding_laws_def)

lemma of_point_nonzero: "curve_ok X K \<Longrightarrow> P \<noteq> c_zero K \<Longrightarrow> \<exists>pk. of_point K P = Some pk"
  by (auto simp: curve_ok_def encoding_laws_def)

lemma pubkey_point: "curve_ok X K \<Longrightarrow> key_ok K a \<Longrightarrow> to_point K (pubkey_of X a) = c_mul K (to_scalar a) (c_gen K)"
  by (simp add: curve_ok_def encoding_laws_def key_ok_def)

lemma mul_commute: "curve_ok X K \<Longrightarrow> c_mul K u (c_mul K v P) = c_mul K v (c_mul K u P)"
  by (metis curve_mul(3) mult.commute)

section \<open>Properties\<close>

lemma hash_to_curve_from_point: "hash_to_curve_from X h c n = Ok y \<Longrightarrow> \<exists>b. y = PublicKey b \<and> on_curve X b"
  by (induction X h c n rule: hash_to_curve_from.induct)
    (auto simp: pk_from_bytes_def split: option.splits if_splits)

lemma hash_to_curve_nonzero:
  assumes "curve_ok X K" "hash_to_curve X m = Ok y"
  shows "to_point K y \<noteq> c_zero K"
proof -
  obtain b where "y = PublicKey b" "on_curve X b"
    using hash_to_curve_from_point[OF assms(2)[unfolded hash_to_curve_def]] by blast
  then show ?thesis using assms(1) by (simp add: curve_ok_def encoding_laws_def)
qed

lemma blind_message_Ok:
  assumes "curve_ok X K" "key_ok K r" "blind_message X K secret (Some r) fresh = Ok bm"
  obtains y where "hash_to_curve X secret = Ok y" "bl_blinder bm = r"
    "to_point K (bl_blinded bm) = c_add K (to_point K y) (c_mul K (to_scalar r) (c_gen K))" "to_point K (bl_blinded bm) \<noteq> c_zero K"
proof -
  from assms(3) obtain y b where y: "hash_to_curve X secret = Ok y"
    "of_point K (c_add K (to_point K y) (to_point K (pubkey_of X r))) = Some b" "bm = \<lparr>bl_blinded = b, bl_blinder = r\<rparr>"
    by (auto simp: blind_message_def Let_def)
  with of_pointD[OF assms(1) y(2)] pubkey_point[OF assms(1,2)] that show ?thesis by simp
qed

text \<open>Unblinding removes exactly the blinding: the signature on the blinded point becomes one on the hashed secret.\<close>

lemma unblind_point:
  assumes "curve_ok X K" "key_ok K a" "B = c_add K Y (c_mul K r (c_gen K))"
  shows "c_sub K (c_mul K (to_scalar a) B) (c_mul K r (c_mul K (to_scalar a) (c_gen K))) = c_mul K (to_scalar a) Y"
  unfolding assms(3) curve_mul(2)[OF assms(1)] mul_commute[OF assms(1), of "to_scalar a" r] by (rule curve_sub(2)[OF assms(1)])

lemma blind_sign_unblind:
  assumes "curve_ok X K" "key_ok K a" "key_ok K r" "blind_message X K secret (Some r) fresh = Ok bm"
  shows "\<exists>c' c. sign_message K a (bl_blinded bm) = Ok c' \<and> unblind_signature K c' (bl_blinder bm) (pubkey_of X a) = Ok c
    \<and> verify_signature_with_privkey X K secret c a = Ok True"
proof -
  obtain y where y: "hash_to_curve X secret = Ok y" "bl_blinder bm = r"
    "to_point K (bl_blinded bm) = c_add K (to_point K y) (c_mul K (to_scalar r) (c_gen K))" "to_point K (bl_blinded bm) \<noteq> c_zero K"
    by (rule blind_message_Ok[OF assms(1,3,4)])
  obtain c' where c': "of_point K (c_mul K (to_scalar a) (to_point K (bl_blinded bm))) = Some c'"
    using of_point_nonzero[OF assms(1) curve_nonzero[OF assms(1,2) y(4)]] by blast
  have ay: "c_mul K (to_scalar a) (to_point K y) \<noteq> c_zero K"
    using curve_nonzero[OF assms(1,2)] hash_to_curve_nonzero[OF assms(1) y(1)] by blast
  then obtain c where c: "of_point K (c_mul K (to_scalar a) (to_point K y)) = Some c"
    using of_point_nonzero[OF assms(1)] by blast
  have "c_sub K (to_point K c') (c_mul K (to_scalar r) (to_point K (pubkey_of X a))) = c_mul K (to_scalar a) (to_point K y)"
    using unblind_point[OF assms(1,2) y(3)] of_pointD[OF assms(1) c'] pubkey_point[OF assms(1,2)] by simp
  with c c' y of_pointD[OF assms(1) c] show ?thesis
    by (auto simp: sign_message_def unblind_signature_def verify_signature_with_privkey_def)
qed

text \<open>C13: blind signatures are correct. Blinding a secret, signing the blinded point and unblinding the
  signature always succeeds, whatever blinding factor is used, and yields a signature on the secret that the mint's key verifies.\<close>

theorem blind_signature_correct:
  assumes "curve_ok X K" "key_ok K a" "key_ok K r" "blind_message X K secret (Some r) fresh = Ok bm"
  shows "\<exists>c' c. sign_message K a (bl_blinded bm) = Ok c' \<and> unblind_signature K c' (bl_blinder bm) (pubkey_of X a) = Ok c
    \<and> verify_signature_with_privkey X K secret c a = Ok True"
  by (rule blind_sign_unblind[OF assms])

lemma key_ok_from_slice:
  assumes "curve_ok X K" "sk_from_slice X b = Some k"
  shows "key_ok K k" "to_secret_bytes k = b"
  using assms by (auto simp: sk_from_slice_def curve_ok_def encoding_laws_def key_ok_def to_scalar_def split: if_splits)

lemma scalar_of_bytes:
  assumes "curve_ok X K" "sk_from_slice X (scalar_bytes K v) = Some k"
  shows "to_scalar k = v mod c_order K"
proof -
  have n: "0 < c_order K" "c_order K \<le> 2 ^ 256" using assms(1) by (simp_all add: curve_ok_def order_laws_def)
  then have "nat (v mod c_order K) < 2 ^ 256"
    using order_less_le_trans[OF pos_mod_bound[of "c_order K" v] n(2)] pos_mod_sign[of "c_order K" v]
    by (simp add: nat_less_iff)
  then have "nat (v mod c_order K) < 256 ^ 32" by (simp add: power_mult[of 2 8 32, simplified])
  from from_to_be_bytes[OF this] key_ok_from_slice(2)[OF assms] n show ?thesis
    by (simp add: to_scalar_def scalar_bytes_def)
qed

text \<open>The verifier recomputes the prover's commitments.\<close>

lemma dleq_commitments:
  assumes "curve_ok X K" "key_ok K a" "to_scalar s = (to_scalar rho + to_scalar e * to_scalar a) mod c_order K"
    and "to_point K c' = c_mul K (to_scalar a) (to_point K b')"
  shows "dleq_r1 K e s (pubkey_of X a) = c_mul K (to_scalar rho) (c_gen K)"
    and "dleq_r2 K e s b' c' = c_mul K (to_scalar rho) (to_point K b')"
proof -
  have "c_sub K (c_mul K (to_scalar s) P) (c_mul K (to_scalar e) (c_mul K (to_scalar a) P)) = c_mul K (to_scalar rho) P" for P
    unfolding assms(3) curve_mod[OF assms(1)] using curve_sub(1)[OF assms(1)] curve_mul(3)[OF assms(1)]
    by (metis add_diff_cancel_right')
  then show "dleq_r1 K e s (pubkey_of X a) = c_mul K (to_scalar rho) (c_gen K)"
    "dleq_r2 K e s b' c' = c_mul K (to_scalar rho) (to_point K b')"
    by (simp_all add: dleq_r1_def dleq_r2_def pubkey_point[OF assms(1,2)] assms(4))
qed

lemma prove_dleq_verifies:
  assumes "curve_ok X K" "key_ok K a" "prove_dleq X K b' a (Some rho) fresh = Ok d"
  shows "\<exists>c'. of_point K (c_mul K (to_scalar a) (to_point K b')) = Some c'
    \<and> verify_dleq X K b' c' (bd_e d) (bd_s d) (pubkey_of X a) = Ok True"
proof -
  from assms(3) obtain c' r1 r2 e s where
    c': "of_point K (c_mul K (to_scalar a) (to_point K b')) = Some c'"
    and r: "of_point K (c_mul K (to_scalar rho) (c_gen K)) = Some r1" "of_point K (c_mul K (to_scalar rho) (to_point K b')) = Some r2"
    and e: "sk_from_slice X (hash_e X K r1 r2 (pubkey_of X a) c') = Some e"
    and s: "sk_from_slice X (scalar_bytes K (to_scalar rho + to_scalar e * to_scalar a)) = Some s"
    and d: "d = \<lparr>bd_e = e, bd_s = s\<rparr>"
    by (auto simp: prove_dleq_def)
  have "to_point K c' = c_mul K (to_scalar a) (to_point K b')" using of_pointD[OF assms(1) c'] by simp
  note com = dleq_commitments[OF assms(1,2) scalar_of_bytes[OF assms(1) s] this]
  with r key_ok_from_slice(2)[OF assms(1) e] c' show ?thesis by (simp add: d verify_dleq_def)
qed

text \<open>Honest signatures come with valid proofs. A DLEQ proof the mint makes for a blinded point verifies
  against its signature and its public key.\<close>

theorem dleq_complete:
  assumes "curve_ok X K" "key_ok K a" "prove_dleq X K b' a (Some rho) fresh = Ok d"
  shows "\<exists>c'. sign_message K a b' = Ok c' \<and> verify_signature X K b' c' (bd_e d) (bd_s d) (pubkey_of X a) = Ok True"
  using prove_dleq_verifies[OF assms] by (auto simp: sign_message_def verify_signature_def)

text \<open>Adding the blinding back to an unblinded signature gives the blind signature.\<close>

lemma unblind_rejoin:
  assumes "curve_ok X K" "unblind_signature K c' r A = Ok c"
  shows "c_add K (to_point K c) (c_mul K (to_scalar r) (to_point K A)) = to_point K c'"
proof -
  have "to_point K c = c_sub K (to_point K c') (c_mul K (to_scalar r) (to_point K A))"
    using assms(2) of_pointD[OF assms(1)] by (auto simp: unblind_signature_def)
  then show ?thesis
    unfolding c_sub_def using curve_assoc[OF assms(1)] curve_comm[OF assms(1)] curve_neg[OF assms(1)] curve_right[OF assms(1)] by metis
qed

text \<open>The uncompressed encoding is determined by the point, and compressed encodings have 33 bytes.\<close>

definition points_encode :: "'p curve \<Rightarrow> bool" where
  "points_encode K \<longleftrightarrow> (\<forall>p q. to_point K p = to_point K q \<longrightarrow> uncompressed K p = uncompressed K q)
     \<and> (\<forall>P pk. of_point K P = Some pk \<longrightarrow> length (to_bytes pk) = 33)"

text \<open>Whoever checked the blind signature hands on a proof that can be checked without it.\<close>

lemma blind_check_carries_over:
  assumes "curve_ok X K" "points_encode K" "blind_message X K secret (Some r) fresh = Ok bm"
    and "verify_dleq X K (bl_blinded bm) c' e s A = Ok True" "unblind_signature K c' r A = Ok c" "to_point K c' \<noteq> c_zero K"
  shows "verify_proof_dleq X K secret c \<lparr>pd_e = e, pd_s = s, pd_r = r\<rparr> A"
proof -
  obtain c1 where c1: "of_point K (to_point K c') = Some c1" using of_point_nonzero[OF assms(1,6)] by blast
  then have same: "to_point K c1 = to_point K c'" using of_pointD[OF assms(1)] by simp
  then have "uncompressed K c1 = uncompressed K c'" using assms(2) unfolding points_encode_def by blast
  with same assms(4) have "verify_dleq X K (bl_blinded bm) c1 e s A = Ok True"
    by (simp add: verify_dleq_def dleq_r2_def hash_e_def)
  moreover have "blind_message X K secret (Some r) r = Ok bm" using assms(3) by (simp add: blind_message_def)
  ultimately show ?thesis using c1 unblind_rejoin[OF assms(1,5)] by (simp add: verify_proof_dleq_def)
qed

text \<open>A proof passed on is still verifiable. The wallet that unblinded the signature hands on the secret, the
  signature, the DLEQ scalars and the blinding factor, and whoever receives them verifies the proof with the mint's public key alone.\<close>

theorem proof_dleq_complete:
  assumes "curve_ok X K" "key_ok K a" "key_ok K r" "blind_message X K secret (Some r) fresh = Ok bm"
    and "prove_dleq X K (bl_blinded bm) a (Some rho) fresh' = Ok d" "sign_message K a (bl_blinded bm) = Ok c'"
    and "unblind_signature K c' r (pubkey_of X a) = Ok c"
  shows "verify_proof_dleq X K secret c \<lparr>pd_e = bd_e d, pd_s = bd_s d, pd_r = r\<rparr> (pubkey_of X a)"
proof -
  obtain c1 where c1: "of_point K (c_mul K (to_scalar a) (to_point K (bl_blinded bm))) = Some c1"
    "verify_dleq X K (bl_blinded bm) c1 (bd_e d) (bd_s d) (pubkey_of X a) = Ok True"
    using prove_dleq_verifies[OF assms(1,2,5)] by blast
  have "c' = c1" using assms(6) c1(1) by (simp add: sign_message_def)
  let ?rk = "c_mul K (to_scalar r) (to_point K (pubkey_of X a))"
  have "c_add K (to_point K c) ?rk = to_point K c1"
    using unblind_rejoin[OF assms(1,7)] \<open>c' = c1\<close> by simp
  also have "\<dots> = c_mul K (to_scalar a) (to_point K (bl_blinded bm))" using of_pointD[OF assms(1) c1(1)] by simp
  finally have "of_point K (c_add K (to_point K c) ?rk) = Some c1" using c1(1) by simp
  moreover have "blind_message X K secret (Some r) r = Ok bm" using assms(4) by (simp add: blind_message_def)
  ultimately show ?thesis using c1(2) by (simp add: verify_proof_dleq_def)
qed

text \<open>
  The text that \<^verbatim>\<open>verify_dleq\<close> hands to SHA-256, read off \<open>hash_e\<close> with the identity in place of
  the hash; and which digests of a text let an answer through: some hash function that gives the text
  this digest makes \<open>verify_dleq\<close> accept some scalars that lead to the text.
\<close>

definition hash_text :: "externs \<Rightarrow> 'p curve \<Rightarrow> public_key \<Rightarrow> public_key \<Rightarrow> public_key \<Rightarrow> public_key \<Rightarrow> bytes" where
  "hash_text X K r1 r2 a c_prime = hash_e (X\<lparr>sha256 := (\<lambda>text. text)\<rparr>) K r1 r2 a c_prime"

definition dleq_text ::
  "externs \<Rightarrow> 'p curve \<Rightarrow> public_key \<Rightarrow> public_key \<Rightarrow> secret_key \<Rightarrow> secret_key \<Rightarrow> public_key \<Rightarrow> bytes option" where
  "dleq_text X K b c e s A =
     (case (of_point K (dleq_r1 K e s A), of_point K (dleq_r2 K e s b c)) of
        (Some r1, Some r2) \<Rightarrow> Some (hash_text X K r1 r2 A c)
      | _ \<Rightarrow> None)"

definition digest_passes :: "externs \<Rightarrow> 'p curve \<Rightarrow> public_key \<Rightarrow> public_key \<Rightarrow> public_key \<Rightarrow> bytes \<Rightarrow> bytes \<Rightarrow> bool" where
  "digest_passes X K b c A text digest \<longleftrightarrow>
     (\<exists>h e s. h text = digest \<and> sk_from_slice X (to_secret_bytes e) = Some e
        \<and> dleq_text X K b c e s A = Some text \<and> verify_dleq (X\<lparr>sha256 := h\<rparr>) K b c e s A = Ok True)"

text \<open>The printed points can be read off the text: \<^verbatim>\<open>hex\<close> and the uncompressed encoding lose nothing
  and have one length.\<close>

definition texts_bind :: "externs \<Rightarrow> 'p curve \<Rightarrow> bool" where
  "texts_bind X K \<longleftrightarrow> inj (hex_encode X)
     \<and> (\<forall>u v. length u = length v \<longrightarrow> length (hex_encode X u) = length (hex_encode X v))
     \<and> (\<forall>P Q p q. of_point K P = Some p \<longrightarrow> of_point K Q = Some q \<longrightarrow>
          length (uncompressed K p) = length (uncompressed K q) \<and> (uncompressed K p = uncompressed K q \<longrightarrow> P = Q))"

lemma hash_e_text: "hash_e (X\<lparr>sha256 := h\<rparr>) K r1 r2 A c = h (hash_text X K r1 r2 A c)"
  by (simp add: hash_text_def hash_e_def)

lemma verify_dleq_hashes:
  "dleq_text X K b c e s A = Some m \<Longrightarrow> verify_dleq (X\<lparr>sha256 := h\<rparr>) K b c e s A = Ok (to_secret_bytes e = h m)"
  by (auto simp: dleq_text_def verify_dleq_def hash_e_text split: option.splits)

lemma text_binds:
  assumes "texts_bind X K" "dleq_text X K b c e1 s1 A = Some text" "dleq_text X K b c e2 s2 A = Some text"
  shows "dleq_r1 K e1 s1 A = dleq_r1 K e2 s2 A" "dleq_r2 K e1 s1 b c = dleq_r2 K e2 s2 b c"
proof -
  from assms(2,3) obtain p1 p2 q1 q2 where
    p: "of_point K (dleq_r1 K e1 s1 A) = Some p1" "of_point K (dleq_r2 K e1 s1 b c) = Some p2"
    and q: "of_point K (dleq_r1 K e2 s2 A) = Some q1" "of_point K (dleq_r2 K e2 s2 b c) = Some q2"
    and same: "hash_text X K p1 p2 A c = hash_text X K q1 q2 A c"
    by (auto simp: dleq_text_def split: option.splits)
  let ?print = "\<lambda>pk. hex_encode X (uncompressed K pk)"
  have len: "length (?print p1) = length (?print q1)" "length (?print p2) = length (?print q2)"
    using assms(1) p q unfolding texts_bind_def by blast+
  have "?print p1 @ ?print p2 @ ?print A @ ?print c = ?print q1 @ ?print q2 @ ?print A @ ?print c"
    using same by (simp add: hash_text_def hash_e_def flip: map_append)
  with len have "?print p1 = ?print q1" "?print p2 = ?print q2" by simp_all
  then have "uncompressed K p1 = uncompressed K q1" "uncompressed K p2 = uncompressed K q2"
    using assms(1) by (simp_all add: texts_bind_def inj_eq)
  with assms(1) p q show "dleq_r1 K e1 s1 A = dleq_r1 K e2 s2 A" "dleq_r2 K e1 s1 b c = dleq_r2 K e2 s2 b c"
    unfolding texts_bind_def by blast+
qed

lemma from_be_inj: "length u = length v \<Longrightarrow> from_be_bytes u = from_be_bytes v \<Longrightarrow> u = v"
proof (induction u arbitrary: v rule: rev_induct)
  case (snoc a u)
  then obtain v' b where v: "v = v' @ [b]" by (cases v rule: rev_cases) simp_all
  have digit: "(256 * n + unat c) mod 256 = unat c" for n :: nat and c :: "8 word"
    using unsigned_less[of c, where 'a = nat] by simp
  have eq: "256 * from_be_bytes u + unat a = 256 * from_be_bytes v' + unat b" using snoc.prems v by (simp add: from_be_snoc)
  have "unat a = unat b" using digit[of "from_be_bytes u" a] digit[of "from_be_bytes v'" b] unfolding eq by simp
  with eq have "a = b" "from_be_bytes u = from_be_bytes v'" by (simp_all add: word_unat_eq_iff)
  with snoc v show ?case by simp
qed simp

lemma slice_key:
  assumes "curve_ok X K" "sk_from_slice X (to_secret_bytes e) = Some e"
  shows "key_ok K e" "length (to_secret_bytes e) = 32"
  using assms by (auto simp: sk_from_slice_def curve_ok_def encoding_laws_def key_ok_def to_scalar_def split: if_splits)

text \<open>Two answers to the same commitments with different challenges give one scalar behind both points.\<close>

lemma answers_link:
  assumes "curve_ok X K" "key_ok K e1" "key_ok K e2" "to_scalar e1 \<noteq> to_scalar e2"
    and "dleq_r1 K e1 s1 A = dleq_r1 K e2 s2 A" "dleq_r2 K e1 s1 b c = dleq_r2 K e2 s2 b c"
  shows "\<exists>w. to_point K A = c_mul K w (c_gen K) \<and> to_point K c = c_mul K w (to_point K b)"
proof -
  let ?d = "to_scalar e1 - to_scalar e2" and ?u = "to_scalar s1 - to_scalar s2"
  have "0 < \<bar>?d\<bar>" "\<bar>?d\<bar> < c_order K" using assms(2-4) by (auto simp: key_ok_def)
  then obtain x where x: "\<And>P. c_mul K x (c_mul K ?d P) = P"
    by (rule curve_divide[OF assms(1)]) blast
  have link: "P = c_mul K (x * ?u) G"
    if "c_sub K (c_mul K (to_scalar s1) G) (c_mul K (to_scalar e1) P) = c_sub K (c_mul K (to_scalar s2) G) (c_mul K (to_scalar e2) P)" for P G
  proof -
    have "c_mul K ?d P = c_mul K ?u G"
      using curve_exchange[OF assms(1) that] unfolding curve_sub(1)[OF assms(1)] by simp
    with x[of P] show ?thesis by (simp add: curve_mul(3)[OF assms(1)])
  qed
  show ?thesis
    using link[of "c_gen K" "to_point K A"] link[of "to_point K b" "to_point K c"] assms(5,6)
    unfolding dleq_r1_def dleq_r2_def by blast
qed

text \<open>C14: a forged DLEQ proof needs one lucky digest (special soundness). When no single scalar takes the generator
  to the mint's key and the blinded point to the signature, then for every text that \<^verbatim>\<open>verify_dleq\<close> may hash
  at most one digest lets any scalars that lead to that text be accepted, whatever the hash function.\<close>

theorem dleq_special_soundness:
  assumes "curve_ok X K" "texts_bind X K"
    and "\<nexists>w. to_point K A = c_mul K w (c_gen K) \<and> to_point K c = c_mul K w (to_point K b)"
    and "digest_passes X K b c A text d1" "digest_passes X K b c A text d2"
  shows "d1 = d2"
proof -
  have passes: "\<exists>e s. sk_from_slice X (to_secret_bytes e) = Some e \<and> dleq_text X K b c e s A = Some text \<and> to_secret_bytes e = d"
    if "digest_passes X K b c A text d" for d
    using that unfolding digest_passes_def by (auto simp: verify_dleq_hashes)
  from assms(4,5)[THEN passes] obtain e1 s1 e2 s2 where
    e: "sk_from_slice X (to_secret_bytes e1) = Some e1" "sk_from_slice X (to_secret_bytes e2) = Some e2"
    and m: "dleq_text X K b c e1 s1 A = Some text" "dleq_text X K b c e2 s2 A = Some text"
    and d: "to_secret_bytes e1 = d1" "to_secret_bytes e2 = d2" by blast
  note k1 = slice_key[OF assms(1) e(1)] and k2 = slice_key[OF assms(1) e(2)]
  have "to_scalar e1 = to_scalar e2"
    using answers_link[OF assms(1) k1(1) k2(1) _ text_binds[OF assms(2) m]] assms(3) by blast
  with k1(2) k2(2) d show ?thesis by (auto simp: to_scalar_def intro: from_be_inj)
qed

section \<open>A concrete group\<close>

text \<open>The integers modulo 5 with generator 1 satisfy every law, with their values as encodings.\<close>

typedef z5 = "{0..<5::int}"
  by (rule exI[of _ 0]) simp

definition z5 :: "int \<Rightarrow> z5" where
  "z5 v = Abs_z5 (v mod 5)"

lemma Rep_z5_z5 [simp]: "Rep_z5 (z5 v) = v mod 5"
  by (simp add: z5_def Abs_z5_inverse)

lemma Rep_z5_mod [simp]: "Rep_z5 P mod 5 = Rep_z5 P"
  using Rep_z5[of P] by simp

definition z5_curve :: "z5 curve" where
  "z5_curve = \<lparr>c_add = (\<lambda>P Q. z5 (Rep_z5 P + Rep_z5 Q)), c_neg = (\<lambda>P. z5 (- Rep_z5 P)), c_zero = z5 0, c_gen = z5 1,
     c_mul = (\<lambda>u P. z5 (u * Rep_z5 P)), c_order = 5,
     to_point = (\<lambda>pk. z5 (int (from_be_bytes (to_bytes pk)))),
     of_point = (\<lambda>P. if P = z5 0 then None else Some (PublicKey (to_be_bytes 33 (nat (Rep_z5 P))))),
     uncompressed = to_bytes\<rparr>"

definition z5_externs :: externs where
  "z5_externs = demo_externs\<lparr>sha256 := (\<lambda>b. replicate 31 0 @ [1]), on_curve := (\<lambda>b. from_be_bytes b mod 5 \<noteq> 0),
     valid_scalar := (\<lambda>b. 0 < from_be_bytes b \<and> from_be_bytes b < 5),
     pubkey_of := (\<lambda>sk. PublicKey (to_be_bytes 33 (nat (to_scalar sk mod 5))))\<rparr>"

lemma z5_eq_iff: "P = Q \<longleftrightarrow> Rep_z5 P = Rep_z5 Q"
  by (simp add: Rep_z5_inject)

lemma z5_group: "group_laws z5_curve"
  by (simp add: group_laws_def z5_curve_def z5_eq_iff mod_simps algebra_simps)

lemma z5_scalars: "scalar_laws z5_curve"
  by (simp add: scalar_laws_def z5_curve_def z5_eq_iff mod_simps algebra_simps)

lemma z5_order: "order_laws z5_curve"
proof -
  have "gcd u (5::int) = 1" if "0 < u" "u < 5" for u
  proof -
    from that have "u = 1 \<or> u = 2 \<or> u = 3 \<or> u = 4" by arith
    moreover have "gcd (2::int) 5 = 1" "gcd (3::int) 5 = 1" "gcd (4::int) 5 = 1"
      using gcd_red_int[of 5 2] gcd_red_int[of 5 3] gcd_red_int[of 3 2] gcd_red_int[of 5 4] by (simp_all add: gcd.commute)
    ultimately show ?thesis by auto
  qed
  then show ?thesis by (simp add: order_laws_def z5_curve_def)
qed

lemma z5_bytes: "0 \<le> v \<Longrightarrow> v < 5 \<Longrightarrow> from_be_bytes (to_be_bytes 33 (nat v)) = nat v"
  by (rule from_to_be_bytes) (rule less_le_trans[of _ "256 ^ 1"], simp_all add: power_increasing)

lemma z5_encodings: "encoding_laws z5_externs z5_curve"
  unfolding encoding_laws_def
proof (intro conjI allI impI)
  fix P pk assume "of_point z5_curve P = Some pk"
  with Rep_z5[of P] show "to_point z5_curve pk = P"
    by (auto simp: z5_curve_def z5_bytes z5_eq_iff split: if_splits)
next
  fix b assume "on_curve z5_externs b"
  then show "to_point z5_curve (PublicKey b) \<noteq> c_zero z5_curve"
    by (simp add: z5_curve_def z5_externs_def z5_eq_iff) presburger
next
  fix sk assume "0 < to_scalar sk \<and> to_scalar sk < c_order z5_curve"
  then show "to_point z5_curve (pubkey_of z5_externs sk) = c_mul z5_curve (to_scalar sk) (c_gen z5_curve)"
    by (simp add: z5_curve_def z5_externs_def z5_eq_iff z5_bytes)
qed (auto simp: z5_curve_def z5_externs_def)

lemma z5_ok: "curve_ok z5_externs z5_curve"
  by (simp add: curve_ok_def z5_group z5_scalars z5_order z5_encodings)

definition z5_key :: "nat \<Rightarrow> secret_key" where
  "z5_key v = SecretKey (replicate 31 0 @ [word_of_nat v])"

lemma z5_key_scalar:
  assumes "v < 5"
  shows "to_scalar (z5_key v) = int v"
proof -
  have "from_be_bytes (replicate k 0) = 0" for k
    by (induction k) (simp_all add: from_be_Cons_0 from_be_bytes_def[of "[]"])
  then show ?thesis
    using assms by (simp add: to_scalar_def z5_key_def from_be_snoc unat_of_nat_lt)
qed

lemma z5_key_ok: "0 < v \<Longrightarrow> v < 5 \<Longrightarrow> key_ok z5_curve (z5_key v)"
  by (simp add: key_ok_def z5_key_scalar z5_curve_def)

lemma from_be_mod5: "from_be_bytes bs mod 5 = sum_list (map unat bs) mod 5"
proof (induction bs rule: rev_induct)
  case (snoc b bs)
  have "256 * from_be_bytes bs + unat b = 5 * (51 * from_be_bytes bs) + (from_be_bytes bs + unat b)" by simp
  then have "(256 * from_be_bytes bs + unat b) mod 5 = (from_be_bytes bs + unat b) mod 5" by (metis mod_mult_self4)
  also have "\<dots> = (from_be_bytes bs mod 5 + unat b) mod 5" by (simp only: mod_add_left_eq)
  finally show ?case using snoc by (simp add: from_be_snoc mod_add_left_eq)
qed (simp add: from_be_bytes_def)

text \<open>Every secret hashes to the point 3 here; blinded with 1 it becomes 4.\<close>

lemma z5_hash: "hash_to_curve z5_externs m = Ok (PublicKey (2 # replicate 31 0 @ [1]))"
proof -
  have n: "(65536::nat) = Suc 65535" by simp
  have "from_be_bytes (2 # replicate 31 0 @ [1]) mod 5 = 3" by (simp add: from_be_mod5 sum_list_replicate)
  then show ?thesis
    unfolding hash_to_curve_def n hash_to_curve_from.simps by (simp add: z5_externs_def pk_from_bytes_def)
qed

lemma z5_point: "to_point z5_curve (PublicKey b) = z5 (int (sum_list (map unat b)))"
proof -
  have "int (from_be_bytes b) mod 5 = int (sum_list (map unat b)) mod 5"
    using from_be_mod5[of b] by (metis of_nat_mod of_nat_numeral)
  then show ?thesis by (simp add: z5_curve_def z5_eq_iff)
qed

lemma z5_blinds: "\<exists>bm. blind_message z5_externs z5_curve m (Some (z5_key 1)) f = Ok bm \<and> to_point z5_curve (bl_blinded bm) = z5 4"
proof -
  have one: "to_point z5_curve (pubkey_of z5_externs (z5_key 1)) = z5 1"
    using pubkey_point[OF z5_ok z5_key_ok[of 1]] by (simp add: z5_key_scalar z5_curve_def z5_eq_iff)
  have y: "to_point z5_curve (PublicKey (2 # replicate 31 0 @ [1])) = z5 3" by (simp add: z5_point sum_list_replicate)
  have sum: "c_add z5_curve (z5 3) (z5 1) = z5 4" and nz: "z5 4 \<noteq> c_zero z5_curve" by (simp_all add: z5_curve_def z5_eq_iff)
  obtain b where b: "of_point z5_curve (z5 4) = Some b" using of_point_nonzero[OF z5_ok nz] by blast
  with of_pointD[OF z5_ok b] show ?thesis by (simp only: blind_message_def z5_hash res_bind.simps Let_def option.case one y sum) simp
qed

theorem blind_signature_correct_witness:
  "\<exists>bm c' c. blind_message z5_externs z5_curve [] (Some (z5_key 1)) (z5_key 1) = Ok bm
    \<and> sign_message z5_curve (z5_key 2) (bl_blinded bm) = Ok c'
    \<and> unblind_signature z5_curve c' (bl_blinder bm) (pubkey_of z5_externs (z5_key 2)) = Ok c
    \<and> verify_signature_with_privkey z5_externs z5_curve [] c (z5_key 2) = Ok True"
proof -
  obtain bm where bm: "blind_message z5_externs z5_curve [] (Some (z5_key 1)) (z5_key 1) = Ok bm" using z5_blinds by blast
  from blind_signature_correct[OF z5_ok z5_key_ok z5_key_ok bm, of 2] bm show ?thesis by auto
qed

lemma z5_scalar_slice: "0 < v \<Longrightarrow> v < 5 \<Longrightarrow> sk_from_slice z5_externs (to_be_bytes 32 v) = Some (SecretKey (to_be_bytes 32 v))"
  using from_to_be_bytes[of v 32] by (simp add: sk_from_slice_def z5_externs_def)

lemma z5_of_point: "v mod 5 \<noteq> 0 \<Longrightarrow> \<exists>p. of_point z5_curve (z5 v) = Some p"
  by (simp add: z5_curve_def z5_eq_iff)

lemma z5_of_point_reads:
  assumes "of_point z5_curve P = Some pk"
  shows "length (to_bytes pk) = 33" "pk_from_bytes z5_externs (to_bytes pk) = Some pk"
proof -
  have P: "0 \<le> Rep_z5 P" "Rep_z5 P < 5" using Rep_z5[of P] by simp_all
  have pk: "pk = PublicKey (to_be_bytes 33 (nat (Rep_z5 P)))" and nz: "Rep_z5 P \<noteq> 0"
    using assms by (auto simp: z5_curve_def z5_eq_iff split: if_splits)
  show "length (to_bytes pk) = 33" by (simp add: pk)
  have "nat (Rep_z5 P) mod 5 \<noteq> 0" using P nz by (simp add: nat_eq_iff)
  then show "pk_from_bytes z5_externs (to_bytes pk) = Some pk"
    by (simp add: pk pk_from_bytes_def z5_externs_def z5_bytes[OF P])
qed

lemma z5_one: "sk_from_slice z5_externs (hash_e z5_externs K r1 r2 a c) = Some (z5_key 1)"
proof -
  have "int (from_be_bytes (replicate 31 0 @ [1])) = 1"
    using z5_key_scalar[of 1] by (simp only: to_scalar_def z5_key_def secret_key.sel) simp
  then show ?thesis by (simp add: sk_from_slice_def hash_e_def z5_externs_def z5_key_def)
qed

lemma z5_proves:
  assumes "to_point z5_curve b' = z5 4"
  shows "\<exists>d. prove_dleq z5_externs z5_curve b' (z5_key 2) (Some (z5_key 1)) None = Ok d"
proof -
  have pts: "c_mul z5_curve 2 (z5 4) = z5 3" "c_mul z5_curve 1 (c_gen z5_curve) = z5 1" "c_mul z5_curve 1 (z5 4) = z5 4"
    by (simp_all add: z5_curve_def z5_eq_iff)
  obtain p1 p3 p4 where p: "of_point z5_curve (z5 1) = Some p1" "of_point z5_curve (z5 3) = Some p3" "of_point z5_curve (z5 4) = Some p4"
    using z5_of_point[of 1] z5_of_point[of 3] z5_of_point[of 4] by auto
  have k: "to_scalar (z5_key 1) = 1" "to_scalar (z5_key 2) = 2" using z5_key_scalar[of 1] z5_key_scalar[of 2] by simp_all
  have "scalar_bytes z5_curve (1 + 1 * 2) = to_be_bytes 32 3" by (simp add: scalar_bytes_def z5_curve_def)
  with z5_scalar_slice[of 3] show ?thesis
    unfolding prove_dleq_def option.case res_bind.simps k assms pts p ok_or_simps z5_one by simp
qed

theorem dleq_complete_witness:
  "\<exists>b' c' d. prove_dleq z5_externs z5_curve b' (z5_key 2) (Some (z5_key 1)) None = Ok d \<and> sign_message z5_curve (z5_key 2) b' = Ok c'
    \<and> verify_signature z5_externs z5_curve b' c' (bd_e d) (bd_s d) (pubkey_of z5_externs (z5_key 2)) = Ok True"
proof -
  obtain bm :: blinded and d where d: "prove_dleq z5_externs z5_curve (bl_blinded bm) (z5_key 2) (Some (z5_key 1)) None = Ok d"
    using z5_blinds z5_proves by metis
  from dleq_complete[OF z5_ok z5_key_ok d] d show ?thesis by auto
qed

theorem proof_dleq_complete_witness:
  "\<exists>c q. pd_r q = z5_key 1 \<and> verify_proof_dleq z5_externs z5_curve [] c q (pubkey_of z5_externs (z5_key 2))"
proof -
  obtain bm d where bm: "blind_message z5_externs z5_curve [] (Some (z5_key 1)) (z5_key 1) = Ok bm"
    "to_point z5_curve (bl_blinded bm) = z5 4"
    and d: "prove_dleq z5_externs z5_curve (bl_blinded bm) (z5_key 2) (Some (z5_key 1)) None = Ok d"
    using z5_blinds z5_proves by metis
  have k: "to_scalar (z5_key 1) = 1" "to_scalar (z5_key 2) = 2" using z5_key_scalar[of 1] z5_key_scalar[of 2] by simp_all
  obtain p3 where p3: "of_point z5_curve (z5 3) = Some p3" using z5_of_point[of 3] by auto
  then have c': "sign_message z5_curve (z5_key 2) (bl_blinded bm) = Ok p3"
    by (simp add: sign_message_def bm(2) k) (simp add: z5_curve_def z5_eq_iff)
  have "to_point z5_curve (pubkey_of z5_externs (z5_key 2)) = z5 2"
    using pubkey_point[OF z5_ok z5_key_ok[of 2]] k by (simp add: z5_curve_def z5_eq_iff)
  moreover have "c_sub z5_curve (z5 3) (c_mul z5_curve 1 (z5 2)) = z5 1" by (simp add: c_sub_def z5_curve_def z5_eq_iff)
  moreover obtain p1 where "of_point z5_curve (z5 1) = Some p1" using z5_of_point[of 1] by auto
  ultimately have c: "unblind_signature z5_curve p3 (z5_key 1) (pubkey_of z5_externs (z5_key 2)) = Ok p1"
    using of_pointD[OF z5_ok p3] k by (simp add: unblind_signature_def)
  have "key_ok z5_curve (z5_key 2)" "key_ok z5_curve (z5_key 1)" by (rule z5_key_ok; simp)+
  from proof_dleq_complete[OF z5_ok this bm(1) d c' c] show ?thesis by force
qed

text \<open>Signing the point 1 with the key 2 gives 2; the signature 1 is forged, and 1 is the one digest that
  lets an answer with the commitments 1 and 2 through.\<close>

lemma z5_texts: "texts_bind z5_externs z5_curve"
proof -
  have "P = Q" if "of_point z5_curve P = Some p" "of_point z5_curve Q = Some q" "to_bytes p = to_bytes q" for P Q p q
  proof -
    have "p = q" using that(3) by (cases p; cases q) simp
    then show ?thesis using of_pointD[OF z5_ok that(1)] of_pointD[OF z5_ok that(2)] by simp
  qed
  moreover have hex: "hex_encode z5_externs = (\<lambda>b. of_bytes b)" "uncompressed z5_curve = to_bytes"
    by (simp_all add: z5_externs_def demo_externs_def z5_curve_def)
  moreover have "inj (\<lambda>b. of_bytes b)" by (rule inj_on_inverseI[where g = as_bytes]) (rule as_bytes_of_bytes)
  ultimately show ?thesis
    unfolding texts_bind_def hex using z5_of_point_reads(1) by (metis length_map)
qed

theorem dleq_special_soundness_witness:
  "\<exists>m. digest_passes z5_externs z5_curve (pubkey_of z5_externs (z5_key 1)) (pubkey_of z5_externs (z5_key 1))
        (pubkey_of z5_externs (z5_key 2)) m (to_secret_bytes (z5_key 1))
     \<and> (\<forall>d. digest_passes z5_externs z5_curve (pubkey_of z5_externs (z5_key 1)) (pubkey_of z5_externs (z5_key 1))
        (pubkey_of z5_externs (z5_key 2)) m d \<longrightarrow> d = to_secret_bytes (z5_key 1))"
proof -
  let ?b = "pubkey_of z5_externs (z5_key 1)" and ?A = "pubkey_of z5_externs (z5_key 2)" and ?e = "z5_key 1" and ?s = "z5_key 3"
  have k: "to_scalar (z5_key 1) = 1" "to_scalar (z5_key 2) = 2" "to_scalar (z5_key 3) = 3"
    using z5_key_scalar[of 1] z5_key_scalar[of 2] z5_key_scalar[of 3] by simp_all
  have pk: "to_point z5_curve ?A = z5 2" "to_point z5_curve ?b = z5 1"
    using pubkey_point[OF z5_ok z5_key_ok[of 2]] pubkey_point[OF z5_ok z5_key_ok[of 1]] k by (simp_all add: z5_curve_def z5_eq_iff)
  have forged: "\<nexists>w. to_point z5_curve ?A = c_mul z5_curve w (c_gen z5_curve) \<and> to_point z5_curve ?b = c_mul z5_curve w (to_point z5_curve ?b)"
    unfolding pk by (auto simp: z5_curve_def z5_eq_iff)
  have r: "dleq_r1 z5_curve ?e ?s ?A = z5 1" "dleq_r2 z5_curve ?e ?s ?b ?b = z5 2"
    unfolding dleq_r1_def dleq_r2_def k pk by (simp_all add: c_sub_def z5_curve_def z5_eq_iff)
  obtain p1 p2 where p: "of_point z5_curve (z5 1) = Some p1" "of_point z5_curve (z5 2) = Some p2"
    using z5_of_point[of 1] z5_of_point[of 2] by auto
  have e: "sk_from_slice z5_externs (to_secret_bytes ?e) = Some ?e"
    using z5_key_scalar[of 1] by (simp add: sk_from_slice_def to_scalar_def z5_externs_def) (simp add: z5_key_def)
  obtain m where m: "dleq_text z5_externs z5_curve ?b ?b ?e ?s ?A = Some m"
    unfolding dleq_text_def r p by simp
  have "verify_dleq (z5_externs\<lparr>sha256 := (\<lambda>_. to_secret_bytes ?e)\<rparr>) z5_curve ?b ?b ?e ?s ?A = Ok True"
    unfolding verify_dleq_hashes[OF m] by simp
  with e m have "digest_passes z5_externs z5_curve ?b ?b ?A m (to_secret_bytes ?e)"
    unfolding digest_passes_def
    by (intro exI[of _ "\<lambda>_. to_secret_bytes ?e"] exI[of _ ?e] exI[of _ ?s]) simp
  with dleq_special_soundness[OF z5_ok z5_texts forged _ this] show ?thesis by blast
qed

end
