(* ===== verification/Store.thy ===== *)
theory Store
  imports Rust_Text
begin

text \<open>
  Byte-blob persistence (\<^verbatim>\<open>cashu-core-lite/src/store.rs\<close>): the trait \<^verbatim>\<open>ProofStore\<close> as a record of
  its two methods, its documented contract as a locale, and \<^verbatim>\<open>MemoryStore\<close>, which keeps it.
\<close>

datatype store_error = Unavailable | Failed string

record 's proof_store =
  ps_load :: "('s, store_error, bytes option) op"
  ps_save :: "bytes \<Rightarrow> ('s, store_error, unit) op"

text \<open>
  The contract: loading reads the blob without changing it, saving replaces it whole, and a save
  that reports an error leaves either the old blob or the new one.
\<close>

locale blob_store =
  fixes S :: "'s proof_store"
    and stored :: "'s \<Rightarrow> bytes option"
  assumes load_stored: "ps_load S s = (Ok c, t) \<Longrightarrow> c = stored s"
    and load_keeps: "ps_load S s = (l, t) \<Longrightarrow> stored t = stored s"
    and save_stored: "ps_save S b s = (Ok (), t) \<Longrightarrow> stored t = Some b"
    and save_atomic: "ps_save S b s = (r, t) \<Longrightarrow> stored t = stored s \<or> stored t = Some b"
begin

lemma load_after_save:
  assumes "ps_save S b s = (Ok (), t)" "ps_load S t = (Ok c, u)"
  shows "c = Some b" "stored u = Some b"
  using save_stored[OF assms(1)] load_stored[OF assms(2)] load_keeps[OF assms(2)] by simp_all

end

type_synonym memory_store = "bytes option"

definition memory_load :: "(memory_store, store_error, bytes option) op" where
  "memory_load s = (Ok s, s)"

definition memory_save :: "bytes \<Rightarrow> (memory_store, store_error, unit) op" where
  "memory_save b s = (Ok (), Some b)"

definition memory_store :: "memory_store proof_store" where
  "memory_store = \<lparr>ps_load = memory_load, ps_save = memory_save\<rparr>"

interpretation memory: blob_store memory_store "\<lambda>s. s"
  by unfold_locales (auto simp: memory_store_def memory_load_def memory_save_def)

end
