(* ===== verification/Wallet.thy ===== *)
theory Wallet
  imports Dhke Json Store
begin

text \<open>
  The wallet's side of the protocol: the NUT-13 derivation (\<^verbatim>\<open>nuts/nut13.rs\<close>), the transport a
  wallet talks through (\<^verbatim>\<open>transport.rs\<close>) and the transport-neutral wallet (\<^verbatim>\<open>wallet.rs\<close>).
\<close>

section \<open>Deterministic secrets and blinders\<close>

text \<open>HMAC over the hash of \<^verbatim>\<open>sha2\<close>; a key longer than a block is hashed first.\<close>

definition pad_key :: "externs \<Rightarrow> bytes \<Rightarrow> bytes" where
  "pad_key X key =
     (let k = (if length key > 64 then take 32 (sha256 X key) else key)
      in k @ replicate (64 - length k) 0)"

definition hmac_sha256 :: "externs \<Rightarrow> bytes \<Rightarrow> bytes \<Rightarrow> bytes" where
  "hmac_sha256 X key message =
     (let key_padded = pad_key X key;
          ipad = map (\<lambda>k. 0x36 XOR k) key_padded;
          opad = map (\<lambda>k. 0x5c XOR k) key_padded
      in sha256 X (opad @ sha256 X (ipad @ message)))"

text \<open>The text of the error of \<^verbatim>\<open>hex::decode\<close> is the argument \<open>hex_error\<close>.\<close>

definition hex_decode_keyset_id :: "externs \<Rightarrow> (string \<Rightarrow> string) \<Rightarrow> string \<Rightarrow> (cashu_error, bytes) res" where
  "hex_decode_keyset_id X hex_error keyset_id =
     (let trimmed = trim keyset_id in
      if trimmed = [] then Err (Protocol ''keyset ID cannot be empty'')
      else ok_or (Protocol (''invalid keyset ID hex: '' @ hex_error trimmed)) (hex_decode X trimmed))"

definition kdf_message :: "bytes \<Rightarrow> u32 \<Rightarrow> u8 \<Rightarrow> bytes" where
  "kdf_message keyset_id_bytes counter derivation_type =
     as_bytes ''Cashu_KDF_HMAC_SHA256'' @ keyset_id_bytes @ to_be_bytes 8 (unat counter) @ [derivation_type]"

definition derive_secret :: "externs \<Rightarrow> (string \<Rightarrow> string) \<Rightarrow> bytes \<Rightarrow> string \<Rightarrow> u32 \<Rightarrow> (cashu_error, bytes) res" where
  "derive_secret X hex_error seed keyset_id counter =
     res_bind (hex_decode_keyset_id X hex_error keyset_id) (\<lambda>id_bytes.
       Ok (hmac_sha256 X seed (kdf_message id_bytes counter 0x00)))"

definition derive_blinder :: "externs \<Rightarrow> (string \<Rightarrow> string) \<Rightarrow> bytes \<Rightarrow> string \<Rightarrow> u32 \<Rightarrow> (cashu_error, bytes) res" where
  "derive_blinder X hex_error seed keyset_id counter =
     res_bind (hex_decode_keyset_id X hex_error keyset_id) (\<lambda>id_bytes.
       Ok (hmac_sha256 X seed (kdf_message id_bytes counter 0x01)))"

definition keyset_id_to_u32 :: "externs \<Rightarrow> (string \<Rightarrow> string) \<Rightarrow> string \<Rightarrow> (cashu_error, u32) res" where
  "keyset_id_to_u32 X hex_error keyset_id =
     res_bind (hex_decode_keyset_id X hex_error keyset_id) (\<lambda>b.
       if length b < 4
       then Err (Protocol (''keyset ID too short for u32 conversion: '' @ show_nat (length b) @ '' bytes''))
       else Ok (word_of_nat (from_be_bytes (take 4 b))))"

section \<open>The transport\<close>

text \<open>\<^verbatim>\<open>MintClient\<close>: one method per endpoint, over the state of the transport; responses with one field are that field.\<close>

record 't mint_client =
  mc_get_info :: "('t, cashu_error, mint_info) op"
  mc_get_keys :: "('t, cashu_error, key_set list) op"
  mc_get_keysets :: "('t, cashu_error, keyset_info list) op"
  mc_post_mint_quote :: "mint_quote_request \<Rightarrow> ('t, cashu_error, mint_quote_response) op"
  mc_get_mint_quote :: "string \<Rightarrow> ('t, cashu_error, mint_quote_response) op"
  mc_post_mint :: "mint_request \<Rightarrow> ('t, cashu_error, blind_signature list) op"
  mc_post_melt_quote :: "melt_quote_request \<Rightarrow> ('t, cashu_error, melt_quote_response) op"
  mc_get_melt_quote :: "string \<Rightarrow> ('t, cashu_error, melt_quote_response) op"
  mc_post_melt :: "melt_request \<Rightarrow> ('t, cashu_error, melt_response) op"
  mc_post_swap :: "swap_request \<Rightarrow> ('t, cashu_error, blind_signature list) op"
  mc_post_check_state :: "public_key list \<Rightarrow> ('t, cashu_error, proof_state list) op"
  mc_post_restore :: "public_key list \<Rightarrow> ('t, cashu_error, restore_output list) op"

section \<open>The wallet\<close>

record pending_output =
  po_secret :: bytes
  po_blinder :: secret_key
  po_amount :: u64

record 't wallet =
  wl_mint_url :: string
  wl_transport :: 't

definition wallet_new :: "string \<Rightarrow> 't \<Rightarrow> 't wallet" where
  "wallet_new mint_url transport = \<lparr>wl_mint_url = mint_url, wl_transport = transport\<rparr>"

definition via :: "('t, 'e, 'a) op \<Rightarrow> ('t wallet, 'e, 'a) op" where
  "via m = (\<lambda>w. case m (wl_transport w) of (r, t) \<Rightarrow> (r, w\<lparr>wl_transport := t\<rparr>))"

definition wallet_get_info :: "'t mint_client \<Rightarrow> ('t wallet, cashu_error, mint_info) op" where
  "wallet_get_info M = via (mc_get_info M)"

definition wallet_get_keys :: "'t mint_client \<Rightarrow> ('t wallet, cashu_error, key_set list) op" where
  "wallet_get_keys M = via (mc_get_keys M)"

definition wallet_get_keysets :: "'t mint_client \<Rightarrow> ('t wallet, cashu_error, keyset_info list) op" where
  "wallet_get_keysets M = via (mc_get_keysets M)"

definition request_mint_quote :: "'t mint_client \<Rightarrow> u64 \<Rightarrow> string \<Rightarrow> ('t wallet, cashu_error, mint_quote_response) op" where
  "request_mint_quote M amount unit = via (mc_post_mint_quote M \<lparr>mqr_amount = amount, mqr_unit = unit, mqr_pubkey = None\<rparr>)"

definition check_mint_quote :: "'t mint_client \<Rightarrow> string \<Rightarrow> ('t wallet, cashu_error, mint_quote_response) op" where
  "check_mint_quote M quote_id = via (mc_get_mint_quote M quote_id)"

definition request_melt_quote :: "'t mint_client \<Rightarrow> string \<Rightarrow> string \<Rightarrow> ('t wallet, cashu_error, melt_quote_response) op" where
  "request_melt_quote M invoice unit = via (mc_post_melt_quote M \<lparr>lqr_request = invoice, lqr_unit = unit, lqr_amount = None\<rparr>)"

definition check_melt_quote :: "'t mint_client \<Rightarrow> string \<Rightarrow> ('t wallet, cashu_error, melt_quote_response) op" where
  "check_melt_quote M quote_id = via (mc_get_melt_quote M quote_id)"

definition wallet_melt :: "'t mint_client \<Rightarrow> string \<Rightarrow> nut_proof list \<Rightarrow> ('t wallet, cashu_error, melt_response) op" where
  "wallet_melt M quote_id proofs = via (mc_post_melt M \<lparr>lr_quote = quote_id, lr_inputs = proofs, lr_outputs = None\<rparr>)"

definition crypto_err :: "string \<Rightarrow> (crypto_error, 'a) res \<Rightarrow> (cashu_error, 'a) res" where
  "crypto_err msg r = (case r of Ok x \<Rightarrow> Ok x | Err _ \<Rightarrow> Err (Crypto msg) | Panic \<Rightarrow> Panic)"

definition check_state :: "externs \<Rightarrow> 't mint_client \<Rightarrow> bytes list \<Rightarrow> ('t wallet, cashu_error, proof_state list) op" where
  "check_state X M secrets =
     bind (lift_res (map_res (\<lambda>secret. crypto_err ''hash_to_curve failed'' (hash_to_curve X secret)) secrets)) (\<lambda>ys.
       via (mc_post_check_state M ys))"

text \<open>
  One blinded output of an amount, from the text of its secret and the bytes of its blinder; the
  message for the mint and the record for unblinding.
\<close>

definition blinded_output ::
  "externs \<Rightarrow> 'p curve \<Rightarrow> string \<Rightarrow> u64 \<Rightarrow> bytes \<Rightarrow> bytes \<Rightarrow> (cashu_error, blinded_message \<times> pending_output) res" where
  "blinded_output X K keyset_id amount secret_bytes blinder_bytes =
     (let secret_hex = hex_encode X secret_bytes in
      res_bind (ok_or (Crypto ''bad blinder scalar'') (sk_from_slice X blinder_bytes)) (\<lambda>blinder.
      res_bind (crypto_err ''blind_message failed'' (blind_message X K (as_bytes secret_hex) (Some blinder) blinder)) (\<lambda>bm.
        Ok (\<lparr>bm_amount = amount, bm_id = keyset_id, bm_b = bl_blinded bm\<rparr>,
            \<lparr>po_secret = as_bytes secret_hex, po_blinder = bl_blinder bm, po_amount = amount\<rparr>))))"

text \<open>The generator is a function filling 32 bytes over the state of the generator.\<close>

fun create_blinded_outputs ::
  "externs \<Rightarrow> 'p curve \<Rightarrow> ('r \<Rightarrow> bytes \<times> 'r) \<Rightarrow> u64 list \<Rightarrow> string
     \<Rightarrow> ('r, cashu_error, blinded_message list \<times> pending_output list) op" where
  "create_blinded_outputs X K fill [] keyset_id = ret ([], [])"
| "create_blinded_outputs X K fill (amount # amounts) keyset_id =
     (\<lambda>g. case fill g of (secret_bytes, g1) \<Rightarrow> (case fill g1 of (blinder_bytes, g2) \<Rightarrow>
        bind (lift_res (blinded_output X K keyset_id amount secret_bytes blinder_bytes)) (\<lambda>(m, p).
        bind (create_blinded_outputs X K fill amounts keyset_id) (\<lambda>(ms, ps).
          ret (m # ms, p # ps))) g2))"

definition signed_proof :: "u64 \<Rightarrow> string \<Rightarrow> public_key \<Rightarrow> secret_key \<Rightarrow> blind_signature \<Rightarrow> nut_proof" where
  "signed_proof amount secret c blinder sig =
     \<lparr>pf_amount = amount, pf_id = bs_id sig, pf_secret = secret, pf_c = c,
      pf_dleq = map_option (\<lambda>d. \<lparr>pd_e = bd_e d, pd_s = bd_s d, pd_r = blinder\<rparr>) (bs_dleq sig),
      pf_witness = None\<rparr>"

definition unblind_with ::
  "'p curve \<Rightarrow> key_set \<Rightarrow> string \<Rightarrow> u64 \<Rightarrow> secret_key \<Rightarrow> blind_signature \<Rightarrow> (cashu_error, public_key) res" where
  "unblind_with K mint_keys msg amount blinder sig =
     res_bind (ok_or KeysetNotFound (find (\<lambda>kp. kp_amount kp = amount) (ks_keys mint_keys))) (\<lambda>kp.
       crypto_err msg (unblind_signature K (bs_c sig) blinder (kp_pubkey kp)))"

definition unblind_one ::
  "'p curve \<Rightarrow> key_set \<Rightarrow> string \<Rightarrow> u64 \<Rightarrow> pending_output \<Rightarrow> blind_signature \<Rightarrow> (cashu_error, nut_proof) res" where
  "unblind_one K mint_keys msg amount p sig =
     res_bind (unblind_with K mint_keys msg amount (po_blinder p) sig) (\<lambda>c.
       if utf8_valid (of_bytes (po_secret p)) then Ok (signed_proof amount (of_bytes (po_secret p)) c (po_blinder p) sig)
       else Err (Crypto ''invalid secret string''))"

definition unblind_to_proofs ::
  "'p curve \<Rightarrow> pending_output list \<Rightarrow> blind_signature list \<Rightarrow> key_set \<Rightarrow> (cashu_error, nut_proof list) res" where
  "unblind_to_proofs K pending signatures mint_keys =
     (if length pending \<noteq> length signatures then Err (Protocol ''signature count mismatch'')
      else map_res (\<lambda>(p, sig). unblind_one K mint_keys ''unblind failed'' (po_amount p) p sig)
             (zip pending signatures))"

definition on_wallet :: "('w, 'e, 'a) op \<Rightarrow> ('w \<times> 'r, 'e, 'a) op" where
  "on_wallet m = (\<lambda>(w, g). case m w of (r, w') \<Rightarrow> (r, (w', g)))"

definition on_rng :: "('r, 'e, 'a) op \<Rightarrow> ('w \<times> 'r, 'e, 'a) op" where
  "on_rng m = (\<lambda>(w, g). case m g of (r, g') \<Rightarrow> (r, (w, g')))"

definition mint_tokens ::
  "externs \<Rightarrow> 'p curve \<Rightarrow> 't mint_client \<Rightarrow> ('r \<Rightarrow> bytes \<times> 'r) \<Rightarrow> string \<Rightarrow> u64 \<Rightarrow> string \<Rightarrow> key_set
     \<Rightarrow> ('t wallet \<times> 'r, cashu_error, nut_proof list) op" where
  "mint_tokens X K M fill quote_id amount keyset_id mint_keys =
     bind (on_rng (create_blinded_outputs X K fill (decompose_amount amount) keyset_id)) (\<lambda>(messages, pending).
     bind (on_wallet (via (mc_post_mint M \<lparr>mr_quote = quote_id, mr_outputs = messages, mr_signature = None\<rparr>))) (\<lambda>signatures.
       lift_res (unblind_to_proofs K pending signatures mint_keys)))"

definition swap ::
  "externs \<Rightarrow> 'p curve \<Rightarrow> 't mint_client \<Rightarrow> ('r \<Rightarrow> bytes \<times> 'r) \<Rightarrow> nut_proof list \<Rightarrow> u64 list \<Rightarrow> string \<Rightarrow> key_set
     \<Rightarrow> ('t wallet \<times> 'r, cashu_error, nut_proof list) op" where
  "swap X K M fill proofs new_amounts keyset_id mint_keys =
     bind (on_rng (create_blinded_outputs X K fill new_amounts keyset_id)) (\<lambda>(messages, pending).
     bind (on_wallet (via (mc_post_swap M \<lparr>sw_inputs = proofs, sw_outputs = messages\<rparr>))) (\<lambda>signatures.
       lift_res (unblind_to_proofs K pending signatures mint_keys)))"

end
