(* ===== verification/Unlock.thy ===== *)
theory Unlock
  imports Spending Wallet Sample
begin

text \<open>
  The wallet's side of spending conditions (\<^verbatim>\<open>micronuts-wallet-core/src/conditions.rs\<close>): the P2PK
  identity derived from the seed and the witness that unlocks a locked proof. The main fact ties it
  to the mint's engine of \<^verbatim>\<open>Spending\<close>: inputs that carry the witnesses built here are accepted.
\<close>

section \<open>Identity\<close>

definition IDENTITY_LABEL :: bytes where
  "IDENTITY_LABEL = as_bytes ''micronuts/nut11/p2pk-identity/v1''"

datatype condition_error =
    SigAllUnsupported
  | MultisigUnsupported u64
  | PreimageMissing
  | PreimageMismatch
  | NotOurLock
  | MalformedSecret
  | DerivationFailed
  | SigningFailed

fun condition_error_text :: "condition_error \<Rightarrow> string" where
  "condition_error_text SigAllUnsupported = ''SIG_ALL receive is not supported yet''"
| "condition_error_text (MultisigUnsupported required) =
     ''lock requires '' @ show_u64 required @ '' signatures; the wallet holds one identity key''"
| "condition_error_text PreimageMissing = ''HTLC lock needs a preimage to receive''"
| "condition_error_text PreimageMismatch = ''preimage does not hash to the HTLC lock''"
| "condition_error_text NotOurLock = ''locked to a key this wallet does not hold''"
| "condition_error_text MalformedSecret = ''malformed spending condition''"
| "condition_error_text DerivationFailed = ''identity derivation failed''"
| "condition_error_text SigningFailed = ''schnorr signing failed''"

text \<open>
  The functions of \<^verbatim>\<open>k256::schnorr\<close>: which scalars make a signing key, the x-coordinate and the
  compressed encoding of its verifying key, and signing of a digest with auxiliary randomness.
\<close>

record schnorr_signer =
  sg_key_ok :: "bytes \<Rightarrow> bool"
  sg_verifying_x :: "secret_key \<Rightarrow> bytes"
  sg_compressed :: "secret_key \<Rightarrow> bytes"
  sg_sign_prehash :: "secret_key \<Rightarrow> bytes \<Rightarrow> bytes \<Rightarrow> bytes option"

text \<open>The copy of HMAC in \<^verbatim>\<open>conditions.rs\<close>, which fills a block of zeros.\<close>

definition core_hmac_sha256 :: "externs \<Rightarrow> bytes \<Rightarrow> bytes \<Rightarrow> bytes" where
  "core_hmac_sha256 X key message =
     (let zeros = replicate 64 0;
          key_block = (if length key > 64 then take 32 (sha256 X key) @ drop (length (take 32 (sha256 X key))) zeros
                       else key @ drop (length key) zeros);
          inner_pad = map (\<lambda>b. b XOR 0x36) key_block;
          outer_pad = map (\<lambda>b. b XOR 0x5c) key_block
      in sha256 X (outer_pad @ sha256 X (inner_pad @ message)))"

definition derive_identity :: "externs \<Rightarrow> schnorr_signer \<Rightarrow> bytes \<Rightarrow> (condition_error, secret_key) res" where
  "derive_identity X G seed =
     (let scalar = core_hmac_sha256 X seed IDENTITY_LABEL
      in if sg_key_ok G scalar then Ok (SecretKey scalar) else Err DerivationFailed)"

definition p2pk_pubkey_hex :: "externs \<Rightarrow> schnorr_signer \<Rightarrow> secret_key \<Rightarrow> string" where
  "p2pk_pubkey_hex X G identity = hex_encode X (sg_compressed G identity)"

section \<open>Witnesses\<close>

record unlock_context =
  uc_identity :: secret_key
  uc_preimage :: "string option"
  uc_now :: u64

definition sign_identity :: "externs \<Rightarrow> schnorr_signer \<Rightarrow> secret_key \<Rightarrow> string \<Rightarrow> (condition_error, string) res" where
  "sign_identity X G identity secret =
     res_bind (ok_or SigningFailed (sg_sign_prehash G identity (sha256 X (as_bytes secret)) (replicate 32 0))) (\<lambda>signature.
       Ok (hex_encode X signature))"

definition anyone_requirements :: "spending_requirements \<Rightarrow> bool" where
  "anyone_requirements r = (case sr_refund_path r of None \<Rightarrow> False | Some refund \<Rightarrow> is_anyone_can_spend refund)"

definition path_holds_identity :: "schnorr_signer \<Rightarrow> public_key list \<Rightarrow> secret_key \<Rightarrow> bool" where
  "path_holds_identity G path identity = list_ex (\<lambda>key. take 32 (drop 1 (to_bytes key)) = sg_verifying_x G identity) path"

definition signed_p2pk :: "externs \<Rightarrow> schnorr_signer \<Rightarrow> secret_key \<Rightarrow> string \<Rightarrow> (condition_error, string option) res" where
  "signed_p2pk X G identity raw =
     res_bind (sign_identity X G identity raw) (\<lambda>sg. Ok (Some (p2pk_witness_to_json \<lparr>pw_signatures = [sg]\<rparr>)))"

definition p2pk_witness_for ::
  "externs \<Rightarrow> schnorr_signer \<Rightarrow> string \<Rightarrow> nut10_secret \<Rightarrow> unlock_context \<Rightarrow> (condition_error, string option) res" where
  "p2pk_witness_for X G raw secret ctx =
     res_bind (map_err (\<lambda>_. MalformedSecret) (p2pk_from_secret X secret)) (\<lambda>conditions.
       if pc_sigflag conditions = SigAll then Err SigAllUnsupported
       else
         (let requirements = p2pk_requirements_at conditions (uc_now ctx) in
          if anyone_requirements requirements then Ok None
          else if path_holds_identity G (sr_pubkeys requirements) (uc_identity ctx) then
            (if sr_required_sigs requirements = 0 then Ok None
             else if sr_required_sigs requirements = 1 then signed_p2pk X G (uc_identity ctx) raw
             else Err (MultisigUnsupported (sr_required_sigs requirements)))
          else
            (case sr_refund_path requirements of
               None \<Rightarrow> Err NotOurLock
             | Some refund \<Rightarrow>
                 if rp_required_sigs refund = 1 \<and> path_holds_identity G (rp_pubkeys refund) (uc_identity ctx)
                 then signed_p2pk X G (uc_identity ctx) raw
                 else if rp_required_sigs refund > 1 \<and> path_holds_identity G (rp_pubkeys refund) (uc_identity ctx)
                 then Err (MultisigUnsupported (rp_required_sigs refund))
                 else Err NotOurLock)))"

definition htlc_witness_for ::
  "externs \<Rightarrow> schnorr_signer \<Rightarrow> string \<Rightarrow> nut10_secret \<Rightarrow> unlock_context \<Rightarrow> (condition_error, string option) res" where
  "htlc_witness_for X G raw secret ctx =
     res_bind (map_err (\<lambda>_. MalformedSecret) (htlc_from_secret X secret)) (\<lambda>conditions.
       if hc_sigflag conditions = SigAll then Err SigAllUnsupported
       else
         (let requirements = htlc_requirements_at conditions (uc_now ctx) in
          case uc_preimage ctx of
            None \<Rightarrow> if anyone_requirements requirements then Ok None else Err PreimageMissing
          | Some preimage \<Rightarrow>
              if \<not> matches_preimage X conditions preimage then Err PreimageMismatch
              else
                res_bind
                  (if sr_required_sigs requirements = 0 then Ok None
                   else if sr_required_sigs requirements = 1 then
                     (if path_holds_identity G (sr_pubkeys requirements) (uc_identity ctx)
                      then res_bind (sign_identity X G (uc_identity ctx) raw) (\<lambda>sg. Ok (Some [sg]))
                      else Err NotOurLock)
                   else Err (MultisigUnsupported (sr_required_sigs requirements))) (\<lambda>signatures.
                  Ok (Some (htlc_witness_to_json \<lparr>hw_preimage = Some preimage, hw_signatures = signatures\<rparr>)))))"

definition witness_for_secret ::
  "externs \<Rightarrow> schnorr_signer \<Rightarrow> string \<Rightarrow> unlock_context \<Rightarrow> (condition_error, string option) res" where
  "witness_for_secret X G secret ctx =
     (case secret_parse secret of
        None \<Rightarrow> Ok None
      | Some parsed \<Rightarrow>
          (case se_kind parsed of
             KindP2PK \<Rightarrow> p2pk_witness_for X G secret parsed ctx
           | KindHTLC \<Rightarrow> htlc_witness_for X G secret parsed ctx))"

lemma core_hmac_is_nut13: "core_hmac_sha256 X key message = hmac_sha256 X key message"
proof -
  have pad: "drop (length xs) (replicate 64 0) = (replicate (64 - length xs) 0 :: bytes)" for xs :: bytes by simp
  have flip: "(\<lambda>b. b XOR c) = (\<lambda>b. c XOR b)" for c :: u8 by (simp add: fun_eq_iff xor.commute)
  show ?thesis
    unfolding core_hmac_sha256_def hmac_sha256_def pad_key_def Let_def pad flip by simp
qed

section \<open>Accepted by the mint\<close>

text \<open>
  What the crates promise: signing keys and signatures as BIP-340 has them (a signature over the
  SHA-256 digest verifies under every key with the x-coordinate of the signer), texts of signatures
  are read back, and hex digits are plain text.
\<close>

definition schnorr_contract :: "externs \<Rightarrow> schnorr_signer \<Rightarrow> bool" where
  "schnorr_contract X G \<longleftrightarrow>
     (\<forall>sk msg aux sg k. sg_sign_prehash G sk (sha256 X msg) aux = Some sg \<longrightarrow>
        drop 1 (to_bytes k) = sg_verifying_x G sk \<longrightarrow> schnorr_verify X k msg sg)
     \<and> (\<forall>sk d aux sg. sg_sign_prehash G sk d aux = Some sg \<longrightarrow> schnorr_from_str X (hex_encode X sg) = Some sg)
     \<and> (\<forall>b. wire_text (hex_encode X b))
     \<and> (\<forall>s b. hex_decode X s = Some b \<longrightarrow> wire_text s)"

lemma sign_identity_facts:
  assumes "schnorr_contract X G" "sign_identity X G sk secret = Ok h"
  shows "wire_text h"
    "\<exists>sg. schnorr_from_str X h = Some sg \<and>
       (\<forall>k. drop 1 (to_bytes k) = sg_verifying_x G sk \<longrightarrow> schnorr_verify X k (as_bytes secret) sg)"
  using assms unfolding schnorr_contract_def sign_identity_def by (fastforce simp: res_bind_Ok_iff)+

text \<open>One signature over distinct keys: every key counts at most once, so counting never fails.\<close>

lemma verify_keys_one:
  "distinct (x_coordinates ks @ seen) \<Longrightarrow> \<exists>seen'. verify_keys X msg ks [sg] seen = Some seen' \<and>
     length seen' = length seen + length (filter (\<lambda>k. schnorr_verify X k msg sg) ks)"
proof (induction ks arbitrary: seen)
  case (Cons k ks)
  show ?case
  proof (cases "schnorr_verify X k msg sg")
    case True
    from Cons.prems have "distinct (x_coordinates ks @ drop 1 (to_bytes k) # seen)" by (auto simp: x_coordinates_def)
    from Cons.IH[OF this] Cons.prems True show ?thesis by (auto simp: x_coordinates_def)
  next
    case False
    from Cons.prems have "distinct (x_coordinates ks @ seen)" by (auto simp: x_coordinates_def)
    from Cons.IH[OF this] False show ?thesis by auto
  qed
qed simp

lemma count_one:
  assumes "distinct (x_coordinates ks)" "schnorr_from_str X h = Some sg" "length ks < 2 ^ 64"
  shows "\<exists>n. count_valid_signatures X msg ks [h] = Some n
    \<and> ((\<exists>k \<in> set ks. schnorr_verify X k msg sg) \<longrightarrow> 1 \<le> n)"
proof -
  let ?good = "filter (\<lambda>k. schnorr_verify X k msg sg) ks"
  from verify_keys_one[of ks "[]" X msg sg] assms(1) obtain seen where
    seen: "verify_keys X msg ks [sg] [] = Some seen" "length seen = length ?good" by auto
  have "1 \<le> (word_of_nat (length ?good) :: u64)" if "\<exists>k \<in> set ks. schnorr_verify X k msg sg"
  proof -
    from that have "0 < length ?good" by (auto simp: filter_empty_conv)
    moreover have "length ?good < 2 ^ 64" using assms(3) length_filter_le le_less_trans by blast
    ultimately show ?thesis by (simp add: word_le_nat_alt unat_of_nat_lt Suc_le_eq)
  qed
  with seen assms(2) show ?thesis by (simp add: count_valid_signatures_def)
qed

text \<open>
  The keys a parsed condition lists are 33 bytes each; a row of its tags has fewer than \<open>2\<^sup>6\<^sup>3\<close>
  entries, as every vector has, so the count of valid signatures does not wrap.
\<close>

definition rows_fit :: "nut10_secret \<Rightarrow> bool" where
  "rows_fit s \<longleftrightarrow> (\<forall>rows. se_tags s = Some rows \<longrightarrow> (\<forall>row \<in> set rows. length row < 2 ^ 63))"

definition keys_fit :: "public_key list \<Rightarrow> bool" where
  "keys_fit ks \<longleftrightarrow> length ks < 2 ^ 64 - 1 \<and> (\<forall>k \<in> set ks. length (to_bytes k) = 33)"

lemma compressed_length: "parse_compressed_pubkey X v = Some k \<Longrightarrow> length (to_bytes k) = 33"
  by (auto simp: parse_compressed_pubkey_def pk_from_bytes_def split: option.splits if_splits)

lemma pubkey_row_fits: "parse_pubkey_row X row = Ok ks \<Longrightarrow> length row < 2 ^ 63 \<Longrightarrow> keys_fit ks"
proof -
  assume row: "parse_pubkey_row X row = Ok ks" "length row < 2 ^ 63"
  then have all: "list_all2 (\<lambda>v k. parse_compressed_pubkey X v = Some k) (drop 1 row) ks"
    by (simp add: parse_pubkey_row_def map_res_Ok_iff)
  then have "length ks = length row - 1" by (auto dest: list_all2_lengthD)
  moreover from all have "\<forall>k \<in> set ks. length (to_bytes k) = 33"
    by (induction rule: list_all2_induct) (auto dest: compressed_length)
  ultimately show "keys_fit ks" using row(2) by (simp add: keys_fit_def)
qed

lemma tag_loop_fits:
  "tag_loop X saw rows t = Ok t' \<Longrightarrow> keys_fit (ct_pubkeys t) \<Longrightarrow> keys_fit (ct_refund_keys t) \<Longrightarrow>
     \<forall>row \<in> set rows. length row < 2 ^ 63 \<Longrightarrow> keys_fit (ct_pubkeys t') \<and> keys_fit (ct_refund_keys t')"
proof (induction rows arbitrary: saw t)
  case (Cons row rows)
  then obtain key r u where row: "row = key # r" "set_tag X key row t = Ok u"
    and rec: "tag_loop X (if key \<in> set known_tags then key # saw else saw) rows u = Ok t'"
    by (auto split: list.splits if_splits)
  have "keys_fit (ct_pubkeys u) \<and> keys_fit (ct_refund_keys u)"
    using row(2) Cons.prems(2-4) by (auto simp: set_tag_def intro: pubkey_row_fits split: if_splits)
  with Cons.IH[OF rec] Cons.prems(4) show ?case by simp
qed simp

lemma condition_tags_fit:
  assumes "parse_condition_tags X (case se_tags s of None \<Rightarrow> [] | Some ts \<Rightarrow> ts) = Ok t" "rows_fit s"
  shows "keys_fit (ct_pubkeys t)" "keys_fit (ct_refund_keys t)"
proof -
  from assms(1) obtain u where "tag_loop X [] (case se_tags s of None \<Rightarrow> [] | Some ts \<Rightarrow> ts) condition_tags_default = Ok u" "t = u"
    by (auto simp: parse_condition_tags_def Let_def split: option.splits if_splits)
  moreover have "keys_fit (ct_pubkeys condition_tags_default)" "keys_fit (ct_refund_keys condition_tags_default)"
    by (simp_all add: keys_fit_def condition_tags_default_def)
  moreover have "\<forall>row \<in> set (case se_tags s of None \<Rightarrow> [] | Some ts \<Rightarrow> ts). length row < 2 ^ 63"
    using assms(2) by (cases "se_tags s") (auto simp: rows_fit_def)
  ultimately show "keys_fit (ct_pubkeys t)" "keys_fit (ct_refund_keys t)" using tag_loop_fits by blast+
qed

definition requirements_fit :: "spending_requirements \<Rightarrow> bool" where
  "requirements_fit r \<longleftrightarrow> (\<forall>ks \<in> insert (sr_pubkeys r) (rp_pubkeys ` set_option (sr_refund_path r)).
     length ks < 2 ^ 64 \<and> (\<forall>k \<in> set ks. length (to_bytes k) = 33))"

lemma p2pk_requirements_fit:
  assumes "p2pk_from_secret X s = Ok c" "rows_fit s"
  shows "requirements_fit (p2pk_requirements_at c now)"
proof -
  from assms(1) have "length (to_bytes (pc_data_pubkey c)) = 33"
    by (auto simp: p2pk_from_secret_def Let_def dest: compressed_length split: if_splits)
  moreover from p2pk_from_secret_Ok[OF assms(1)] condition_tags_fit[OF _ assms(2)]
  have "keys_fit (pc_pubkeys c)" "keys_fit (pc_refund_keys c)" by metis+
  ultimately show ?thesis
    by (auto simp: requirements_fit_def p2pk_requirements_at_def keys_fit_def signing_pubkeys_def refund_anyone_def)
qed

lemma htlc_requirements_fit:
  assumes "htlc_from_secret X s = Ok c" "rows_fit s"
  shows "requirements_fit (htlc_requirements_at c now)"
proof -
  from htlc_from_secret_Ok[OF assms(1)] condition_tags_fit[OF _ assms(2)]
  have "keys_fit (hc_pubkeys c)" "keys_fit (hc_refund_keys c)" by metis+
  then show ?thesis by (auto simp: requirements_fit_def htlc_requirements_at_def keys_fit_def refund_anyone_def)
qed

lemma identity_counts:
  assumes "schnorr_contract X G" "sign_identity X G sk secret = Ok h" "path_holds_identity G ks sk"
    and "distinct (x_coordinates ks)" "length ks < 2 ^ 64" "\<forall>k \<in> set ks. length (to_bytes k) = 33"
  shows "\<exists>n. count_valid_signatures X (as_bytes secret) ks [h] = Some n \<and> 1 \<le> n"
proof -
  from sign_identity_facts(2)[OF assms(1,2)] obtain sg where sg: "schnorr_from_str X h = Some sg"
    "\<And>k. drop 1 (to_bytes k) = sg_verifying_x G sk \<Longrightarrow> schnorr_verify X k (as_bytes secret) sg" by blast
  from assms(3) obtain k where "k \<in> set ks" "take 32 (drop 1 (to_bytes k)) = sg_verifying_x G sk"
    by (auto simp: path_holds_identity_def list_ex_iff)
  with assms(6) have "\<exists>k \<in> set ks. schnorr_verify X k (as_bytes secret) sg" by (intro bexI[of _ k] sg(2)) auto
  with count_one[OF assms(4) sg(1) assms(5)] show ?thesis by blast
qed

lemma p2pk_accepted:
  assumes "schnorr_contract X G" "p2pk_from_secret X s = Ok c"
    and "p2pk_witness_for X G (pf_secret p) s ctx = Ok (pf_witness p)"
    and "rows_fit s"
  shows "pc_sigflag c \<noteq> SigAll \<and> verify_lock X (uc_now ctx) (as_bytes (pf_secret p)) p (LockP2pk p s c) = Ok ()"
proof -
  let ?r = "p2pk_requirements_at c (uc_now ctx)" and ?raw = "pf_secret p" and ?id = "uc_identity ctx"
  note req = p2pk_requirements_ok[OF assms(2), of "uc_now ctx"] p2pk_requirements_fit[OF assms(2,4), of "uc_now ctx"]
  have nz: "sr_required_sigs ?r \<noteq> 0" using req(2) by (metis not_one_le_zero unsigned_0)
  from assms(2,3) have flag: "pc_sigflag c \<noteq> SigAll"
    by (auto simp: p2pk_witness_for_def split: if_splits)
  have "verify_lock X (uc_now ctx) (as_bytes ?raw) p (LockP2pk p s c) = Ok ()"
  proof (cases "anyone_requirements ?r")
    case True
    then show ?thesis by (auto simp: anyone_requirements_def Let_def split: option.splits)
  next
    case False
    with assms(2,3) flag nz obtain h where h: "sign_identity X G ?id ?raw = Ok h"
      "pf_witness p = Some (p2pk_witness_to_json \<lparr>pw_signatures = [h]\<rparr>)"
      and way: "path_holds_identity G (sr_pubkeys ?r) ?id \<and> sr_required_sigs ?r = 1
        \<or> (\<exists>q. sr_refund_path ?r = Some q \<and> rp_required_sigs q = 1 \<and> path_holds_identity G (rp_pubkeys q) ?id)"
      by (auto simp: p2pk_witness_for_def signed_p2pk_def Let_def split: if_splits option.splits)
    have w: "p2pk_witness_of p = Some \<lparr>pw_signatures = [h]\<rparr>"
      using h p2pk_witness_roundtrip[of "\<lparr>pw_signatures = [h]\<rparr>"] sign_identity_facts(1)[OF assms(1) h(1)]
      by (simp add: p2pk_witness_of_def)
    from way have "verify_p2pk_pathways X (as_bytes ?raw) ?r [h] = Ok ()"
    proof (elim disjE exE conjE)
      assume "path_holds_identity G (sr_pubkeys ?r) ?id" "sr_required_sigs ?r = 1"
      with identity_counts[OF assms(1) h(1)] req show ?thesis
        by (fastforce simp: requirements_ok_def reachable_threshold_def requirements_fit_def verify_p2pk_pathways_def)
    next
      fix q assume q: "sr_refund_path ?r = Some q" "rp_required_sigs q = 1" "path_holds_identity G (rp_pubkeys q) ?id"
      with identity_counts[OF assms(1) h(1) q(3)] req show ?thesis
        by (fastforce simp: requirements_ok_def reachable_threshold_def requirements_fit_def verify_p2pk_pathways_def)
    qed
    with w False show ?thesis by (auto simp: anyone_requirements_def Let_def split: option.splits)
  qed
  with flag show ?thesis ..
qed

lemma htlc_accepted:
  assumes "schnorr_contract X G" "htlc_from_secret X s = Ok c"
    and "htlc_witness_for X G (pf_secret p) s ctx = Ok (pf_witness p)" "rows_fit s"
  shows "hc_sigflag c \<noteq> SigAll \<and> verify_lock X (uc_now ctx) (as_bytes (pf_secret p)) p (LockHtlc p s c) = Ok ()"
proof -
  let ?r = "htlc_requirements_at c (uc_now ctx)" and ?raw = "pf_secret p" and ?id = "uc_identity ctx"
  note req = htlc_requirements_ok(1)[OF assms(2), of "uc_now ctx"] htlc_requirements_fit[OF assms(2,4), of "uc_now ctx"]
  from assms(2,3) have flag: "hc_sigflag c \<noteq> SigAll"
    by (auto simp: htlc_witness_for_def split: if_splits)
  have "verify_htlc_pathways X (as_bytes ?raw) ?r (htlc_witness_of p) (preimage_valid X c (htlc_witness_of p)) = Ok ()"
  proof (cases "uc_preimage ctx")
    case None
    with assms(2,3) flag have "anyone_requirements ?r" "pf_witness p = None"
      by (auto simp: htlc_witness_for_def split: if_splits)
    then show ?thesis
      by (auto simp: anyone_requirements_def htlc_witness_of_def preimage_valid_def verify_htlc_pathways_def split: option.splits)
  next
    case (Some preimage)
    with assms(2,3) flag obtain sigs where m: "matches_preimage X c preimage"
      and w: "pf_witness p = Some (htlc_witness_to_json \<lparr>hw_preimage = Some preimage, hw_signatures = sigs\<rparr>)"
      and way: "sr_required_sigs ?r = 0 \<and> sigs = None \<or> sr_required_sigs ?r = 1 \<and> path_holds_identity G (sr_pubkeys ?r) ?id
        \<and> (\<exists>h. sigs = Some [h] \<and> sign_identity X G ?id ?raw = Ok h)"
      by (auto simp: htlc_witness_for_def Let_def split: if_splits)
    from m assms(1) have "wire_text preimage"
      by (auto simp: matches_preimage_def decode_32_bytes_def schnorr_contract_def split: option.splits)
    moreover have "\<forall>s \<in> (\<Union>ss \<in> set_option sigs. set ss). wire_text s"
      using way sign_identity_facts(1)[OF assms(1)] by auto
    ultimately have read: "htlc_witness_of p = Some \<lparr>hw_preimage = Some preimage, hw_signatures = sigs\<rparr>"
      using w htlc_witness_roundtrip[of "\<lparr>hw_preimage = Some preimage, hw_signatures = sigs\<rparr>"]
      by (simp add: htlc_witness_of_def)
    from way show ?thesis
    proof (elim disjE exE conjE)
      fix h assume h: "sr_required_sigs ?r = 1" "path_holds_identity G (sr_pubkeys ?r) ?id" "sigs = Some [h]" "sign_identity X G ?id ?raw = Ok h"
      with identity_counts[OF assms(1) h(4,2)] req read m show ?thesis
        by (fastforce simp: requirements_ok_def reachable_threshold_def requirements_fit_def verify_htlc_pathways_def
            verify_witness_signatures_def witness_signatures_def preimage_valid_def)
    qed (simp add: read m verify_htlc_pathways_def preimage_valid_def)
  qed
  with flag show ?thesis by simp
qed

lemma inputs_accepted:
  assumes "schnorr_contract X G" "\<forall>p \<in> set inputs. witness_for_secret X G (pf_secret p) ctx = Ok (pf_witness p)"
    and "\<forall>p \<in> set inputs. \<forall>s. secret_parse (pf_secret p) = Some s \<longrightarrow> rows_fit s"
  shows "\<exists>locks. collect_locks X inputs = Ok locks \<and> (\<forall>l \<in> set locks. lock_sigflag l \<noteq> SigAll)
    \<and> verify_inputs_individually X locks (uc_now ctx) = Ok ()"
  using assms(2,3)
proof (induction inputs)
  case (Cons p ps)
  from Cons.IH Cons.prems obtain locks where ih: "collect_locks X ps = Ok locks"
    "\<forall>l \<in> set locks. lock_sigflag l \<noteq> SigAll" "verify_inputs_individually X locks (uc_now ctx) = Ok ()" by auto
  have wit: "witness_for_secret X G (pf_secret p) ctx = Ok (pf_witness p)" using Cons.prems(1) by simp
  show ?case
  proof (cases "secret_parse (pf_secret p)")
    case None
    with wit have "pf_witness p = None" by (simp add: witness_for_secret_def)
    with None ih show ?thesis by simp
  next
    case (Some s)
    with Cons.prems(2) have fit: "rows_fit s" by simp
    show ?thesis
    proof (cases "se_kind s")
      case KindP2PK
      with Some wit obtain c where c: "p2pk_from_secret X s = Ok c" "p2pk_witness_for X G (pf_secret p) s ctx = Ok (pf_witness p)"
        by (cases "p2pk_from_secret X s") (auto simp: witness_for_secret_def p2pk_witness_for_def)
      from p2pk_accepted[OF assms(1) c fit] c(1) Some KindP2PK ih show ?thesis
        by (auto simp: p2pk_lock_def intro!: exI[of _ "LockP2pk p s c # locks"] simp del: verify_lock.simps)
    next
      case KindHTLC
      with Some wit obtain c where c: "htlc_from_secret X s = Ok c" "htlc_witness_for X G (pf_secret p) s ctx = Ok (pf_witness p)"
        by (cases "htlc_from_secret X s") (auto simp: witness_for_secret_def htlc_witness_for_def)
      from htlc_accepted[OF assms(1) c fit] c(1) Some KindHTLC ih show ?thesis
        by (auto simp: htlc_lock_def intro!: exI[of _ "LockHtlc p s c # locks"] simp del: verify_lock.simps)
    qed
  qed
qed simp

text \<open>C31: what the wallet unlocks, the mint opens. When every input of a transaction carries the witness the wallet
  built for its secret at that time, the mint's verification of spending conditions accepts the transaction.\<close>

theorem wallet_witness_accepted:
  assumes "schnorr_contract X G" "\<forall>p \<in> set inputs. witness_for_secret X G (pf_secret p) ctx = Ok (pf_witness p)"
    and "\<forall>p \<in> set inputs. \<forall>s. secret_parse (pf_secret p) = Some s \<longrightarrow> rows_fit s"
  shows "verify_spending_conditions X inputs outputs quote_id (uc_now ctx) = Ok ()"
proof -
  from inputs_accepted[OF assms] obtain locks where l: "collect_locks X inputs = Ok locks"
    "\<forall>l \<in> set locks. lock_sigflag l \<noteq> SigAll" "verify_inputs_individually X locks (uc_now ctx) = Ok ()" by blast
  then have "\<not> list_ex (\<lambda>l. lock_sigflag l = SigAll) locks" by (auto simp: list_ex_iff)
  with l show ?thesis by (simp add: verify_spending_conditions_def)
qed

section \<open>A lock and its key\<close>

text \<open>Every key is the identity's, signatures are empty, and texts of letters stand for their bytes.\<close>

definition lock_externs :: externs where
  "lock_externs = demo_externs
     \<lparr>hex_encode := (\<lambda>_. ''00''), hex_decode := (\<lambda>s. if wire_text s then Some (as_bytes s) else None),
      on_curve := (\<lambda>_. True), schnorr_from_str := (\<lambda>_. Some []),
      schnorr_verify := (\<lambda>k _ _. drop 1 (to_bytes k) = replicate 32 65)\<rparr>"

definition lock_signer :: schnorr_signer where
  "lock_signer = \<lparr>sg_key_ok = (\<lambda>_. True), sg_verifying_x = (\<lambda>_. replicate 32 65),
     sg_compressed = (\<lambda>_. replicate 33 65), sg_sign_prehash = (\<lambda>_ _ _. Some [])\<rparr>"

definition lock_context :: unlock_context where
  "lock_context = \<lparr>uc_identity = SecretKey [], uc_preimage = None, uc_now = 7\<rparr>"

definition locked_secret :: nut10_secret where
  "locked_secret = \<lparr>se_kind = KindP2PK, se_nonce = ''n'', se_data = replicate 33 CHR ''A'', se_tags = None\<rparr>"

definition locked_text :: string where
  "locked_text = ''['' @ json_escape ''P2PK'' @ '',{'' @ json_escape ''nonce'' @ '':'' @ json_escape ''n'' @ '',''
     @ json_escape ''data'' @ '':'' @ json_escape (replicate 33 CHR ''A'') @ ''}]''"

definition locked_proof :: nut_proof where
  "locked_proof = \<lparr>pf_amount = 4, pf_id = ''00ab'', pf_secret = locked_text, pf_c = PublicKey [2], pf_dleq = None,
     pf_witness = Some (p2pk_witness_to_json \<lparr>pw_signatures = [''00'']\<rparr>)\<rparr>"

lemma locked_parse: "secret_parse locked_text = Some locked_secret"
  unfolding locked_text_def locked_secret_def by code_simp

lemma lock_contract: "schnorr_contract lock_externs lock_signer"
proof -
  have "wire_text ''00''" by code_simp
  then show ?thesis by (simp add: schnorr_contract_def lock_externs_def lock_signer_def)
qed

lemma locked_conditions: "p2pk_from_secret lock_externs locked_secret = Ok
    \<lparr>pc_data_pubkey = PublicKey (replicate 33 65), pc_pubkeys = [], pc_num_sigs = None, pc_locktime = None,
     pc_refund_keys = [], pc_num_sigs_refund = None, pc_sigflag = SigInputs\<rparr>"
proof -
  have "wire_text (replicate 33 CHR ''A'')" "as_bytes (replicate 33 CHR ''A'') = replicate 33 65" by code_simp+
  then show ?thesis
    by (simp add: p2pk_from_secret_def locked_secret_def parse_compressed_pubkey_def pk_from_bytes_def lock_externs_def
        parse_condition_tags_def condition_tags_default_def has_duplicate_x_coordinates_def)
qed

theorem wallet_witness_accepted_witness:
  "pf_witness locked_proof \<noteq> None
   \<and> verify_spending_conditions lock_externs [locked_proof] None (Some ''q'') 7 = Ok ()"
proof -
  have raw: "pf_secret locked_proof = locked_text" by (simp add: locked_proof_def)
  have "p2pk_witness_for lock_externs lock_signer locked_text locked_secret lock_context = Ok (pf_witness locked_proof)"
    unfolding p2pk_witness_for_def locked_conditions
    by (simp add: p2pk_requirements_at_def lock_expired_def anyone_requirements_def path_holds_identity_def signing_pubkeys_def
        lock_signer_def lock_context_def required_sigs_def signed_p2pk_def sign_identity_def lock_externs_def locked_proof_def)
  then have wit: "\<forall>p \<in> set [locked_proof]. witness_for_secret lock_externs lock_signer (pf_secret p) lock_context = Ok (pf_witness p)"
    by (simp add: witness_for_secret_def raw locked_parse) (simp add: locked_secret_def)
  have fit: "\<forall>p \<in> set [locked_proof]. \<forall>s. secret_parse (pf_secret p) = Some s \<longrightarrow> rows_fit s"
    by (simp add: raw locked_parse rows_fit_def) (simp add: locked_secret_def)
  have "uc_now lock_context = 7" by (simp add: lock_context_def)
  with wallet_witness_accepted[OF lock_contract wit fit, of None "Some ''q''"] show ?thesis by (simp add: locked_proof_def)
qed

end
