(* ===== verification/Base64.thy ===== *)
theory Base64
  imports Rust_Text
begin

text \<open>
  The base64url encoder and strict decoder of \<^verbatim>\<open>cashu-core-lite/src/token.rs\<close>, and the lenient
  bit-accumulating decoder of \<^verbatim>\<open>walletport/src/lib.rs\<close>, at the widths of the source.
\<close>

section \<open>Interface of an encoding\<close>

locale text_codec =
  fixes enc :: "'a \<Rightarrow> 'b"
    and dec :: "'b \<Rightarrow> 'a option"
  assumes dec_enc: "dec (enc x) = Some x"
begin

lemma enc_inj: "enc x = enc y \<longleftrightarrow> x = y"
  by (metis dec_enc option.inject)

lemma dec_all_enc: "map_opt dec (map enc xs) = Some xs"
  by (rule map_opt_map) (rule dec_enc)

end

section \<open>Tables\<close>

definition BASE64_TABLE :: bytes where
  "BASE64_TABLE = as_bytes ''ABCDEFGHIJKLMNOPQRSTUVWXYZabcdefghijklmnopqrstuvwxyz0123456789-_''"

text \<open>The entry \<^verbatim>\<open>-1\<close> of the decoding table is \<open>None\<close>; both alphabets are accepted.\<close>

definition DECODE_TABLE :: "u8 \<Rightarrow> u8 option" where
  "DECODE_TABLE b =
     (if 65 \<le> b \<and> b \<le> 90 then Some (b - 65)
      else if 97 \<le> b \<and> b \<le> 122 then Some (26 + (b - 97))
      else if 48 \<le> b \<and> b \<le> 57 then Some (52 + (b - 48))
      else if b = 43 \<or> b = 45 then Some 62
      else if b = 47 \<or> b = 95 then Some 63
      else None)"

section \<open>Encoding\<close>

definition encode_chunk_bits :: "u8 \<Rightarrow> u8 \<Rightarrow> u8 \<Rightarrow> u32" where
  "encode_chunk_bits b0 b1 b2 = push_bit 16 (ucast b0) OR push_bit 8 (ucast b1) OR ucast b2"

definition table_at :: "u32 \<Rightarrow> u8" where
  "table_at n = BASE64_TABLE ! unat (n AND 63)"

fun encode_base64url :: "bytes \<Rightarrow> bytes" where
  "encode_base64url [] = []"
| "encode_base64url [b0] =
     (let n = encode_chunk_bits b0 0 0 in [table_at (drop_bit 18 n), table_at (drop_bit 12 n)])"
| "encode_base64url [b0, b1] =
     (let n = encode_chunk_bits b0 b1 0
      in [table_at (drop_bit 18 n), table_at (drop_bit 12 n), table_at (drop_bit 6 n)])"
| "encode_base64url (b0 # b1 # b2 # rest) =
     (let n = encode_chunk_bits b0 b1 b2
      in [table_at (drop_bit 18 n), table_at (drop_bit 12 n), table_at (drop_bit 6 n), table_at n]
         @ encode_base64url rest)"

section \<open>Decoding\<close>

text \<open>Trailing padding is dropped first.\<close>

definition strip_padding :: "bytes \<Rightarrow> bytes" where
  "strip_padding input = rev (dropWhile (\<lambda>b. b = 61) (rev input))"

fun decode_groups :: "bytes \<Rightarrow> bytes option" where
  "decode_groups (i0 # i1 # i2 # i3 # rest) =
     (case (DECODE_TABLE i0, DECODE_TABLE i1, DECODE_TABLE i2, DECODE_TABLE i3) of
        (Some a, Some b, Some c, Some d) \<Rightarrow>
          map_option (\<lambda>out.
            [push_bit 2 a OR drop_bit 4 b, push_bit 4 (b AND 0x0F) OR drop_bit 2 c, push_bit 6 (c AND 0x03) OR d] @ out)
            (decode_groups rest)
      | _ \<Rightarrow> None)"
| "decode_groups [i0, i1, i2] =
     (case (DECODE_TABLE i0, DECODE_TABLE i1) of
        (Some a, Some b) \<Rightarrow>
          (case DECODE_TABLE i2 of None \<Rightarrow> None
           | Some c \<Rightarrow> Some [push_bit 2 a OR drop_bit 4 b, push_bit 4 (b AND 0x0F) OR drop_bit 2 c])
      | _ \<Rightarrow> None)"
| "decode_groups [i0, i1] =
     (case (DECODE_TABLE i0, DECODE_TABLE i1) of
        (Some a, Some b) \<Rightarrow> Some [push_bit 2 a OR drop_bit 4 b] | _ \<Rightarrow> None)"
| "decode_groups _ = Some []"

definition decode_base64url :: "bytes \<Rightarrow> bytes option" where
  "decode_base64url input = (if input = [] then Some [] else decode_groups (strip_padding input))"

text \<open>\<^verbatim>\<open>walletport\<close>'s decoder: stops at padding, skips characters outside the alphabet.\<close>

definition table_position :: "u8 \<Rightarrow> nat option" where
  "table_position b = (let i = length (takeWhile (\<lambda>t. t \<noteq> b) BASE64_TABLE)
     in if i < length BASE64_TABLE then Some i else None)"

definition accumulate :: "u32 \<Rightarrow> nat \<Rightarrow> u32" where
  "accumulate buf pos = push_bit 6 buf OR word_of_nat pos"

fun base64url_loop :: "u32 \<Rightarrow> u32 \<Rightarrow> bytes \<Rightarrow> bytes" where
  "base64url_loop buf bits [] = []"
| "base64url_loop buf bits (b # bs) =
     (if b = 61 then []
      else (case table_position b of
              None \<Rightarrow> base64url_loop buf bits bs
            | Some pos \<Rightarrow>
                (let buf' = accumulate buf pos; bits' = bits + 6
                 in if bits' \<ge> 8 then ucast (drop_bit (unat (bits' - 8)) buf') # base64url_loop buf' (bits' - 8) bs
                    else base64url_loop buf' bits' bs)))"

definition base64url_decode :: "bytes \<Rightarrow> bytes" where
  "base64url_decode input = base64url_loop 0 0 input"

section \<open>Bits as numbers\<close>

lemma length_BASE64_TABLE [simp]: "length BASE64_TABLE = 64"
  by (simp add: BASE64_TABLE_def)

lemma DECODE_TABLE_BASE64: "map DECODE_TABLE BASE64_TABLE = map (\<lambda>i. Some (word_of_nat i)) [0..<64]"
  by (simp add: BASE64_TABLE_def byte_of_def DECODE_TABLE_def upt_conv_Cons)

lemma unat_push_or:
  fixes x y :: "'a::len word"
  assumes "unat y < 2 ^ k"
  shows "unat (push_bit k x OR y) = (2 ^ k * unat x + unat y) mod 2 ^ LENGTH('a)"
proof -
  have "take_bit k y = y"
    using assms by (intro unsigned_word_eqI[where 'a = nat]) (simp add: unsigned_take_bit_eq take_bit_nat_def)
  then have low: "bit y n \<Longrightarrow> n < k" for n by (metis bit_take_bit_iff)
  have "push_bit k x AND y = 0"
    by (rule bit_eqI) (use low in \<open>auto simp: bit_and_iff bit_push_bit_iff dest!: low\<close>)
  then have "push_bit k x OR y = x * 2 ^ k + y" by (simp add: disjunctive_add_eq_or push_bit_eq_mult)
  moreover have "x * 2 ^ k + y = word_of_nat (2 ^ k * unat x + unat y)" by simp
  ultimately show ?thesis by (metis unat_of_nat)
qed

lemma unat_drop: "unat (drop_bit k w) = unat w div 2 ^ k"
  unfolding unsigned_drop_bit_eq using unat_bound[of w] by (simp add: drop_bit_eq_div take_bit_nat_def)

lemma unat_low: "unat (w AND mask k) = unat w mod 2 ^ k"
  by (simp add: unsigned_take_bit_eq take_bit_nat_def flip: take_bit_eq_mask)

lemma unat_to_u8: "unat (ucast w :: u8) = unat w mod 256"
  by (simp add: unsigned_ucast_eq take_bit_nat_def)

lemma unat_u8 [simp]: "unat (b::u8) < 256"
  using unat_bound[of b] by simp

lemma unat_u8_u32 [simp]: "unat (ucast (b::u8) :: u32) = unat b"
  by (simp add: unsigned_ucast_eq take_bit_nat_def order_less_trans[OF unat_u8])

lemma unat_chunk_bits: "unat (encode_chunk_bits b0 b1 b2) = 65536 * unat b0 + 256 * unat b1 + unat b2"
proof -
  have low: "unat (push_bit 8 (ucast b1 :: u32) OR ucast b2) = 256 * unat b1 + unat b2"
    using unat_push_or[of "ucast b2 :: u32" 8 "ucast b1"] unat_u8[of b1] unat_u8[of b2] by simp
  have "256 * unat b1 + unat b2 < 65536" using unat_u8[of b1] unat_u8[of b2] by linarith
  with low unat_push_or[of "push_bit 8 (ucast b1 :: u32) OR ucast b2" 16 "ucast b0"] unat_u8[of b0]
  show ?thesis by (simp add: encode_chunk_bits_def or.assoc)
qed

lemma table_at_nth: "table_at w = BASE64_TABLE ! (unat w mod 64)"
  using unat_low[of w 6] by (simp add: table_at_def mask_eq_exp_minus_1)

lemma DECODE_TABLE_nth: "i < 64 \<Longrightarrow> DECODE_TABLE (BASE64_TABLE ! i) = Some (word_of_nat i)"
  using arg_cong[OF DECODE_TABLE_BASE64, of "\<lambda>xs. xs ! i"] by simp

text \<open>Splitting three bytes into four digits of six bits, and back.\<close>

lemma sextets:
  fixes x y z :: nat
  assumes "x < 256" "y < 256" "z < 256"
  shows "(65536 * x + 256 * y + z) div 262144 mod 64 = x div 4"
    "(65536 * x + 256 * y + z) div 4096 mod 64 = 16 * (x mod 4) + y div 16"
    "(65536 * x + 256 * y + z) div 64 mod 64 = 4 * (y mod 16) + z div 64"
    "(65536 * x + 256 * y + z) mod 64 = z mod 64"
proof -
  define q0 r0 q1 r1 q2 r2 where "q0 = x div 4" "r0 = x mod 4" "q1 = y div 16" "r1 = y mod 16" "q2 = z div 64" "r2 = z mod 64"
  note parts = this
  have b: "r0 < 4" "r1 < 16" "r2 < 64" "q0 < 64" "q1 < 16" "q2 < 4" using assms by (auto simp: parts)
  have split: "x = 4 * q0 + r0" "y = 16 * q1 + r1" "z = 64 * q2 + r2" by (simp_all add: parts)
  have n: "65536 * x + 256 * y + z = 64 * (64 * (64 * q0 + (16 * r0 + q1)) + (4 * r1 + q2)) + r2"
    by (simp add: split)
  have d: "(64 * u + v) div 64 = u" "(64 * u + v) mod 64 = v" if "v < 64" for u v :: nat
    using that by simp_all
  have div: "m div 4096 = m div 64 div 64" "m div 262144 = m div 64 div 64 div 64" for m :: nat
    by (simp_all add: div_mult2_eq[symmetric])
  have s: "16 * r0 + q1 < 64" "4 * r1 + q2 < 64" using b by linarith+
  show "(65536 * x + 256 * y + z) div 262144 mod 64 = x div 4"
    "(65536 * x + 256 * y + z) div 4096 mod 64 = 16 * (x mod 4) + y div 16"
    "(65536 * x + 256 * y + z) div 64 mod 64 = 4 * (y mod 16) + z div 64"
    "(65536 * x + 256 * y + z) mod 64 = z mod 64"
    unfolding div n parts[symmetric] by (simp_all only: d b s mod_less)
qed

lemma join_sextets:
  assumes "a < 64" "b < 64" "c < 64" "d < 64"
  shows "unat (push_bit 2 (word_of_nat a :: u8) OR drop_bit 4 (word_of_nat b)) = 4 * a + b div 16"
    "unat (push_bit 4 ((word_of_nat b :: u8) AND 0x0F) OR drop_bit 2 (word_of_nat c)) = 16 * (b mod 16) + c div 4"
    "unat (push_bit 6 ((word_of_nat c :: u8) AND 0x03) OR word_of_nat d) = 64 * (c mod 4) + d"
proof -
  have u: "unat (word_of_nat i :: u8) = i" if "i < 64" for i
    using that by (simp add: unat_of_nat_lt)
  have m: "(0x0F :: u8) = mask 4" "(0x03 :: u8) = mask 2" by (simp_all add: mask_eq_exp_minus_1)
  have dr: "unat (drop_bit 4 (word_of_nat b :: u8)) = b div 16" "unat (drop_bit 2 (word_of_nat c :: u8)) = c div 4"
    using u assms unat_drop[of 4 "word_of_nat b :: u8"] unat_drop[of 2 "word_of_nat c :: u8"] by simp_all
  have lo: "unat ((word_of_nat b :: u8) AND 0x0F) = b mod 16" "unat ((word_of_nat c :: u8) AND 0x03) = c mod 4"
    unfolding m unat_low using u assms by simp_all
  have lt: "b div 16 < 4" "c div 4 < 16" "b mod 16 < 16" "c mod 4 < 4" using assms by auto
  have "4 * a + b div 16 < 256" "16 * (b mod 16) + c div 4 < 256" "64 * (c mod 4) + d < 256"
    using assms lt by linarith+
  with unat_push_or[of "drop_bit 4 (word_of_nat b :: u8)" 2 "word_of_nat a"]
    unat_push_or[of "drop_bit 2 (word_of_nat c :: u8)" 4 "(word_of_nat b :: u8) AND 0x0F"]
    unat_push_or[of "word_of_nat d :: u8" 6 "(word_of_nat c :: u8) AND 0x03"] u assms dr lo lt
  show "unat (push_bit 2 (word_of_nat a :: u8) OR drop_bit 4 (word_of_nat b)) = 4 * a + b div 16"
    "unat (push_bit 4 ((word_of_nat b :: u8) AND 0x0F) OR drop_bit 2 (word_of_nat c)) = 16 * (b mod 16) + c div 4"
    "unat (push_bit 6 ((word_of_nat c :: u8) AND 0x03) OR word_of_nat d) = 64 * (c mod 4) + d"
    by simp_all
qed

section \<open>Digits of a chunk\<close>

definition sext0 :: "u8 \<Rightarrow> nat" where "sext0 x = unat x div 4"
definition sext1 :: "u8 \<Rightarrow> u8 \<Rightarrow> nat" where "sext1 x y = 16 * (unat x mod 4) + unat y div 16"
definition sext2 :: "u8 \<Rightarrow> u8 \<Rightarrow> nat" where "sext2 y z = 4 * (unat y mod 16) + unat z div 64"
definition sext3 :: "u8 \<Rightarrow> nat" where "sext3 z = unat z mod 64"

lemma digit_bounds [simp]: "sext0 x < 64" "sext1 x y < 64" "sext2 y z < 64" "sext3 z < 64"
proof -
  have "unat x < 256" "unat y < 256" "unat z < 256" by (rule unat_u8)+
  then have "unat y div 16 < 16" "unat z div 64 < 4" "unat x mod 4 < 4" "unat y mod 16 < 16" "unat x div 4 < 64"
    by (auto intro: less_mult_imp_div_less)
  then show "sext0 x < 64" "sext1 x y < 64" "sext2 y z < 64" "sext3 z < 64"
    by (simp_all add: sext0_def sext1_def sext2_def sext3_def)
qed

lemma table_at_digits:
  "table_at (drop_bit 18 (encode_chunk_bits x y z)) = BASE64_TABLE ! sext0 x"
  "table_at (drop_bit 12 (encode_chunk_bits x y z)) = BASE64_TABLE ! sext1 x y"
  "table_at (drop_bit 6 (encode_chunk_bits x y z)) = BASE64_TABLE ! sext2 y z"
  "table_at (encode_chunk_bits x y z) = BASE64_TABLE ! sext3 z"
proof -
  have p: "(2::nat) ^ 18 = 262144" "(2::nat) ^ 12 = 4096" "(2::nat) ^ 6 = 64" by simp_all
  show "table_at (drop_bit 18 (encode_chunk_bits x y z)) = BASE64_TABLE ! sext0 x"
    "table_at (drop_bit 12 (encode_chunk_bits x y z)) = BASE64_TABLE ! sext1 x y"
    "table_at (drop_bit 6 (encode_chunk_bits x y z)) = BASE64_TABLE ! sext2 y z"
    "table_at (encode_chunk_bits x y z) = BASE64_TABLE ! sext3 z"
    by (simp_all only: table_at_nth unat_drop unat_chunk_bits p sextets[OF unat_u8 unat_u8 unat_u8]
        sext0_def sext1_def sext2_def sext3_def)
qed

lemma digits_back:
  "4 * sext0 x + sext1 x y div 16 = unat x"
  "16 * (sext1 x y mod 16) + sext2 y z div 4 = unat y"
  "64 * (sext2 y z mod 4) + sext3 z = unat z"
proof -
  have "unat y div 16 < 16" "unat z div 64 < 4" using unat_u8[of y] unat_u8[of z] by (auto intro: less_mult_imp_div_less)
  then have "sext1 x y div 16 = unat x mod 4" "sext1 x y mod 16 = unat y div 16"
    "sext2 y z div 4 = unat y mod 16" "sext2 y z mod 4 = unat z div 64"
    by (simp_all add: sext1_def sext2_def)
  then show "4 * sext0 x + sext1 x y div 16 = unat x" "16 * (sext1 x y mod 16) + sext2 y z div 4 = unat y"
    "64 * (sext2 y z mod 4) + sext3 z = unat z"
    by (simp_all add: sext0_def sext3_def)
qed

lemma digits_join:
  "push_bit 2 (word_of_nat (sext0 x) :: u8) OR drop_bit 4 (word_of_nat (sext1 x y)) = x"
  "push_bit 4 ((word_of_nat (sext1 x y) :: u8) AND 0x0F) OR drop_bit 2 (word_of_nat (sext2 y z)) = y"
  "push_bit 6 ((word_of_nat (sext2 y z) :: u8) AND 0x03) OR word_of_nat (sext3 z) = z"
  using join_sextets[OF digit_bounds(1)[of x] digit_bounds(2)[of x y] digit_bounds(3)[of y z] digit_bounds(4)[of z]]
  by (simp_all only: word_unat_eq_iff digits_back)

lemma decode_groups_encode: "decode_groups (encode_base64url bs) = Some bs"
  by (induction bs rule: encode_base64url.induct) (simp_all add: Let_def table_at_digits DECODE_TABLE_nth digits_join[simplified])

lemma encoded_in_table: "c \<in> set (encode_base64url bs) \<Longrightarrow> c \<in> set BASE64_TABLE"
  by (induction bs rule: encode_base64url.induct) (auto simp: Let_def table_at_digits)

lemma not_padding: "c \<in> set BASE64_TABLE \<Longrightarrow> c \<noteq> 61"
  by (auto simp: BASE64_TABLE_def byte_of_def)

lemma strip_padding_id:
  assumes "\<And>c. c \<in> set bs \<Longrightarrow> c \<noteq> 61"
  shows "strip_padding bs = bs"
proof -
  have "dropWhile (\<lambda>b. b = 61) (rev bs) = rev bs"
    using assms by (cases "rev bs") (auto simp: dropWhile_eq_self_iff dest!: arg_cong[of _ _ set])
  then show ?thesis by (simp add: strip_padding_def)
qed

lemma decode_encode: "decode_base64url (encode_base64url bs) = Some bs"
proof (cases "encode_base64url bs = []")
  case True
  with decode_groups_encode[of bs] show ?thesis by (simp add: decode_base64url_def)
next
  case False
  have "strip_padding (encode_base64url bs) = encode_base64url bs"
    by (rule strip_padding_id) (blast dest: encoded_in_table not_padding)
  with False show ?thesis by (simp add: decode_base64url_def decode_groups_encode)
qed

interpretation base64url: text_codec encode_base64url decode_base64url
  by unfold_locales (rule decode_encode)

section \<open>The lenient decoder\<close>

lemma table_position_nth:
  assumes "i < 64"
  shows "table_position (BASE64_TABLE ! i) = Some i"
proof -
  have ne: "BASE64_TABLE ! j \<noteq> BASE64_TABLE ! i" if "j < i" for j
  proof
    assume "BASE64_TABLE ! j = BASE64_TABLE ! i"
    then have "(word_of_nat j :: u8) = word_of_nat i"
      using DECODE_TABLE_nth[of j] DECODE_TABLE_nth[of i] that assms by simp
    from arg_cong[OF this, of unat] that assms show False by (simp add: unat_of_nat_lt)
  qed
  have "takeWhile (\<lambda>t. t \<noteq> BASE64_TABLE ! i) BASE64_TABLE = take i BASE64_TABLE"
    by (rule takeWhile_eq_take_P_nth) (use ne in auto)
  with assms show ?thesis by (simp add: table_position_def)
qed

lemma not_padding_nth: "i < 64 \<Longrightarrow> BASE64_TABLE ! i \<noteq> 61"
  by (rule not_padding) simp

lemma shift_in:
  assumes "p < 64"
  shows "unat (accumulate w p) = (64 * unat w + p) mod 2 ^ 32"
    and "unat (accumulate w p) mod 64 = p"
proof -
  have "unat (word_of_nat p :: u32) = p" using assms by (simp add: unat_of_nat_lt)
  with unat_push_or[of "word_of_nat p :: u32" 6 w] assms
  show eq: "unat (accumulate w p) = (64 * unat w + p) mod 2 ^ 32" by (simp add: accumulate_def)
  have "(2 ^ 32 :: nat) = 64 * 2 ^ 26" by simp
  then have "(64 * unat w + p) mod 2 ^ 32 mod 64 = (64 * unat w + p) mod 64" by (metis mod_mult_right_eq mod_mod_cancel dvd_triv_left)
  with eq assms show "unat (accumulate w p) mod 64 = p" by simp
qed

lemma window:
  assumes "k \<le> (4::nat)"
  shows "(4096 * q + y) div 2 ^ k mod 256 = (y::nat) div 2 ^ k mod 256"
proof -
  have "(4096::nat) = 2 ^ k * (256 * 2 ^ (4 - k))"
    using assms power_add[of "2::nat" k "4 - k"] by simp
  then have "4096 * q + y = 2 ^ k * (256 * (2 ^ (4 - k) * q)) + y" by simp
  moreover have "(2 ^ k * m + y) div 2 ^ k = m + y div 2 ^ k" for m by simp
  ultimately have "(4096 * q + y) div 2 ^ k = 256 * (2 ^ (4 - k) * q) + y div 2 ^ k" by metis
  then show ?thesis by (metis mod_mult_self4)
qed

lemma shift_out:
  assumes "p < 64" "k \<le> 4"
  shows "unat (ucast (drop_bit k (accumulate w p)) :: u8)
    = (64 * (unat w mod 64) + p) div 2 ^ k mod 256"
proof -
  let ?n = "64 * unat w + p"
  have "?n = 4096 * (unat w div 64) + (64 * (unat w mod 64) + p)"
    using div_mult_mod_eq[of "unat w" 64] by linarith
  moreover have "?n = 4096 * (2 ^ 20 * (?n div 2 ^ 32)) + ?n mod 2 ^ 32"
    using div_mult_mod_eq[of ?n "2 ^ 32"] by simp
  ultimately have "?n mod 2 ^ 32 div 2 ^ k mod 256 = (64 * (unat w mod 64) + p) div 2 ^ k mod 256"
    using window[OF assms(2)] by metis
  then show ?thesis by (simp only: unat_to_u8 unat_drop shift_in(1)[OF assms(1)])
qed

lemma loop_digit:
  assumes "a < 64"
  shows "base64url_loop buf 0 (BASE64_TABLE ! a # rest) = base64url_loop (accumulate buf a) 6 rest"
    and "base64url_loop buf 6 (BASE64_TABLE ! a # rest)
      = ucast (drop_bit 4 (accumulate buf a)) # base64url_loop (accumulate buf a) 4 rest"
    and "base64url_loop buf 4 (BASE64_TABLE ! a # rest)
      = ucast (drop_bit 2 (accumulate buf a)) # base64url_loop (accumulate buf a) 2 rest"
    and "base64url_loop buf 2 (BASE64_TABLE ! a # rest)
      = ucast (accumulate buf a) # base64url_loop (accumulate buf a) 0 rest"
  using assms by (simp_all add: table_position_nth not_padding_nth Let_def)

lemma loop_bytes:
  "ucast (drop_bit 4 (accumulate (accumulate buf (sext0 x)) (sext1 x y))) = x"
  "ucast (drop_bit 2 (accumulate (accumulate buf (sext1 x y)) (sext2 y z))) = y"
  "ucast (accumulate (accumulate buf (sext2 y z)) (sext3 z)) = z"
proof -
  have d: "(64 * a + b) div 16 = 4 * a + b div 16" "(64 * a + b) div 4 = 16 * a + b div 4" for a b :: nat
    by presburger+
  have m: "(16 * b + e) mod 256 = 16 * (b mod 16) + e" if "e < 16" for b e :: nat
    using that mod_mult2_eq[of "16 * b + e" 16 16] by simp
  have n: "(64 * c + e) mod 256 = 64 * (c mod 4) + e" if "e < 64" for c e :: nat
    using that mod_mult2_eq[of "64 * c + e" 64 4] by simp
  have "(64 * sext0 x + sext1 x y) div 16 mod 256 = unat x"
    unfolding d(1) digits_back(1) by simp
  moreover have "sext2 y z div 4 < 16" by (rule less_mult_imp_div_less) simp
  then have "(64 * sext1 x y + sext2 y z) div 4 mod 256 = unat y"
    unfolding d(2) using m digits_back(2)[of x y z] by simp
  moreover have "(64 * sext2 y z + sext3 z) mod 256 = unat z"
    using n[OF digit_bounds(4)] digits_back(3)[of y z] by simp
  moreover have p: "(2::nat) ^ 4 = 16" "(2::nat) ^ 2 = 4" "(4::nat) \<le> 4" "(2::nat) \<le> 4" by simp_all
  have "unat (ucast (drop_bit 4 (accumulate (accumulate buf (sext0 x)) (sext1 x y))) :: u8) = (64 * sext0 x + sext1 x y) div 16 mod 256"
    "unat (ucast (drop_bit 2 (accumulate (accumulate buf (sext1 x y)) (sext2 y z))) :: u8) = (64 * sext1 x y + sext2 y z) div 4 mod 256"
    by (simp_all only: shift_out[OF digit_bounds(2) p(3)] shift_out[OF digit_bounds(3) p(4)]
        shift_in(2)[OF digit_bounds(1)] shift_in(2)[OF digit_bounds(2)] p)
  moreover have "unat (ucast (accumulate (accumulate buf (sext2 y z)) (sext3 z)) :: u8) = (64 * sext2 y z + sext3 z) mod 256"
    using shift_out[OF digit_bounds(4) le0, of "accumulate buf (sext2 y z)" z] shift_in(2)[OF digit_bounds(3), of buf y z]
    by (simp only: drop_bit_0 id_apply power_0 div_by_1)
  ultimately show "ucast (drop_bit 4 (accumulate (accumulate buf (sext0 x)) (sext1 x y))) = x"
    "ucast (drop_bit 2 (accumulate (accumulate buf (sext1 x y)) (sext2 y z))) = y"
    "ucast (accumulate (accumulate buf (sext2 y z)) (sext3 z)) = z"
    by (simp_all only: word_unat_eq_iff)
qed

lemma loop_encode: "base64url_loop buf 0 (encode_base64url bs) = bs"
proof (induction bs arbitrary: buf rule: encode_base64url.induct)
  case (4 b0 b1 b2 rest)
  show ?case
    by (simp only: encode_base64url.simps Let_def table_at_digits loop_digit digit_bounds loop_bytes append.simps 4[OF refl])
qed (simp_all only: encode_base64url.simps Let_def table_at_digits loop_digit digit_bounds loop_bytes
    base64url_loop.simps(1))

text \<open>Base64url round trip. Both decoders, the strict one of the token module and the lenient one of the wallet
  facade, invert the encoder on every byte string, so encoding is injective and the two agree on
  every wire token the encoder produces.\<close>

theorem base64url_roundtrip:
  "decode_base64url (encode_base64url bs) = Some bs \<and> base64url_decode (encode_base64url bs) = bs"
  using base64url.dec_enc loop_encode by (simp add: base64url_decode_def)

text \<open>The lenient decoder skips characters outside the alphabet, which the strict decoder rejects.\<close>

lemma loop_skips:
  "table_position c = None \<Longrightarrow> c \<noteq> 61 \<Longrightarrow> base64url_loop buf bits (xs @ c # ys) = base64url_loop buf bits (xs @ ys)"
  by (induction xs arbitrary: buf bits) (auto simp: Let_def split: option.split)

end
