(* ===== verification/Token.thy ===== *)
theory Token
  imports Sample Base64
begin

text \<open>
  V4 tokens (\<^verbatim>\<open>cashu-core-lite/src/token.rs\<close> and the CBOR form of \<^verbatim>\<open>ProofDleq\<close> in
  \<^verbatim>\<open>nuts/nut12.rs\<close>): the structures, their CBOR encoders and decoders over the primitives of
  \<^verbatim>\<open>minicbor\<close>, and the \<^verbatim>\<open>cashuB\<close> wire form. The primitives of \<^verbatim>\<open>minicbor\<close> are the fields of a
  record of functions; \<open>cbor_ok\<close> states what the sources rely on.
\<close>

section \<open>Tokens\<close>

record token_proof =
  tp_amount :: u64
  tp_keyset_id :: string
  tp_secret :: string
  tp_c :: bytes
  tp_dleq :: "proof_dleq option"

record token_v4_token =
  tg_keyset_id :: string
  tg_proofs :: "token_proof list"

record token_v4 =
  tk_mint :: string
  tk_unit :: string
  tk_memo :: "string option"
  tk_tokens :: "token_v4_token list"

text \<open>\<^verbatim>\<open>total_amount\<close> adds with \<^verbatim>\<open>Iterator::sum\<close>, which wraps in release builds.\<close>

definition token_proofs :: "token_v4 \<Rightarrow> token_proof list" where
  "token_proofs t = concat (map tg_proofs (tk_tokens t))"

definition total_amount :: "token_v4 \<Rightarrow> u64" where
  "total_amount t = sum_list (map tp_amount (token_proofs t))"

definition proof_count :: "token_v4 \<Rightarrow> nat" where
  "proof_count t = sum_list (map (\<lambda>g. length (tg_proofs g)) (tk_tokens t))"

section \<open>The primitives of minicbor\<close>

text \<open>
  \<^verbatim>\<open>Encoder\<close> methods return the bytes they append; \<^verbatim>\<open>Decoder\<close> methods return the value and the
  rest of the input, or fail. \<open>d_break\<close> says whether the next data item is a break.
  \<open>is_utf8\<close> is the validity of the bytes of a Rust string.
\<close>

record cbor =
  e_map :: "u64 \<Rightarrow> bytes"
  e_array :: "u64 \<Rightarrow> bytes"
  e_str :: "string \<Rightarrow> bytes"
  e_bytes :: "bytes \<Rightarrow> bytes"
  e_u64 :: "u64 \<Rightarrow> bytes"
  d_map :: "bytes \<Rightarrow> (u64 option \<times> bytes) option"
  d_array :: "bytes \<Rightarrow> (u64 option \<times> bytes) option"
  d_str :: "bytes \<Rightarrow> (string \<times> bytes) option"
  d_bytes :: "bytes \<Rightarrow> (bytes \<times> bytes) option"
  d_u64 :: "bytes \<Rightarrow> (u64 \<times> bytes) option"
  d_skip :: "bytes \<Rightarrow> bytes option"
  d_break :: "bytes \<Rightarrow> bool option"
  is_utf8 :: "string \<Rightarrow> bool"

datatype cbor_error = CborError | CborMessage string | OutOfFuel

type_synonym 'a decoder = "(bytes, cbor_error, 'a) op"

definition dec :: "(bytes \<Rightarrow> ('a \<times> bytes) option) \<Rightarrow> 'a decoder" where
  "dec f = (\<lambda>d. case f d of None \<Rightarrow> (Err CborError, d) | Some (x, r) \<Rightarrow> (Ok x, r))"

definition skip :: "cbor \<Rightarrow> unit decoder" where
  "skip C = dec (\<lambda>d. map_option (\<lambda>r. ((), r)) (d_skip C d))"

definition at_break :: "cbor \<Rightarrow> bool decoder" where
  "at_break C = dec (\<lambda>d. map_option (\<lambda>b. (b, d)) (d_break C d))"

definition missing :: "string \<Rightarrow> string" where
  "missing key = ''missing '' @ [CHR 0x27] @ key @ [CHR 0x27]"

definition required :: "string \<Rightarrow> 'a option \<Rightarrow> 'a decoder" where
  "required msg x = lift_res (ok_or (CborMessage msg) x)"

section \<open>Loops over maps and arrays\<close>

text \<open>
  \<^verbatim>\<open>foreach_key\<close> runs a closure that assigns captured variables; they are the value \<open>acc\<close> it is
  threaded through. The loop over a map of indefinite length ends at the break; it is run with
  one unit of fuel per byte of input, which is enough because every turn reads a key.
\<close>

fun foreach_n :: "cbor \<Rightarrow> (string \<Rightarrow> 'v \<Rightarrow> 'v decoder) \<Rightarrow> nat \<Rightarrow> 'v \<Rightarrow> 'v decoder" where
  "foreach_n C on_entry 0 acc = ret acc"
| "foreach_n C on_entry (Suc n) acc =
     bind (dec (d_str C)) (\<lambda>key. bind (on_entry key acc) (foreach_n C on_entry n))"

fun foreach_break :: "cbor \<Rightarrow> (string \<Rightarrow> 'v \<Rightarrow> 'v decoder) \<Rightarrow> nat \<Rightarrow> 'v \<Rightarrow> 'v decoder" where
  "foreach_break C on_entry 0 acc = throw OutOfFuel"
| "foreach_break C on_entry (Suc fuel) acc =
     bind (at_break C) (\<lambda>stop.
       if stop then bind (skip C) (\<lambda>_. ret acc)
       else bind (dec (d_str C)) (\<lambda>key. bind (on_entry key acc) (foreach_break C on_entry fuel)))"

definition foreach_key :: "cbor \<Rightarrow> (string \<Rightarrow> 'v \<Rightarrow> 'v decoder) \<Rightarrow> 'v \<Rightarrow> 'v decoder" where
  "foreach_key C on_entry acc =
     bind (dec (d_map C)) (\<lambda>len. case len of
       Some n \<Rightarrow> foreach_n C on_entry (unat n) acc
     | None \<Rightarrow> (\<lambda>d. foreach_break C on_entry (Suc (length d)) acc d))"

fun decode_n :: "'a decoder \<Rightarrow> nat \<Rightarrow> 'a list decoder" where
  "decode_n item 0 = ret []"
| "decode_n item (Suc n) = bind item (\<lambda>x. bind (decode_n item n) (\<lambda>xs. ret (x # xs)))"

fun decode_break :: "cbor \<Rightarrow> 'a decoder \<Rightarrow> nat \<Rightarrow> 'a list decoder" where
  "decode_break C item 0 = throw OutOfFuel"
| "decode_break C item (Suc fuel) =
     bind (at_break C) (\<lambda>stop.
       if stop then bind (skip C) (\<lambda>_. ret [])
       else bind item (\<lambda>x. bind (decode_break C item fuel) (\<lambda>xs. ret (x # xs))))"

definition decode_array :: "cbor \<Rightarrow> 'a decoder \<Rightarrow> 'a list decoder" where
  "decode_array C item =
     bind (dec (d_array C)) (\<lambda>len. case len of
       Some n \<Rightarrow> decode_n item (unat n)
     | None \<Rightarrow> (\<lambda>d. decode_break C item (Suc (length d)) d))"

section \<open>DLEQ proofs\<close>

definition encode_dleq :: "cbor \<Rightarrow> proof_dleq \<Rightarrow> bytes" where
  "encode_dleq C q =
     e_map C 3 @ e_str C ''e'' @ e_bytes C (to_secret_bytes (pd_e q))
     @ e_str C ''s'' @ e_bytes C (to_secret_bytes (pd_s q))
     @ e_str C ''r'' @ e_bytes C (to_secret_bytes (pd_r q))"

definition scalar :: "externs \<Rightarrow> cbor \<Rightarrow> string \<Rightarrow> secret_key decoder" where
  "scalar X C msg = bind (dec (d_bytes C)) (\<lambda>b. lift_res (ok_or (CborMessage msg) (sk_from_slice X b)))"

record dleq_acc =
  qa_e :: "secret_key option"
  qa_s :: "secret_key option"
  qa_r :: "secret_key option"

definition dleq_entry :: "externs \<Rightarrow> cbor \<Rightarrow> string \<Rightarrow> dleq_acc \<Rightarrow> dleq_acc decoder" where
  "dleq_entry X C key acc =
     (if key = ''e'' then bind (scalar X C ''invalid e scalar'') (\<lambda>v. ret (acc\<lparr>qa_e := Some v\<rparr>))
      else if key = ''s'' then bind (scalar X C ''invalid s scalar'') (\<lambda>v. ret (acc\<lparr>qa_s := Some v\<rparr>))
      else if key = ''r'' then bind (scalar X C ''invalid r scalar'') (\<lambda>v. ret (acc\<lparr>qa_r := Some v\<rparr>))
      else bind (skip C) (\<lambda>_. ret acc))"

definition decode_dleq :: "externs \<Rightarrow> cbor \<Rightarrow> proof_dleq decoder" where
  "decode_dleq X C =
     bind (foreach_key C (dleq_entry X C) \<lparr>qa_e = None, qa_s = None, qa_r = None\<rparr>) (\<lambda>acc.
     bind (required (missing ''e'') (qa_e acc)) (\<lambda>e.
     bind (required (missing ''s'') (qa_s acc)) (\<lambda>s.
     bind (required (missing ''r'') (qa_r acc)) (\<lambda>r.
       ret \<lparr>pd_e = e, pd_s = s, pd_r = r\<rparr>))))"

section \<open>Proofs, groups, tokens\<close>

definition encode_proof :: "cbor \<Rightarrow> token_proof \<Rightarrow> bytes" where
  "encode_proof C p =
     e_map C (case tp_dleq p of Some _ \<Rightarrow> 4 | None \<Rightarrow> 3)
     @ e_str C ''a'' @ e_u64 C (tp_amount p) @ e_str C ''s'' @ e_str C (tp_secret p)
     @ e_str C ''c'' @ e_bytes C (tp_c p)
     @ (case tp_dleq p of Some q \<Rightarrow> e_str C ''d'' @ encode_dleq C q | None \<Rightarrow> [])"

record proof_acc =
  pa_amount :: "u64 option"
  pa_secret :: "string option"
  pa_c :: "bytes option"
  pa_dleq :: "proof_dleq option"

definition proof_entry :: "externs \<Rightarrow> cbor \<Rightarrow> string \<Rightarrow> proof_acc \<Rightarrow> proof_acc decoder" where
  "proof_entry X C key acc =
     (if key = ''a'' then bind (dec (d_u64 C)) (\<lambda>v. ret (acc\<lparr>pa_amount := Some v\<rparr>))
      else if key = ''s'' then bind (dec (d_str C)) (\<lambda>v. ret (acc\<lparr>pa_secret := Some v\<rparr>))
      else if key = ''c'' then bind (dec (d_bytes C)) (\<lambda>v. ret (acc\<lparr>pa_c := Some v\<rparr>))
      else if key = ''d'' then bind (decode_dleq X C) (\<lambda>v. ret (acc\<lparr>pa_dleq := Some v\<rparr>))
      else bind (skip C) (\<lambda>_. ret acc))"

definition decode_proof :: "externs \<Rightarrow> cbor \<Rightarrow> token_proof decoder" where
  "decode_proof X C =
     bind (foreach_key C (proof_entry X C) \<lparr>pa_amount = None, pa_secret = None, pa_c = None, pa_dleq = None\<rparr>) (\<lambda>acc.
     bind (required (missing ''a'') (pa_amount acc)) (\<lambda>a.
     bind (required (missing ''s'') (pa_secret acc)) (\<lambda>s.
     bind (required (missing ''c'') (pa_c acc)) (\<lambda>c.
       ret \<lparr>tp_amount = a, tp_keyset_id = [], tp_secret = s, tp_c = c, tp_dleq = pa_dleq acc\<rparr>))))"

definition encode_group :: "externs \<Rightarrow> cbor \<Rightarrow> token_v4_token \<Rightarrow> (cbor_error, bytes) res" where
  "encode_group X C g =
     res_bind (ok_or (CborMessage ''keyset id is not hex'') (hex_decode X (tg_keyset_id g))) (\<lambda>id_bytes.
       Ok (e_map C 2 @ e_str C ''i'' @ e_bytes C id_bytes @ e_str C ''p''
           @ e_array C (word_of_nat (length (tg_proofs g))) @ concat (map (encode_proof C) (tg_proofs g))))"

record group_acc =
  ga_keyset_id :: "string option"
  ga_proofs :: "token_proof list option"

definition group_entry :: "externs \<Rightarrow> cbor \<Rightarrow> string \<Rightarrow> group_acc \<Rightarrow> group_acc decoder" where
  "group_entry X C key acc =
     (if key = ''i'' then bind (dec (d_bytes C)) (\<lambda>v. ret (acc\<lparr>ga_keyset_id := Some (hex_encode X v)\<rparr>))
      else if key = ''p'' then bind (decode_array C (decode_proof X C)) (\<lambda>v. ret (acc\<lparr>ga_proofs := Some v\<rparr>))
      else bind (skip C) (\<lambda>_. ret acc))"

definition decode_group :: "externs \<Rightarrow> cbor \<Rightarrow> token_v4_token decoder" where
  "decode_group X C =
     bind (foreach_key C (group_entry X C) \<lparr>ga_keyset_id = None, ga_proofs = None\<rparr>) (\<lambda>acc.
     bind (required (missing ''i'') (ga_keyset_id acc)) (\<lambda>i.
     bind (required (missing ''p'') (ga_proofs acc)) (\<lambda>ps.
       ret \<lparr>tg_keyset_id = i, tg_proofs = map (\<lambda>p. p\<lparr>tp_keyset_id := i\<rparr>) ps\<rparr>)))"

definition encode_token :: "externs \<Rightarrow> cbor \<Rightarrow> token_v4 \<Rightarrow> (cbor_error, bytes) res" where
  "encode_token X C t =
     res_bind (map_res (encode_group X C) (tk_tokens t)) (\<lambda>groups.
       Ok (e_map C (case tk_memo t of Some _ \<Rightarrow> 4 | None \<Rightarrow> 3)
           @ e_str C ''m'' @ e_str C (tk_mint t) @ e_str C ''u'' @ e_str C (tk_unit t)
           @ (case tk_memo t of Some memo \<Rightarrow> e_str C ''d'' @ e_str C memo | None \<Rightarrow> [])
           @ e_str C ''t'' @ e_array C (word_of_nat (length (tk_tokens t))) @ concat groups))"

record token_acc =
  ta_mint :: "string option"
  ta_unit :: "string option"
  ta_memo :: "string option"
  ta_tokens :: "token_v4_token list option"

definition token_entry :: "externs \<Rightarrow> cbor \<Rightarrow> string \<Rightarrow> token_acc \<Rightarrow> token_acc decoder" where
  "token_entry X C key acc =
     (if key = ''m'' then bind (dec (d_str C)) (\<lambda>v. ret (acc\<lparr>ta_mint := Some v\<rparr>))
      else if key = ''u'' then bind (dec (d_str C)) (\<lambda>v. ret (acc\<lparr>ta_unit := Some v\<rparr>))
      else if key = ''d'' then bind (dec (d_str C)) (\<lambda>v. ret (acc\<lparr>ta_memo := Some v\<rparr>))
      else if key = ''t'' then bind (decode_array C (decode_group X C)) (\<lambda>v. ret (acc\<lparr>ta_tokens := Some v\<rparr>))
      else bind (skip C) (\<lambda>_. ret acc))"

definition decode_token_v4 :: "externs \<Rightarrow> cbor \<Rightarrow> token_v4 decoder" where
  "decode_token_v4 X C =
     bind (foreach_key C (token_entry X C) \<lparr>ta_mint = None, ta_unit = None, ta_memo = None, ta_tokens = None\<rparr>) (\<lambda>acc.
     bind (required (missing ''m'') (ta_mint acc)) (\<lambda>m.
     bind (required (missing ''u'') (ta_unit acc)) (\<lambda>u.
     bind (required (missing ''t'') (ta_tokens acc)) (\<lambda>ts.
       ret \<lparr>tk_mint = m, tk_unit = u, tk_memo = ta_memo acc, tk_tokens = ts\<rparr>))))"

section \<open>The wire form\<close>

definition CASHU_B :: string where
  "CASHU_B = ''cashuB''"

definition decode_token :: "externs \<Rightarrow> cbor \<Rightarrow> bytes \<Rightarrow> (cbor_error, token_v4) res" where
  "decode_token X C data =
     (let payload = (case strip_prefix (as_bytes CASHU_B) data of Some stripped \<Rightarrow> stripped
        | None \<Rightarrow> (case strip_prefix (as_bytes ''crawB'') data of Some stripped \<Rightarrow> stripped | None \<Rightarrow> data))
      in case decode_base64url payload of
           Some decoded \<Rightarrow>
             (case fst (decode_token_v4 X C decoded) of Ok token \<Rightarrow> Ok token | _ \<Rightarrow> fst (decode_token_v4 X C payload))
         | None \<Rightarrow> fst (decode_token_v4 X C payload))"

definition encode_token_wire :: "externs \<Rightarrow> cbor \<Rightarrow> token_v4 \<Rightarrow> (cbor_error, string) res" where
  "encode_token_wire X C t =
     res_bind (encode_token X C t) (\<lambda>bytes. Ok (CASHU_B @ of_bytes (encode_base64url bytes)))"

section \<open>What the sources rely on\<close>

definition short :: "'a list \<Rightarrow> bool" where
  "short xs \<longleftrightarrow> length xs < 2 ^ 64"

definition str_ok :: "cbor \<Rightarrow> string \<Rightarrow> bool" where
  "str_ok C s \<longleftrightarrow> is_utf8 C s \<and> short s"

text \<open>Reading back what was written: the documented contract of the primitives.\<close>

definition cbor_ok :: "cbor \<Rightarrow> bool" where
  "cbor_ok C \<longleftrightarrow>
     (\<forall>n r. d_map C (e_map C n @ r) = Some (Some n, r))
     \<and> (\<forall>n r. d_array C (e_array C n @ r) = Some (Some n, r))
     \<and> (\<forall>n r. d_u64 C (e_u64 C n @ r) = Some (n, r))
     \<and> (\<forall>b r. short b \<longrightarrow> d_bytes C (e_bytes C b @ r) = Some (b, r))
     \<and> (\<forall>s r. str_ok C s \<longrightarrow> d_str C (e_str C s @ r) = Some (s, r))
     \<and> (\<forall>s. (\<forall>c \<in> set s. (of_char c :: nat) < 128) \<longrightarrow> is_utf8 C s)"

text \<open>Every primitive that succeeds has read at least one byte.\<close>

definition cbor_consumes :: "cbor \<Rightarrow> bool" where
  "cbor_consumes C \<longleftrightarrow>
     (\<forall>d x r. d_map C d = Some (x, r) \<longrightarrow> length r < length d)
     \<and> (\<forall>d x r. d_array C d = Some (x, r) \<longrightarrow> length r < length d)
     \<and> (\<forall>d x r. d_u64 C d = Some (x, r) \<longrightarrow> length r < length d)
     \<and> (\<forall>d x r. d_bytes C d = Some (x, r) \<longrightarrow> length r < length d)
     \<and> (\<forall>d x r. d_str C d = Some (x, r) \<longrightarrow> length r < length d)
     \<and> (\<forall>d r. d_skip C d = Some r \<longrightarrow> length r < length d)"

text \<open>Tokens whose parts fit the encoding and that carry the keyset id of their group.\<close>

definition scalar_ok :: "externs \<Rightarrow> secret_key \<Rightarrow> bool" where
  "scalar_ok X k \<longleftrightarrow> sk_from_slice X (to_secret_bytes k) = Some k"

definition proof_ok :: "externs \<Rightarrow> cbor \<Rightarrow> token_proof \<Rightarrow> bool" where
  "proof_ok X C p \<longleftrightarrow> str_ok C (tp_secret p) \<and> short (tp_c p)
     \<and> (case tp_dleq p of None \<Rightarrow> True | Some q \<Rightarrow> scalar_ok X (pd_e q) \<and> scalar_ok X (pd_s q) \<and> scalar_ok X (pd_r q))"

definition group_ok :: "externs \<Rightarrow> cbor \<Rightarrow> token_v4_token \<Rightarrow> bool" where
  "group_ok X C g \<longleftrightarrow> short (tg_proofs g) \<and> (\<forall>p \<in> set (tg_proofs g). proof_ok X C p \<and> tp_keyset_id p = tg_keyset_id g)
     \<and> (\<exists>b. hex_decode X (tg_keyset_id g) = Some b \<and> hex_encode X b = tg_keyset_id g \<and> short b)"

definition token_ok :: "externs \<Rightarrow> cbor \<Rightarrow> token_v4 \<Rightarrow> bool" where
  "token_ok X C t \<longleftrightarrow> str_ok C (tk_mint t) \<and> str_ok C (tk_unit t) \<and> (\<forall>m. tk_memo t = Some m \<longrightarrow> str_ok C m)
     \<and> short (tk_tokens t) \<and> (\<forall>g \<in> set (tk_tokens t). group_ok X C g)"

section \<open>Reading back\<close>

named_theorems reading \<open>decoders applied to what the encoders wrote\<close>

lemma dec_prims [reading]:
  assumes "cbor_ok C"
  shows "dec (d_map C) (e_map C n @ r) = (Ok (Some n), r)" "dec (d_array C) (e_array C n @ r) = (Ok (Some n), r)"
    "dec (d_u64 C) (e_u64 C n @ r) = (Ok n, r)" "short b \<Longrightarrow> dec (d_bytes C) (e_bytes C b @ r) = (Ok b, r)"
    "str_ok C s \<Longrightarrow> dec (d_str C) (e_str C s @ r) = (Ok s, r)"
  using assms by (simp_all add: dec_def cbor_ok_def)

text \<open>The single-letter keys of the sources.\<close>

lemma str_ok_key [reading]: "cbor_ok C \<Longrightarrow> (of_char c :: nat) < 128 \<Longrightarrow> str_ok C [c]"
  by (simp add: str_ok_def short_def cbor_ok_def)

lemma foreach_numeral [reading]:
  "foreach_n C f 2 acc = foreach_n C f (Suc (Suc 0)) acc"
  "foreach_n C f 3 acc = foreach_n C f (Suc (Suc (Suc 0))) acc"
  "foreach_n C f 4 acc = foreach_n C f (Suc (Suc (Suc (Suc 0)))) acc"
  by (simp_all add: numeral_eq_Suc del: foreach_n.simps)

lemma decode_n_concat:
  "list_all2 (\<lambda>bs y. \<forall>r. item (bs @ r) = (Ok y, r)) bss ys \<Longrightarrow> decode_n item (length ys) (concat bss @ r) = (Ok ys, r)"
  by (induction rule: list_all2_induct) (simp_all add: bind_def)

lemma decode_array_concat:
  assumes "cbor_ok C" "list_all2 (\<lambda>bs y. \<forall>r. item (bs @ r) = (Ok y, r)) bss ys" "short ys"
  shows "decode_array C item (e_array C (word_of_nat (length ys)) @ concat bss @ r) = (Ok ys, r)"
  using decode_n_concat[OF assms(2)] assms(1,3)
  by (simp add: decode_array_def bind_def reading short_def unat_of_nat_lt)

lemma scalar_reads [reading]:
  assumes "cbor_ok C" "scalar_ok X k"
  shows "scalar X C m (e_bytes C (to_secret_bytes k) @ r) = (Ok k, r)"
proof -
  have "short (to_secret_bytes k)"
    using assms(2) by (auto simp: scalar_ok_def sk_from_slice_def short_def split: if_splits)
  with assms show ?thesis by (simp add: scalar_def bind_def reading scalar_ok_def)
qed

lemma dleq_reads [reading]:
  assumes "cbor_ok C" "scalar_ok X (pd_e q)" "scalar_ok X (pd_s q)" "scalar_ok X (pd_r q)"
  shows "decode_dleq X C (encode_dleq C q @ r) = (Ok q, r)"
  using assms
  by (simp add: decode_dleq_def encode_dleq_def foreach_key_def dleq_entry_def required_def bind_def reading)

lemma proof_reads:
  assumes "cbor_ok C" "proof_ok X C p"
  shows "decode_proof X C (encode_proof C p @ r) = (Ok (p\<lparr>tp_keyset_id := []\<rparr>), r)"
proof (cases "tp_dleq p")
  case None
  with assms show ?thesis
    by (simp add: decode_proof_def encode_proof_def foreach_key_def proof_entry_def required_def bind_def proof_ok_def reading)
next
  case (Some q)
  with assms show ?thesis
    by (simp add: decode_proof_def encode_proof_def foreach_key_def proof_entry_def required_def bind_def proof_ok_def reading)
qed

lemma group_reads:
  assumes "cbor_ok C" "group_ok X C g" "encode_group X C g = Ok bs"
  shows "decode_group X C (bs @ r) = (Ok g, r)"
proof -
  from assms(2) obtain b where b: "hex_decode X (tg_keyset_id g) = Some b" "hex_encode X b = tg_keyset_id g" "short b"
    by (auto simp: group_ok_def)
  let ?ps = "map (\<lambda>p. p\<lparr>tp_keyset_id := []\<rparr>) (tg_proofs g)"
  have "list_all2 (\<lambda>bs y. \<forall>r. decode_proof X C (bs @ r) = (Ok y, r)) (map (encode_proof C) (tg_proofs g)) ?ps"
    using assms(1,2) by (auto simp: list_all2_conv_all_nth group_ok_def proof_reads)
  from decode_array_concat[OF assms(1) this] have arr:
    "decode_array C (decode_proof X C) (e_array C (word_of_nat (length (tg_proofs g)))
       @ concat (map (encode_proof C) (tg_proofs g)) @ r) = (Ok ?ps, r)" for r
    using assms(2) by (simp add: short_def group_ok_def)
  have "map (\<lambda>p. p\<lparr>tp_keyset_id := tg_keyset_id g\<rparr>) (tg_proofs g) = tg_proofs g"
    using assms(2) by (auto simp: group_ok_def intro: map_idI)
  with assms b arr show ?thesis
    by (auto simp: decode_group_def encode_group_def foreach_key_def group_entry_def required_def bind_def comp_def reading)
qed

lemma token_reads:
  assumes "cbor_ok C" "token_ok X C t" "encode_token X C t = Ok bs"
  shows "decode_token_v4 X C (bs @ r) = (Ok t, r)"
proof -
  from assms(3) obtain groups where g: "map_res (encode_group X C) (tk_tokens t) = Ok groups"
    by (auto simp: encode_token_def)
  then have "list_all2 (\<lambda>g bs. encode_group X C g = Ok bs) (tk_tokens t) groups" by (simp add: map_res_Ok_iff)
  then have "list_all2 (\<lambda>bs y. \<forall>r. decode_group X C (bs @ r) = (Ok y, r)) groups (tk_tokens t)"
    using assms(1,2) by (auto simp: list_all2_conv_all_nth token_ok_def intro!: group_reads)
  from decode_array_concat[OF assms(1) this] have arr:
    "decode_array C (decode_group X C) (e_array C (word_of_nat (length (tk_tokens t))) @ concat groups @ r) = (Ok (tk_tokens t), r)" for r
    using assms(2) by (simp add: token_ok_def)
  show ?thesis
  proof (cases "tk_memo t")
    case None
    with assms g arr show ?thesis
      by (auto simp: decode_token_v4_def encode_token_def foreach_key_def token_entry_def required_def bind_def token_ok_def reading)
  next
    case (Some m)
    with assms g arr show ?thesis
      by (auto simp: decode_token_v4_def encode_token_def foreach_key_def token_entry_def required_def bind_def token_ok_def reading)
  qed
qed

lemma encode_token_Ok:
  assumes "token_ok X C t"
  shows "\<exists>bs. encode_token X C t = Ok bs"
proof -
  have "\<exists>bs. encode_group X C g = Ok bs" if "g \<in> set (tk_tokens t)" for g
    using assms that by (force simp: token_ok_def group_ok_def encode_group_def)
  then have "list_all2 (\<lambda>g bs. encode_group X C g = Ok bs) (tk_tokens t)
      (map (\<lambda>g. SOME bs. encode_group X C g = Ok bs) (tk_tokens t))"
    by (auto simp: list_all2_conv_all_nth intro: someI_ex)
  then show ?thesis by (auto simp: encode_token_def simp flip: map_res_Ok_iff)
qed

text \<open>C12: a token survives its wire form. Every well-formed token has a wire form, and decoding that text gives
  the token back, with the keyset id of each group on each of its proofs, memo and DLEQ proofs included.\<close>

theorem token_wire_roundtrip:
  assumes "cbor_ok C" "token_ok X C t"
  shows "\<exists>w. encode_token_wire X C t = Ok w \<and> decode_token X C (as_bytes w) = Ok t"
proof -
  obtain bs where bs: "encode_token X C t = Ok bs" using encode_token_Ok[OF assms(2)] by blast
  with token_reads[OF assms bs, of "[]"] base64url.dec_enc[of bs] show ?thesis
    by (simp add: encode_token_wire_def decode_token_def comp_def Let_def)
qed

section \<open>The loops end\<close>

text \<open>On input \<open>d\<close>, a decoder that succeeds leaves at least \<open>k\<close> bytes fewer; it never panics or runs out of fuel.\<close>

definition steady_at :: "nat \<Rightarrow> 'a decoder \<Rightarrow> bytes \<Rightarrow> bool" where
  "steady_at k p d \<longleftrightarrow> (case p d of (Ok x, r) \<Rightarrow> length r + k \<le> length d | (Err e, r) \<Rightarrow> e \<noteq> OutOfFuel | (Panic, r) \<Rightarrow> False)"

abbreviation steady :: "nat \<Rightarrow> 'a decoder \<Rightarrow> bool" where
  "steady k p \<equiv> \<forall>d. steady_at k p d"

lemma steady_atD: "steady_at k p d \<Longrightarrow> p d = (Ok x, r) \<Longrightarrow> length r + k \<le> length d"
  by (simp add: steady_at_def)

lemma steady_at_bind:
  assumes "steady_at j p d" "\<And>x r. p d = (Ok x, r) \<Longrightarrow> length r + j \<le> length d \<Longrightarrow> steady_at k (f x) r"
  shows "steady_at (j + k) (bind p f) d"
proof (cases "p d")
  case (Pair out r)
  show ?thesis
  proof (cases out)
    case (Ok x)
    with Pair assms(1) have "length r + j \<le> length d" by (simp add: steady_at_def)
    with assms(2)[of x r] Pair Ok show ?thesis
      by (auto simp: steady_at_def bind_apply_Ok split: prod.splits res.splits)
  qed (use Pair assms(1) in \<open>simp_all add: steady_at_def bind_def\<close>)
qed

lemma steady_at_weaken: "steady_at k p d \<Longrightarrow> j \<le> k \<Longrightarrow> steady_at j p d"
  by (auto simp: steady_at_def split: prod.splits res.splits)

lemma steady_ret: "steady 0 (ret x)"
  by (simp add: steady_at_def)

lemma steady_required: "steady 0 (required m x)"
  by (cases x) (simp_all add: steady_at_def required_def)

lemma steady_bind0: "steady 0 p \<Longrightarrow> (\<And>x. steady 0 (f x)) \<Longrightarrow> steady 0 (bind p f)"
  using steady_at_bind[of 0 p _ 0 f] by simp

lemma steady_bind1: "steady 1 p \<Longrightarrow> (\<And>x. steady 0 (f x)) \<Longrightarrow> steady 1 (bind p f)"
  using steady_at_bind[of 1 p _ 0 f] by simp

lemma steady_weak: "steady 1 p \<Longrightarrow> steady 0 p"
  using steady_at_weaken by fastforce

lemma steady_dec: "(\<And>d x r. f d = Some (x, r) \<Longrightarrow> length r + k \<le> length d) \<Longrightarrow> steady k (dec f)"
  by (auto simp: steady_at_def dec_def split: option.splits)

lemma steady_prims:
  assumes "cbor_consumes C"
  shows "steady 1 (dec (d_map C))" "steady 1 (dec (d_array C))" "steady 1 (dec (d_u64 C))" "steady 1 (dec (d_bytes C))"
    "steady 1 (dec (d_str C))" "steady 1 (skip C)"
  unfolding skip_def using assms
  by (auto intro!: steady_dec[rule_format] simp: cbor_consumes_def Suc_le_eq)

lemma steady_at_break: "steady 0 (at_break C)"
  unfolding at_break_def by (rule steady_dec) auto

lemmas steady0_prims = steady_prims[THEN steady_weak]

lemma steady_foreach_n:
  assumes "cbor_consumes C" "\<And>key acc. steady 0 (on_entry key acc)"
  shows "steady 0 (foreach_n C on_entry n acc)"
proof (induction n arbitrary: acc)
  case (Suc n)
  show ?case unfolding foreach_n.simps
    by (intro steady_bind0 steady0_prims assms Suc)
qed (unfold foreach_n.simps, rule steady_ret)

lemma at_break_stays: "at_break C d = (Ok b, r) \<Longrightarrow> r = d"
  by (auto simp: at_break_def dec_def split: option.splits)

text \<open>With more fuel than bytes, the loops to the break are steady.\<close>

lemma steady_foreach_break:
  assumes "cbor_consumes C" "\<And>key acc. steady 0 (on_entry key acc)"
  shows "length d < fuel \<Longrightarrow> steady_at 0 (foreach_break C on_entry fuel acc) d"
proof (induction fuel arbitrary: acc d)
  case (Suc fuel)
  have stop: "steady_at 0 (bind (skip C) (\<lambda>_. ret acc)) d"
    by (rule steady_bind0[OF steady0_prims(6)[OF assms(1)] steady_ret, rule_format])
  have turn: "steady_at (1 + (0 + 0)) (bind (dec (d_str C)) (\<lambda>key. bind (on_entry key acc) (foreach_break C on_entry fuel))) d"
    by (intro steady_at_bind steady_prims[OF assms(1), rule_format] assms(2)[rule_format] Suc.IH) (use Suc.prems in simp)
  have "steady_at (0 + 0) (foreach_break C on_entry (Suc fuel) acc) d"
    unfolding foreach_break.simps
    by (rule steady_at_bind[OF steady_at_break[rule_format]])
      (use stop steady_at_weaken[OF turn, of 0] in \<open>auto dest!: at_break_stays\<close>)
  then show ?case by simp
qed simp

lemma steady_fueled: "(\<And>d. steady_at k (f (Suc (length d))) d) \<Longrightarrow> steady k (\<lambda>d. f (Suc (length d)) d)"
  by (simp add: steady_at_def)

lemma steady_foreach_key:
  assumes "cbor_consumes C" "\<And>key acc. steady 0 (on_entry key acc)"
  shows "steady 1 (foreach_key C on_entry acc)"
  unfolding foreach_key_def
proof (rule steady_bind1[OF steady_prims(1)[OF assms(1)]])
  fix len
  show "steady 0 (case len of Some n \<Rightarrow> foreach_n C on_entry (unat n) acc
      | None \<Rightarrow> (\<lambda>d. foreach_break C on_entry (Suc (length d)) acc d))"
  proof (cases len)
    case None
    show ?thesis unfolding None option.case
      by (rule steady_fueled) (rule steady_foreach_break[OF assms lessI])
  next
    case (Some n)
    then show ?thesis using steady_foreach_n[OF assms] by simp
  qed
qed

lemma steady_decode_n: "steady 0 item \<Longrightarrow> steady 0 (decode_n item n)"
proof (induction n)
  case (Suc n)
  then show ?case unfolding decode_n.simps by (intro steady_bind0 steady_ret)
qed (unfold decode_n.simps, rule steady_ret)

lemma steady_decode_break:
  assumes "cbor_consumes C" "steady 1 item"
  shows "length d < fuel \<Longrightarrow> steady_at 0 (decode_break C item fuel) d"
proof (induction fuel arbitrary: d)
  case (Suc fuel)
  have stop: "steady_at 0 (bind (skip C) (\<lambda>_. ret [])) d"
    by (rule steady_bind0[OF steady0_prims(6)[OF assms(1)] steady_ret, rule_format])
  have turn: "steady_at (1 + (0 + 0)) (bind item (\<lambda>x. bind (decode_break C item fuel) (\<lambda>xs. ret (x # xs)))) d"
    by (intro steady_at_bind assms(2)[rule_format] steady_ret[rule_format] Suc.IH) (use Suc.prems in simp)
  have "steady_at (0 + 0) (decode_break C item (Suc fuel)) d"
    unfolding decode_break.simps
    by (rule steady_at_bind[OF steady_at_break[rule_format]])
      (use stop steady_at_weaken[OF turn, of 0] in \<open>auto dest!: at_break_stays\<close>)
  then show ?case by simp
qed simp

lemma steady_decode_array:
  assumes "cbor_consumes C" "steady 1 item"
  shows "steady 1 (decode_array C item)"
  unfolding decode_array_def
proof (rule steady_bind1[OF steady_prims(2)[OF assms(1)]])
  fix len
  show "steady 0 (case len of Some n \<Rightarrow> decode_n item (unat n) | None \<Rightarrow> (\<lambda>d. decode_break C item (Suc (length d)) d))"
  proof (cases len)
    case None
    show ?thesis unfolding None option.case
      by (rule steady_fueled) (rule steady_decode_break[OF assms lessI])
  next
    case (Some n)
    then show ?thesis using steady_decode_n[OF steady_weak[OF assms(2)]] by simp
  qed
qed

lemma steady_if: "steady k p \<Longrightarrow> steady k q \<Longrightarrow> steady k (if b then p else q)"
  by simp

lemma steady_scalar: "cbor_consumes C \<Longrightarrow> steady 0 (scalar X C m)"
  unfolding scalar_def required_def[symmetric] by (intro steady_bind0 steady0_prims steady_required)

lemmas steady_rules = steady_bind0 steady_bind1 steady_if steady_ret steady_required steady_foreach_key steady0_prims

lemma steady_dleq: "cbor_consumes C \<Longrightarrow> steady 1 (decode_dleq X C)"
  unfolding decode_dleq_def dleq_entry_def by (intro steady_rules steady_scalar)

lemma steady_proof: "cbor_consumes C \<Longrightarrow> steady 1 (decode_proof X C)"
  unfolding decode_proof_def proof_entry_def by (intro steady_rules steady_weak[OF steady_dleq])

lemma steady_group: "cbor_consumes C \<Longrightarrow> steady 1 (decode_group X C)"
  unfolding decode_group_def group_entry_def
  by (intro steady_rules steady_weak[OF steady_decode_array] steady_proof)

lemma steady_token: "cbor_consumes C \<Longrightarrow> steady 1 (decode_token_v4 X C)"
  unfolding decode_token_v4_def token_entry_def
  by (intro steady_rules steady_weak[OF steady_decode_array] steady_group)

lemma decode_token_returns:
  assumes "cbor_consumes C"
  shows "decode_token X C data \<noteq> Err OutOfFuel" "decode_token X C data \<noteq> Panic"
proof -
  have "fst (decode_token_v4 X C d) \<noteq> Err OutOfFuel \<and> fst (decode_token_v4 X C d) \<noteq> Panic" for d
    using steady_token[OF assms, of X, rule_format, of d] by (auto simp: steady_at_def split: prod.splits)
  then show "decode_token X C data \<noteq> Err OutOfFuel" "decode_token X C data \<noteq> Panic"
    by (auto simp: decode_token_def Let_def split: option.splits res.splits)
qed

text \<open>Decoding a token ends on every input. The loops over maps and arrays of indefinite length
  never run out of the fuel of one turn per byte, so a decode returns a token or an error of the decoder itself, and never panics.\<close>

theorem decode_token_terminates:
  assumes "cbor_consumes C"
  shows "decode_token X C data \<noteq> Err OutOfFuel \<and> decode_token X C data \<noteq> Panic"
  using decode_token_returns[OF assms] by blast

section \<open>A concrete encoding\<close>

text \<open>CBOR with every head in its nine-byte form, a valid if wasteful encoding.\<close>

definition cbor_head :: "u8 \<Rightarrow> nat \<Rightarrow> bytes" where
  "cbor_head major n = (32 * major + 27) # to_be_bytes 8 n"

definition read_head :: "u8 \<Rightarrow> bytes \<Rightarrow> (nat \<times> bytes) option" where
  "read_head major d = (case d of [] \<Rightarrow> None
     | b # r \<Rightarrow> if b = 32 * major + 27 \<and> 8 \<le> length r then Some (from_be_bytes (take 8 r), drop 8 r) else None)"

definition read_counted :: "u8 \<Rightarrow> bytes \<Rightarrow> (bytes \<times> bytes) option" where
  "read_counted major d = (case read_head major d of None \<Rightarrow> None
     | Some (n, r) \<Rightarrow> if n \<le> length r then Some (take n r, drop n r) else None)"

definition wide_cbor :: cbor where
  "wide_cbor =
     \<lparr>e_map = (\<lambda>n. cbor_head 5 (unat n)), e_array = (\<lambda>n. cbor_head 4 (unat n)),
      e_str = (\<lambda>s. cbor_head 3 (length s) @ as_bytes s), e_bytes = (\<lambda>b. cbor_head 2 (length b) @ b),
      e_u64 = (\<lambda>n. cbor_head 0 (unat n)),
      d_map = (\<lambda>d. map_option (\<lambda>(n, r). (Some (word_of_nat n), r)) (read_head 5 d)),
      d_array = (\<lambda>d. map_option (\<lambda>(n, r). (Some (word_of_nat n), r)) (read_head 4 d)),
      d_str = (\<lambda>d. map_option (\<lambda>(b, r). (of_bytes b, r)) (read_counted 3 d)), d_bytes = read_counted 2,
      d_u64 = (\<lambda>d. map_option (\<lambda>(n, r). (word_of_nat n, r)) (read_head 0 d)),
      d_skip = (\<lambda>d. None), d_break = (\<lambda>d. case d of [] \<Rightarrow> None | b # _ \<Rightarrow> Some (b = 0xFF)), is_utf8 = (\<lambda>s. True)\<rparr>"

lemma read_head_head: "n < 2 ^ 64 \<Longrightarrow> read_head m (cbor_head m n @ r) = Some (n, r)"
  using from_to_be_bytes[of n 8] by (simp add: read_head_def cbor_head_def)

lemma read_counted_head: "short b \<Longrightarrow> read_counted m (cbor_head m (length b) @ b @ r) = Some (b, r)"
  by (simp add: read_counted_def short_def read_head_head)

lemma read_head_u64: "read_head m (cbor_head m (unat (n::u64)) @ r) = Some (unat n, r)"
  by (rule read_head_head) (use unat_bound[of n] in simp)

lemma wide_cbor_ok: "cbor_ok wide_cbor"
  unfolding cbor_ok_def
proof (intro conjI allI impI)
  fix s r assume "str_ok wide_cbor s"
  then have "short (as_bytes s)" by (simp add: str_ok_def short_def)
  from read_counted_head[OF this, of 3 r]
  show "d_str wide_cbor (e_str wide_cbor s @ r) = Some (s, r)" by (simp add: wide_cbor_def comp_def)
qed (simp_all add: wide_cbor_def read_head_u64 read_counted_head)

lemma read_head_shorter: "read_head m d = Some (n, r) \<Longrightarrow> length r < length d"
  by (auto simp: read_head_def split: list.splits if_splits)

lemma read_counted_shorter: "read_counted m d = Some (b, r) \<Longrightarrow> length r < length d"
  by (auto simp: read_counted_def dest!: read_head_shorter split: option.splits if_splits)

lemma wide_cbor_consumes: "cbor_consumes wide_cbor"
  by (auto simp: cbor_consumes_def wide_cbor_def dest: read_head_shorter read_counted_shorter)

definition sample_proof :: "string \<Rightarrow> token_proof" where
  "sample_proof secret = \<lparr>tp_amount = 8, tp_keyset_id = ''00ab'', tp_secret = secret, tp_c = [2, 3],
     tp_dleq = Some \<lparr>pd_e = SecretKey (replicate 32 1), pd_s = SecretKey (replicate 32 2), pd_r = SecretKey (replicate 32 3)\<rparr>\<rparr>"

definition sample_token :: token_v4 where
  "sample_token = \<lparr>tk_mint = ''https://mint'', tk_unit = ''sat'', tk_memo = Some ''hi'',
     tk_tokens = [\<lparr>tg_keyset_id = ''00ab'', tg_proofs = [sample_proof ''aa'', sample_proof ''bb'']\<rparr>]\<rparr>"

lemma sample_token_ok: "token_ok demo_externs wide_cbor sample_token"
  by (simp add: token_ok_def sample_token_def str_ok_def short_def group_ok_def proof_ok_def sample_proof_def
      scalar_ok_def sk_from_slice_def demo_externs_def wide_cbor_def comp_def)

theorem token_wire_roundtrip_witness:
  "\<exists>w. encode_token_wire demo_externs wide_cbor sample_token = Ok w
     \<and> decode_token demo_externs wide_cbor (as_bytes w) = Ok sample_token"
  by (rule token_wire_roundtrip[OF wide_cbor_ok sample_token_ok])

theorem decode_token_terminates_witness: "decode_token demo_externs wide_cbor [0xBF, 0xFF] \<noteq> Err OutOfFuel \<and> decode_token demo_externs wide_cbor [0xBF, 0xFF] \<noteq> Panic"
  by (rule decode_token_terminates[OF wide_cbor_consumes])

end
