(* ===== verification/Gate.thy ===== *)
theory Gate
  imports Token Dhke Store Conditions
begin

text \<open>
  The wallet facade and the offline gate of \<^verbatim>\<open>walletport\<close>: trust policy, token decoding with the
  facade's errors (\<^verbatim>\<open>lib.rs\<close>), the offline validator with its ring of spent secrets
  (\<^verbatim>\<open>offline.rs\<close>) and the controller that drives the board (\<^verbatim>\<open>gate.rs\<close>). The encoding of the ring
  is derived by a macro of \<^verbatim>\<open>minicbor\<close>, a parameter like the primitives themselves.
\<close>

section \<open>The facade\<close>

datatype wallet_port_error =
    WpDecode string
  | UntrustedMint string
  | WpInvalidProof string
  | LockedSecret
  | InsufficientAmount u64 u64
  | Replay
  | WpStorage string
  | Unsupported string

record trust_model =
  tm_accepted_mints :: "string list"
  tm_allow_untrusted :: bool

definition trust_new :: "string list \<Rightarrow> bool \<Rightarrow> trust_model" where
  "trust_new accepted allow = \<lparr>tm_accepted_mints = accepted, tm_allow_untrusted = allow\<rparr>"

definition mint_accepted :: "trust_model \<Rightarrow> string \<Rightarrow> bool" where
  "mint_accepted tm mint \<longleftrightarrow> mint \<in> set (tm_accepted_mints tm) \<or> tm_allow_untrusted tm"

definition secret_has_spending_conditions :: "string \<Rightarrow> bool" where
  "secret_has_spending_conditions secret \<longleftrightarrow> starts_with ''{'' secret"

definition strip_token_prefix :: "externs \<Rightarrow> string \<Rightarrow> bytes" where
  "strip_token_prefix X token =
     (let t = trim token in
      case strip_prefix CASHU_B t of
        Some rest \<Rightarrow> base64url_decode (as_bytes rest)
      | None \<Rightarrow> (case hex_decode X t of Some b \<Rightarrow> b | None \<Rightarrow> []))"

text \<open>
  The gate's own externals: the text of a decoding error, the derived encoding of the ring, and the
  parser of \<^verbatim>\<open>k256\<close> for points in compressed or uncompressed form.
\<close>

record spent_ring =
  sr_version :: u32
  sr_secrets :: "string list"

record gate_externs =
  error_text :: "cbor_error \<Rightarrow> string"
  ring_to_vec :: "spent_ring \<Rightarrow> bytes option"
  ring_decode :: "bytes \<Rightarrow> spent_ring option"
  from_sec1_bytes :: "bytes \<Rightarrow> public_key option"

definition decode_token_or_err ::
  "externs \<Rightarrow> cbor \<Rightarrow> gate_externs \<Rightarrow> string \<Rightarrow> (wallet_port_error, token_v4) res" where
  "decode_token_or_err X C G token =
     (case decode_token X C (strip_token_prefix X token) of
        Ok t \<Rightarrow> Ok t | Err e \<Rightarrow> Err (WpDecode (error_text G e)) | Panic \<Rightarrow> Panic)"

definition encode_token_wire_or_err ::
  "externs \<Rightarrow> cbor \<Rightarrow> gate_externs \<Rightarrow> token_v4 \<Rightarrow> (wallet_port_error, string) res" where
  "encode_token_wire_or_err X C G t =
     (case encode_token_wire X C t of
        Ok w \<Rightarrow> Ok w | Err e \<Rightarrow> Err (WpDecode (error_text G e)) | Panic \<Rightarrow> Panic)"

definition find_keyset :: "key_set list \<Rightarrow> string \<Rightarrow> key_set option" where
  "find_keyset pinned keyset_id = find (\<lambda>k. ks_id k = keyset_id) pinned"

section \<open>The offline validator\<close>

definition SPENT_RING_CAPACITY :: nat where
  "SPENT_RING_CAPACITY = 4096"

datatype gate_decision = GateOpen u64 | GateUnderpaid u64

record 's validator =
  va_trust :: trust_model
  va_pinned :: "key_set list"
  va_store :: 's
  va_spent :: "string list"

text \<open>The environment of a validator: the crates, the curve, the store's methods.\<close>

record ('p, 's) gate_env =
  ge_externs :: externs
  ge_cbor :: cbor
  ge_codec :: gate_externs
  ge_curve :: "'p curve"
  ge_store :: "'s proof_store"

definition validator_new ::
  "('p, 's) gate_env \<Rightarrow> string list \<Rightarrow> key_set list \<Rightarrow> 's \<Rightarrow> (wallet_port_error, 's validator) res" where
  "validator_new V accepted pinned store =
     (case ps_load (ge_store V) store of
        (Ok (Some blob), s) \<Rightarrow>
          Ok \<lparr>va_trust = trust_new accepted False, va_pinned = pinned, va_store = s,
              va_spent = (case ring_decode (ge_codec V) blob of
                 Some r \<Rightarrow> if sr_version r = 1 then sr_secrets r else [] | None \<Rightarrow> [])\<rparr>
      | (Ok None, s) \<Rightarrow> Ok \<lparr>va_trust = trust_new accepted False, va_pinned = pinned, va_store = s, va_spent = []\<rparr>
      | (Err e, s) \<Rightarrow> Err (WpStorage ''store unavailable'')
      | (Panic, s) \<Rightarrow> Panic)"

definition NO_DLEQ :: string where
  "NO_DLEQ = ''proof carries no NUT-12 dleq '' @ map char_of [0xE2, 0x80, 0x94 :: nat] @ '' offline verification impossible''"

definition check_proof :: "('p, 's) gate_env \<Rightarrow> key_set list \<Rightarrow> string list \<Rightarrow> token_proof \<Rightarrow> (wallet_port_error, unit) res" where
  "check_proof V pinned spent p =
     (if secret_has_spending_conditions (tp_secret p) then Err LockedSecret
      else if tp_secret p \<in> set spent then Err Replay
      else
        res_bind (ok_or (WpInvalidProof NO_DLEQ) (tp_dleq p)) (\<lambda>dleq.
        res_bind (ok_or (WpInvalidProof ''proof keyset not pinned'') (find_keyset pinned (tp_keyset_id p))) (\<lambda>keyset.
        res_bind (ok_or (WpInvalidProof ''no pinned key for denomination'')
                   (find (\<lambda>k. kp_amount k = tp_amount p) (ks_keys keyset))) (\<lambda>amount_key.
        res_bind (ok_or (WpInvalidProof ''secret not hex'') (hex_decode (ge_externs V) (tp_secret p))) (\<lambda>_.
        res_bind (ok_or (WpInvalidProof ''C not a point'') (from_sec1_bytes (ge_codec V) (tp_c p))) (\<lambda>c_point.
          if verify_proof_dleq (ge_externs V) (ge_curve V) (as_bytes (tp_secret p)) c_point dleq (kp_pubkey amount_key)
          then Ok () else Err (WpInvalidProof ''DLEQ verification failed'')))))))"

fun check_proofs :: "('p, 's) gate_env \<Rightarrow> key_set list \<Rightarrow> string list \<Rightarrow> token_proof list \<Rightarrow> (wallet_port_error, unit) res" where
  "check_proofs V pinned spent [] = Ok ()"
| "check_proofs V pinned spent (p # ps) = res_bind (check_proof V pinned spent p) (\<lambda>_. check_proofs V pinned spent ps)"

definition ring_push :: "string list \<Rightarrow> string list \<Rightarrow> string list" where
  "ring_push spent secrets =
     (let all = spent @ secrets in drop (length all - SPENT_RING_CAPACITY) all)"

definition validator_persist :: "('p, 's) gate_env \<Rightarrow> ('s validator, wallet_port_error, unit) op" where
  "validator_persist V v =
     (case ring_to_vec (ge_codec V) \<lparr>sr_version = 1, sr_secrets = va_spent v\<rparr> of
        None \<Rightarrow> (Err (WpStorage ''ring encode failed''), v)
      | Some blob \<Rightarrow>
          (case ps_save (ge_store V) blob (va_store v) of
             (Ok _, s) \<Rightarrow> (Ok (), v\<lparr>va_store := s\<rparr>)
           | (Err _, s) \<Rightarrow> (Err (WpStorage ''ring save failed''), v\<lparr>va_store := s\<rparr>)
           | (Panic, s) \<Rightarrow> (Panic, v\<lparr>va_store := s\<rparr>)))"

definition verify_token :: "('p, 's) gate_env \<Rightarrow> string \<Rightarrow> u64 \<Rightarrow> ('s validator, wallet_port_error, gate_decision) op" where
  "verify_token V token_wire price_sats =
     bind (lift_res (decode_token_or_err (ge_externs V) (ge_cbor V) (ge_codec V) token_wire)) (\<lambda>token.
     bind (gets va_trust) (\<lambda>tm.
     bind (guard_err (\<not> mint_accepted tm (tk_mint token)) (UntrustedMint (tk_mint token))) (\<lambda>_.
     bind (gets va_pinned) (\<lambda>pinned. bind (gets va_spent) (\<lambda>spent.
     bind (lift_res (check_proofs V pinned spent (token_proofs token))) (\<lambda>_.
       if total_amount token < price_sats then ret (GateUnderpaid (total_amount token))
       else
         bind (modify (\<lambda>v. v\<lparr>va_spent := ring_push (va_spent v) (map tp_secret (token_proofs token))\<rparr>)) (\<lambda>_.
         bind (validator_persist V) (\<lambda>_.
           ret (GateOpen (total_amount token))))))))))"

section \<open>The controller\<close>

datatype rejection_reason = NotAToken | Undecodable | RUntrustedMint | RLockedSecret | RReplay | RInvalidProof | Other

datatype gate_action = ActOpen u64 | ActUnderpaid u64 u64 | ActRejected rejection_reason

text \<open>What the board is asked to do, in order.\<close>

datatype io_event = IoOpen | SignalOk | SignalErr rejection_reason | Status string

definition reason_of :: "wallet_port_error \<Rightarrow> rejection_reason" where
  "reason_of e = (case e of WpDecode _ \<Rightarrow> Undecodable | UntrustedMint _ \<Rightarrow> RUntrustedMint | LockedSecret \<Rightarrow> RLockedSecret
     | Replay \<Rightarrow> RReplay | WpInvalidProof _ \<Rightarrow> RInvalidProof | _ \<Rightarrow> Other)"

definition token_char :: "char \<Rightarrow> bool" where
  "token_char c \<longleftrightarrow>
     (let n = (of_char c :: nat) in (48 \<le> n \<and> n \<le> 57) \<or> (65 \<le> n \<and> n \<le> 90) \<or> (97 \<le> n \<and> n \<le> 122))
     \<or> c = CHR ''-'' \<or> c = CHR ''_'' \<or> c = CHR ''=''"

definition extract_cashu_token :: "string \<Rightarrow> string option" where
  "extract_cashu_token payload =
     (let t = trim payload in
      case find_sub CASHU_B t of
        None \<Rightarrow> None
      | Some start \<Rightarrow>
          (let rest = drop (start + length CASHU_B) t
           in Some (CASHU_B @ takeWhile token_char rest)))"

text \<open>\<open>handle_scan\<close> returns the action, the board events and the validator it leaves; a panic stops the board.\<close>

definition handle_scan ::
  "('p, 's) gate_env \<Rightarrow> u64 \<Rightarrow> string \<Rightarrow> 's validator \<Rightarrow> (gate_action \<times> io_event list) option \<times> 's validator" where
  "handle_scan V price payload v =
     (case extract_cashu_token payload of
        None \<Rightarrow> (Some (ActRejected NotAToken, [SignalErr NotAToken]), v)
      | Some token \<Rightarrow>
          (case verify_token V token price v of
             (Ok (GateOpen total_sats), v') \<Rightarrow> (Some (ActOpen total_sats, [IoOpen, SignalOk, Status ''open'']), v')
           | (Ok (GateUnderpaid total_sats), v') \<Rightarrow>
               (Some (ActUnderpaid total_sats price, [SignalErr Other, Status ''underpaid'']), v')
           | (Err e, v') \<Rightarrow> (Some (ActRejected (reason_of e), [SignalErr (reason_of e)]), v')
           | (Panic, v') \<Rightarrow> (None, v')))"

definition bringup_status :: "u64 \<Rightarrow> string" where
  "bringup_status price = ''gate: price '' @ show_u64 price @ '' sats, validator ready''"

section \<open>What an open gate means\<close>

text \<open>
  A proof the validator takes: its secret starts with no brace and is hex, is not in the ring as it
  was before the token, and carries a DLEQ proof against the pinned key of its amount.
\<close>

definition proof_verified :: "('p, 's) gate_env \<Rightarrow> key_set list \<Rightarrow> string list \<Rightarrow> token_proof \<Rightarrow> bool" where
  "proof_verified V pinned spent p \<longleftrightarrow>
     \<not> secret_has_spending_conditions (tp_secret p) \<and> hex_decode (ge_externs V) (tp_secret p) \<noteq> None
     \<and> tp_secret p \<notin> set spent
     \<and> (\<exists>dleq ks k c. tp_dleq p = Some dleq \<and> ks \<in> set pinned \<and> ks_id ks = tp_keyset_id p \<and> k \<in> set (ks_keys ks)
          \<and> kp_amount k = tp_amount p \<and> from_sec1_bytes (ge_codec V) (tp_c p) = Some c
          \<and> verify_proof_dleq (ge_externs V) (ge_curve V) (as_bytes (tp_secret p)) c dleq (kp_pubkey k))"

text \<open>
  \<^verbatim>\<open>hex\<close> reads hex digits only. That is what keeps locked proofs out: the brace the facade looks for
  is not the first character of a NUT-10 secret, an array, but a text of hex digits is no array either.
\<close>

definition hex_digit :: "char \<Rightarrow> bool" where
  "hex_digit c \<longleftrightarrow> c \<in> set ''0123456789abcdefABCDEF''"

definition hex_reads_digits :: "externs \<Rightarrow> bool" where
  "hex_reads_digits X \<longleftrightarrow> (\<forall>s b. hex_decode X s = Some b \<longrightarrow> list_all hex_digit s)"

lemma digits_unconditional:
  assumes "list_all hex_digit s"
  shows "secret_parse s = None"
proof (cases s)
  case (Cons c cs)
  with assms have "hex_digit c" by simp
  then have "\<not> is_ws c" "c \<noteq> CHR ''[''" by (auto simp: hex_digit_def is_ws_def)
  with Cons show ?thesis by (intro secret_parse_ordinary[of s c cs]) simp_all
qed (simp add: secret_parse_def json_parse_def)

lemma check_proof_Ok: "check_proof V pinned spent p = Ok () \<Longrightarrow> proof_verified V pinned spent p"
  by (auto simp: check_proof_def proof_verified_def find_keyset_def dest!: find_SomeD split: if_splits)

lemma check_proofs_iff: "check_proofs V pinned spent ps = Ok () \<longleftrightarrow> (\<forall>p \<in> set ps. check_proof V pinned spent p = Ok ())"
  by (induction ps) auto

abbreviation gate_decode :: "('p, 's) gate_env \<Rightarrow> string \<Rightarrow> (wallet_port_error, token_v4) res" where
  "gate_decode V w \<equiv> decode_token_or_err (ge_externs V) (ge_cbor V) (ge_codec V) w"

lemma validator_persist_Ok:
  "validator_persist V v = (Ok u, v') \<longleftrightarrow>
     (\<exists>blob s. ring_to_vec (ge_codec V) \<lparr>sr_version = 1, sr_secrets = va_spent v\<rparr> = Some blob
        \<and> ps_save (ge_store V) blob (va_store v) = (Ok (), s) \<and> v' = v\<lparr>va_store := s\<rparr>)"
  by (auto simp: validator_persist_def split: option.splits prod.splits res.splits)

lemma verify_token_Open:
  assumes "verify_token V w price v = (Ok (GateOpen n), v')"
  obtains token blob where "gate_decode V w = Ok token" "mint_accepted (va_trust v) (tk_mint token)"
    "check_proofs V (va_pinned v) (va_spent v) (token_proofs token) = Ok ()"
    "n = total_amount token" "price \<le> n"
    "va_spent v' = ring_push (va_spent v) (map tp_secret (token_proofs token))"
    "ring_to_vec (ge_codec V) \<lparr>sr_version = 1, sr_secrets = va_spent v'\<rparr> = Some blob"
    "ps_save (ge_store V) blob (va_store v) = (Ok (), va_store v')"
    "va_trust v' = va_trust v" "va_pinned v' = va_pinned v"
  using assms that
  by (auto simp: verify_token_def bind_Ok_iff validator_persist_Ok not_less simp del: bind_lift_res bind_guard_err
      split: if_splits)

lemma verify_token_refuses:
  assumes "gate_decode V w = Ok token" "p \<in> set (token_proofs token)" "tp_secret p \<in> set (va_spent v)"
  shows "\<not> is_ok (fst (verify_token V w price v))"
proof -
  have "check_proof V (va_pinned v) (va_spent v) p \<noteq> Ok ()" using assms(3) by (simp add: check_proof_def)
  then have "check_proofs V (va_pinned v) (va_spent v) (token_proofs token) \<noteq> Ok ()"
    using assms(2) by (auto simp: check_proofs_iff)
  then show ?thesis
    using assms(1) by (auto simp: verify_token_def bind_def split: res.splits)
qed

lemma ring_push_last: "ring_push spent secrets = drop (length (spent @ secrets) - SPENT_RING_CAPACITY) (spent @ secrets)"
  by (simp add: ring_push_def Let_def)

lemma ring_keeps:
  assumes "length secrets \<le> SPENT_RING_CAPACITY"
  shows "set secrets \<subseteq> set (ring_push spent secrets)"
proof -
  have "length (spent @ secrets) - SPENT_RING_CAPACITY \<le> length spent" using assms by simp
  then have "ring_push spent secrets = drop (length (spent @ secrets) - SPENT_RING_CAPACITY) spent @ secrets"
    by (simp add: ring_push_last)
  then show ?thesis by simp
qed

text \<open>C9: an open gate was paid for. When the validator opens, the token is from an accepted mint; every one of
  its proofs carries a DLEQ proof against the pinned key of its amount, has a secret that was not in the ring
  before the token, and is locked to no one: the mint's NUT-10 parser finds no condition in its secret. The sum over
  the listed proofs, a repeated one counted each time, meets the price, and the ring with the token's secrets was saved before.\<close>

theorem gate_open_sound:
  assumes "verify_token V w price v = (Ok (GateOpen n), v')" "hex_reads_digits (ge_externs V)"
  shows "\<exists>token blob. gate_decode V w = Ok token \<and> mint_accepted (va_trust v) (tk_mint token)
    \<and> (\<forall>p \<in> set (token_proofs token). proof_verified V (va_pinned v) (va_spent v) p \<and> secret_parse (tp_secret p) = None)
    \<and> n = total_amount token \<and> price \<le> n
    \<and> va_spent v' = ring_push (va_spent v) (map tp_secret (token_proofs token))
    \<and> ring_to_vec (ge_codec V) \<lparr>sr_version = 1, sr_secrets = va_spent v'\<rparr> = Some blob
    \<and> ps_save (ge_store V) blob (va_store v) = (Ok (), va_store v')"
proof -
  have "secret_parse (tp_secret p) = None" if "check_proof V (va_pinned v) (va_spent v) p = Ok ()" for p
    using check_proof_Ok[OF that] assms(2) digits_unconditional[of "tp_secret p"]
    by (auto simp: proof_verified_def hex_reads_digits_def)
  with verify_token_Open[OF assms(1)] show ?thesis
    by (metis (no_types, lifting) check_proofs_iff check_proof_Ok)
qed

section \<open>The replay window\<close>

text \<open>
  The life of a validator between restarts, with the secrets it has entered so far: an opened gate
  and a failed save enter the secrets of the token, every other answer leaves the validator as it was.
\<close>

definition secrets_of :: "('p, 's) gate_env \<Rightarrow> string \<Rightarrow> string list" where
  "secrets_of V w = (case gate_decode V w of Ok token \<Rightarrow> map tp_secret (token_proofs token) | _ \<Rightarrow> [])"

inductive gate_life :: "('p, 's) gate_env \<Rightarrow> 's validator \<Rightarrow> string list \<Rightarrow> 's validator \<Rightarrow> bool" for V v0 where
  start: "gate_life V v0 [] v0"
| opened: "gate_life V v0 h v \<Longrightarrow> verify_token V w price v = (Ok (GateOpen n), v') \<Longrightarrow> gate_life V v0 (h @ secrets_of V w) v'"
| unsaved: "gate_life V v0 h v \<Longrightarrow> verify_token V w price v = (Err (WpStorage m), v') \<Longrightarrow> gate_life V v0 (h @ secrets_of V w) v'"
| underpaid: "gate_life V v0 h v \<Longrightarrow> verify_token V w price v = (Ok (GateUnderpaid n), v') \<Longrightarrow> gate_life V v0 h v'"
| refused: "gate_life V v0 h v \<Longrightarrow> verify_token V w price v = (Err e, v') \<Longrightarrow> \<forall>m. e \<noteq> WpStorage m \<Longrightarrow> gate_life V v0 h v'"

lemma check_proofs_not_storage: "check_proofs V pinned spent ps \<noteq> Err (WpStorage m)"
  by (induction ps) (auto simp: check_proof_def ok_or_def split: option.splits if_splits res.splits)

lemma verify_token_moves:
  assumes "verify_token V w price v = (r, v')"
  shows "r = Err (WpStorage m) \<Longrightarrow> va_spent v' = ring_push (va_spent v) (secrets_of V w)"
    and "r = Ok (GateUnderpaid n) \<Longrightarrow> v' = v"
    and "r = Err e \<Longrightarrow> \<forall>m. e \<noteq> WpStorage m \<Longrightarrow> v' = v"
  using assms check_proofs_not_storage[of V]
  by (auto simp: verify_token_def secrets_of_def bind_def validator_persist_def decode_token_or_err_def
      split: res.splits if_splits option.splits prod.splits)

lemma verify_token_opened: "verify_token V w price v = (Ok (GateOpen n), v') \<Longrightarrow> va_spent v' = ring_push (va_spent v) (secrets_of V w)"
  by (erule verify_token_Open) (simp add: secrets_of_def)

lemma ring_push_window:
  "ring_push (drop (length a - SPENT_RING_CAPACITY) a) b = drop (length (a @ b) - SPENT_RING_CAPACITY) (a @ b)"
proof (cases "length a \<le> SPENT_RING_CAPACITY")
  case False
  then have "drop (length a - SPENT_RING_CAPACITY) a @ b = drop (length a - SPENT_RING_CAPACITY) (a @ b)" by simp
  with False show ?thesis by (simp add: ring_push_last add.commute)
qed (simp add: ring_push_last)

lemma gate_window:
  assumes "gate_life V v0 h v" "length (va_spent v0) \<le> SPENT_RING_CAPACITY"
  shows "va_spent v = drop (length (va_spent v0 @ h) - SPENT_RING_CAPACITY) (va_spent v0 @ h)"
  using assms
proof (induction rule: gate_life.induct)
  case (opened h v w price n v')
  then show ?case using verify_token_opened[OF opened(2)] ring_push_window[of "va_spent v0 @ h"] by simp
next
  case (unsaved h v w price m v')
  then show ?case using verify_token_moves(1)[OF unsaved(2) refl] ring_push_window[of "va_spent v0 @ h"] by simp
next
  case (underpaid h v w price n v')
  then show ?case using verify_token_moves(2)[OF underpaid(2) refl] by simp
next
  case (refused h v w price e v')
  then show ?case using verify_token_moves(3)[OF refused(2) refl refused(3)] by simp
qed simp

text \<open>C10: no replay within the window. In any life of a validator, a token that carries one of the last
  4096 secrets entered, whether their gate opened or their save failed, is never answered with a decision.\<close>

theorem gate_no_replay:
  assumes "gate_life V v0 h v" "length (va_spent v0) \<le> SPENT_RING_CAPACITY"
    and "gate_decode V w = Ok token" "p \<in> set (token_proofs token)" "tp_secret p \<in> set (drop (length h - SPENT_RING_CAPACITY) h)"
  shows "\<not> is_ok (fst (verify_token V w price v))"
proof -
  have "set (drop (length h - SPENT_RING_CAPACITY) h) \<subseteq> set (va_spent v)"
    unfolding gate_window[OF assms(1,2)]
    by (cases "length (va_spent v0) \<le> length (va_spent v0 @ h) - SPENT_RING_CAPACITY") (auto simp: not_le)
  then show ?thesis using verify_token_refuses[OF assms(3,4)] assms(5) by blast
qed

text \<open>The ring survives a restart. When a gate has opened, a validator started on the store it left has the same
  ring, so it refuses every secret the opened token carried.\<close>

theorem gate_restart_keeps_ring:
  assumes "blob_store (ge_store V) stored"
    and "\<And>r blob. ring_to_vec (ge_codec V) r = Some blob \<Longrightarrow> ring_decode (ge_codec V) blob = Some r"
    and "verify_token V w price v = (Ok (GateOpen n), v')"
    and "validator_new V accepted pinned (va_store v') = Ok u"
  shows "va_spent u = va_spent v' \<and> stored (va_store u) = stored (va_store v')"
proof -
  from verify_token_Open[OF assms(3)] obtain blob where
    blob: "ring_to_vec (ge_codec V) \<lparr>sr_version = 1, sr_secrets = va_spent v'\<rparr> = Some blob"
    and save: "ps_save (ge_store V) blob (va_store v) = (Ok (), va_store v')" by metis
  obtain l s where l: "ps_load (ge_store V) (va_store v') = (l, s)" by fastforce
  show ?thesis
  proof (cases l)
    case (Ok c)
    with blob_store.load_after_save[OF assms(1) save] l have "c = Some blob" "stored s = Some blob" by auto
    with l Ok assms(2)[OF blob] assms(4) blob_store.save_stored[OF assms(1) save] show ?thesis
      by (auto simp: validator_new_def)
  qed (use l assms(4) in \<open>simp_all add: validator_new_def\<close>)
qed

text \<open>C11: the board opens last. Whatever was scanned, the board is told to open only when the validator decided so.
  Then the scanned token met the price, its secrets were pushed on the ring, which holds all of them when the token has at
  most 4096 proofs, and the store has saved that ring before the board was told.\<close>

theorem scan_opens_after_save:
  assumes "handle_scan V price payload v = (Some (act, events), v')"
  shows "(IoOpen \<in> set events \<longleftrightarrow> (\<exists>n. act = ActOpen n))
    \<and> (IoOpen \<in> set events \<longrightarrow> (\<exists>token blob w. extract_cashu_token payload = Some w \<and> gate_decode V w = Ok token
      \<and> price \<le> total_amount token
      \<and> va_spent v' = ring_push (va_spent v) (map tp_secret (token_proofs token))
      \<and> (length (token_proofs token) \<le> SPENT_RING_CAPACITY \<longrightarrow> tp_secret ` set (token_proofs token) \<subseteq> set (va_spent v'))
      \<and> ring_to_vec (ge_codec V) \<lparr>sr_version = 1, sr_secrets = va_spent v'\<rparr> = Some blob
      \<and> ps_save (ge_store V) blob (va_store v) = (Ok (), va_store v')))"
proof (cases "extract_cashu_token payload")
  case None
  with assms show ?thesis by (auto simp: handle_scan_def)
next
  case (Some w)
  show ?thesis
  proof (cases "\<exists>n v1. verify_token V w price v = (Ok (GateOpen n), v1)")
    case True
    then obtain n v1 where o: "verify_token V w price v = (Ok (GateOpen n), v1)" by blast
    with assms Some have a: "act = ActOpen n" "IoOpen \<in> set events" "v1 = v'" by (auto simp: handle_scan_def)
    show ?thesis
    proof (rule verify_token_Open[OF o])
      fix token blob
      assume "gate_decode V w = Ok token" "n = total_amount token" "price \<le> n"
        "va_spent v1 = ring_push (va_spent v) (map tp_secret (token_proofs token))"
        "ring_to_vec (ge_codec V) \<lparr>sr_version = 1, sr_secrets = va_spent v1\<rparr> = Some blob"
        "ps_save (ge_store V) blob (va_store v) = (Ok (), va_store v1)"
      with a Some ring_keeps[of "map tp_secret (token_proofs token)" "va_spent v"] show ?thesis
        by (intro conjI impI exI[of _ token] exI[of _ blob] exI[of _ w]) auto
    qed
  next
    case False
    with assms Some show ?thesis by (auto simp: handle_scan_def split: prod.splits res.splits gate_decision.splits)
  qed
qed

section \<open>The facade reads wire tokens\<close>

text \<open>A CBOR map starts with a byte of major type 5.\<close>

definition map_head :: "cbor \<Rightarrow> bool" where
  "map_head C \<longleftrightarrow> (\<forall>n. \<exists>b r. e_map C n = b # r \<and> 0xA0 \<le> b)"

lemma encode_base64url_in: "set (encode_base64url bs) \<subseteq> set BASE64_TABLE"
proof (induction bs rule: encode_base64url.induct)
  case (4 b0 b1 b2 rest)
  then show ?case by (simp add: Let_def table_at_nth)
qed (simp_all add: Let_def table_at_nth)

lemma token_char_graphic: "token_char c \<Longrightarrow> graphic c"
  by (auto simp: token_char_def graphic_def Let_def)

lemma alphabet_token_char:
  assumes "c \<in> set (of_bytes (encode_base64url bs))"
  shows "token_char c"
proof -
  have "set (of_bytes (encode_base64url bs)) \<subseteq> set (of_bytes BASE64_TABLE)"
    using encode_base64url_in[of bs] by (simp only: set_map image_mono)
  moreover have "list_all token_char (of_bytes BASE64_TABLE)"
    by (simp add: BASE64_TABLE_def comp_def token_char_def)
  ultimately show ?thesis using assms by (auto simp: list_all_iff)
qed

lemma wire_last: "graphic (last (CASHU_B @ of_bytes (encode_base64url bs)))" (is "graphic (last ?w)")
proof (cases "encode_base64url bs = []")
  case False
  then have "last ?w \<in> set (of_bytes (encode_base64url bs))" by (metis last_appendR last_in_set map_is_Nil_conv)
  then show ?thesis by (rule token_char_graphic[OF alphabet_token_char])
qed (simp add: CASHU_B_def graphic_def)

lemma wire_trim: "trim (CASHU_B @ of_bytes (encode_base64url bs)) = CASHU_B @ of_bytes (encode_base64url bs)"
  by (rule trim_graphic) (use wire_last[of bs] in \<open>simp_all add: CASHU_B_def graphic_def\<close>)

lemma raw_not_base64:
  assumes "decode_base64url (b # bs) = Some d" "0xA0 \<le> b"
  shows "d = []"
proof -
  have none: "DECODE_TABLE b = None" using assms(2) by (auto simp: DECODE_TABLE_def word_le_nat_alt)
  have "decode_groups (strip_padding (b # bs)) = Some d" using assms(1) by (simp add: decode_base64url_def)
  moreover have "strip_padding (b # bs) = [] \<or> (\<exists>r. strip_padding (b # bs) = b # r)"
    by (auto simp: strip_padding_def dropWhile_append) (metis rev_rev_ident)
  ultimately show ?thesis
    using none by (elim disjE exE) (auto elim!: decode_groups.elims)
qed

lemma decode_raw:
  assumes "cbor_ok C" "cbor_consumes C" "map_head C" "token_ok X C t" "encode_token X C t = Ok bs"
  shows "decode_token X C bs = Ok t"
proof -
  obtain b r where bs: "bs = b # r" and b: "0xA0 \<le> b"
  proof -
    from assms(5) obtain n rest where "bs = e_map C n @ rest" by (auto simp: encode_token_def)
    moreover obtain b r where "e_map C n = b # r" "0xA0 \<le> b" using assms(3) unfolding map_head_def by blast
    ultimately show ?thesis using that by simp
  qed
  have "strip_prefix (as_bytes CASHU_B) bs = None" "strip_prefix (as_bytes ''crawB'') bs = None"
    using b by (auto simp: bs CASHU_B_def byte_of_def word_le_nat_alt)
  moreover have "fst (decode_token_v4 X C bs) = Ok t" using token_reads[OF assms(1,4,5), of "[]"] by simp
  moreover have "fst (decode_token_v4 X C []) \<noteq> Ok u" for u
    using steady_token[OF assms(2), of X, rule_format, of "[]"] by (auto simp: steady_at_def split: prod.splits)
  moreover have "decode_base64url bs = Some d \<Longrightarrow> d = []" for d using raw_not_base64[of b r d] b bs by blast
  ultimately show ?thesis
    by (cases "decode_base64url bs") (simp_all add: decode_token_def split: res.split)
qed

lemma wire_extract: "extract_cashu_token (CASHU_B @ of_bytes (encode_base64url bs)) = Some (CASHU_B @ of_bytes (encode_base64url bs))"
proof -
  have "takeWhile token_char (of_bytes (encode_base64url bs)) = of_bytes (encode_base64url bs)"
    unfolding takeWhile_eq_all_conv using alphabet_token_char by blast
  then show ?thesis
    unfolding extract_cashu_token_def wire_trim Let_def by (simp add: CASHU_B_def starts_with_def)
qed

lemma facade_reads:
  assumes "cbor_ok C" "cbor_consumes C" "map_head C" "token_ok X C t"
  shows "\<exists>w. encode_token_wire_or_err X C G t = Ok w \<and> extract_cashu_token w = Some w \<and> decode_token_or_err X C G w = Ok t"
proof -
  obtain bs where bs: "encode_token X C t = Ok bs" using encode_token_Ok[OF assms(4)] by blast
  have "strip_token_prefix X (CASHU_B @ of_bytes (encode_base64url bs)) = bs"
    unfolding strip_token_prefix_def wire_trim Let_def by (simp add: comp_def base64url_decode_def loop_encode)
  with decode_raw[OF assms bs] bs show ?thesis
    by (simp add: encode_token_wire_or_err_def encode_token_wire_def decode_token_or_err_def wire_extract)
qed

text \<open>What the wallet prints the gate reads. The facade gives every well-formed token a wire text; the scanner's
  filter passes that text unchanged and the facade decodes it to the same token.\<close>

theorem facade_roundtrip:
  assumes "cbor_ok C" "cbor_consumes C" "map_head C" "token_ok X C t"
  shows "\<exists>w. encode_token_wire_or_err X C G t = Ok w \<and> extract_cashu_token w = Some w \<and> decode_token_or_err X C G w = Ok t"
  by (rule facade_reads[OF assms])

section \<open>A gate at work\<close>

text \<open>A gate on the small group of \<^verbatim>\<open>Dhke\<close>, with the ring stored as a version and an array of texts.\<close>

definition ring_fields :: "bytes \<Rightarrow> (cbor_error, spent_ring) res \<times> bytes" where
  "ring_fields = bind (dec (d_u64 wide_cbor)) (\<lambda>v. bind (decode_array wide_cbor (dec (d_str wide_cbor))) (\<lambda>s.
     ret \<lparr>sr_version = ucast v, sr_secrets = s\<rparr>))"

definition ring_codec :: gate_externs where
  "ring_codec =
     \<lparr>error_text = (\<lambda>e. []),
      ring_to_vec = (\<lambda>r. if short (sr_secrets r) \<and> list_all (str_ok wide_cbor) (sr_secrets r)
        then Some (e_u64 wide_cbor (ucast (sr_version r)) @ e_array wide_cbor (word_of_nat (length (sr_secrets r)))
          @ concat (map (e_str wide_cbor) (sr_secrets r))) else None),
      ring_decode = (\<lambda>b. case ring_fields b of (Ok r, rest) \<Rightarrow> Some r | _ \<Rightarrow> None),
      from_sec1_bytes = (\<lambda>b. Some (PublicKey b))\<rparr>"

lemma ring_codec_reads:
  assumes "ring_to_vec ring_codec r = Some blob"
  shows "ring_decode ring_codec blob = Some r"
proof -
  from assms have ok: "short (sr_secrets r)" "\<And>s. s \<in> set (sr_secrets r) \<Longrightarrow> str_ok wide_cbor s"
    and blob: "blob = e_u64 wide_cbor (ucast (sr_version r)) @ e_array wide_cbor (word_of_nat (length (sr_secrets r)))
          @ concat (map (e_str wide_cbor) (sr_secrets r))"
    by (auto simp: ring_codec_def list_all_iff split: if_splits)
  have "list_all2 (\<lambda>bs y. \<forall>r. dec (d_str wide_cbor) (bs @ r) = (Ok y, r)) (map (e_str wide_cbor) (sr_secrets r)) (sr_secrets r)"
    using ok(2) dec_prims(5)[OF wide_cbor_ok] by (auto simp: list_all2_conv_all_nth)
  from decode_array_concat[OF wide_cbor_ok this ok(1), of "[]"]
  have "ring_fields blob = (Ok r, [])"
    by (simp add: ring_fields_def blob bind_def dec_prims(3)[OF wide_cbor_ok] ucast_up_ucast_id is_up)
  then show ?thesis by (simp add: ring_codec_def)
qed

definition z5_hex :: externs where
  "z5_hex = z5_externs\<lparr>hex_decode := (\<lambda>s. if list_all hex_digit s then Some (as_bytes s) else None)\<rparr>"

lemma z5_hex_reads: "hex_reads_digits z5_hex"
  by (simp add: hex_reads_digits_def z5_hex_def)

lemma z5_hex_hash: "hash_e z5_hex K r1 r2 A c = hash_e z5_externs K r1 r2 A c"
  by (simp add: hash_e_def z5_hex_def)

lemma z5_hex_verifies: "verify_proof_dleq z5_hex = verify_proof_dleq z5_externs"
proof -
  have "hash_to_curve_from z5_hex m n k = hash_to_curve_from z5_externs m n k" for m n k
    by (induction k arbitrary: n) (simp_all add: z5_hex_def pk_from_bytes_def)
  then have "hash_to_curve z5_hex = hash_to_curve z5_externs"
    by (simp add: hash_to_curve_def fun_eq_iff) (simp add: z5_hex_def)
  moreover have "pubkey_of z5_hex = pubkey_of z5_externs" by (simp add: z5_hex_def)
  ultimately show ?thesis
    unfolding fun_eq_iff by (simp only: verify_proof_dleq_def blind_message_def verify_dleq_def z5_hex_hash) simp
qed

definition z5_gate :: "(z5, memory_store) gate_env" where
  "z5_gate = \<lparr>ge_externs = z5_hex, ge_cbor = wide_cbor, ge_codec = ring_codec, ge_curve = z5_curve, ge_store = memory_store\<rparr>"

definition z5_proof :: "string \<Rightarrow> token_proof" where
  "z5_proof secret = \<lparr>tp_amount = 8, tp_keyset_id = ''00ab'', tp_secret = secret, tp_c = [1],
     tp_dleq = Some \<lparr>pd_e = z5_key 1, pd_s = z5_key 3, pd_r = z5_key 1\<rparr>\<rparr>"

definition z5_token :: "string list \<Rightarrow> token_v4" where
  "z5_token secrets = \<lparr>tk_mint = ''https://mint'', tk_unit = ''sat'', tk_memo = None,
     tk_tokens = [\<lparr>tg_keyset_id = ''00ab'', tg_proofs = map z5_proof secrets\<rparr>]\<rparr>"

definition z5_pinned :: key_set where
  "z5_pinned = \<lparr>ks_id = ''00ab'', ks_unit = ''sat'', ks_keys = [\<lparr>kp_amount = 8, kp_pubkey = pubkey_of z5_externs (z5_key 2)\<rparr>]\<rparr>"

definition z5_validator :: "memory_store validator" where
  "z5_validator = \<lparr>va_trust = trust_new [''https://mint''] False, va_pinned = [z5_pinned], va_store = None, va_spent = []\<rparr>"

lemma z5_verifies:
  "verify_proof_dleq z5_externs z5_curve m (PublicKey [1]) \<lparr>pd_e = z5_key 1, pd_s = z5_key 3, pd_r = z5_key 1\<rparr> (pubkey_of z5_externs (z5_key 2))"
proof -
  obtain bm where bm: "blind_message z5_externs z5_curve m (Some (z5_key 1)) (z5_key 1) = Ok bm" "to_point z5_curve (bl_blinded bm) = z5 4"
    using z5_blinds by blast
  have k: "to_scalar (z5_key 1) = 1" "to_scalar (z5_key 2) = 2" "to_scalar (z5_key 3) = 3"
    using z5_key_scalar[of 1] z5_key_scalar[of 2] z5_key_scalar[of 3] by simp_all
  have a: "to_point z5_curve (pubkey_of z5_externs (z5_key 2)) = z5 2"
    using pubkey_point[OF z5_ok z5_key_ok[of 2]] k by (simp add: z5_curve_def z5_eq_iff)
  have c: "c_add z5_curve (to_point z5_curve (PublicKey [1])) (c_mul z5_curve 1 (z5 2)) = z5 3"
    by (simp add: z5_point) (simp add: z5_curve_def z5_eq_iff)
  obtain p1 p3 p4 where p: "of_point z5_curve (z5 1) = Some p1" "of_point z5_curve (z5 3) = Some p3" "of_point z5_curve (z5 4) = Some p4"
    using z5_of_point[of 1] z5_of_point[of 3] z5_of_point[of 4] by auto
  have r: "c_sub z5_curve (c_mul z5_curve 3 (c_gen z5_curve)) (c_mul z5_curve 1 (z5 2)) = z5 1"
    "c_sub z5_curve (c_mul z5_curve 3 (z5 4)) (c_mul z5_curve 1 (z5 3)) = z5 4"
    by (simp_all add: c_sub_def z5_curve_def z5_eq_iff)
  have h: "to_secret_bytes (z5_key 1) = hash_e z5_externs z5_curve r1 r2 A C" for r1 r2 A C
    by (simp add: hash_e_def z5_externs_def z5_key_def)
  show ?thesis
    unfolding verify_proof_dleq_def verify_dleq_def dleq_r1_def dleq_r2_def
    using bm a c p r h of_pointD[OF z5_ok p(2)] k by simp
qed

definition z5_secrets_ok :: "string list \<Rightarrow> bool" where
  "z5_secrets_ok ss \<longleftrightarrow> short ss \<and> list_all (\<lambda>s. str_ok wide_cbor s \<and> \<not> starts_with ''{'' s \<and> list_all hex_digit s) ss"

lemma z5_scalar_ok: "0 < v \<Longrightarrow> v < 5 \<Longrightarrow> scalar_ok z5_hex (z5_key v)"
  using z5_key_scalar[of v] unfolding scalar_ok_def sk_from_slice_def to_scalar_def z5_key_def
  by (simp add: z5_hex_def z5_externs_def)

lemma z5_token_ok: "z5_secrets_ok ss \<Longrightarrow> token_ok z5_hex wide_cbor (z5_token ss)"
  using z5_scalar_ok[of 1] z5_scalar_ok[of 3]
  by (auto simp: token_ok_def z5_token_def str_ok_def short_def group_ok_def proof_ok_def z5_proof_def list_all_iff
      wide_cbor_def z5_secrets_ok_def z5_hex_def z5_externs_def demo_externs_def hex_digit_def comp_def)

lemma wide_map_head: "map_head wide_cbor"
  by (simp add: map_head_def wide_cbor_def cbor_head_def)

lemma z5_token_proofs: "token_proofs (z5_token ss) = map z5_proof ss"
  by (simp add: token_proofs_def z5_token_def)

lemma z5_total: "total_amount (z5_token ss) = 8 * word_of_nat (length ss)"
  unfolding total_amount_def z5_token_proofs by (induction ss) (simp_all add: z5_proof_def algebra_simps)

lemma z5_checks:
  assumes "z5_secrets_ok ss" "set ss \<inter> set spent = {}"
  shows "check_proofs z5_gate [z5_pinned] spent (map z5_proof ss) = Ok ()"
  unfolding check_proofs_iff
proof
  fix p assume "p \<in> set (map z5_proof ss)"
  then obtain s where s: "s \<in> set ss" "p = z5_proof s" by auto
  have "verify_proof_dleq z5_externs z5_curve (as_bytes s) (PublicKey [1]) \<lparr>pd_e = z5_key 1, pd_s = z5_key 3, pd_r = z5_key 1\<rparr> (pubkey_of z5_externs (z5_key 2))"
    by (rule z5_verifies)
  moreover have "\<not> secret_has_spending_conditions s" "s \<notin> set spent"
    using s(1) assms by (auto simp: z5_secrets_ok_def list_all_iff secret_has_spending_conditions_def)
  moreover have "hex_decode z5_hex s = Some (as_bytes s)"
    using s(1) assms(1) by (simp add: z5_hex_def z5_secrets_ok_def list_all_iff)
  ultimately show "check_proof z5_gate [z5_pinned] spent p = Ok ()"
    by (simp add: check_proof_def s(2) z5_proof_def z5_gate_def find_keyset_def z5_pinned_def ring_codec_def z5_hex_verifies)
qed

lemma z5_ring_saves:
  assumes "z5_secrets_ok (ring_push spent ss)"
  shows "\<exists>blob. ring_to_vec (ge_codec z5_gate) \<lparr>sr_version = 1, sr_secrets = ring_push spent ss\<rparr> = Some blob"
  using assms by (simp add: z5_gate_def ring_codec_def z5_secrets_ok_def list_all_iff)

lemma z5_opens:
  assumes "z5_secrets_ok ss" "z5_secrets_ok (ring_push spent ss)" "set ss \<inter> set spent = {}" "price \<le> 8 * word_of_nat (length ss)"
    and v: "v = z5_validator\<lparr>va_spent := spent, va_store := s\<rparr>"
  shows "\<exists>w s'. extract_cashu_token w = Some w \<and> gate_decode z5_gate w = Ok (z5_token ss)
    \<and> verify_token z5_gate w price v = (Ok (GateOpen (8 * word_of_nat (length ss))), v\<lparr>va_spent := ring_push spent ss, va_store := s'\<rparr>)"
proof -
  obtain w where w: "extract_cashu_token w = Some w" "gate_decode z5_gate w = Ok (z5_token ss)"
    using facade_reads[OF wide_cbor_ok wide_cbor_consumes wide_map_head z5_token_ok[OF assms(1)], of ring_codec] by (auto simp: z5_gate_def)
  obtain blob where blob: "ring_to_vec (ge_codec z5_gate) \<lparr>sr_version = 1, sr_secrets = ring_push spent ss\<rparr> = Some blob"
    using z5_ring_saves[OF assms(2)] by blast
  have acc: "mint_accepted (va_trust v) (tk_mint (z5_token ss))" by (simp add: v z5_validator_def mint_accepted_def trust_new_def z5_token_def)
  have secrets: "map tp_secret (token_proofs (z5_token ss)) = ss" by (simp add: z5_token_proofs comp_def z5_proof_def)
  have "check_proofs z5_gate (va_pinned v) (va_spent v) (token_proofs (z5_token ss)) = Ok ()"
    using z5_checks[OF assms(1,3)] by (simp add: v z5_validator_def z5_token_proofs)
  with w(2) acc blob assms(4) have "verify_token z5_gate w price v
      = (Ok (GateOpen (8 * word_of_nat (length ss))), v\<lparr>va_spent := ring_push spent ss, va_store := Some blob\<rparr>)"
    by (simp add: verify_token_def bind_def validator_persist_def z5_total secrets not_less v)
      (simp add: z5_gate_def memory_store_def memory_save_def)
  with w show ?thesis by blast
qed

lemma z5_opens_first:
  assumes "ss = [''aa''] \<or> ss = [''aa'', ''aa'']" "price \<le> 8 * word_of_nat (length ss)"
  shows "\<exists>w s'. extract_cashu_token w = Some w \<and> gate_decode z5_gate w = Ok (z5_token ss)
    \<and> verify_token z5_gate w price z5_validator = (Ok (GateOpen (8 * word_of_nat (length ss))), z5_validator\<lparr>va_spent := ss, va_store := s'\<rparr>)"
proof -
  have "z5_secrets_ok ss" "ring_push [] ss = ss"
    using assms(1) by (auto simp: z5_secrets_ok_def str_ok_def short_def wide_cbor_def starts_with_def hex_digit_def ring_push_def SPENT_RING_CAPACITY_def)
  with z5_opens[of ss "[]" price z5_validator None] assms(2) show ?thesis by (simp add: z5_validator_def)
qed

theorem gate_open_sound_witness:
  "\<exists>w v' token. verify_token z5_gate w 8 z5_validator = (Ok (GateOpen 8), v') \<and> gate_decode z5_gate w = Ok token
     \<and> token_proofs token = [z5_proof ''aa''] \<and> proof_verified z5_gate [z5_pinned] [] (z5_proof ''aa'')
     \<and> secret_parse ''aa'' = None"
proof -
  obtain w s' where w: "gate_decode z5_gate w = Ok (z5_token [''aa''])"
    "verify_token z5_gate w 8 z5_validator = (Ok (GateOpen 8), z5_validator\<lparr>va_spent := [''aa''], va_store := s'\<rparr>)"
    using z5_opens_first[of "[''aa'']" 8] by auto
  have t: "token_proofs (z5_token [''aa'']) = [z5_proof ''aa'']" by (simp add: z5_token_proofs)
  have "va_pinned z5_validator = [z5_pinned]" "va_spent z5_validator = []" "hex_reads_digits (ge_externs z5_gate)"
    by (simp_all add: z5_validator_def z5_gate_def z5_hex_reads)
  with gate_open_sound[OF w(2)] w(1) t
  have "proof_verified z5_gate [z5_pinned] [] (z5_proof ''aa'') \<and> secret_parse (tp_secret (z5_proof ''aa'')) = None" by auto
  with w t show ?thesis by (auto simp: z5_proof_def)
qed

theorem gate_no_replay_witness:
  "\<exists>w v'. verify_token z5_gate w 8 z5_validator = (Ok (GateOpen 8), v') \<and> \<not> is_ok (fst (verify_token z5_gate w 8 v'))"
proof -
  obtain w v' where w: "gate_decode z5_gate w = Ok (z5_token [''aa''])"
    "verify_token z5_gate w 8 z5_validator = (Ok (GateOpen 8), v')"
    using z5_opens_first[of "[''aa'']" 8] by auto
  have "secrets_of z5_gate w = [''aa'']" by (simp add: secrets_of_def w(1) z5_token_proofs z5_proof_def)
  with gate_life.opened[OF gate_life.start w(2)] have life: "gate_life z5_gate z5_validator [''aa''] v'" by simp
  have "\<not> is_ok (fst (verify_token z5_gate w 8 v'))"
    by (rule gate_no_replay[OF life _ w(1), of "z5_proof ''aa''"])
      (simp_all add: z5_validator_def z5_token_proofs, simp add: z5_proof_def SPENT_RING_CAPACITY_def)
  with w show ?thesis by blast
qed

theorem gate_restart_keeps_ring_witness:
  "\<exists>w v' u. verify_token z5_gate w 8 z5_validator = (Ok (GateOpen 8), v')
     \<and> validator_new z5_gate [''https://mint''] [z5_pinned] (va_store v') = Ok u \<and> va_spent u = [''aa'']"
proof -
  obtain w s' where w: "verify_token z5_gate w 8 z5_validator = (Ok (GateOpen 8), z5_validator\<lparr>va_spent := [''aa''], va_store := s'\<rparr>)"
    using z5_opens_first[of "[''aa'']" 8] by auto
  let ?v = "z5_validator\<lparr>va_spent := [''aa''], va_store := s'\<rparr>"
  have store: "ge_store z5_gate = memory_store" by (simp add: z5_gate_def)
  obtain u where u: "validator_new z5_gate [''https://mint''] [z5_pinned] (va_store ?v) = Ok u"
    by (cases s') (auto simp: validator_new_def store memory_store_def memory_load_def)
  have "va_spent u = va_spent ?v \<and> va_store u = va_store ?v"
    by (rule gate_restart_keeps_ring[OF _ _ w u])
      (simp_all add: store memory.blob_store_axioms, simp add: z5_gate_def ring_codec_reads)
  with w u show ?thesis by (intro exI conjI) (rule w, rule u, simp)
qed

theorem scan_opens_after_save_witness:
  "\<exists>w events v' blob. handle_scan z5_gate 8 w z5_validator = (Some (ActOpen 8, events), v') \<and> events = [IoOpen, SignalOk, Status ''open'']
     \<and> ''aa'' \<in> set (va_spent v') \<and> ring_to_vec ring_codec \<lparr>sr_version = 1, sr_secrets = va_spent v'\<rparr> = Some blob
     \<and> ps_save memory_store blob None = (Ok (), va_store v')"
proof -
  obtain w v' where w: "extract_cashu_token w = Some w" "gate_decode z5_gate w = Ok (z5_token [''aa''])"
    "verify_token z5_gate w 8 z5_validator = (Ok (GateOpen 8), v')"
    using z5_opens_first[of "[''aa'']" 8] by auto
  then have h: "handle_scan z5_gate 8 w z5_validator = (Some (ActOpen 8, [IoOpen, SignalOk, Status ''open'']), v')"
    by (simp add: handle_scan_def)
  have "length (token_proofs (z5_token [''aa''])) \<le> SPENT_RING_CAPACITY" "''aa'' \<in> tp_secret ` set (token_proofs (z5_token [''aa'']))"
    by (simp_all add: z5_token_proofs SPENT_RING_CAPACITY_def) (simp add: z5_proof_def)
  moreover have "ge_store z5_gate = memory_store" "ge_codec z5_gate = ring_codec" "va_store z5_validator = None"
    by (simp_all add: z5_gate_def z5_validator_def)
  ultimately show ?thesis using scan_opens_after_save[OF h] w(1,2) h by auto
qed

theorem facade_roundtrip_witness:
  "\<exists>w. encode_token_wire_or_err demo_externs wide_cbor ring_codec sample_token = Ok w \<and> extract_cashu_token w = Some w
     \<and> decode_token_or_err demo_externs wide_cbor ring_codec w = Ok sample_token"
  by (rule facade_roundtrip[OF wide_cbor_ok wide_cbor_consumes wide_map_head sample_token_ok])

text \<open>The validator compares each proof with the ring as it was before the token, not with the token's other
  proofs: a token that lists the same proof of 8 sat twice opens a gate of 16 sat.\<close>

theorem gate_counts_repeated_proof:
  "\<exists>w v'. gate_decode z5_gate w = Ok (z5_token [''aa'', ''aa'']) \<and> token_proofs (z5_token [''aa'', ''aa'']) = [z5_proof ''aa'', z5_proof ''aa'']
     \<and> verify_token z5_gate w 16 z5_validator = (Ok (GateOpen 16), v')"
  using z5_opens_first[of "[''aa'', ''aa'']" 16] by (auto simp: z5_token_proofs)

end
