(* ===== verification/Flow.thy ===== *)
theory Flow
  imports Gate
begin

text \<open>
  The texts and phases a wallet shows (\<^verbatim>\<open>micronuts-wallet-core/src/lib.rs\<close>, \<^verbatim>\<open>flow.rs\<close>) and the
  classification of scanned payloads (\<^verbatim>\<open>payload.rs\<close>). The lemmas show that amounts are printed without
  loss, that an error about a foreign mint names that mint to the user, and that a wire token is recognised
  bare, in whitespace and in a link.
\<close>

section \<open>Texts\<close>

definition ellipsis :: string where "ellipsis = map char_of [0xE2, 0x80, 0xA6 :: nat]"
definition long_dash :: string where "long_dash = map char_of [0xE2, 0x80, 0x94 :: nat]"
definition left_quote :: string where "left_quote = map char_of [0xE2, 0x80, 0x9C :: nat]"
definition right_quote :: string where "right_quote = map char_of [0xE2, 0x80, 0x9D :: nat]"
definition apostrophe :: string where "apostrophe = [CHR 0x27]"

text \<open>\<^verbatim>\<open>str::split\<close> at a character and at a (non-empty) pattern, and \<^verbatim>\<open>split_once\<close>.\<close>

fun split_char :: "char \<Rightarrow> string \<Rightarrow> string list" where
  "split_char d [] = [[]]"
| "split_char d (c # cs) =
     (if c = d then [] # split_char d cs
      else case split_char d cs of [] \<Rightarrow> [[c]] | w # ws \<Rightarrow> (c # w) # ws)"

function split_sub :: "string \<Rightarrow> string \<Rightarrow> string list" where
  "split_sub p s =
     (if p = [] then [s]
      else case find_sub p s of None \<Rightarrow> [s]
      | Some i \<Rightarrow> take i s # split_sub p (drop (i + length p) s))"
  by pat_completeness auto

lemma find_sub_bound: "find_sub p s = Some i \<Longrightarrow> p \<noteq> [] \<Longrightarrow> i < length s"
  by (induction s arbitrary: i) (auto split: if_splits)

termination split_sub
  by (relation "measure (\<lambda>(p, s). length s)") (auto intro!: diff_less dest: find_sub_bound)

declare split_sub.simps [simp del]

definition split_once :: "char \<Rightarrow> string \<Rightarrow> (string \<times> string) option" where
  "split_once d s =
     (case find_sub [d] s of None \<Rightarrow> None | Some i \<Rightarrow> Some (take i s, drop (Suc i) s))"

definition contains_sub :: "string \<Rightarrow> string \<Rightarrow> bool" where
  "contains_sub p s \<longleftrightarrow> find_sub p s \<noteq> None"

definition ascii_lower :: "char \<Rightarrow> char" where
  "ascii_lower c = (let n = (of_char c :: nat) in if 65 \<le> n \<and> n \<le> 90 then char_of (n + 32) else c)"

definition to_ascii_lowercase :: "string \<Rightarrow> string" where
  "to_ascii_lowercase s = map ascii_lower s"

definition trim_end_char :: "char \<Rightarrow> string \<Rightarrow> string" where
  "trim_end_char d s = rev (dropWhile (\<lambda>c. c = d) (rev s))"

text \<open>Digits in groups of three, counted from the right.\<close>

definition group_digits :: "string \<Rightarrow> string" where
  "group_digits digits =
     concat (map (\<lambda>(i, ch). (if 0 < i \<and> (length digits - i) mod 3 = 0 then '','' else []) @ [ch])
       (zip [0..<length digits] digits))"

definition format_amount :: "u64 \<Rightarrow> string" where
  "format_amount amount = group_digits (show_u64 amount) @ '' sats''"

section \<open>Failures\<close>

datatype flow_failure =
    Recoverable string
  | Offline
  | InvalidToken
  | AlreadySpent
  | ForeignMint string
  | InsufficientFunds
  | Expired
  | UntrustedSignature

definition is_terminal :: "flow_failure \<Rightarrow> bool" where
  "is_terminal f = (case f of InvalidToken \<Rightarrow> True | AlreadySpent \<Rightarrow> True | ForeignMint _ \<Rightarrow> True
     | Expired \<Rightarrow> True | UntrustedSignature \<Rightarrow> True | _ \<Rightarrow> False)"

fun failure_line :: "flow_failure \<Rightarrow> string" where
  "failure_line (Recoverable detail) =
     ''That didn'' @ apostrophe @ ''t complete. Your ecash is safe. Try again. ('' @ detail @ '')''"
| "failure_line Offline =
     ''Can'' @ apostrophe @ ''t reach the mint. Your ecash is safe '' @ long_dash @ '' check the connection and try again.''"
| "failure_line InvalidToken =
     ''That doesn'' @ apostrophe @ ''t look like valid ecash. Nothing was received.''"
| "failure_line AlreadySpent = ''This ecash was already received by someone. Nothing was received.''"
| "failure_line (ForeignMint mint) =
     ''This ecash is from a different mint ('' @ mint @ ''). Add that mint to receive it.''"
| "failure_line InsufficientFunds = ''Not enough ecash for this payment.''"
| "failure_line Expired = ''This invoice has expired. Create a new one to try again.''"
| "failure_line UntrustedSignature =
     ''The mint'' @ apostrophe @ ''s answer failed verification. Nothing was received. Try again.''"

text \<open>The text that the derived \<^verbatim>\<open>Debug\<close> prints is the argument \<open>debug\<close>.\<close>

definition foreign_mint_name :: "string \<Rightarrow> string" where
  "foreign_mint_name detail =
     (let tail = (case split_sub ''different mint:'' detail of _ # t # _ \<Rightarrow> t | _ \<Rightarrow> [])
      in trim (case split_sub '' ('' tail of m # _ \<Rightarrow> m | [] \<Rightarrow> []))"

fun classify_error :: "(cashu_error \<Rightarrow> string) \<Rightarrow> cashu_error \<Rightarrow> flow_failure" where
  "classify_error debug (Transport _) = Offline"
| "classify_error debug InsufficientInputs = InsufficientFunds"
| "classify_error debug QuoteNotPaid = Recoverable ''payment not detected yet''"
| "classify_error debug QuoteNotFound = Recoverable ''quote unknown to the mint''"
| "classify_error debug (Crypto detail) =
     (if contains_sub ''DLEQ'' detail then UntrustedSignature else Recoverable (debug (Crypto detail)))"
| "classify_error debug (Protocol detail) =
     (if contains_sub ''invalid token'' detail then InvalidToken
      else if contains_sub ''different mint'' detail then ForeignMint (foreign_mint_name detail)
      else Recoverable (debug (Protocol detail)))"
| "classify_error debug other = Recoverable (debug other)"

section \<open>Inspection and phases\<close>

record token_summary =
  ts_mint :: string
  ts_unit :: string
  ts_memo :: "string option"
  ts_amount :: u64
  ts_proof_count :: nat

record token_inspection =
  ti_summary :: token_summary
  ti_spent :: nat
  ti_pending :: nat
  ti_fee :: u64

definition all_spent :: "token_inspection \<Rightarrow> bool" where
  "all_spent i \<longleftrightarrow> ti_spent i = ts_proof_count (ti_summary i)"

definition inspection_line :: "token_inspection \<Rightarrow> string" where
  "inspection_line i =
     format_amount (ts_amount (ti_summary i)) @ '' from '' @ ts_mint (ti_summary i)
     @ (case ts_memo (ti_summary i) of None \<Rightarrow> []
        | Some memo \<Rightarrow> '' '' @ long_dash @ '' '' @ left_quote @ memo @ right_quote)
     @ (if ti_spent i > 0 then '' ('' @ show_nat (ti_spent i) @ '' part already received)'' else [])"

definition fee_line :: "token_inspection \<Rightarrow> string" where
  "fee_line i = (if ti_fee i = 0 then ''No fee'' else ''Fee: '' @ format_amount (ti_fee i))"

datatype receive_ecash_phase =
    EcashInput
  | EcashInspecting
  | EcashReview token_inspection
  | EcashReceiving
  | EcashReceived u64
  | EcashFailed flow_failure

fun receive_ecash_line :: "receive_ecash_phase \<Rightarrow> string" where
  "receive_ecash_line EcashInput = []"
| "receive_ecash_line EcashInspecting = ''Checking this ecash'' @ ellipsis"
| "receive_ecash_line (EcashReview inspection) = inspection_line inspection"
| "receive_ecash_line EcashReceiving = ''Receiving ecash'' @ ellipsis"
| "receive_ecash_line (EcashReceived amount) = ''Received '' @ format_amount amount @ ''.''"
| "receive_ecash_line (EcashFailed failure) = failure_line failure"

datatype receive_lightning_phase =
    LnInput
  | LnInvoice u64
  | LnWaiting u64
  | LnPaidNotIssued u64
  | LnIssuing u64
  | LnReceived u64
  | LnExpired
  | LnFailed flow_failure

definition from_quote_state :: "string \<Rightarrow> u64 \<Rightarrow> receive_lightning_phase" where
  "from_quote_state state amount =
     (if state = ''PAID'' then LnPaidNotIssued amount
      else if state = ''ISSUED'' then LnReceived amount
      else LnWaiting amount)"

fun receive_lightning_line :: "receive_lightning_phase \<Rightarrow> string" where
  "receive_lightning_line LnInput = []"
| "receive_lightning_line (LnInvoice amount) = ''Invoice for '' @ format_amount amount @ ''.''"
| "receive_lightning_line (LnWaiting _) = ''Waiting for payment'' @ ellipsis"
| "receive_lightning_line (LnPaidNotIssued amount) =
     ''Payment received '' @ long_dash @ '' finishing'' @ ellipsis @ '' ('' @ format_amount amount @ '')''"
| "receive_lightning_line (LnIssuing amount) = ''Adding '' @ format_amount amount @ '' to your balance'' @ ellipsis"
| "receive_lightning_line (LnReceived amount) = ''Received '' @ format_amount amount @ ''.''"
| "receive_lightning_line LnExpired = ''This invoice has expired.''"
| "receive_lightning_line (LnFailed failure) = failure_line failure"

datatype pay_lightning_phase =
    PayInput
  | PayResolving
  | PayReview u64 u64
  | PayPaying
  | PayPaid
  | PayFailed

fun pay_lightning_line :: "pay_lightning_phase \<Rightarrow> string" where
  "pay_lightning_line PayInput = []"
| "pay_lightning_line PayResolving = ''Reading invoice'' @ ellipsis"
| "pay_lightning_line (PayReview amount fee_reserve) =
     (if fee_reserve = 0 then ''Pay '' @ format_amount amount @ '' '' @ long_dash @ '' no fee.''
      else ''Pay '' @ format_amount amount @ '' '' @ long_dash @ '' fee up to '' @ format_amount fee_reserve @ ''.'')"
| "pay_lightning_line PayPaying = ''Paying'' @ ellipsis"
| "pay_lightning_line PayPaid = ''Payment sent.''"
| "pay_lightning_line PayFailed = ''Payment didn'' @ apostrophe @ ''t complete. Your ecash is safe.''"

datatype send_ecash_phase =
    SendAmount
  | SendReview u64 u64
  | SendPreparing
  | SendReadyForTransfer
  | SendAwaitingClaim
  | SendFailed

fun send_ecash_line :: "send_ecash_phase \<Rightarrow> string" where
  "send_ecash_line SendAmount = []"
| "send_ecash_line (SendReview amount fee) =
     (if fee = 0 then ''Send '' @ format_amount amount @ '' '' @ long_dash @ '' no fee.''
      else ''Send '' @ format_amount amount @ '' '' @ long_dash @ '' fee up to '' @ format_amount fee @ ''.'')"
| "send_ecash_line SendPreparing = ''Preparing ecash'' @ ellipsis"
| "send_ecash_line SendReadyForTransfer = ''Ready '' @ long_dash @ '' show this QR to send it.''"
| "send_ecash_line SendAwaitingClaim = ''Waiting for recipient'' @ ellipsis"
| "send_ecash_line SendFailed = ''Couldn'' @ apostrophe @ ''t prepare this send. Your ecash is safe.''"

section \<open>Scanned payloads\<close>

datatype scanned_payload =
    CashuToken string
  | LightningInvoice string
  | MintUrl string
  | UnknownPayload

definition cashu_prefix :: "string \<Rightarrow> bool" where
  "cashu_prefix lower \<longleftrightarrow> starts_with ''cashub'' lower \<or> starts_with ''cashua'' lower"

definition http_prefix :: "string \<Rightarrow> bool" where
  "http_prefix s \<longleftrightarrow> starts_with ''http://'' s \<or> starts_with ''https://'' s"

text \<open>The loop over the pairs of the query; a pair without \<^verbatim>\<open>=\<close> ends the search.\<close>

fun query_token :: "string list \<Rightarrow> string option" where
  "query_token [] = None"
| "query_token (pair # pairs) =
     (case split_once CHR ''='' pair of None \<Rightarrow> None
      | Some (key, v) \<Rightarrow>
          if to_ascii_lowercase key = ''token'' \<and> cashu_prefix (to_ascii_lowercase (trim v)) then Some (trim v)
          else query_token pairs)"

definition extract_token :: "string \<Rightarrow> string option" where
  "extract_token s =
     (let lower = to_ascii_lowercase s in
      if cashu_prefix lower then Some s
      else if http_prefix lower then
        (case split_char CHR ''?'' s of _ # query # _ \<Rightarrow> query_token (split_char CHR ''&'' query) | _ \<Rightarrow> None)
      else None)"

definition classify_payload :: "string \<Rightarrow> scanned_payload" where
  "classify_payload scanned =
     (let trimmed = trim scanned;
          unwrapped = trim (case strip_prefix ''lightning:'' trimmed of Some r \<Rightarrow> r
            | None \<Rightarrow> (case strip_prefix ''LIGHTNING:'' trimmed of Some r \<Rightarrow> r | None \<Rightarrow> trimmed))
      in case extract_token trimmed of
           Some token \<Rightarrow> CashuToken token
         | None \<Rightarrow>
             if starts_with ''lnb'' unwrapped then LightningInvoice unwrapped
             else if http_prefix unwrapped then MintUrl unwrapped
             else UnknownPayload)"

section \<open>Amounts print without loss\<close>

lemma ungroup_pairs:
  "\<forall>z \<in> set zs. snd z \<noteq> CHR '','' \<Longrightarrow>
     filter (\<lambda>c. c \<noteq> CHR '','') (concat (map (\<lambda>(i, ch). (if P i then '','' else []) @ [ch]) zs)) = map snd zs"
  by (induction zs) auto

lemma ungroup_digits:
  assumes "CHR '','' \<notin> set digits"
  shows "filter (\<lambda>c. c \<noteq> CHR '','') (group_digits digits) = digits"
  unfolding group_digits_def using assms by (subst ungroup_pairs) (auto dest: set_zip_rightD)

lemma format_amount_inj: "format_amount a = format_amount b \<longleftrightarrow> a = b"
proof
  assume "format_amount a = format_amount b"
  then have "group_digits (show_u64 a) = group_digits (show_u64 b)" by (simp add: format_amount_def)
  moreover have "CHR '','' \<notin> set (show_u64 w)" for w
    using set_show_nat[of "CHR '',''" "unat w"] by (auto simp: show_u64_def)
  ultimately have "show_u64 a = show_u64 b" by (metis ungroup_digits)
  then show "a = b" by (metis option.inject parse_show_u64)
qed simp

section \<open>The foreign mint is named\<close>

lemma find_sub_first:
  "\<not> contains_sub p (q @ butlast p) \<Longrightarrow> p \<noteq> [] \<Longrightarrow> find_sub p (q @ p @ r) = Some (length q)"
proof (induction q)
  case Nil
  then show ?case by (cases p) (simp_all add: starts_with_def)
next
  case (Cons c q)
  have "\<not> starts_with p ((c # q) @ p @ r)"
  proof
    assume "starts_with p ((c # q) @ p @ r)"
    then have pre: "take (length p) ((c # q) @ p @ r) = p"
      by (auto simp: starts_with_def strip_prefix_Some_iff)
    have "take (length p) ((c # q) @ p @ r) = take (length p) ((c # q) @ butlast p)"
      using Cons.prems(2) by (cases "length q < length p") (auto simp: take_Cons' take_butlast butlast_conv_take)
    with pre have "starts_with p ((c # q) @ butlast p)"
      by (auto simp: starts_with_def strip_prefix_Some_iff) (metis append_take_drop_id append_Cons)
    with Cons.prems(1) show False by (simp add: contains_sub_def)
  qed
  moreover have "\<not> contains_sub p (q @ butlast p)"
    using Cons.prems(1) by (auto simp: contains_sub_def split: if_splits)
  ultimately show ?case using Cons.IH Cons.prems(2) by simp
qed

lemma find_sub_None: "\<not> contains_sub p s \<Longrightarrow> find_sub p s = None"
  by (simp add: contains_sub_def)

lemma split_sub_none: "\<not> contains_sub p s \<Longrightarrow> split_sub p s = [s]"
  by (simp add: split_sub.simps find_sub_None)

lemma split_sub_once:
  "p \<noteq> [] \<Longrightarrow> \<not> contains_sub p (q @ butlast p) \<Longrightarrow> split_sub p (q @ p @ r) = q # split_sub p r"
  by (subst split_sub.simps) (simp add: find_sub_first)

definition foreign_detail :: "string \<Rightarrow> string \<Rightarrow> string" where
  "foreign_detail mint active = ''token is from a different mint: '' @ mint @ '' (active: '' @ active @ '')''"

lemma contains_subI: "contains_sub p (q @ p @ r)"
proof (induction q)
  case Nil
  show ?case using strip_prefix_append[of p r] by (cases "p @ r") (auto simp: contains_sub_def starts_with_def)
qed (simp add: contains_sub_def)

lemma foreign_detail_split:
  "foreign_detail mint active = ''token is from a '' @ ''different mint:'' @ '' '' @ mint @ '' (active: '' @ active @ '')''"
  by (simp add: foreign_detail_def)

lemma foreign_mint_named:
  assumes "\<not> contains_sub ''different mint:'' ('' '' @ mint @ '' (active: '' @ active @ '')'')"
    and "\<not> contains_sub '' ('' ('' '' @ mint @ '' '')" "trim ('' '' @ mint) = mint"
  shows "foreign_mint_name (foreign_detail mint active) = mint"
proof -
  let ?tail = "'' '' @ mint @ '' (active: '' @ active @ '')''"
  have "split_sub ''different mint:'' (foreign_detail mint active) = [''token is from a '', ?tail]"
    unfolding foreign_detail_split
    by (subst split_sub_once) (use split_sub_none[OF assms(1)] in \<open>simp_all add: contains_sub_def starts_with_def\<close>)
  moreover have "split_sub '' ('' (('' '' @ mint) @ '' ('' @ ''active: '' @ active @ '')'') =
      ('' '' @ mint) # split_sub '' ('' (''active: '' @ active @ '')'')"
    by (rule split_sub_once) (use assms(2) in simp_all)
  ultimately show ?thesis using assms(3) by (simp add: foreign_mint_name_def Let_def)
qed

section \<open>A wire token is recognised\<close>

text \<open>Characters of a wire token are not separators of a link.\<close>

lemma token_char_plain: "token_char c \<Longrightarrow> c \<notin> {CHR ''?'', CHR ''&''}"
  by (auto simp: token_char_def)

lemma split_char_free: "d \<notin> set s \<Longrightarrow> split_char d s = [s]"
  by (induction s) auto

lemma split_char_at: "d \<notin> set a \<Longrightarrow> split_char d (a @ d # b) = a # split_char d b"
  by (induction a) auto

lemma split_once_at: "d \<notin> set a \<Longrightarrow> split_once d (a @ d # b) = Some (a, b)"
proof -
  assume "d \<notin> set a"
  then have "find_sub [d] (a @ d # b) = Some (length a)" by (induction a) (auto simp: starts_with_def)
  then show ?thesis by (simp add: split_once_def)
qed

abbreviation wire_of :: "bytes \<Rightarrow> string" where
  "wire_of bs \<equiv> CASHU_B @ of_bytes (encode_base64url bs)"

lemma wire_separators: "c \<in> {CHR ''?'', CHR ''&''} \<Longrightarrow> c \<notin> set (wire_of bs)"
  using alphabet_token_char[of c bs] token_char_plain[of c] by (auto simp: CASHU_B_def)

lemma lower_append [simp]: "to_ascii_lowercase (a @ b) = to_ascii_lowercase a @ to_ascii_lowercase b"
  by (simp add: to_ascii_lowercase_def)

lemma cashu_prefix_wire: "cashu_prefix (to_ascii_lowercase (wire_of bs))"
proof -
  have "to_ascii_lowercase CASHU_B = ''cashub''" by code_simp
  then show ?thesis by (simp add: cashu_prefix_def starts_with_def)
qed

lemma extract_bare: "extract_token (wire_of bs) = Some (wire_of bs)"
  unfolding extract_token_def Let_def using cashu_prefix_wire[of bs] by simp

lemma extract_link:
  assumes "CHR ''?'' \<notin> set host"
  shows "extract_token (''https://'' @ host @ ''?token='' @ wire_of bs) = Some (wire_of bs)"
proof -
  let ?w = "wire_of bs"
  have head: "to_ascii_lowercase ''https://'' = ''https://''" "to_ascii_lowercase ''token'' = ''token''" by code_simp+
  have not_bare: "\<not> cashu_prefix (to_ascii_lowercase (''https://'' @ host @ ''?token='' @ ?w))"
    unfolding lower_append head(1) by (simp add: cashu_prefix_def starts_with_def)
  have url: "http_prefix (to_ascii_lowercase (''https://'' @ host @ ''?token='' @ ?w))"
    unfolding lower_append head(1) by (simp add: http_prefix_def starts_with_def)
  have q: "CHR ''?'' \<notin> set (''https://'' @ host)" "CHR ''?'' \<notin> set (''token='' @ ?w)" "CHR ''&'' \<notin> set (''token='' @ ?w)"
    using assms wire_separators[of _ bs] by auto
  have "split_char CHR ''?'' ((''https://'' @ host) @ CHR ''?'' # ''token='' @ ?w) = [''https://'' @ host, ''token='' @ ?w]"
    using split_char_at[OF q(1)] split_char_free[OF q(2)] by simp
  moreover have "split_char CHR ''&'' (''token='' @ ?w) = [''token='' @ ?w]" using split_char_free[OF q(3)] by simp
  moreover have "split_once CHR ''='' (''token'' @ CHR ''='' # ?w) = Some (''token'', ?w)" by (rule split_once_at) simp
  ultimately show ?thesis
    unfolding extract_token_def Let_def using not_bare url cashu_prefix_wire[of bs] head(2) wire_trim[of bs] by simp
qed

text \<open>What the wallet prints, a scanner reads as ecash. The wire text of a token is classified as that token, bare or as the
  token parameter of a link.\<close>

theorem payload_recognises_token:
  assumes "encode_token_wire X C t = Ok w" "CHR ''?'' \<notin> set host"
  shows "classify_payload w = CashuToken w \<and> classify_payload (''https://'' @ host @ ''?token='' @ w) = CashuToken w"
proof -
  from assms(1) obtain bs where w: "w = wire_of bs" by (auto simp: encode_token_wire_def)
  have "trim (''https://'' @ host @ ''?token='' @ w) = ''https://'' @ host @ ''?token='' @ w"
    by (rule trim_graphic) (use wire_last[of bs] w in \<open>auto simp: graphic_def CASHU_B_def\<close>)
  then show ?thesis
    using wire_trim[of bs] extract_bare[of bs] extract_link[OF assms(2), of bs] by (simp add: w classify_payload_def Let_def)
qed

theorem payload_recognises_token_witness:
  "\<exists>w. encode_token_wire z5_externs wide_cbor (z5_token [''a'']) = Ok w
     \<and> classify_payload (''https://'' @ ''wallet.example'' @ ''?token='' @ w) = CashuToken w"
proof -
  obtain w where "encode_token_wire z5_externs wide_cbor (z5_token [''a'']) = Ok w"
    by (simp add: encode_token_wire_def encode_token_def encode_group_def z5_token_def z5_externs_def demo_externs_def)
  then show ?thesis using payload_recognises_token[of z5_externs wide_cbor "z5_token [''a'']" w "''wallet.example''"] by auto
qed

end
