(* ===== verification/Persistent.thy ===== *)
theory Persistent
  imports Wallet "HOL-Library.Multiset"
begin

text \<open>
  The persistent wallet (\<^verbatim>\<open>cashu-core-lite/src/persistent.rs\<close>): the checksummed envelope, proof
  selection, and the operations that move proofs between the wallet, the mint and the store.
\<close>

section \<open>The envelope\<close>

definition RESTORE_HEADROOM :: u32 where "RESTORE_HEADROOM = 64"
definition ENVELOPE_MAGIC :: bytes where "ENVELOPE_MAGIC = as_bytes ''CCL1''"
definition ENVELOPE_VERSION :: u32 where "ENVELOPE_VERSION = 1"

record envelope =
  ev_version :: u32
  ev_counter :: u32
  ev_proofs :: "nut_proof list"
  ev_seed_id :: bytes

text \<open>
  The environment: crates, curve, the mint's and the store's methods, and the encoding of
  \<^verbatim>\<open>Envelope\<close> that a macro of \<^verbatim>\<open>minicbor\<close> derives.
\<close>

record ('p, 't, 's) wallet_env =
  we_externs :: externs
  we_hex_error :: "string \<Rightarrow> string"
  we_curve :: "'p curve"
  we_client :: "'t mint_client"
  we_store :: "'s proof_store"
  we_to_vec :: "envelope \<Rightarrow> bytes option"
  we_decode :: "bytes \<Rightarrow> envelope option"

definition seed_fingerprint :: "externs \<Rightarrow> bytes \<Rightarrow> bytes" where
  "seed_fingerprint X seed = take 8 (sha256 X (seed @ as_bytes ''CCL1-seed-fingerprint''))"

definition crc_bit :: "u32 \<Rightarrow> u32" where
  "crc_bit crc = (let mask = - (crc AND 1) in drop_bit 1 crc XOR (0xEDB88320 AND mask))"

definition crc_byte :: "u32 \<Rightarrow> u8 \<Rightarrow> u32" where
  "crc_byte crc b = (crc_bit ^^ 8) (crc XOR ucast b)"

definition crc32 :: "bytes \<Rightarrow> u32" where
  "crc32 data = NOT (foldl crc_byte 0xFFFFFFFF data)"

definition encode_envelope :: "('p, 't, 's) wallet_env \<Rightarrow> u32 \<Rightarrow> nut_proof list \<Rightarrow> bytes \<Rightarrow> (cashu_error, bytes) res" where
  "encode_envelope V counter proofs seed_id =
     res_bind (ok_or (Storage ''envelope encode failed'')
        (we_to_vec V \<lparr>ev_version = ENVELOPE_VERSION, ev_counter = counter, ev_proofs = proofs, ev_seed_id = seed_id\<rparr>)) (\<lambda>cbor.
       Ok (ENVELOPE_MAGIC @ rev (to_be_bytes 4 (unat (crc32 cbor))) @ cbor))"

definition decode_envelope :: "('p, 't, 's) wallet_env \<Rightarrow> bytes \<Rightarrow> bytes \<Rightarrow> (u32 \<times> nut_proof list) option" where
  "decode_envelope V b expected_seed_id =
     (if length b < length ENVELOPE_MAGIC + 4 \<or> take 4 b \<noteq> ENVELOPE_MAGIC then None
      else
        (let stored_crc = word_of_nat (from_be_bytes (rev (take 4 (drop 4 b)))) :: u32; cbor = drop 8 b in
         if crc32 cbor \<noteq> stored_crc then None
         else (case we_decode V cbor of None \<Rightarrow> None
           | Some e \<Rightarrow>
               if ev_version e \<noteq> ENVELOPE_VERSION \<or> ev_seed_id e \<noteq> expected_seed_id then None
               else Some (ev_counter e, ev_proofs e))))"

definition store_err :: "store_error \<Rightarrow> cashu_error" where
  "store_err e = (case e of Unavailable \<Rightarrow> Storage ''store unavailable'' | Failed _ \<Rightarrow> Storage ''store write failed'')"

section \<open>The wallet and its store\<close>

record ('t, 's) persistent_wallet =
  pw_inner :: "'t wallet"
  pw_store :: 's
  pw_seed :: bytes
  pw_seed_id :: bytes
  pw_counter :: u32
  pw_proofs :: "nut_proof list"

type_synonym ('t, 's, 'a) pw_op = "(('t, 's) persistent_wallet, cashu_error, 'a) op"

definition persistent_new ::
  "('p, 't, 's) wallet_env \<Rightarrow> string \<Rightarrow> 't \<Rightarrow> 's \<Rightarrow> bytes \<Rightarrow> (cashu_error, ('t, 's) persistent_wallet) res" where
  "persistent_new V mint_url transport store seed =
     (let seed_id = seed_fingerprint (we_externs V) seed in
      case ps_load (we_store V) store of
        (Ok blob, s) \<Rightarrow>
          (let (counter, proofs) = (case blob of None \<Rightarrow> (0, [])
                 | Some b \<Rightarrow> (case decode_envelope V b seed_id of None \<Rightarrow> (0, []) | Some cp \<Rightarrow> cp))
           in Ok \<lparr>pw_inner = wallet_new mint_url transport, pw_store = s, pw_seed = seed, pw_seed_id = seed_id,
                  pw_counter = counter, pw_proofs = proofs\<rparr>)
      | (Err e, s) \<Rightarrow> Err (store_err e)
      | (Panic, s) \<Rightarrow> Panic)"

definition balance :: "('t, 's) persistent_wallet \<Rightarrow> u64" where
  "balance w = sum_list (map pf_amount (pw_proofs w))"

definition pw_proof_count :: "('t, 's) persistent_wallet \<Rightarrow> nat" where
  "pw_proof_count w = length (pw_proofs w)"

definition pw_persist :: "('p, 't, 's) wallet_env \<Rightarrow> ('t, 's, unit) pw_op" where
  "pw_persist V w =
     (case encode_envelope V (pw_counter w) (pw_proofs w) (pw_seed_id w) of
        Ok blob \<Rightarrow>
          (case ps_save (we_store V) blob (pw_store w) of
             (Ok _, s) \<Rightarrow> (Ok (), w\<lparr>pw_store := s\<rparr>)
           | (Err e, s) \<Rightarrow> (Err (store_err e), w\<lparr>pw_store := s\<rparr>)
           | (Panic, s) \<Rightarrow> (Panic, w\<lparr>pw_store := s\<rparr>))
      | Err e \<Rightarrow> (Err e, w)
      | Panic \<Rightarrow> (Panic, w))"

definition call :: "('t, cashu_error, 'a) op \<Rightarrow> ('t, 's, 'a) pw_op" where
  "call m = (\<lambda>w. case via m (pw_inner w) of (r, i) \<Rightarrow> (r, w\<lparr>pw_inner := i\<rparr>))"

section \<open>Selection\<close>

text \<open>\<^verbatim>\<open>sort_by_key\<close> with \<^verbatim>\<open>Reverse\<close> is a stable sort by falling amount.\<close>

definition by_amount_desc :: "nut_proof list \<Rightarrow> nut_proof list" where
  "by_amount_desc = sort_key (\<lambda>p. - uint (pf_amount p))"

fun select_loop :: "u64 \<Rightarrow> u64 \<Rightarrow> nut_proof list \<Rightarrow> nut_proof list" where
  "select_loop amount acc [] = []"
| "select_loop amount acc (p # ps) = (if acc \<ge> amount then [] else p # select_loop amount (acc + pf_amount p) ps)"

definition retain_unselected :: "nut_proof list \<Rightarrow> nut_proof list \<Rightarrow> nut_proof list" where
  "retain_unselected selected proofs = filter (\<lambda>p. p \<notin> set selected) proofs"

definition spend :: "('p, 't, 's) wallet_env \<Rightarrow> u64 \<Rightarrow> ('t, 's, nut_proof list) pw_op" where
  "spend V amount =
     bind (guard_err (amount = 0) InvalidAmount) (\<lambda>_.
     bind (gets pw_proofs) (\<lambda>proofs.
     bind (guard_err (sum_list (map pf_amount proofs) < amount) InsufficientInputs) (\<lambda>_.
     let selected = select_loop amount 0 (by_amount_desc proofs) in
     bind (modify (\<lambda>w. w\<lparr>pw_proofs := retain_unselected selected (pw_proofs w)\<rparr>)) (\<lambda>_.
     bind (pw_persist V) (\<lambda>_.
       ret selected)))))"

definition select_covering :: "u64 \<Rightarrow> nut_proof list \<Rightarrow> (cashu_error, nut_proof list) res" where
  "select_covering amount proofs =
     (if sum_list (map pf_amount proofs) < amount then Err InsufficientInputs
      else Ok (select_loop amount 0 (by_amount_desc proofs)))"

definition undo_spend :: "('p, 't, 's) wallet_env \<Rightarrow> nut_proof list \<Rightarrow> ('t, 's, unit) pw_op" where
  "undo_spend V proofs = bind (modify (\<lambda>w. w\<lparr>pw_proofs := pw_proofs w @ proofs\<rparr>)) (\<lambda>_. pw_persist V)"

definition add_proofs :: "('p, 't, 's) wallet_env \<Rightarrow> nut_proof list \<Rightarrow> ('t, 's, unit) pw_op" where
  "add_proofs V proofs = bind (modify (\<lambda>w. w\<lparr>pw_proofs := pw_proofs w @ proofs\<rparr>)) (\<lambda>_. pw_persist V)"

definition remove_proofs :: "('p, 't, 's) wallet_env \<Rightarrow> nut_proof list \<Rightarrow> ('t, 's, unit) pw_op" where
  "remove_proofs V proofs = bind (modify (\<lambda>w. w\<lparr>pw_proofs := retain_unselected proofs (pw_proofs w)\<rparr>)) (\<lambda>_. pw_persist V)"

section \<open>Exact selection\<close>

definition NODE_CAP :: u32 where "NODE_CAP = 100000"

text \<open>Suffix sums, saturating at the width of the amounts.\<close>

fun suffix_sums :: "u64 list \<Rightarrow> u64 list" where
  "suffix_sums [] = [0]"
| "suffix_sums (a # as) = (let rest = suffix_sums as in saturating_add (hd rest) a # rest)"

text \<open>
  The nested \<^verbatim>\<open>dfs\<close> and the loop in its body; both return whether they succeeded with the chosen
  positions and the node count they leave behind. A position past the end is a panic.
\<close>

function (sequential) dfs :: "u64 list \<Rightarrow> u64 list \<Rightarrow> nat \<Rightarrow> u64 \<Rightarrow> nat list \<Rightarrow> u32 \<Rightarrow> (unit, bool \<times> nat list \<times> u32) res"
and dfs_loop :: "u64 list \<Rightarrow> u64 list \<Rightarrow> nat \<Rightarrow> u64 option \<Rightarrow> u64 \<Rightarrow> nat list \<Rightarrow> u32 \<Rightarrow> (unit, bool \<times> nat list \<times> u32) res"
where
  "dfs amounts suffix start remaining chosen nodes =
     (if remaining = 0 then Ok (True, chosen, nodes)
      else if nodes \<ge> NODE_CAP then Ok (False, chosen, nodes)
      else if start \<ge> length suffix then Panic
      else if suffix ! start < remaining then Ok (False, chosen, nodes)
      else dfs_loop amounts suffix start None remaining chosen nodes)"
| "dfs_loop amounts suffix i last_coin remaining chosen nodes =
     (if i \<ge> length amounts then Ok (False, chosen, nodes)
      else
        (let coin = amounts ! i in
         if last_coin = Some coin then dfs_loop amounts suffix (Suc i) last_coin remaining chosen nodes
         else if coin > remaining then dfs_loop amounts suffix (Suc i) (Some coin) remaining chosen nodes
         else
           (case dfs amounts suffix (Suc i) (remaining - coin) (chosen @ [i]) (nodes + 1) of
              Ok (True, chosen', nodes') \<Rightarrow> Ok (True, chosen', nodes')
            | Ok (False, chosen', nodes') \<Rightarrow> dfs_loop amounts suffix (Suc i) (Some coin) remaining (butlast chosen') nodes'
            | Err e \<Rightarrow> Err e
            | Panic \<Rightarrow> Panic)))"
  by pat_completeness auto

termination
  by (relation "measure (case_sum (\<lambda>(amounts, suffix, start, _). 2 * (length amounts - start) + 1)
        (\<lambda>(amounts, suffix, i, _). 2 * (length amounts - i)))") auto

declare dfs.simps [simp del] dfs_loop.simps [simp del]

definition find_exact :: "u64 \<Rightarrow> nut_proof list \<Rightarrow> (unit, nut_proof list option) res" where
  "find_exact amount proofs =
     (if amount = 0 then Ok None
      else
        (let order = sort_key (\<lambda>i. - uint (pf_amount (proofs ! i))) [0..<length proofs];
             amounts = map (\<lambda>i. pf_amount (proofs ! i)) order
         in case dfs amounts (suffix_sums amounts) 0 amount [] 0 of
              Ok (True, chosen, nodes) \<Rightarrow> Ok (Some (map (\<lambda>k. proofs ! (order ! k)) chosen))
            | Ok (False, chosen, nodes) \<Rightarrow> Ok None
            | Err e \<Rightarrow> Err e
            | Panic \<Rightarrow> Panic))"

section \<open>Deterministic outputs\<close>

definition derive_blinded ::
  "('p, 't, 's) wallet_env \<Rightarrow> bytes \<Rightarrow> string \<Rightarrow> u32 \<Rightarrow> (cashu_error, string \<times> blinded) res" where
  "derive_blinded V seed keyset_id idx =
     (let X = we_externs V in
      res_bind (derive_secret X (we_hex_error V) seed keyset_id idx) (\<lambda>secret.
      res_bind (derive_blinder X (we_hex_error V) seed keyset_id idx) (\<lambda>blinder_bytes.
      res_bind (ok_or (Crypto ''bad blinder scalar'') (sk_from_slice X blinder_bytes)) (\<lambda>blinder.
      let secret_hex = hex_encode X secret in
      res_bind (crypto_err ''blind_message failed'' (blind_message X (we_curve V) (as_bytes secret_hex) (Some blinder) blinder)) (\<lambda>bm.
        Ok (secret_hex, bm))))))"

fun deterministic_outputs ::
  "('p, 't, 's) wallet_env \<Rightarrow> bytes \<Rightarrow> string \<Rightarrow> u32 \<Rightarrow> u64 list
     \<Rightarrow> (cashu_error, blinded_message list \<times> pending_output list) res" where
  "deterministic_outputs V seed keyset_id idx [] = Ok ([], [])"
| "deterministic_outputs V seed keyset_id idx (amount # amounts) =
     res_bind (derive_blinded V seed keyset_id idx) (\<lambda>(secret_hex, bm).
     res_bind (deterministic_outputs V seed keyset_id (idx + 1) amounts) (\<lambda>(ms, ps).
       Ok (\<lparr>bm_amount = amount, bm_id = keyset_id, bm_b = bl_blinded bm\<rparr> # ms,
           \<lparr>po_secret = as_bytes secret_hex, po_blinder = bl_blinder bm, po_amount = amount\<rparr> # ps)))"

definition em_dash :: string where
  "em_dash = map char_of [0xE2, 0x80, 0x94 :: nat]"

definition verify_fresh_one :: "('p, 't, 's) wallet_env \<Rightarrow> key_set \<Rightarrow> nut_proof \<Rightarrow> (cashu_error, unit) res" where
  "verify_fresh_one V mint_keys p =
     res_bind (ok_or (Crypto (''mint signature carries no NUT-12 dleq '' @ em_dash @ '' refusing to credit'')) (pf_dleq p)) (\<lambda>dleq.
     res_bind (ok_or KeysetNotFound (find (\<lambda>k. kp_amount k = pf_amount p) (ks_keys mint_keys))) (\<lambda>key.
       if verify_proof_dleq (we_externs V) (we_curve V) (as_bytes (pf_secret p)) (pf_c p) dleq (kp_pubkey key) then Ok ()
       else Err (Crypto (''NUT-12 DLEQ verification failed '' @ em_dash @ '' refusing to credit''))))"

fun verify_fresh :: "('p, 't, 's) wallet_env \<Rightarrow> key_set \<Rightarrow> nut_proof list \<Rightarrow> (cashu_error, unit) res" where
  "verify_fresh V mint_keys [] = Ok ()"
| "verify_fresh V mint_keys (p # ps) = res_bind (verify_fresh_one V mint_keys p) (\<lambda>_. verify_fresh V mint_keys ps)"

text \<open>The outputs of the next indices, with the counter moved past them.\<close>

definition take_outputs ::
  "('p, 't, 's) wallet_env \<Rightarrow> string \<Rightarrow> u64 list \<Rightarrow> ('t, 's, blinded_message list \<times> pending_output list) pw_op" where
  "take_outputs V keyset_id amounts =
     bind (gets pw_seed) (\<lambda>seed. bind (gets pw_counter) (\<lambda>counter.
     bind (lift_res (deterministic_outputs V seed keyset_id counter amounts)) (\<lambda>(ms, ps).
     bind (modify (\<lambda>w. w\<lparr>pw_counter := saturating_add (pw_counter w) (word_of_nat (length ps))\<rparr>)) (\<lambda>_.
       ret (ms, ps)))))"

definition credit :: "nut_proof list \<Rightarrow> ('t, 's, unit) pw_op" where
  "credit proofs = modify (\<lambda>w. w\<lparr>pw_proofs := pw_proofs w @ proofs\<rparr>)"

definition mint_deterministic ::
  "('p, 't, 's) wallet_env \<Rightarrow> string \<Rightarrow> u64 \<Rightarrow> string \<Rightarrow> key_set \<Rightarrow> ('t, 's, u64) pw_op" where
  "mint_deterministic V quote_id amount keyset_id mint_keys =
     bind (guard_err (decompose_amount amount = []) InvalidAmount) (\<lambda>_.
     bind (take_outputs V keyset_id (decompose_amount amount)) (\<lambda>(outputs, pending).
     bind (call (mc_post_mint (we_client V) \<lparr>mr_quote = quote_id, mr_outputs = outputs, mr_signature = None\<rparr>)) (\<lambda>signatures.
     bind (lift_res (unblind_to_proofs (we_curve V) pending signatures mint_keys)) (\<lambda>proofs.
     bind (lift_res (verify_fresh V mint_keys proofs)) (\<lambda>_.
     bind (credit proofs) (\<lambda>_.
     bind (pw_persist V) (\<lambda>_.
       ret (sum_list (map pf_amount proofs)))))))))"

definition swap_deterministic ::
  "('p, 't, 's) wallet_env \<Rightarrow> nut_proof list \<Rightarrow> u64 list \<Rightarrow> string \<Rightarrow> key_set \<Rightarrow> ('t, 's, nut_proof list) pw_op" where
  "swap_deterministic V inputs new_amounts keyset_id mint_keys =
     bind (guard_err (new_amounts = []) InvalidAmount) (\<lambda>_.
     bind (take_outputs V keyset_id new_amounts) (\<lambda>(outputs, pending).
     bind (call (mc_post_swap (we_client V) \<lparr>sw_inputs = inputs, sw_outputs = outputs\<rparr>)) (\<lambda>signatures.
     bind (lift_res (unblind_to_proofs (we_curve V) pending signatures mint_keys)) (\<lambda>proofs.
     bind (lift_res (verify_fresh V mint_keys proofs)) (\<lambda>_.
     bind (credit proofs) (\<lambda>_.
     bind (pw_persist V) (\<lambda>_.
       ret proofs)))))))"

record melt_outcome =
  mo_paid :: bool
  mo_preimage :: "string option"
  mo_change_sats :: u64

definition unblind_change ::
  "('p, 't, 's) wallet_env \<Rightarrow> key_set \<Rightarrow> pending_output list \<Rightarrow> blind_signature list option \<Rightarrow> (cashu_error, nut_proof list) res" where
  "unblind_change V mint_keys pending_blanks change =
     (case change of None \<Rightarrow> Ok []
      | Some sigs \<Rightarrow> map_res (\<lambda>(p, sig). unblind_one (we_curve V) mint_keys ''change unblind failed'' (bs_amount sig) p sig)
          (zip pending_blanks sigs))"

definition melt_deterministic ::
  "('p, 't, 's) wallet_env \<Rightarrow> string \<Rightarrow> u64 \<Rightarrow> u64 \<Rightarrow> string \<Rightarrow> key_set \<Rightarrow> ('t, 's, melt_outcome) pw_op" where
  "melt_deterministic V quote_id invoice_amount fee_reserve keyset_id mint_keys =
     bind (lift_res (ok_or InvalidAmount (checked_add invoice_amount fee_reserve))) (\<lambda>total_needed.
     bind (guard_err (total_needed = 0) InvalidAmount) (\<lambda>_.
     bind (gets pw_proofs) (\<lambda>proofs.
     bind (lift_res (select_covering total_needed proofs)) (\<lambda>selected.
     bind (take_outputs V keyset_id (decompose_amount fee_reserve)) (\<lambda>(blanks, pending_blanks).
     bind (call (mc_post_melt (we_client V) \<lparr>lr_quote = quote_id, lr_inputs = selected, lr_outputs = Some blanks\<rparr>)) (\<lambda>response.
       if \<not> ls_paid response then
         bind (pw_persist V) (\<lambda>_.
           ret \<lparr>mo_paid = False, mo_preimage = ls_payment_preimage response, mo_change_sats = 0\<rparr>)
       else
         bind (lift_res (unblind_change V mint_keys pending_blanks (ls_change response))) (\<lambda>change_proofs.
         bind (lift_res (verify_fresh V mint_keys change_proofs)) (\<lambda>_.
         bind (modify (\<lambda>w. w\<lparr>pw_proofs := retain_unselected selected (pw_proofs w) @ change_proofs\<rparr>)) (\<lambda>_.
         bind (pw_persist V) (\<lambda>_.
           ret \<lparr>mo_paid = True, mo_preimage = ls_payment_preimage response,
                mo_change_sats = sum_list (map pf_amount change_proofs)\<rparr>))))))))))"

section \<open>Restore\<close>

text \<open>Every derivable output: the points to ask for, and what unblinds each of them.\<close>

fun restore_table ::
  "('p, 't, 's) wallet_env \<Rightarrow> bytes \<Rightarrow> string \<Rightarrow> nat list \<Rightarrow> (string \<times> (u32 \<times> secret_key \<times> string)) list \<Rightarrow> public_key list
     \<Rightarrow> (cashu_error, (string \<times> (u32 \<times> secret_key \<times> string)) list \<times> public_key list) res" where
  "restore_table V seed keyset_id [] table outputs = Ok (table, outputs)"
| "restore_table V seed keyset_id (i # is) table outputs =
     res_bind (derive_blinded V seed keyset_id (word_of_nat i)) (\<lambda>(secret_hex, bm).
       restore_table V seed keyset_id is
         (AList.update (hex_encode (we_externs V) (to_bytes (bl_blinded bm))) (word_of_nat i, bl_blinder bm, secret_hex) table)
         (outputs @ [bl_blinded bm]))"

fun restore_loop ::
  "('p, 't, 's) wallet_env \<Rightarrow> key_set \<Rightarrow> (string \<times> (u32 \<times> secret_key \<times> string)) list \<Rightarrow> string list
     \<Rightarrow> nut_proof list \<Rightarrow> u32 option \<Rightarrow> restore_output list \<Rightarrow> (cashu_error, nut_proof list \<times> u32 option) res" where
  "restore_loop V mint_keys table known restored max_idx [] = Ok (restored, max_idx)"
| "restore_loop V mint_keys table known restored max_idx (out # outs) =
     (case map_of table (hex_encode (we_externs V) (to_bytes (ro_y out))) of
        None \<Rightarrow> restore_loop V mint_keys table known restored max_idx outs
      | Some (idx, blinder, secret_hex) \<Rightarrow>
          if secret_hex \<in> set known then restore_loop V mint_keys table known restored max_idx outs
          else
            res_bind (unblind_with (we_curve V) mint_keys ''unblind failed'' (bs_amount (ro_signature out)) blinder (ro_signature out)) (\<lambda>c.
              restore_loop V mint_keys table (secret_hex # known)
                (restored @ [signed_proof (bs_amount (ro_signature out)) secret_hex c blinder (ro_signature out)])
                (Some (case max_idx of None \<Rightarrow> idx | Some m \<Rightarrow> max m idx)) outs))"

definition wallet_restore :: "('p, 't, 's) wallet_env \<Rightarrow> string \<Rightarrow> key_set \<Rightarrow> ('t, 's, u64) pw_op" where
  "wallet_restore V keyset_id mint_keys =
     bind (gets pw_seed) (\<lambda>seed. bind (gets pw_counter) (\<lambda>counter.
     bind (lift_res (restore_table V seed keyset_id [0..<unat (saturating_add counter RESTORE_HEADROOM)] [] [])) (\<lambda>(table, outputs).
     bind (call (mc_post_restore (we_client V) outputs)) (\<lambda>response.
     bind (gets pw_proofs) (\<lambda>proofs.
     bind (lift_res (restore_loop V mint_keys table (map pf_secret proofs) [] None response)) (\<lambda>(restored, max_idx).
     bind (lift_res (verify_fresh V mint_keys restored)) (\<lambda>_.
     bind (credit restored) (\<lambda>_.
     bind (case max_idx of None \<Rightarrow> ret () | Some m \<Rightarrow> modify (\<lambda>w. w\<lparr>pw_counter := max (pw_counter w) (m + 1)\<rparr>)) (\<lambda>_.
     bind (if restored = [] then ret () else pw_persist V) (\<lambda>_.
       ret (word_of_nat (length restored))))))))))))"

end
