(* ===== verification/Engine.thy ===== *)
theory Engine
  imports Unlock Flow Persistent
begin

text \<open>
  The wallet engine (\<^verbatim>\<open>micronuts-wallet-core/src/engine.rs\<close>) over the persistent wallet: connecting to a
  mint, minting, receiving, sending with a record of what is in flight, taking an unclaimed send back,
  paying invoices, reconciling with the mint and restoring. Tokens of the legacy format are read
  by \<^verbatim>\<open>token_compat.rs\<close>. Unchecked arithmetic wraps, as it does in the release profile of the workspace.
\<close>

section \<open>Reading tokens of both formats\<close>

fun cashu_error_text :: "cashu_error \<Rightarrow> string" where
  "cashu_error_text (Transport msg) = ''transport error: '' @ msg"
| "cashu_error_text (Protocol msg) = ''protocol error: '' @ msg"
| "cashu_error_text (Crypto msg) = ''crypto error: '' @ msg"
| "cashu_error_text InvalidAmount = ''invalid amount''"
| "cashu_error_text QuoteNotFound = ''quote not found''"
| "cashu_error_text QuoteNotPaid = ''quote not paid''"
| "cashu_error_text QuoteAlreadyIssued = ''quote already issued''"
| "cashu_error_text InsufficientInputs = ''insufficient inputs''"
| "cashu_error_text InvalidProof = ''invalid proof''"
| "cashu_error_text KeysetNotFound = ''keyset not found''"
| "cashu_error_text AmountMismatch = ''input/output amount mismatch''"
| "cashu_error_text (Unknown msg) = ''unknown error: '' @ msg"
| "cashu_error_text (Storage msg) = ''storage error: '' @ msg"
| "cashu_error_text TokensAlreadySpent = ''tokens already spent''"
| "cashu_error_text MeltAlreadyPaid = ''melt already paid''"
| "cashu_error_text PaymentFailed = ''payment failed''"
| "cashu_error_text SpendConditionsNotMet = ''spend conditions are not met''"
| "cashu_error_text QuoteSignatureInvalid = ''mint quote signature missing or invalid''"
| "cashu_error_text BatchTooLarge = ''batch too large''"
| "cashu_error_text TooManyOutputs = ''too many outputs''"
| "cashu_error_text BatchQuoteNotUnique = ''batch contains duplicate quote ids''"

text \<open>
  \<^verbatim>\<open>serde_json\<close> and \<^verbatim>\<open>base64\<close> are parameters: the parsed value is of any type, read with the
  accessors the code calls; a failure carries the text of the crate's error.
\<close>

record 'j serde =
  sj_from_slice :: "bytes \<Rightarrow> (string, 'j) res"
  sj_get :: "string \<Rightarrow> 'j \<Rightarrow> 'j option"
  sj_as_array :: "'j \<Rightarrow> 'j list option"
  sj_as_str :: "'j \<Rightarrow> string option"
  sj_as_u64 :: "'j \<Rightarrow> u64 option"

record ('p, 't, 's, 'j) engine_env =
  ee_wallet :: "('p, 't, 's) wallet_env"
  ee_signer :: schnorr_signer
  ee_cbor :: cbor
  ee_cbor_error :: "cbor_error \<Rightarrow> string"
  ee_base64 :: "string \<Rightarrow> (string, bytes) res"
  ee_json :: "'j serde"
  ee_debug :: "cashu_error \<Rightarrow> string"
  ee_now :: "'t \<Rightarrow> u64 \<times> 't"

abbreviation ee_externs :: "('p, 't, 's, 'j) engine_env \<Rightarrow> externs" where
  "ee_externs E \<equiv> we_externs (ee_wallet E)"

definition pad_base64 :: "string \<Rightarrow> string" where
  "pad_base64 body =
     (if length body mod 4 = 2 then body @ ''=='' else if length body mod 4 = 3 then body @ ''='' else body)"

definition v3_field :: "'j serde \<Rightarrow> string \<Rightarrow> ('j \<Rightarrow> 'b option) \<Rightarrow> string \<Rightarrow> 'j \<Rightarrow> (cashu_error, 'b) res" where
  "v3_field J msg f key v = ok_or (Protocol msg) (case sj_get J key v of None \<Rightarrow> None | Some x \<Rightarrow> f x)"

definition v3_proof :: "('p, 't, 's, 'j) engine_env \<Rightarrow> 'j \<Rightarrow> (cashu_error, token_proof) res" where
  "v3_proof E p =
     (let J = ee_json E in
      res_bind (v3_field J ''V3: proof missing id'' (sj_as_str J) ''id'' p) (\<lambda>id.
      res_bind (v3_field J ''V3: proof missing amount'' (sj_as_u64 J) ''amount'' p) (\<lambda>amount.
      res_bind (v3_field J ''V3: proof missing secret'' (sj_as_str J) ''secret'' p) (\<lambda>secret.
      res_bind (v3_field J ''V3: proof missing C'' (sj_as_str J) ''C'' p) (\<lambda>c_hex.
      res_bind (ok_or (Protocol (''V3: proof C not hex: '' @ we_hex_error (ee_wallet E) c_hex)) (hex_decode (ee_externs E) c_hex)) (\<lambda>c.
        Ok \<lparr>tp_amount = amount, tp_keyset_id = id, tp_secret = secret, tp_c = c, tp_dleq = None\<rparr>))))))"

text \<open>The \<^verbatim>\<open>BTreeMap\<close> from keyset ids to proofs, in the order of its keys.\<close>

fun text_less :: "string \<Rightarrow> string \<Rightarrow> bool" where
  "text_less [] [] = False"
| "text_less [] (_ # _) = True"
| "text_less (_ # _) [] = False"
| "text_less (a # as) (b # bs) = (byte_of a < byte_of b \<or> a = b \<and> text_less as bs)"

fun btree_push :: "string \<Rightarrow> token_proof \<Rightarrow> (string \<times> token_proof list) list \<Rightarrow> (string \<times> token_proof list) list" where
  "btree_push k p [] = [(k, [p])]"
| "btree_push k p ((k', ps) # rest) =
     (if k = k' then (k', ps @ [p]) # rest
      else if text_less k k' then (k, [p]) # (k', ps) # rest
      else (k', ps) # btree_push k p rest)"

definition v3_group :: "('p, 't, 's, 'j) engine_env \<Rightarrow> 'j \<Rightarrow> (cashu_error, token_v4_token list) res" where
  "v3_group E grp =
     (let J = ee_json E in
      res_bind (v3_field J ''V3: missing proofs'' (sj_as_array J) ''proofs'' grp) (\<lambda>proofs_json.
      res_bind (map_res (v3_proof E) proofs_json) (\<lambda>proofs.
        Ok (map (\<lambda>(keyset_id, ps). \<lparr>tg_keyset_id = keyset_id, tg_proofs = ps\<rparr>)
              (foldl (\<lambda>m p. btree_push (tp_keyset_id p) p m) [] proofs)))))"

definition decode_v3 :: "('p, 't, 's, 'j) engine_env \<Rightarrow> string \<Rightarrow> (cashu_error, token_v4) res" where
  "decode_v3 E token_str =
     (let J = ee_json E in
      res_bind (ok_or (Protocol ''not a cashuA token'') (strip_prefix ''cashuA'' token_str)) (\<lambda>body.
      res_bind (map_err (\<lambda>e. Protocol (''V3 base64 decode: '' @ e)) (ee_base64 E (pad_base64 body))) (\<lambda>json_bytes.
      res_bind (map_err (\<lambda>e. Protocol (''V3 JSON parse: '' @ e)) (sj_from_slice J json_bytes)) (\<lambda>v3.
      res_bind (v3_field J ''V3: missing token array'' (sj_as_array J) ''token'' v3) (\<lambda>groups.
      res_bind (map_res (v3_group E) groups) (\<lambda>tokens.
        Ok \<lparr>tk_mint = (case groups of [] \<Rightarrow> []
              | g # _ \<Rightarrow> (case sj_get J ''mint'' g of None \<Rightarrow> [] | Some m \<Rightarrow> (case sj_as_str J m of None \<Rightarrow> [] | Some s \<Rightarrow> s))),
            tk_unit = (case sj_get J ''unit'' v3 of None \<Rightarrow> ''sat'' | Some u \<Rightarrow> (case sj_as_str J u of None \<Rightarrow> ''sat'' | Some s \<Rightarrow> s)),
            tk_memo = (case sj_get J ''memo'' v3 of None \<Rightarrow> None | Some m \<Rightarrow> sj_as_str J m),
            tk_tokens = concat tokens\<rparr>))))))"

definition decode_token_any :: "('p, 't, 's, 'j) engine_env \<Rightarrow> string \<Rightarrow> (cashu_error, token_v4) res" where
  "decode_token_any E token_str =
     (if starts_with ''cashuA'' token_str then decode_v3 E token_str
      else map_err (\<lambda>e. Protocol (''invalid token: '' @ ee_cbor_error E e))
             (decode_token (ee_externs E) (ee_cbor E) (as_bytes token_str)))"

section \<open>State\<close>

datatype history_kind = HistMint | HistSend | HistReceive | HistMelt

datatype history_status = Complete | Pending | Reclaimed

record history_entry =
  he_kind :: history_kind
  he_amount :: u64
  he_detail :: string
  he_ts_secs :: u64
  he_status :: history_status

record pending_send =
  pn_token :: string
  pn_amount :: u64
  pn_memo :: "string option"
  pn_ts_secs :: u64
  pn_history_idx :: nat

datatype pending_status = Awaiting | Claimed

text \<open>
  The engine keeps a clone of the transport beside the wallet's; clones reach the same mint, so both are
  the transport of the wallet.
\<close>

record ('t, 's) engine =
  en_mint_url :: string
  en_seed :: bytes
  en_wallet :: "('t, 's) persistent_wallet"
  en_keyset_id :: string
  en_keys :: key_set
  en_fee_ppk :: u64
  en_unit :: string
  en_mint_name :: string
  en_history :: "history_entry list"
  en_pending :: "pending_send list"

type_synonym ('t, 's, 'a) en_op = "(('t, 's) engine, cashu_error, 'a) op"

definition in_wallet :: "('t, 's, 'a) pw_op \<Rightarrow> ('t, 's, 'a) en_op" where
  "in_wallet m = (\<lambda>e. case m (en_wallet e) of (r, w) \<Rightarrow> (r, e\<lparr>en_wallet := w\<rparr>))"

definition meta :: "('t, cashu_error, 'a) op \<Rightarrow> ('t, 's, 'a) en_op" where
  "meta m = in_wallet (call m)"

text \<open>\<^verbatim>\<open>let _ = ...\<close>: the result is dropped.\<close>

definition ignore :: "('s, 'e, 'a) op \<Rightarrow> ('s, 'e, unit) op" where
  "ignore m = (\<lambda>s. case m s of (Panic, s') \<Rightarrow> (Panic, s') | (_, s') \<Rightarrow> (Ok (), s'))"

text \<open>\<^verbatim>\<open>match\<close> on the result of an operation.\<close>

definition handle :: "('s, 'e, 'a) op \<Rightarrow> ('a \<Rightarrow> ('s, 'f, 'b) op) \<Rightarrow> ('e \<Rightarrow> ('s, 'f, 'b) op) \<Rightarrow> ('s, 'f, 'b) op" where
  "handle m f g = (\<lambda>s. case m s of (Ok x, s') \<Rightarrow> f x s' | (Err e, s') \<Rightarrow> g e s' | (Panic, s') \<Rightarrow> (Panic, s'))"

definition read_clock :: "('p, 't, 's, 'j) engine_env \<Rightarrow> ('t, 's, u64) en_op" where
  "read_clock E = meta (\<lambda>t. case ee_now E t of (now, t') \<Rightarrow> (Ok now, t'))"

definition record_entry :: "('p, 't, 's, 'j) engine_env \<Rightarrow> history_kind \<Rightarrow> u64 \<Rightarrow> string \<Rightarrow> ('t, 's, unit) en_op" where
  "record_entry E kind amount detail =
     bind (read_clock E) (\<lambda>ts_secs.
       modify (\<lambda>e. e\<lparr>en_history := en_history e @
         [\<lparr>he_kind = kind, he_amount = amount, he_detail = detail, he_ts_secs = ts_secs, he_status = Complete\<rparr>]\<rparr>))"

definition with_pending ::
  "('p, 't, 's, 'j) engine_env \<Rightarrow> string \<Rightarrow> 't \<Rightarrow> 's \<Rightarrow> bytes \<Rightarrow> history_entry list \<Rightarrow> pending_send list
     \<Rightarrow> (cashu_error, ('t, 's) engine) res" where
  "with_pending E mint_url transport store seed history pending =
     (let url = trim_end_char CHR ''/'' mint_url in
      res_bind (persistent_new (ee_wallet E) url transport store seed) (\<lambda>wallet.
        Ok \<lparr>en_mint_url = url, en_seed = seed, en_wallet = wallet, en_keyset_id = [],
            en_keys = \<lparr>ks_id = [], ks_unit = ''sat'', ks_keys = []\<rparr>, en_fee_ppk = 0, en_unit = ''sat'', en_mint_name = [],
            en_history = history, en_pending = pending\<rparr>))"

definition engine_new ::
  "('p, 't, 's, 'j) engine_env \<Rightarrow> string \<Rightarrow> 't \<Rightarrow> 's \<Rightarrow> bytes \<Rightarrow> history_entry list \<Rightarrow> (cashu_error, ('t, 's) engine) res" where
  "engine_new E mint_url transport store seed history = with_pending E mint_url transport store seed history []"

section \<open>Connecting\<close>

definition pick_active :: "keyset_info list \<Rightarrow> keyset_info option" where
  "pick_active keysets =
     (case find (\<lambda>k. ki_active k \<and> ki_unit k = ''sat'') keysets of
        Some k \<Rightarrow> Some k
      | None \<Rightarrow> find ki_active keysets)"

definition connect :: "('p, 't, 's, 'j) engine_env \<Rightarrow> ('t, 's, unit) en_op" where
  "connect E =
     (let M = we_client (ee_wallet E) in
      bind (meta (mc_get_info M)) (\<lambda>info.
      bind (modify (\<lambda>e. e\<lparr>en_mint_name := mi_name info\<rparr>)) (\<lambda>_.
      bind (meta (mc_get_keysets M)) (\<lambda>keysets.
      bind (lift_res (ok_or (Protocol ''mint has no active keyset'') (pick_active keysets))) (\<lambda>active.
      bind (modify (\<lambda>e. e\<lparr>en_fee_ppk := ki_input_fee_ppk active, en_unit := ki_unit active\<rparr>)) (\<lambda>_.
      bind (meta (mc_get_keys M)) (\<lambda>keys.
      bind (lift_res (ok_or KeysetNotFound (find (\<lambda>k. ks_id k = ki_id active) keys))) (\<lambda>keyset.
        modify (\<lambda>e. e\<lparr>en_keyset_id := ks_id keyset, en_keys := keyset\<rparr>)))))))))"

definition ensure_connected :: "('t, 's, unit) en_op" where
  "ensure_connected =
     bind (gets en_keyset_id) (\<lambda>id.
       guard_err (id = []) (Protocol (''not connected '' @ em_dash @ '' call connect() first'')))"

definition en_balance :: "('t, 's) engine \<Rightarrow> u64" where
  "en_balance e = balance (en_wallet e)"

definition seed_hex :: "('p, 't, 's, 'j) engine_env \<Rightarrow> ('t, 's) engine \<Rightarrow> string" where
  "seed_hex E e = hex_encode (ee_externs E) (en_seed e)"

section \<open>Verification of what enters\<close>

definition known_secrets :: "('t, 's) engine \<Rightarrow> string list" where
  "known_secrets e = map pf_secret (pw_proofs (en_wallet e))"

definition en_verify_one :: "('p, 't, 's, 'j) engine_env \<Rightarrow> key_set \<Rightarrow> nut_proof \<Rightarrow> (cashu_error, unit) res" where
  "en_verify_one E keys p =
     res_bind (ok_or (Crypto (''mint signature carries no NUT-12 dleq '' @ em_dash @ '' cannot verify'')) (pf_dleq p)) (\<lambda>dleq.
     res_bind (ok_or KeysetNotFound (find (\<lambda>k. kp_amount k = pf_amount p) (ks_keys keys))) (\<lambda>key.
       if verify_proof_dleq (ee_externs E) (we_curve (ee_wallet E)) (as_bytes (pf_secret p)) (pf_c p) dleq (kp_pubkey key)
       then Ok () else Err (Crypto ''NUT-12 DLEQ verification failed'')))"

fun en_verify_proofs :: "('p, 't, 's, 'j) engine_env \<Rightarrow> key_set \<Rightarrow> nut_proof list \<Rightarrow> (cashu_error, unit) res" where
  "en_verify_proofs E keys [] = Ok ()"
| "en_verify_proofs E keys (p # ps) = res_bind (en_verify_one E keys p) (\<lambda>_. en_verify_proofs E keys ps)"

definition verify_or_remove :: "('p, 't, 's, 'j) engine_env \<Rightarrow> nut_proof list \<Rightarrow> ('t, 's, unit) en_op" where
  "verify_or_remove E fresh =
     bind (gets en_keys) (\<lambda>keys.
       case en_verify_proofs E keys fresh of
         Ok _ \<Rightarrow> ret ()
       | Err err \<Rightarrow> bind (ignore (in_wallet (remove_proofs (ee_wallet E) fresh))) (\<lambda>_. throw err)
       | Panic \<Rightarrow> panic)"

definition verify_new_proofs :: "('p, 't, 's, 'j) engine_env \<Rightarrow> string list \<Rightarrow> ('t, 's, unit) en_op" where
  "verify_new_proofs E known =
     bind (gets (\<lambda>e. filter (\<lambda>p. pf_secret p \<notin> set known) (pw_proofs (en_wallet e)))) (verify_or_remove E)"

section \<open>Minting\<close>

definition mint_via_invoice :: "('p, 't, 's, 'j) engine_env \<Rightarrow> u64 \<Rightarrow> ('t, 's, mint_quote_response) en_op" where
  "mint_via_invoice E amount =
     bind ensure_connected (\<lambda>_. bind (gets en_unit) (\<lambda>unit.
       meta (mc_post_mint_quote (we_client (ee_wallet E)) \<lparr>mqr_amount = amount, mqr_unit = unit, mqr_pubkey = None\<rparr>)))"

definition poll_mint_quote :: "('p, 't, 's, 'j) engine_env \<Rightarrow> string \<Rightarrow> ('t, 's, mint_quote_response) en_op" where
  "poll_mint_quote E quote_id = meta (mc_get_mint_quote (we_client (ee_wallet E)) quote_id)"

definition mint_paid_quote :: "('p, 't, 's, 'j) engine_env \<Rightarrow> string \<Rightarrow> u64 \<Rightarrow> ('t, 's, u64) en_op" where
  "mint_paid_quote E quote_id amount =
     bind ensure_connected (\<lambda>_. bind (gets known_secrets) (\<lambda>known.
     bind (gets en_keyset_id) (\<lambda>keyset_id. bind (gets en_keys) (\<lambda>keys.
     bind (in_wallet (mint_deterministic (ee_wallet E) quote_id amount keyset_id keys)) (\<lambda>minted.
     bind (verify_new_proofs E known) (\<lambda>_.
     bind (record_entry E HistMint minted (''quote '' @ quote_id)) (\<lambda>_.
       ret minted)))))))"

section \<open>Receiving\<close>

definition token_hashes :: "('p, 't, 's, 'j) engine_env \<Rightarrow> token_v4 \<Rightarrow> (cashu_error, public_key list) res" where
  "token_hashes E token =
     map_res (\<lambda>p. crypto_err ''hash_to_curve failed'' (hash_to_curve (ee_externs E) (as_bytes (tp_secret p)))) (token_proofs token)"

definition read_token :: "('p, 't, 's, 'j) engine_env \<Rightarrow> string \<Rightarrow> (cashu_error, token_v4) res" where
  "read_token E token_str =
     map_err (\<lambda>e. Protocol (''invalid token: '' @ cashu_error_text e)) (decode_token_any E token_str)"

definition check_token_state :: "('p, 't, 's, 'j) engine_env \<Rightarrow> string \<Rightarrow> ('t, 's, proof_state list) en_op" where
  "check_token_state E token_str =
     bind (lift_res (read_token E token_str)) (\<lambda>token.
     bind (lift_res (token_hashes E token)) (\<lambda>ys.
       meta (mc_post_check_state (we_client (ee_wallet E)) ys)))"

text \<open>\<^verbatim>\<open>(fee_ppk * n).div_ceil(1000)\<close>.\<close>

definition input_fee :: "u64 \<Rightarrow> nat \<Rightarrow> u64" where
  "input_fee fee_ppk n =
     (let ppk = fee_ppk * word_of_nat n in ppk div 1000 + (if ppk mod 1000 = 0 then 0 else 1))"

definition count_state :: "string \<Rightarrow> proof_state list \<Rightarrow> nat" where
  "count_state st states = length (filter (\<lambda>s. ps_state s = st) states)"

definition map_err_op :: "('e \<Rightarrow> 'f) \<Rightarrow> ('s, 'e, 'a) op \<Rightarrow> ('s, 'f, 'a) op" where
  "map_err_op f m = (\<lambda>s. case m s of (r, s') \<Rightarrow> (map_err f r, s'))"

definition inspect_token ::
  "('p, 't, 's, 'j) engine_env \<Rightarrow> string \<Rightarrow> (('t, 's) engine, flow_failure, token_inspection) op" where
  "inspect_token E token_str =
     bind (lift_res (map_err (\<lambda>_. InvalidToken) (decode_token_any E token_str))) (\<lambda>token.
     bind (gets en_mint_url) (\<lambda>mint_url.
     bind (guard_err (trim_end_char CHR ''/'' (tk_mint token) \<noteq> mint_url) (ForeignMint (tk_mint token))) (\<lambda>_.
     bind (map_err_op (classify_error (ee_debug E)) (check_token_state E token_str)) (\<lambda>states.
     bind (gets en_fee_ppk) (\<lambda>fee_ppk.
       ret \<lparr>ti_summary = \<lparr>ts_mint = tk_mint token, ts_unit = tk_unit token, ts_memo = tk_memo token,
              ts_amount = total_amount token, ts_proof_count = proof_count token\<rparr>,
            ti_spent = count_state SPENT states, ti_pending = count_state PENDING states,
            ti_fee = input_fee fee_ppk (proof_count token)\<rparr>)))))"

definition token_proof_to_wallet :: "externs \<Rightarrow> token_proof \<Rightarrow> string \<Rightarrow> (cashu_error, nut_proof) res" where
  "token_proof_to_wallet X p keyset_id =
     (if length (tp_c p) \<noteq> 33 then Err InvalidProof
      else res_bind (ok_or InvalidProof (pk_from_bytes X (tp_c p))) (\<lambda>c.
        Ok \<lparr>pf_amount = tp_amount p, pf_id = keyset_id, pf_secret = tp_secret p, pf_c = c, pf_dleq = tp_dleq p, pf_witness = None\<rparr>))"

definition resolve_v3_keyset_prefix :: "string \<Rightarrow> string \<Rightarrow> string" where
  "resolve_v3_keyset_prefix group_id active =
     (if length group_id = 16 \<and> starts_with group_id active then active else group_id)"

definition unlocked_input ::
  "('p, 't, 's, 'j) engine_env \<Rightarrow> unlock_context \<Rightarrow> string \<Rightarrow> token_proof \<Rightarrow> (cashu_error, nut_proof) res" where
  "unlocked_input E ctx keyset_id p =
     res_bind (token_proof_to_wallet (ee_externs E) p keyset_id) (\<lambda>input.
     res_bind (map_err (\<lambda>e. Protocol (''locked input: '' @ condition_error_text e))
         (witness_for_secret (ee_externs E) (ee_signer E) (pf_secret input) ctx)) (\<lambda>witness.
       Ok (input\<lparr>pf_witness := witness\<rparr>)))"

definition receive_group ::
  "('p, 't, 's, 'j) engine_env \<Rightarrow> unlock_context \<Rightarrow> token_v4_token \<Rightarrow> ('t, 's, u64) en_op" where
  "receive_group E ctx grp =
     bind (gets en_keyset_id) (\<lambda>keyset_id. bind (gets en_keys) (\<lambda>keys. bind (gets en_fee_ppk) (\<lambda>fee_ppk.
     bind (lift_res (map_res (unlocked_input E ctx (resolve_v3_keyset_prefix (tg_keyset_id grp) keyset_id)) (tg_proofs grp))) (\<lambda>inputs.
     bind (lift_res (ok_or InsufficientInputs
         (checked_sub (sum_list (map pf_amount inputs)) (input_fee fee_ppk (length inputs))))) (\<lambda>net.
     bind (in_wallet (swap_deterministic (ee_wallet E) inputs (decompose_amount net) keyset_id keys)) (\<lambda>fresh.
     bind (verify_or_remove E fresh) (\<lambda>_.
       ret net)))))))"

fun receive_groups ::
  "('p, 't, 's, 'j) engine_env \<Rightarrow> unlock_context \<Rightarrow> token_v4_token list \<Rightarrow> u64 \<Rightarrow> ('t, 's, u64) en_op" where
  "receive_groups E ctx [] acc = ret acc"
| "receive_groups E ctx (g # gs) acc = bind (receive_group E ctx g) (\<lambda>net. receive_groups E ctx gs (acc + net))"

definition receive_token_with ::
  "('p, 't, 's, 'j) engine_env \<Rightarrow> string \<Rightarrow> string option \<Rightarrow> ('t, 's, u64) en_op" where
  "receive_token_with E token_str preimage =
     bind ensure_connected (\<lambda>_.
     bind (lift_res (read_token E token_str)) (\<lambda>token.
     bind (gets en_mint_url) (\<lambda>mint_url.
     bind (guard_err (trim_end_char CHR ''/'' (tk_mint token) \<noteq> mint_url) (Protocol (foreign_detail (tk_mint token) mint_url))) (\<lambda>_.
     bind (gets en_seed) (\<lambda>seed.
     bind (lift_res (map_err (\<lambda>e. Protocol (condition_error_text e)) (derive_identity (ee_externs E) (ee_signer E) seed))) (\<lambda>identity.
     bind (read_clock E) (\<lambda>now.
     bind (receive_groups E \<lparr>uc_identity = identity, uc_preimage = preimage, uc_now = now\<rparr> (tk_tokens token) 0) (\<lambda>total.
     bind (record_entry E HistReceive total ''ecash token'') (\<lambda>_.
       ret total)))))))))"

definition receive_token :: "('p, 't, 's, 'j) engine_env \<Rightarrow> string \<Rightarrow> ('t, 's, u64) en_op" where
  "receive_token E token_str = receive_token_with E token_str None"

definition en_p2pk_pubkey_hex :: "('p, 't, 's, 'j) engine_env \<Rightarrow> ('t, 's) engine \<Rightarrow> string" where
  "en_p2pk_pubkey_hex E e =
     (case derive_identity (ee_externs E) (ee_signer E) (en_seed e) of
        Ok identity \<Rightarrow> p2pk_pubkey_hex (ee_externs E) (ee_signer E) identity
      | _ \<Rightarrow> [])"

section \<open>Reconciling and restoring\<close>

fun hash_table ::
  "externs \<Rightarrow> nut_proof list \<Rightarrow> (string \<times> string) list \<Rightarrow> public_key list \<Rightarrow> (cashu_error, (string \<times> string) list \<times> public_key list) res" where
  "hash_table X [] table ys = Ok (table, ys)"
| "hash_table X (p # ps) table ys =
     res_bind (crypto_err ''hash_to_curve failed'' (hash_to_curve X (as_bytes (pf_secret p)))) (\<lambda>y.
       hash_table X ps (AList.update (hex_encode X (to_bytes y)) (pf_secret p) table) (ys @ [y]))"

definition spent_secrets :: "externs \<Rightarrow> (string \<times> string) list \<Rightarrow> proof_state list \<Rightarrow> string list" where
  "spent_secrets X table states =
     List.map_filter (\<lambda>s. map_of table (hex_encode X (to_bytes (ps_y s)))) (filter (\<lambda>s. ps_state s = SPENT) states)"

definition reconcile_spent :: "('p, 't, 's, 'j) engine_env \<Rightarrow> ('t, 's, u64) en_op" where
  "reconcile_spent E =
     bind ensure_connected (\<lambda>_.
     bind (gets (\<lambda>e. pw_proofs (en_wallet e))) (\<lambda>proofs.
       if proofs = [] then ret 0
       else
         bind (lift_res (hash_table (ee_externs E) proofs [] [])) (\<lambda>(table, ys).
         bind (meta (mc_post_check_state (we_client (ee_wallet E)) ys)) (\<lambda>states.
           (let spent = spent_secrets (ee_externs E) table states in
            if spent = [] then ret 0
            else
              (let spent_proofs = filter (\<lambda>p. pf_secret p \<in> set spent) proofs in
               bind (in_wallet (remove_proofs (ee_wallet E) spent_proofs)) (\<lambda>_.
                 ret (word_of_nat (length spent_proofs)))))))))"

definition en_restore :: "('p, 't, 's, 'j) engine_env \<Rightarrow> ('t, 's, u64) en_op" where
  "en_restore E =
     bind ensure_connected (\<lambda>_. bind (gets known_secrets) (\<lambda>known.
     bind (gets en_keyset_id) (\<lambda>keyset_id. bind (gets en_keys) (\<lambda>keys.
     bind (in_wallet (wallet_restore (ee_wallet E) keyset_id keys)) (\<lambda>restored.
     bind (if restored > 0 then verify_new_proofs E known else ret ()) (\<lambda>_.
       ret restored))))))"

section \<open>Sending\<close>

definition swap_fee_hint :: "('p, 't, 's, 'j) engine_env \<Rightarrow> u64 \<Rightarrow> ('t, 's, u64) en_op" where
  "swap_fee_hint E amount =
     bind (gets en_fee_ppk) (\<lambda>fee_ppk.
       if fee_ppk = 0 then ret 0
       else
         bind (in_wallet (spend (ee_wallet E) amount)) (\<lambda>selected.
         bind (ignore (in_wallet (undo_spend (ee_wallet E) selected))) (\<lambda>_.
           ret (input_fee fee_ppk (length selected)))))"

definition held_exact :: "u64 \<Rightarrow> ('t, 's, nut_proof list option) en_op" where
  "held_exact amount =
     bind (gets (\<lambda>e. pw_proofs (en_wallet e))) (\<lambda>proofs.
       case find_exact amount proofs of Ok r \<Rightarrow> ret r | _ \<Rightarrow> panic)"

definition is_transport :: "cashu_error \<Rightarrow> bool" where
  "is_transport err = (case err of Transport _ \<Rightarrow> True | _ \<Rightarrow> False)"

text \<open>What follows a failed swap: the selection goes back, and after a transport failure the mint is asked what it has seen.\<close>

definition compose_fallback ::
  "('p, 't, 's, 'j) engine_env \<Rightarrow> u64 \<Rightarrow> nut_proof list \<Rightarrow> cashu_error \<Rightarrow> ('t, 's, nut_proof list) en_op" where
  "compose_fallback E amount selected err =
     bind (ignore (in_wallet (undo_spend (ee_wallet E) selected))) (\<lambda>_.
       if is_transport err then
         bind (handle (reconcile_spent E) (\<lambda>_. ignore (en_restore E)) (\<lambda>_. ret ())) (\<lambda>_.
         bind (held_exact amount) (\<lambda>found.
           case found of Some exact \<Rightarrow> ret exact | None \<Rightarrow> throw err))
       else throw err)"

definition compose_exact :: "('p, 't, 's, 'j) engine_env \<Rightarrow> u64 \<Rightarrow> ('t, 's, nut_proof list) en_op" where
  "compose_exact E amount =
     bind (guard_err (amount = 0) InvalidAmount) (\<lambda>_.
     bind (swap_fee_hint E amount) (\<lambda>fee.
     bind (lift_res (ok_or InvalidAmount (checked_add amount fee))) (\<lambda>needed.
     bind (in_wallet (spend (ee_wallet E) needed)) (\<lambda>selected.
     bind (gets en_keyset_id) (\<lambda>keyset_id. bind (gets en_keys) (\<lambda>keys.
       (let keep = sum_list (map pf_amount selected) - amount - fee;
            send_amounts = decompose_amount amount;
            amounts = send_amounts @ decompose_amount keep
        in handle (in_wallet (swap_deterministic (ee_wallet E) selected amounts keyset_id keys))
             (\<lambda>fresh. ret (take (length send_amounts) fresh))
             (compose_fallback E amount selected))))))))"

definition send_proof :: "nut_proof \<Rightarrow> token_proof" where
  "send_proof p = \<lparr>tp_amount = pf_amount p, tp_keyset_id = pf_id p, tp_secret = pf_secret p, tp_c = to_bytes (pf_c p), tp_dleq = pf_dleq p\<rparr>"

definition send_token :: "('p, 't, 's, 'j) engine_env \<Rightarrow> u64 \<Rightarrow> string option \<Rightarrow> ('t, 's, string) en_op" where
  "send_token E amount memo =
     bind ensure_connected (\<lambda>_.
     bind (compose_exact E amount) (\<lambda>send_proofs.
     bind (gets en_keyset_id) (\<lambda>keyset_id. bind (gets en_mint_url) (\<lambda>mint_url. bind (gets en_unit) (\<lambda>unit.
     bind (lift_res (map_err (\<lambda>e. Protocol (''token encode failed: '' @ ee_cbor_error E e))
         (encode_token_wire (ee_externs E) (ee_cbor E)
            \<lparr>tk_mint = mint_url, tk_unit = unit, tk_memo = memo,
             tk_tokens = [\<lparr>tg_keyset_id = keyset_id, tg_proofs = map send_proof send_proofs\<rparr>]\<rparr>))) (\<lambda>wire.
     bind (in_wallet (remove_proofs (ee_wallet E) send_proofs)) (\<lambda>_.
     bind (gets (\<lambda>e. length (en_history e))) (\<lambda>history_idx.
     bind (record_entry E HistSend amount ''ecash to QR'') (\<lambda>_.
     bind (modify (\<lambda>e. e\<lparr>en_history := (en_history e)[history_idx := (en_history e ! history_idx)\<lparr>he_status := Pending\<rparr>]\<rparr>)) (\<lambda>_.
     bind (modify (\<lambda>e. e\<lparr>en_pending := en_pending e @
         [\<lparr>pn_token = wire, pn_amount = amount, pn_memo = memo, pn_ts_secs = he_ts_secs (en_history e ! history_idx),
           pn_history_idx = history_idx\<rparr>]\<rparr>)) (\<lambda>_.
       ret wire)))))))))))"

section \<open>What is in flight\<close>

definition probe_pending :: "('p, 't, 's, 'j) engine_env \<Rightarrow> pending_send \<Rightarrow> ('t, 's, pending_status) en_op" where
  "probe_pending E pending =
     bind (lift_res (read_token E (pn_token pending))) (\<lambda>token.
     bind (lift_res (token_hashes E token)) (\<lambda>ys.
     bind (meta (mc_post_check_state (we_client (ee_wallet E)) ys)) (\<lambda>states.
       ret (if states \<noteq> [] \<and> list_all (\<lambda>s. ps_state s = SPENT) states then Claimed else Awaiting))))"

definition set_status :: "nat \<Rightarrow> history_status \<Rightarrow> history_entry list \<Rightarrow> history_entry list" where
  "set_status i st h = (if i < length h then h[i := (h ! i)\<lparr>he_status := st\<rparr>] else h)"

definition finalize_claimed :: "nat \<Rightarrow> ('t, 's) engine \<Rightarrow> ('t, 's) engine" where
  "finalize_claimed i e =
     (if i < length (en_pending e)
      then e\<lparr>en_history := set_status (pn_history_idx (en_pending e ! i)) Complete (en_history e),
             en_pending := take i (en_pending e) @ drop (Suc i) (en_pending e)\<rparr>
      else e)"

definition nth_pending :: "nat \<Rightarrow> ('t, 's, pending_send) en_op" where
  "nth_pending i =
     bind (gets en_pending) (\<lambda>ps.
       if i < length ps then ret (ps ! i) else throw (Protocol ''no such pending send''))"

definition check_pending_send :: "('p, 't, 's, 'j) engine_env \<Rightarrow> nat \<Rightarrow> ('t, 's, pending_status) en_op" where
  "check_pending_send E i =
     bind ensure_connected (\<lambda>_. bind (nth_pending i) (\<lambda>pending.
     bind (probe_pending E pending) (\<lambda>status.
     bind (if status = Claimed then modify (finalize_claimed i) else ret ()) (\<lambda>_.
       ret status))))"

lemma in_wallet_frame:
  assumes "in_wallet m e = (r, e')"
  shows "en_pending e' = en_pending e" "en_history e' = en_history e" "en_keys e' = en_keys e" "en_keyset_id e' = en_keyset_id e"
    "en_mint_url e' = en_mint_url e" "en_unit e' = en_unit e" "en_fee_ppk e' = en_fee_ppk e" "en_seed e' = en_seed e"
    "en_mint_name e' = en_mint_name e"
  using assms by (auto simp: in_wallet_def split: prod.splits)

lemma probe_frame: "probe_pending E p e = (r, e') \<Longrightarrow> en_pending e' = en_pending e \<and> en_history e' = en_history e
    \<and> pw_proofs (en_wallet e') = pw_proofs (en_wallet e)"
  unfolding probe_pending_def meta_def
  by (auto simp: bind_def in_wallet_def call_def via_def split: prod.splits res.splits)

text \<open>The loop of \<^verbatim>\<open>check_all_pending\<close>; a claimed send leaves the vector, so the position does not move.\<close>

function check_pending_loop ::
  "('p, 't, 's, 'j) engine_env \<Rightarrow> nat \<Rightarrow> pending_status list \<Rightarrow> ('t, 's) engine \<Rightarrow> (cashu_error, pending_status list) res \<times> ('t, 's) engine" where
  "check_pending_loop E i statuses e =
     (if i \<ge> length (en_pending e) then (Ok statuses, e)
      else case probe_pending E (en_pending e ! i) e of
        (Ok Claimed, e1) \<Rightarrow> check_pending_loop E i (statuses @ [Claimed]) (finalize_claimed i e1)
      | (Ok Awaiting, e1) \<Rightarrow> check_pending_loop E (Suc i) (statuses @ [Awaiting]) e1
      | (Err err, e1) \<Rightarrow> (Err err, e1)
      | (Panic, e1) \<Rightarrow> (Panic, e1))"
  by pat_completeness auto

termination
  by (relation "measure (\<lambda>(E, i, statuses, e). length (en_pending e) - i)")
    (auto simp: finalize_claimed_def dest!: probe_frame[OF sym])

declare check_pending_loop.simps [simp del]

definition check_all_pending :: "('p, 't, 's, 'j) engine_env \<Rightarrow> ('t, 's, pending_status list) en_op" where
  "check_all_pending E = bind ensure_connected (\<lambda>_. check_pending_loop E 0 [])"

definition reclaim_pending :: "('p, 't, 's, 'j) engine_env \<Rightarrow> nat \<Rightarrow> ('t, 's, u64) en_op" where
  "reclaim_pending E i =
     bind ensure_connected (\<lambda>_. bind (nth_pending i) (\<lambda>pending.
     bind (lift_res (read_token E (pn_token pending))) (\<lambda>token.
     bind (lift_res (map_res (\<lambda>(p, id). token_proof_to_wallet (ee_externs E) p id)
         (concat (map (\<lambda>g. map (\<lambda>p. (p, tg_keyset_id g)) (tg_proofs g)) (tk_tokens token))))) (\<lambda>inputs.
     bind (gets known_secrets) (\<lambda>known.
     bind (gets en_fee_ppk) (\<lambda>fee_ppk. bind (gets en_keyset_id) (\<lambda>keyset_id. bind (gets en_keys) (\<lambda>keys.
     bind (lift_res (ok_or InsufficientInputs
         (checked_sub (sum_list (map pf_amount inputs)) (input_fee fee_ppk (length inputs))))) (\<lambda>net.
     bind (handle (in_wallet (swap_deterministic (ee_wallet E) inputs (decompose_amount net) keyset_id keys)) (\<lambda>_. ret ()) (\<lambda>_.
         bind (handle (probe_pending E pending)
             (\<lambda>status. if status = Claimed then modify (finalize_claimed i) else ret ()) (\<lambda>_. ret ())) (\<lambda>_.
           throw (Protocol ''already claimed by the recipient'')))) (\<lambda>_.
     bind (verify_new_proofs E known) (\<lambda>_.
     bind (modify (\<lambda>e. e\<lparr>en_pending := filter (\<lambda>p. p \<noteq> pending) (en_pending e)\<rparr>)) (\<lambda>_.
     bind (modify (\<lambda>e. e\<lparr>en_history := set_status (pn_history_idx pending) Reclaimed (en_history e)\<rparr>)) (\<lambda>_.
     bind (record_entry E HistReceive net ''ecash reclaimed'') (\<lambda>_.
       ret net))))))))))))))"

section \<open>Paying\<close>

text \<open>\<^verbatim>\<open>u64::next_power_of_two\<close>, zero when it does not fit, and \<^verbatim>\<open>isolate_lowest_one\<close>.\<close>

function power_from :: "nat \<Rightarrow> u64 \<Rightarrow> u64" where
  "power_from k w = (if w \<le> 2 ^ k then 2 ^ k else if k \<ge> 63 then 0 else power_from (Suc k) w)"
  by pat_completeness auto

termination by (relation "measure (\<lambda>(k, w). 64 - k)") auto

declare power_from.simps [simp del]

definition next_power_of_two :: "u64 \<Rightarrow> u64" where
  "next_power_of_two w = power_from 0 w"

definition isolate_lowest_one :: "u64 \<Rightarrow> u64" where
  "isolate_lowest_one w = w AND (- w)"

text \<open>
  The loop of \<^verbatim>\<open>decompose_capped\<close>. With a cap of zero it pushes zeros for ever; the value is then \<open>None\<close>.
\<close>

definition capped_coin :: "u64 \<Rightarrow> u64 \<Rightarrow> u64" where
  "capped_coin cap remaining =
     (let coin = min cap remaining in
      if coin AND (coin - 1) \<noteq> 0 then drop_bit 1 (next_power_of_two coin) else coin)"

partial_function (option) capped_loop :: "u64 \<Rightarrow> u64 \<Rightarrow> u64 list \<Rightarrow> u64 list option" where
  "capped_loop cap remaining coins =
     (if remaining > 0
      then capped_loop cap (remaining - capped_coin cap remaining) (coins @ [capped_coin cap remaining])
      else Some coins)"

definition decompose_capped :: "u64 \<Rightarrow> u64 \<Rightarrow> u64 list option" where
  "decompose_capped amount cap = capped_loop cap amount []"

definition quote_melt_with ::
  "('p, 't, 's, 'j) engine_env \<Rightarrow> string \<Rightarrow> u64 option \<Rightarrow> ('t, 's, melt_quote_response) en_op" where
  "quote_melt_with E invoice amount =
     bind ensure_connected (\<lambda>_. bind (gets en_unit) (\<lambda>unit.
       meta (mc_post_melt_quote (we_client (ee_wallet E)) \<lparr>lqr_request = invoice, lqr_unit = unit, lqr_amount = amount\<rparr>)))"

definition quote_melt :: "('p, 't, 's, 'j) engine_env \<Rightarrow> string \<Rightarrow> ('t, 's, melt_quote_response) en_op" where
  "quote_melt E invoice = quote_melt_with E invoice None"

text \<open>
  The whole balance is swapped into the exact target and change; a decomposition that never ends
  exhausts the memory, which aborts the program with the balance taken out of the store.
\<close>

definition melt_target :: "u64 \<Rightarrow> melt_quote_response \<Rightarrow> (cashu_error, u64 \<times> u64) res" where
  "melt_target fee_ppk quote =
     res_bind (ok_or InvalidAmount (checked_add (lq_amount quote) (lq_fee_reserve quote))) (\<lambda>base.
       (let melt_fee = input_fee fee_ppk (length (decompose_amount base)) in
        res_bind (ok_or InvalidAmount (checked_add base melt_fee)) (\<lambda>target. Ok (target, melt_fee))))"

definition prepare_melt :: "('p, 't, 's, 'j) engine_env \<Rightarrow> u64 \<Rightarrow> ('t, 's, unit) en_op" where
  "prepare_melt E target =
     bind (gets en_fee_ppk) (\<lambda>fee_ppk. bind (gets en_keyset_id) (\<lambda>keyset_id. bind (gets en_keys) (\<lambda>keys.
     bind (gets en_balance) (\<lambda>held.
     bind (in_wallet (spend (ee_wallet E) held)) (\<lambda>selected.
       (let swap_fee = (if fee_ppk = 0 then 0 else input_fee fee_ppk (length selected));
            rest = held - swap_fee - target
        in case decompose_capped rest (isolate_lowest_one target) of
             None \<Rightarrow> panic
           | Some change \<Rightarrow>
               handle (in_wallet (swap_deterministic (ee_wallet E) selected (decompose_amount target @ change) keyset_id keys))
                 (\<lambda>_. ret ()) (\<lambda>err. bind (ignore (in_wallet (undo_spend (ee_wallet E) selected))) (\<lambda>_. throw err))))))))"

definition melt_with ::
  "('p, 't, 's, 'j) engine_env \<Rightarrow> string \<Rightarrow> u64 option \<Rightarrow> ('t, 's, melt_quote_response \<times> melt_outcome) en_op" where
  "melt_with E invoice amount =
     bind (quote_melt_with E invoice amount) (\<lambda>quote.
     bind (gets en_fee_ppk) (\<lambda>fee_ppk. bind (gets en_keyset_id) (\<lambda>keyset_id. bind (gets en_keys) (\<lambda>keys.
     bind (lift_res (melt_target fee_ppk quote)) (\<lambda>(target, melt_fee).
     bind (gets known_secrets) (\<lambda>known.
     bind (prepare_melt E target) (\<lambda>_.
     bind (in_wallet (melt_deterministic (ee_wallet E) (lq_quote quote) (lq_amount quote + melt_fee) (lq_fee_reserve quote) keyset_id keys)) (\<lambda>outcome.
     bind (verify_new_proofs E known) (\<lambda>_.
     bind (record_entry E HistMelt (lq_amount quote)
         (case mo_preimage outcome of Some preimage \<Rightarrow> ''preimage '' @ preimage | None \<Rightarrow> ''no preimage'')) (\<lambda>_.
       ret (quote, outcome)))))))))))"

definition melt :: "('p, 't, 's, 'j) engine_env \<Rightarrow> string \<Rightarrow> ('t, 's, melt_quote_response \<times> melt_outcome) en_op" where
  "melt E invoice = melt_with E invoice None"

end
