(* ===== verification/Exact_Spend.thy ===== *)
theory Exact_Spend
  imports Persistent
begin

text \<open>
  The exact selection of \<^verbatim>\<open>PersistentWallet::find_exact\<close>: the pruned search finds a subset of the
  proofs with the requested sum, misses none below the node cap, and visits a bounded number of nodes.
\<close>


section \<open>Suffix sums\<close>

lemma length_suffix_sums [simp]: "length (suffix_sums as) = Suc (length as)"
  by (induction as) (simp_all add: Let_def)

lemma unat_saturating_add: "unat (saturating_add (a::u64) b) = min (unat a + unat b) (2 ^ 64 - 1)"
  by (auto simp: saturating_add_def checked_add_def unat_plus_lt unsigned_minus_1_eq_mask mask_eq_exp_minus_1)

lemma suffix_sums_nth:
  "k \<le> length as \<Longrightarrow> unat (suffix_sums as ! k) = min (sum_nat (drop k as)) (2 ^ 64 - 1)"
proof (induction as arbitrary: k)
  case (Cons a as)
  have hd: "hd (suffix_sums as) = suffix_sums as ! 0" by (cases "suffix_sums as") (simp_all, metis length_suffix_sums list.size(3) nat.distinct(1))
  show ?case
  proof (cases k)
    case 0
    with Cons.IH[of 0] show ?thesis by (simp add: Let_def hd unat_saturating_add min_def)
  next
    case (Suc j)
    with Cons show ?thesis by (simp add: Let_def)
  qed
qed simp

section \<open>Subsets with a given sum\<close>

definition worth :: "u64 list \<Rightarrow> nat set \<Rightarrow> nat" where
  "worth amounts T = (\<Sum>i\<in>T. unat (amounts ! i))"

definition reachable_sum :: "u64 list \<Rightarrow> nat \<Rightarrow> nat \<Rightarrow> bool" where
  "reachable_sum amounts i v \<longleftrightarrow> (\<exists>T. T \<subseteq> {i..<length amounts} \<and> worth amounts T = v)"

lemma worth_all: "worth amounts {i..<length amounts} = sum_nat (drop i amounts)"
proof -
  have "sum_nat (drop i amounts) = (\<Sum>j<length amounts - i. unat (amounts ! (i + j)))"
    by (simp add: sum_list_sum_nth atLeast0LessThan)
  also have "\<dots> = worth amounts {i..<length amounts}"
    unfolding worth_def by (rule sum.reindex_bij_witness[of _ "\<lambda>j. j - i" "\<lambda>j. i + j"]) auto
  finally show ?thesis by simp
qed

lemma reachable_le: "reachable_sum amounts i v \<Longrightarrow> v \<le> sum_nat (drop i amounts)"
  unfolding reachable_sum_def worth_all[symmetric] worth_def by (auto intro: sum_mono2)

lemma reachable_later: "reachable_sum amounts j v \<Longrightarrow> i \<le> j \<Longrightarrow> reachable_sum amounts i v"
  unfolding reachable_sum_def by (metis (no_types) ivl_subset order_refl subset_trans)

text \<open>A subset that reaches a positive sum starts with some coin; the rest comes from later positions.\<close>

lemma reachable_split:
  assumes "reachable_sum amounts i v" "0 < v"
  shows "i < length amounts \<and> (reachable_sum amounts (Suc i) v
    \<or> unat (amounts ! i) \<le> v \<and> reachable_sum amounts (Suc i) (v - unat (amounts ! i)))"
proof -
  from assms obtain T where T: "T \<subseteq> {i..<length amounts}" "worth amounts T = v" by (auto simp: reachable_sum_def)
  with assms(2) have "T \<noteq> {}" by (auto simp: worth_def)
  with T have i: "i < length amounts" by fastforce
  show ?thesis
  proof (cases "i \<in> T")
    case True
    have fin: "finite T" using T(1) finite_subset by blast
    have "worth amounts T = unat (amounts ! i) + worth amounts (T - {i})"
      unfolding worth_def by (rule sum.remove[OF fin True])
    moreover have "T - {i} \<subseteq> {Suc i..<length amounts}" using T(1) by (auto simp: not_less_eq_eq le_Suc_eq)
    ultimately show ?thesis using T(2) i unfolding reachable_sum_def
      by (metis add_diff_cancel_left' le_add1)
  next
    case False
    with T(1) have "T \<subseteq> {Suc i..<length amounts}" by (auto simp: Suc_le_eq le_less)
    with T(2) i show ?thesis by (auto simp: reachable_sum_def)
  qed
qed

section \<open>The search is bounded\<close>

definition triangle :: "nat \<Rightarrow> nat" where
  "triangle k = k * Suc k div 2"

lemma triangle_Suc: "triangle (Suc k) = triangle k + Suc k"
  by (simp add: triangle_def)

lemma triangle_ge: "k \<le> triangle k"
  by (induction k) (simp_all add: triangle_Suc)

lemma triangle_mono: "j \<le> k \<Longrightarrow> triangle j \<le> triangle k"
  by (induction rule: dec_induct) (simp_all add: triangle_Suc)

abbreviation node_cap :: nat where "node_cap \<equiv> unat NODE_CAP"

text \<open>What a search leaves: it returned, counted no more than the bound and did not count down.\<close>

definition bounded_result :: "nat \<Rightarrow> u32 \<Rightarrow> (unit, bool \<times> nat list \<times> u32) res \<Rightarrow> bool" where
  "bounded_result bound nodes r \<longleftrightarrow>
     (\<exists>b c n. r = Ok (b, c, n) \<and> unat nodes \<le> unat n \<and> unat n \<le> bound)"

lemma bounded_result_mono: "bounded_result b nodes r \<Longrightarrow> b \<le> b' \<Longrightarrow> bounded_result b' nodes r"
  by (auto simp: bounded_result_def)

lemma bounded_result_trans: "bounded_result b n r \<Longrightarrow> unat nodes \<le> unat n \<Longrightarrow> b \<le> b' \<Longrightarrow> bounded_result b' nodes r"
  by (auto simp: bounded_result_def intro: order_trans)

text \<open>One turn of the loop.\<close>

lemma dfs_loop_end: "length amounts \<le> i \<Longrightarrow> dfs_loop amounts suffix i last_coin remaining chosen nodes = Ok (False, chosen, nodes)"
  by (simp add: dfs_loop.simps)

lemma dfs_loop_same:
  "i < length amounts \<Longrightarrow> last_coin = Some (amounts ! i) \<Longrightarrow>
     dfs_loop amounts suffix i last_coin remaining chosen nodes = dfs_loop amounts suffix (Suc i) last_coin remaining chosen nodes"
  by (simp add: dfs_loop.simps[of amounts suffix i])

lemma dfs_loop_big:
  "i < length amounts \<Longrightarrow> last_coin \<noteq> Some (amounts ! i) \<Longrightarrow> amounts ! i > remaining \<Longrightarrow>
     dfs_loop amounts suffix i last_coin remaining chosen nodes = dfs_loop amounts suffix (Suc i) (Some (amounts ! i)) remaining chosen nodes"
  by (simp add: dfs_loop.simps[of amounts suffix i])

lemma dfs_loop_take:
  assumes "i < length amounts" "last_coin \<noteq> Some (amounts ! i)" "\<not> amounts ! i > remaining"
    and "dfs amounts suffix (Suc i) (remaining - amounts ! i) (chosen @ [i]) (nodes + 1) = Ok (b, c, n)"
  shows "dfs_loop amounts suffix i last_coin remaining chosen nodes
    = (if b then Ok (True, c, n) else dfs_loop amounts suffix (Suc i) (Some (amounts ! i)) remaining (butlast c) n)"
  using assms by (simp add: dfs_loop.simps[of amounts suffix i])

lemma dfs_bounded:
  "suffix = suffix_sums amounts \<Longrightarrow> start \<le> length amounts \<Longrightarrow> node_cap + triangle (length amounts - start) < 2 ^ 32 \<Longrightarrow>
     bounded_result (max (unat nodes) (node_cap + triangle (length amounts - start))) nodes (dfs amounts suffix start remaining chosen nodes)"
  and dfs_loop_bounded:
  "suffix = suffix_sums amounts \<Longrightarrow> i \<le> length amounts \<Longrightarrow> node_cap + triangle (length amounts - i) < 2 ^ 32 \<Longrightarrow>
     unat nodes + (length amounts - i) < 2 ^ 32 \<Longrightarrow>
     bounded_result (max (unat nodes + (length amounts - i)) (node_cap + triangle (length amounts - i))) nodes
       (dfs_loop amounts suffix i last_coin remaining chosen nodes)"
proof (induction amounts suffix start remaining chosen nodes and amounts suffix i last_coin remaining chosen nodes
    rule: dfs_dfs_loop.induct)
  case (1 amounts suffix start remaining chosen nodes)
  let ?k = "length amounts - start"
  show ?case
  proof (cases "remaining = 0 \<or> nodes \<ge> NODE_CAP \<or> suffix ! start < remaining")
    case True
    with 1(2,3) show ?thesis by (auto simp: bounded_result_def dfs.simps)
  next
    case False
    then have small: "unat nodes < node_cap" by (simp add: word_le_nat_alt)
    have "unat nodes + ?k < 2 ^ 32" "unat nodes + ?k \<le> node_cap + triangle ?k"
      using small triangle_ge[of ?k] 1(4) by linarith+
    with 1 False show ?thesis by (auto simp: bounded_result_def dfs.simps max_def split: if_splits)
  qed
next
  case (2 amounts suffix i last_coin remaining chosen nodes)
  let ?k = "length amounts - i"
  show ?case
  proof (cases "i < length amounts")
    case False
    then show ?thesis by (auto simp: bounded_result_def dfs_loop.simps)
  next
    case True
    then have k: "?k = Suc (length amounts - Suc i)" by simp
    let ?j = "length amounts - Suc i"
    have tri: "triangle ?k = triangle ?j + Suc ?j" unfolding k by (rule triangle_Suc)
    have small: "node_cap + triangle ?j < 2 ^ 32" using "2.prems"(3) tri by linarith
    have bnd: "max (unat nodes + ?j) (node_cap + triangle ?j) \<le> max (unat nodes + ?k) (node_cap + triangle ?k)"
      using tri k by (intro max.mono) linarith+
    have fit: "unat nodes + ?j < 2 ^ 32" "Suc i \<le> length amounts" "\<not> length amounts \<le> i" using "2.prems"(4) k True by linarith+
    consider "last_coin = Some (amounts ! i)" | "last_coin \<noteq> Some (amounts ! i)" "amounts ! i > remaining"
      | "last_coin \<noteq> Some (amounts ! i)" "\<not> amounts ! i > remaining" by blast
    then show ?thesis
    proof cases
      case 1
      from "2.IH"(1)[OF fit(3) refl 1 "2.prems"(1) fit(2) small fit(1)] bnd show ?thesis
        unfolding dfs_loop_same[OF True 1] by (rule bounded_result_mono)
    next
      case c: 2
      from "2.IH"(2)[OF fit(3) refl c "2.prems"(1) fit(2) small fit(1)] bnd show ?thesis
        unfolding dfs_loop_big[OF True c] by (rule bounded_result_mono)
    next
      case c: 3
      have up: "unat (nodes + 1) = unat nodes + 1" using "2.prems"(4) k by (intro trans[OF unat_plus_lt]) auto
      from "2.IH"(3)[OF fit(3) refl c "2.prems"(1) fit(2) small] obtain b ch n where
        d: "dfs amounts suffix (Suc i) (remaining - amounts ! i) (chosen @ [i]) (nodes + 1) = Ok (b, ch, n)"
        and n: "unat nodes + 1 \<le> unat n" "unat n \<le> max (unat nodes + 1) (node_cap + triangle ?j)"
        unfolding bounded_result_def up by blast
      have n': "unat n + ?j < 2 ^ 32" "unat n + ?j \<le> max (unat nodes + ?k) (node_cap + triangle ?k)"
        using n(2) "2.prems"(3,4) tri k unfolding le_max_iff_disj by linarith+
      show ?thesis
      proof (cases b)
        case True
        with n n'(2) show ?thesis unfolding dfs_loop_take[OF \<open>i < length amounts\<close> c d] by (auto simp: bounded_result_def)
      next
        case False
        have "bounded_result (max (unat n + ?j) (node_cap + triangle ?j)) n (dfs_loop amounts suffix (Suc i) (Some (amounts ! i)) remaining (butlast ch) n)"
          using "2.IH"(4)[OF fit(3) refl c d _ _ _ "2.prems"(1) fit(2) small n'(1)] False by simp
        moreover have "max (unat n + ?j) (node_cap + triangle ?j) \<le> max (unat nodes + ?k) (node_cap + triangle ?k)"
          using n'(2) tri by (intro max.boundedI) linarith+
        ultimately show ?thesis
          unfolding dfs_loop_take[OF \<open>i < length amounts\<close> c d] using False n(1) by (simp add: bounded_result_trans)
      qed
    qed
  qed
qed

section \<open>The search is sound and complete\<close>

text \<open>
  The promise of a search from position \<open>i\<close> for the sum \<open>v\<close>: success appends rising positions
  with that sum; failure leaves the chosen positions alone and, below the node cap, means that no
  subset of the remaining positions has the sum.
\<close>

definition search_ok :: "u64 list \<Rightarrow> nat \<Rightarrow> u64 \<Rightarrow> nat list \<Rightarrow> (unit, bool \<times> nat list \<times> u32) res \<Rightarrow> bool" where
  "search_ok amounts i v chosen r \<longleftrightarrow>
     (\<forall>b c n. r = Ok (b, c, n) \<longrightarrow>
        (if b then \<exists>xs. c = chosen @ xs \<and> sorted_wrt (<) xs \<and> set xs \<subseteq> {i..<length amounts}
             \<and> sum_list (map (\<lambda>j. unat (amounts ! j)) xs) = unat v
         else c = chosen \<and> (unat n < node_cap \<longrightarrow> \<not> reachable_sum amounts i (unat v))))"

lemma search_ok_later:
  assumes "search_ok amounts (Suc i) v chosen r"
    and "\<And>c n. r = Ok (False, c, n) \<Longrightarrow> unat n < node_cap \<Longrightarrow> \<not> reachable_sum amounts (Suc i) (unat v) \<Longrightarrow> \<not> reachable_sum amounts i (unat v)"
  shows "search_ok amounts i v chosen r"
  using assms unfolding search_ok_def by (fastforce split: if_splits)

text \<open>A coin that was tried already, or is too big, starts no solution.\<close>

lemma skip_coin:
  assumes "reachable_sum amounts i (unat v)" "v \<noteq> 0" "\<not> reachable_sum amounts (Suc i) (unat v)"
    and "amounts ! i \<le> v \<Longrightarrow> \<not> reachable_sum amounts (Suc i) (unat (v - amounts ! i))"
  shows False
  using reachable_split[OF assms(1)] assms(2-4) by (auto simp: unat_gt_0 word_le_nat_alt unat_sub)

text \<open>The coin of the previous turn, after which no later subset completes the sum.\<close>

definition tried :: "u64 list \<Rightarrow> nat \<Rightarrow> u64 option \<Rightarrow> u64 \<Rightarrow> bool" where
  "tried amounts i last_coin v \<longleftrightarrow> (\<forall>c. last_coin = Some c \<longrightarrow> c \<le> v \<longrightarrow> \<not> reachable_sum amounts i (unat (v - c)))"

lemma tried_later: "tried amounts i l v \<Longrightarrow> tried amounts (Suc i) l v"
  by (auto simp: tried_def dest: reachable_later[of amounts "Suc i" _ i])

lemma dfs_search_ok:
  "suffix = suffix_sums amounts \<Longrightarrow> start \<le> length amounts \<Longrightarrow> node_cap + triangle (length amounts - start) < 2 ^ 32 \<Longrightarrow>
     search_ok amounts start remaining chosen (dfs amounts suffix start remaining chosen nodes)"
  and dfs_loop_search_ok:
  "suffix = suffix_sums amounts \<Longrightarrow> i \<le> length amounts \<Longrightarrow> node_cap + triangle (length amounts - i) < 2 ^ 32 \<Longrightarrow>
     unat nodes + (length amounts - i) < 2 ^ 32 \<Longrightarrow> remaining \<noteq> 0 \<Longrightarrow>
     (\<forall>b c n. dfs_loop amounts suffix i last_coin remaining chosen nodes = Ok (b, c, n) \<longrightarrow> unat n < node_cap \<longrightarrow> tried amounts i last_coin remaining) \<Longrightarrow>
     search_ok amounts i remaining chosen (dfs_loop amounts suffix i last_coin remaining chosen nodes)"
proof (induction amounts suffix start remaining chosen nodes and amounts suffix i last_coin remaining chosen nodes
    rule: dfs_dfs_loop.induct)
  case (1 amounts suffix start remaining chosen nodes)
  let ?k = "length amounts - start"
  consider "remaining = 0" | "remaining \<noteq> 0" "nodes \<ge> NODE_CAP" | "remaining \<noteq> 0" "\<not> nodes \<ge> NODE_CAP" "suffix ! start < remaining"
    | "remaining \<noteq> 0" "\<not> nodes \<ge> NODE_CAP" "\<not> suffix ! start < remaining" by blast
  then show ?case
  proof cases
    case 1
    then show ?thesis by (auto simp: search_ok_def dfs.simps intro: exI[of _ "[]"])
  next
    case 2
    then show ?thesis by (auto simp: search_ok_def dfs.simps word_le_nat_alt)
  next
    case c: 3
    have "unat (suffix ! start) = min (sum_nat (drop start amounts)) (2 ^ 64 - 1)"
      using suffix_sums_nth[of start amounts] "1.prems" by simp
    moreover have "unat remaining \<le> 2 ^ 64 - 1" using unat_bound[of remaining] by simp
    ultimately have "sum_nat (drop start amounts) < unat remaining"
      using c(3) unfolding word_less_nat_alt by linarith
    with reachable_le have "\<not> reachable_sum amounts start (unat remaining)" by (metis not_le)
    with c "1.prems" show ?thesis by (auto simp: search_ok_def dfs.simps)
  next
    case c: 4
    then have "unat nodes < node_cap" by (simp add: word_le_nat_alt)
    then have fit: "unat nodes + ?k < 2 ^ 32" using triangle_ge[of ?k] "1.prems"(3) by linarith
    have "\<not> length suffix \<le> start" using "1.prems" by simp
    with "1.IH"[OF c(1,2) this c(3) "1.prems" fit c(1)] c show ?thesis
      by (simp add: dfs.simps tried_def)
  qed
next
  case (2 amounts suffix i last_coin remaining chosen nodes)
  let ?k = "length amounts - i"
  show ?case
  proof (cases "i < length amounts")
    case False
    then have "\<not> reachable_sum amounts i (unat remaining)"
      using reachable_split[of amounts i "unat remaining"] "2.prems"(5) by (auto simp: unat_gt_0)
    with False show ?thesis by (simp add: search_ok_def dfs_loop_end)
  next
    case True
    let ?j = "length amounts - Suc i"
    have k: "?k = Suc ?j" using True by simp
    have tri: "triangle ?k = triangle ?j + Suc ?j" unfolding k by (rule triangle_Suc)
    have small: "node_cap + triangle ?j < 2 ^ 32" using "2.prems"(3) tri by linarith
    have fit: "unat nodes + ?j < 2 ^ 32" "Suc i \<le> length amounts" "\<not> length amounts \<le> i" using "2.prems"(4) k True by linarith+
    consider "last_coin = Some (amounts ! i)" | "last_coin \<noteq> Some (amounts ! i)" "amounts ! i > remaining"
      | "last_coin \<noteq> Some (amounts ! i)" "\<not> amounts ! i > remaining" by blast
    then show ?thesis
    proof cases
      case c: 1
      note eq = dfs_loop_same[OF True c, of suffix remaining chosen nodes]
      show ?thesis unfolding eq
      proof (rule search_ok_later)
        show "search_ok amounts (Suc i) remaining chosen (dfs_loop amounts suffix (Suc i) last_coin remaining chosen nodes)"
          by (rule "2.IH"(1)[OF fit(3) refl c "2.prems"(1) fit(2) small fit(1) "2.prems"(5)])
            (use "2.prems"(6)[unfolded eq] tried_later in blast)
        fix ch n assume "dfs_loop amounts suffix (Suc i) last_coin remaining chosen nodes = Ok (False, ch, n)" "unat n < node_cap"
          "\<not> reachable_sum amounts (Suc i) (unat remaining)"
        moreover from this have "tried amounts (Suc i) last_coin remaining" using "2.prems"(6)[unfolded eq] tried_later by blast
        ultimately show "\<not> reachable_sum amounts i (unat remaining)"
          using skip_coin[OF _ "2.prems"(5)] c by (auto simp: tried_def)
      qed
    next
      case c: 2
      note eq = dfs_loop_big[OF True c, of suffix chosen nodes]
      show ?thesis unfolding eq
      proof (rule search_ok_later)
        show "search_ok amounts (Suc i) remaining chosen (dfs_loop amounts suffix (Suc i) (Some (amounts ! i)) remaining chosen nodes)"
          by (rule "2.IH"(2)[OF fit(3) refl c "2.prems"(1) fit(2) small fit(1) "2.prems"(5)])
            (use c in \<open>auto simp: tried_def\<close>)
        fix ch n assume "\<not> reachable_sum amounts (Suc i) (unat remaining)"
        then show "\<not> reachable_sum amounts i (unat remaining)"
          using skip_coin[OF _ "2.prems"(5)] c(2) by (meson leD)
      qed
    next
      case c: 3
      let ?c = "amounts ! i"
      have le: "?c \<le> remaining" using c(2) by simp
      have sub: "unat (remaining - ?c) = unat remaining - unat ?c" "unat ?c \<le> unat remaining"
        using le by (simp_all add: unat_sub word_le_nat_alt)
      have up: "unat (nodes + 1) = unat nodes + 1" using "2.prems"(4) k by (intro trans[OF unat_plus_lt]) auto
      from dfs_bounded[OF "2.prems"(1) fit(2) small] obtain b ch n where
        d: "dfs amounts suffix (Suc i) (remaining - ?c) (chosen @ [i]) (nodes + 1) = Ok (b, ch, n)"
        and n: "unat n \<le> max (unat nodes + 1) (node_cap + triangle ?j)"
        unfolding bounded_result_def up[symmetric] by blast
      have n': "unat n + ?j < 2 ^ 32"
        using n "2.prems"(3,4) tri k unfolding le_max_iff_disj by linarith
      note found = "2.IH"(3)[OF fit(3) refl c "2.prems"(1) fit(2) small, unfolded d search_ok_def, rule_format, OF refl]
      note eq = dfs_loop_take[OF True c d]
      show ?thesis
      proof (cases b)
        case True
        with found obtain xs where xs: "ch = (chosen @ [i]) @ xs" "sorted_wrt (<) xs" "set xs \<subseteq> {Suc i..<length amounts}"
          "sum_list (map (\<lambda>j. unat (amounts ! j)) xs) = unat (remaining - ?c)" by auto
        then have "sorted_wrt (<) (i # xs)" "set (i # xs) \<subseteq> {i..<length amounts}"
          "sum_list (map (\<lambda>j. unat (amounts ! j)) (i # xs)) = unat remaining"
          using \<open>i < length amounts\<close> sub by auto
        with xs(1) True show ?thesis unfolding eq search_ok_def by (auto intro!: exI[of _ "i # xs"])
      next
        case False
        with found have ch: "butlast ch = chosen" and none: "unat n < node_cap \<Longrightarrow> \<not> reachable_sum amounts (Suc i) (unat (remaining - ?c))"
          by auto
        have up': "unat n \<le> unat n'" if "dfs_loop amounts suffix (Suc i) (Some ?c) remaining chosen n = Ok (b', c', n')" for b' c' n'
          using dfs_loop_bounded[OF "2.prems"(1) fit(2) small n', of "Some ?c" remaining chosen] that by (auto simp: bounded_result_def)
        have "search_ok amounts i remaining chosen (dfs_loop amounts suffix (Suc i) (Some ?c) remaining chosen n)"
        proof (rule search_ok_later)
          show "search_ok amounts (Suc i) remaining chosen (dfs_loop amounts suffix (Suc i) (Some ?c) remaining chosen n)"
          proof -
            have T: "\<forall>b' c' n'. dfs_loop amounts suffix (Suc i) (Some ?c) remaining (butlast ch) n = Ok (b', c', n') \<longrightarrow> unat n' < node_cap \<longrightarrow>
                tried amounts (Suc i) (Some ?c) remaining"
            proof (intro allI impI)
              fix b' c' n' assume "dfs_loop amounts suffix (Suc i) (Some ?c) remaining (butlast ch) n = Ok (b', c', n')" "unat n' < node_cap"
              then have "unat n < node_cap" using up'[unfolded ch[symmetric]] by (meson le_less_trans)
              with none show "tried amounts (Suc i) (Some ?c) remaining" by (simp add: tried_def)
            qed
            have bF: "b = False" using False by simp
            from "2.IH"(4)[OF fit(3) refl c d refl bF refl "2.prems"(1) fit(2) small n' "2.prems"(5) T] show ?thesis
              by (simp only: ch)
          qed
          fix c' n' assume "dfs_loop amounts suffix (Suc i) (Some ?c) remaining chosen n = Ok (False, c', n')" "unat n' < node_cap"
            "\<not> reachable_sum amounts (Suc i) (unat remaining)"
          moreover from this have "\<not> reachable_sum amounts (Suc i) (unat (remaining - ?c))" using up' none by (meson le_less_trans)
          ultimately show "\<not> reachable_sum amounts i (unat remaining)"
            using skip_coin[OF _ "2.prems"(5)] by blast
        qed
        with False show ?thesis unfolding eq ch by simp
      qed
    qed
  qed
qed

section \<open>A small wallet never reaches the node_cap\<close>

lemma dfs_small:
  "suffix = suffix_sums amounts \<Longrightarrow> start \<le> length amounts \<Longrightarrow> unat nodes + 2 ^ (length amounts - start) \<le> node_cap \<Longrightarrow>
     dfs amounts suffix start remaining chosen nodes = Ok (b, c, n) \<Longrightarrow> unat n < unat nodes + 2 ^ (length amounts - start)"
  and dfs_loop_small:
  "suffix = suffix_sums amounts \<Longrightarrow> i \<le> length amounts \<Longrightarrow> unat nodes + 2 ^ (length amounts - i) \<le> node_cap \<Longrightarrow>
     dfs_loop amounts suffix i last_coin remaining chosen nodes = Ok (b, c, n) \<Longrightarrow> unat n < unat nodes + 2 ^ (length amounts - i)"
proof (induction amounts suffix start remaining chosen nodes and amounts suffix i last_coin remaining chosen nodes
    arbitrary: b c n and b c n rule: dfs_dfs_loop.induct)
  case (1 amounts suffix start remaining chosen nodes)
  from "1.prems"(4) consider "n = nodes" | "dfs_loop amounts suffix start None remaining chosen nodes = Ok (b, c, n)"
    "remaining \<noteq> 0" "\<not> nodes \<ge> NODE_CAP" "\<not> start \<ge> length suffix" "\<not> suffix ! start < remaining"
    by (auto simp: dfs.simps split: if_splits)
  then show ?case
  proof cases
    case c: 2
    from "1.IH"[OF c(2-5) "1.prems"(1-3) c(1)] show ?thesis .
  qed simp
next
  case (2 amounts suffix i last_coin remaining chosen nodes)
  show ?case
  proof (cases "i < length amounts")
    case True
    let ?p = "2 ^ (length amounts - Suc i) :: nat"
    have p: "2 ^ (length amounts - i) = 2 * ?p" using True by (metis Suc_diff_Suc power_Suc)
    have fit: "unat nodes + ?p \<le> node_cap" "Suc i \<le> length amounts" "\<not> length amounts \<le> i" using "2.prems"(3) p True by auto
    consider "last_coin = Some (amounts ! i)" | "last_coin \<noteq> Some (amounts ! i)" "amounts ! i > remaining"
      | "last_coin \<noteq> Some (amounts ! i)" "\<not> amounts ! i > remaining" by blast
    then show ?thesis
    proof cases
      case 1
      from "2.IH"(1)[OF fit(3) refl 1 "2.prems"(1) fit(2,1)] "2.prems"(4) p show ?thesis by (fastforce simp: dfs_loop_same[OF True 1])
    next
      case c: 2
      from "2.IH"(2)[OF fit(3) refl c "2.prems"(1) fit(2,1)] "2.prems"(4) p show ?thesis by (fastforce simp: dfs_loop_big[OF True c])
    next
      case c: 3
      have "node_cap < 2 ^ 32" using unat_bound[of NODE_CAP] by simp
      moreover have "1 \<le> ?p" by simp
      ultimately have "unat nodes + 1 < 2 ^ 32" using fit(1) by linarith
      then have up: "unat (nodes + 1) = unat nodes + 1" by (intro trans[OF unat_plus_lt]) simp_all
      show ?thesis
      proof (cases "dfs amounts suffix (Suc i) (remaining - amounts ! i) (chosen @ [i]) (nodes + 1)")
        case (Ok r)
        obtain b' c' n' where r: "r = (b', c', n')" by (cases r)
        note d = Ok[unfolded r]
        have "unat nodes + 1 + ?p \<le> node_cap" using "2.prems"(3) p one_le_power[of "2::nat" "length amounts - Suc i"] by linarith
        from "2.IH"(3)[OF fit(3) refl c "2.prems"(1) fit(2), unfolded up, OF this d] have n': "unat n' < unat nodes + 1 + ?p" .
        show ?thesis
        proof (cases b')
          case True
          with "2.prems"(4) have "n' = n" by (simp add: dfs_loop_take[OF \<open>i < length amounts\<close> c d])
          from n' p \<open>1 \<le> ?p\<close> show ?thesis unfolding \<open>n' = n\<close> by linarith
        next
          case False
          then have bF: "b' = False" by simp
          have "unat n' + ?p \<le> node_cap" using n' "2.prems"(3) p by linarith
          from "2.IH"(4)[OF fit(3) refl c d refl bF refl "2.prems"(1) fit(2) this] "2.prems"(4) False
          have "unat n < unat n' + ?p" by (simp add: dfs_loop_take[OF \<open>i < length amounts\<close> c d])
          with n' p show ?thesis by linarith
        qed
      qed (use "2.prems"(4) c True in \<open>simp_all add: dfs_loop.simps[of amounts suffix i]\<close>)
    qed
  qed (use "2.prems"(4) in \<open>simp add: dfs_loop_end\<close>)
qed

section \<open>Exact selection of proofs\<close>

definition spend_order :: "nut_proof list \<Rightarrow> nat list" where
  "spend_order proofs = sort_key (\<lambda>i. - uint (pf_amount (proofs ! i))) [0..<length proofs]"

definition spend_list :: "nut_proof list \<Rightarrow> nut_proof list" where
  "spend_list proofs = map (\<lambda>i. proofs ! i) (spend_order proofs)"

text \<open>The search that \<open>find_exact\<close> runs, and the nodes it counts.\<close>

definition exact_search :: "u64 \<Rightarrow> nut_proof list \<Rightarrow> (unit, bool \<times> nat list \<times> u32) res" where
  "exact_search amount proofs =
     (let amounts = map pf_amount (spend_list proofs) in dfs amounts (suffix_sums amounts) 0 amount [] 0)"

definition search_nodes :: "u64 \<Rightarrow> nut_proof list \<Rightarrow> nat" where
  "search_nodes amount proofs = (case exact_search amount proofs of Ok (b, c, n) \<Rightarrow> unat n | _ \<Rightarrow> 0)"

lemma mset_spend_list: "mset (spend_list proofs) = mset proofs"
proof -
  have "mset (spend_list proofs) = image_mset (\<lambda>i. proofs ! i) (mset [0..<length proofs])"
    by (simp add: spend_list_def spend_order_def mset_map)
  also have "\<dots> = mset (map (\<lambda>i. proofs ! i) [0..<length proofs])" by (simp only: mset_map)
  finally show ?thesis by (simp add: map_nth)
qed

lemma length_spend_list [simp]: "length (spend_list proofs) = length proofs"
  by (metis mset_spend_list size_mset)

lemma exact_search_ok:
  assumes "length proofs \<le> 90000"
  obtains b c n where "exact_search amount proofs = Ok (b, c, n)" "unat n \<le> node_cap + triangle (length proofs)"
    "b \<Longrightarrow> sorted_wrt (<) c \<and> set c \<subseteq> {0..<length proofs} \<and> sum_list (map (\<lambda>j. unat (pf_amount (spend_list proofs ! j))) c) = unat amount"
    "\<not> b \<Longrightarrow> unat n < node_cap \<Longrightarrow> \<not> reachable_sum (map pf_amount (spend_list proofs)) 0 (unat amount)"
proof -
  let ?as = "map pf_amount (spend_list proofs)"
  have fit: "node_cap + triangle (length ?as - 0) < 2 ^ 32"
    using triangle_mono[OF assms] by (simp add: NODE_CAP_def triangle_def)
  from dfs_bounded[OF refl _ fit, of 0 amount "[]"] obtain b c n where r: "exact_search amount proofs = Ok (b, c, n)" "unat n \<le> node_cap + triangle (length proofs)"
    unfolding bounded_result_def exact_search_def Let_def by auto
  from dfs_search_ok[OF refl _ fit, of amount "[]" 0] r(1) have s: "search_ok ?as 0 amount [] (Ok (b, c, n))"
    by (simp add: exact_search_def Let_def)
  show ?thesis
  proof (rule that[OF r])
    assume b
    with s have c: "sorted_wrt (<) c" "set c \<subseteq> {0..<length proofs}" "sum_list (map (\<lambda>j. unat (?as ! j)) c) = unat amount"
      by (auto simp: search_ok_def)
    have "map (\<lambda>j. unat (?as ! j)) c = map (\<lambda>j. unat (pf_amount (spend_list proofs ! j))) c"
      by (rule map_cong) (use c(2) in auto)
    with c show "sorted_wrt (<) c \<and> set c \<subseteq> {0..<length proofs} \<and> sum_list (map (\<lambda>j. unat (pf_amount (spend_list proofs ! j))) c) = unat amount"
      by simp
  qed (use s in \<open>auto simp: search_ok_def\<close>)
qed

lemma find_exact_result:
  assumes "amount \<noteq> 0" "exact_search amount proofs = Ok (b, c, n)" "b \<Longrightarrow> set c \<subseteq> {0..<length proofs}"
  shows "find_exact amount proofs = Ok (if b then Some (map (\<lambda>k. spend_list proofs ! k) c) else None)"
proof -
  have "map (\<lambda>k. proofs ! (spend_order proofs ! k)) c = map (\<lambda>k. spend_list proofs ! k) c" if b
    using assms(3)[OF that] by (auto simp: spend_list_def spend_order_def)
  with assms show ?thesis
    by (simp add: find_exact_def exact_search_def Let_def spend_list_def spend_order_def comp_def)
qed

definition covers_exactly :: "u64 \<Rightarrow> nut_proof list \<Rightarrow> nut_proof list \<Rightarrow> bool" where
  "covers_exactly amount proofs ps \<longleftrightarrow> mset ps \<subseteq># mset proofs \<and> sum_nat (map pf_amount ps) = unat amount"

lemma mset_nths_of: 
  assumes "distinct xs" "set xs \<subseteq> {..<length L}"
  shows "mset (map (\<lambda>k. L ! k) xs) \<subseteq># mset L"
proof -
  have "mset (map (\<lambda>k. L ! k) xs) = image_mset (\<lambda>k. L ! k) (mset_set (set xs))" using assms(1) by (simp add: mset_set_set)
  also have "\<dots> \<subseteq># image_mset (\<lambda>k. L ! k) (mset_set {..<length L})"
    by (rule image_mset_subseteq_mono) (use assms in \<open>simp add: subset_imp_msubset_mset_set\<close>)
  also have "\<dots> = mset (map (\<lambda>k. L ! k) [0..<length L])" by (simp add: atLeast0LessThan)
  finally show ?thesis by (simp add: map_nth)
qed

lemma sum_nat_mset: "sum_nat (map pf_amount ps) = (\<Sum>p\<in>#mset ps. unat (pf_amount p))"
  by (induction ps) simp_all

lemma mset_set_sub:
  assumes "mset_set {..<n::nat} = N + D"
  shows "N = mset_set (set_mset N)" "set_mset N \<subseteq> {0..<n}"
proof -
  have le: "count N k \<le> (if k < n then 1 else 0)" for k
    using arg_cong[OF assms, of "\<lambda>M. count M k"] by (auto simp: count_mset_set' split: if_splits)
  show "N = mset_set (set_mset N)"
  proof (rule multiset_eqI)
    fix k
    have "count N k = 1" if "k \<in># N"
    proof (rule antisym)
      show "count N k \<le> 1" using le[of k] by (cases "k < n") simp_all
      show "1 \<le> count N k" using that by (simp add: Suc_le_eq)
    qed
    then show "count N k = count (mset_set (set_mset N)) k"
      by (cases "k \<in># N") (simp_all add: not_in_iff count_mset_set')
  qed
  show "set_mset N \<subseteq> {0..<n}"
  proof
    fix k assume "k \<in># N"
    then have "count N k \<noteq> 0" by simp
    with le[of k] show "k \<in> {0..<n}" by (cases "k < n") simp_all
  qed
qed

lemma reachable_of_covering:
  assumes "mset ps \<subseteq># mset L"
  shows "reachable_sum (map pf_amount L) 0 (sum_nat (map pf_amount ps))"
proof -
  have "image_mset (\<lambda>k. L ! k) (mset [0..<length L]) = mset (map (\<lambda>k. L ! k) [0..<length L])" by (simp only: mset_map)
  then have "image_mset (\<lambda>k. L ! k) (mset_set {..<length L}) = mset L" by (simp add: map_nth atLeast0LessThan)
  with assms obtain D where "image_mset (\<lambda>k. L ! k) (mset_set {..<length L}) = mset ps + D" by (metis subset_mset.le_iff_add)
  from image_mset_eq_plusD[OF this] obtain N D' where N: "mset_set {..<length L} = N + D'" "mset ps = image_mset (\<lambda>k. L ! k) N" by blast
  note sub = mset_set_sub(2)[OF N(1)]
  have ps: "mset ps = image_mset (\<lambda>k. L ! k) (mset_set (set_mset N))"
    using N(2) unfolding mset_set_sub(1)[OF N(1), symmetric] .
  have "sum_nat (map pf_amount ps) = (\<Sum>p\<in>#mset ps. unat (pf_amount p))" by (rule sum_nat_mset)
  also have "\<dots> = (\<Sum>k\<in>set_mset N. unat (pf_amount (L ! k)))"
    unfolding ps by (simp add: image_mset.compositionality comp_def sum_unfold_sum_mset)
  also have "\<dots> = worth (map pf_amount L) (set_mset N)"
    unfolding worth_def using sub by (intro sum.cong) auto
  finally show ?thesis using sub by (auto simp: reachable_sum_def)
qed

lemma chosen_covers:
  assumes "sorted_wrt (<) c" "set c \<subseteq> {0..<length proofs}"
    and "sum_list (map (\<lambda>j. unat (pf_amount (spend_list proofs ! j))) c) = unat amount"
  shows "covers_exactly amount proofs (map (\<lambda>k. spend_list proofs ! k) c)"
proof -
  have "distinct c" using assms(1) strict_sorted_iff by blast
  then have "mset (map (\<lambda>k. spend_list proofs ! k) c) \<subseteq># mset (spend_list proofs)"
    by (rule mset_nths_of) (use assms(2) in auto)
  with assms(3) show ?thesis by (simp add: covers_exactly_def mset_spend_list comp_def)
qed

lemma covering_reachable:
  "covers_exactly amount proofs ps \<Longrightarrow> reachable_sum (map pf_amount (spend_list proofs)) 0 (unat amount)"
  using reachable_of_covering[of ps "spend_list proofs"] by (simp add: covers_exactly_def mset_spend_list)

text \<open>C20: exact selection is correct. The search never fails or panics; proofs it returns belong to the
  wallet, each taken at most as often as it is there, and sum exactly to the amount; and when it returns
  nothing, the amount is zero, or no selection of proofs has that sum, or the node cap was reached.\<close>

theorem find_exact_correct:
  assumes "length proofs \<le> 90000"
  shows "(\<exists>ps. find_exact amount proofs = Ok (Some ps) \<and> covers_exactly amount proofs ps)
    \<or> find_exact amount proofs = Ok None
      \<and> (amount = 0 \<or> node_cap \<le> search_nodes amount proofs \<or> \<not> (\<exists>ps. covers_exactly amount proofs ps))"
proof (cases "amount = 0")
  case True
  then show ?thesis by (simp add: find_exact_def)
next
  case False
  from exact_search_ok[OF assms] obtain b c n where s: "exact_search amount proofs = Ok (b, c, n)"
    and yes: "b \<Longrightarrow> sorted_wrt (<) c \<and> set c \<subseteq> {0..<length proofs} \<and> sum_list (map (\<lambda>j. unat (pf_amount (spend_list proofs ! j))) c) = unat amount"
    and no: "\<not> b \<Longrightarrow> unat n < node_cap \<Longrightarrow> \<not> reachable_sum (map pf_amount (spend_list proofs)) 0 (unat amount)"
    by metis
  have r: "find_exact amount proofs = Ok (if b then Some (map (\<lambda>k. spend_list proofs ! k) c) else None)"
    by (rule find_exact_result[OF False s]) (use yes in blast)
  show ?thesis
  proof (cases b)
    case True
    with r chosen_covers yes show ?thesis by auto
  next
    case False
    have "search_nodes amount proofs = unat n" by (simp add: search_nodes_def s)
    with r no[OF False] False covering_reachable show ?thesis by (metis not_le)
  qed
qed

text \<open>C22: the search is bounded. However fragmented the wallet, the nodes counted stay below the cap plus one
  triangle of the number of proofs, so the search ends soon after the cap is reached.\<close>

theorem find_exact_bounded:
  assumes "length proofs \<le> 90000"
  shows "search_nodes amount proofs \<le> 100000 + length proofs * (length proofs + 1) div 2"
proof -
  from exact_search_ok[OF assms] obtain b c n where "exact_search amount proofs = Ok (b, c, n)" "unat n \<le> node_cap + triangle (length proofs)"
    by metis
  then show ?thesis by (simp add: search_nodes_def NODE_CAP_def triangle_def)
qed

text \<open>C21: for a wallet of at most 16 proofs the selection decides the question: it returns proofs exactly when some
  selection has the requested sum.\<close>

theorem find_exact_complete:
  assumes "length proofs \<le> 16" "amount \<noteq> 0"
  shows "(\<exists>ps. find_exact amount proofs = Ok (Some ps)) \<longleftrightarrow> (\<exists>ps. covers_exactly amount proofs ps)"
proof -
  have big: "length proofs \<le> 90000" using assms(1) by simp
  from exact_search_ok[OF big] obtain b c n where s: "exact_search amount proofs = Ok (b, c, n)"
    and yes: "b \<Longrightarrow> sorted_wrt (<) c \<and> set c \<subseteq> {0..<length proofs} \<and> sum_list (map (\<lambda>j. unat (pf_amount (spend_list proofs ! j))) c) = unat amount"
    and no: "\<not> b \<Longrightarrow> unat n < node_cap \<Longrightarrow> \<not> reachable_sum (map pf_amount (spend_list proofs)) 0 (unat amount)"
    by metis
  have "(2::nat) ^ length proofs \<le> 2 ^ 16" using assms(1) by (simp only: power_increasing_iff)
  then have "unat (0::u32) + 2 ^ (length (map pf_amount (spend_list proofs)) - 0) \<le> node_cap" by (simp add: NODE_CAP_def)
  from dfs_small[OF refl _ this] s have "unat n < 2 ^ length proofs" unfolding exact_search_def Let_def by fastforce
  with \<open>2 ^ length proofs \<le> 2 ^ 16\<close> have "unat n < node_cap" by (simp add: NODE_CAP_def)
  moreover have "find_exact amount proofs = Ok (if b then Some (map (\<lambda>k. spend_list proofs ! k) c) else None)"
    by (rule find_exact_result[OF assms(2) s]) (use yes in blast)
  ultimately show ?thesis using yes no chosen_covers covering_reachable by (cases b) auto
qed

section \<open>A wallet of four proofs\<close>

definition sample_coin :: "u64 \<Rightarrow> nut_proof" where
  "sample_coin a = \<lparr>pf_amount = a, pf_id = ''00ab'', pf_secret = show_u64 a, pf_c = PublicKey [2], pf_dleq = None, pf_witness = None\<rparr>"

definition sample_coins :: "nut_proof list" where
  "sample_coins = map sample_coin [4, 16, 1, 8]"

lemma sample_covers: "covers_exactly 21 sample_coins (map sample_coin [16, 4, 1])"
  unfolding covers_exactly_def sample_coins_def
  by (intro conjI) (auto simp: sample_coin_def intro!: mset_subset_eq_insertD)

theorem find_exact_correct_witness:
  "\<exists>r. find_exact 21 sample_coins = Ok r \<and> (r = None \<longrightarrow> 21 = (0::u64) \<or> node_cap \<le> search_nodes 21 sample_coins
     \<or> \<not> (\<exists>ps. covers_exactly 21 sample_coins ps))"
  using find_exact_correct[of sample_coins 21] by (force simp: sample_coins_def)

theorem find_exact_bounded_witness: "search_nodes 21 sample_coins \<le> 100010"
  using find_exact_bounded[of sample_coins 21] by (simp add: sample_coins_def)

theorem find_exact_complete_witness: "\<exists>ps. find_exact 21 sample_coins = Ok (Some ps)"
  using find_exact_complete[of sample_coins 21] sample_covers by (auto simp: sample_coins_def)

end
