(* ===== verification/Wallet_Theorems.thy ===== *)
theory Wallet_Theorems
  imports Exact_Spend
begin

text \<open>
  What the persistent wallet promises: spending takes a covering, minimal selection out of the
  wallet and off the store, envelopes survive a restart and betray a changed byte, and only
  verified proofs enter.
\<close>

section \<open>Selection\<close>

lemma select_loop_prefix: "\<exists>n. select_loop amount acc ps = take n ps"
proof (induction ps arbitrary: acc)
  case (Cons p ps)
  from Cons[of "acc + pf_amount p"] obtain n where "select_loop amount (acc + pf_amount p) ps = take n ps" ..
  then show ?case by (cases "acc \<ge> amount") (auto intro: exI[of _ 0] exI[of _ "Suc n"])
qed simp

lemma select_loop_covers:
  assumes "unat acc + sum_nat (map pf_amount ps) < 2 ^ 64" "unat amount \<le> unat acc + sum_nat (map pf_amount ps)"
  shows "unat amount \<le> unat acc + sum_nat (map pf_amount (select_loop amount acc ps))"
  using assms
proof (induction ps arbitrary: acc)
  case (Cons p ps)
  have "unat (acc + pf_amount p) = unat acc + unat (pf_amount p)" using Cons.prems(1) by (intro unat_plus_lt) simp
  with Cons.IH[of "acc + pf_amount p"] Cons.prems show ?case by (auto simp: word_le_nat_alt)
qed simp

lemma select_loop_minimal:
  assumes "unat acc + sum_nat (map pf_amount ps) < 2 ^ 64" "select_loop amount acc ps \<noteq> []"
  shows "unat acc + sum_nat (map pf_amount (butlast (select_loop amount acc ps))) < unat amount"
  using assms
proof (induction ps arbitrary: acc)
  case (Cons p ps)
  let ?rest = "select_loop amount (acc + pf_amount p) ps"
  have step: "unat (acc + pf_amount p) = unat acc + unat (pf_amount p)" using Cons.prems(1) by (intro unat_plus_lt) simp
  from Cons.prems(2) have lt: "unat acc < unat amount" by (auto simp: word_le_nat_alt split: if_splits)
  show ?case
  proof (cases "?rest = []")
    case True
    with lt show ?thesis by simp
  next
    case False
    with Cons.IH[of "acc + pf_amount p"] Cons.prems(1) step lt show ?thesis by (simp add: word_le_nat_alt)
  qed
qed simp

lemma mset_by_amount_desc [simp]: "mset (by_amount_desc ps) = mset ps"
  by (simp add: by_amount_desc_def)

lemma sum_by_amount_desc: "sum_nat (map pf_amount (by_amount_desc ps)) = sum_nat (map pf_amount ps)"
  by (simp only: sum_nat_mset mset_by_amount_desc)

lemma sum_amounts_word:
  assumes "sum_nat (map pf_amount ps) < 2 ^ 64"
  shows "unat (sum_list (map pf_amount ps)) = sum_nat (map pf_amount ps)"
  using assms
proof (induction ps)
  case (Cons p ps)
  then show ?case by (simp add: unat_plus_lt)
qed simp

text \<open>Removing the selected proofs from a wallet without duplicates removes nothing else.\<close>

lemma retain_partition:
  assumes "distinct ps" "mset sel \<subseteq># mset ps"
  shows "mset ps = mset (retain_unselected sel ps) + mset sel"
proof -
  have "mset sel = filter_mset (\<lambda>p. p \<in> set sel) (mset ps)"
  proof (rule multiset_eqI)
    fix a
    have le: "count (mset sel) a \<le> count (mset ps) a" using assms(2) by (rule mset_subset_eq_count)
    have one: "count (mset ps) a = (if a \<in> set ps then 1 else 0)" using assms(1) by (simp add: distinct_count_atmost_1)
    show "count (mset sel) a = count (filter_mset (\<lambda>p. p \<in> set sel) (mset ps)) a"
    proof (cases "a \<in> set sel")
      case True
      then have "1 \<le> count (mset sel) a" by (simp add: Suc_le_eq)
      moreover have "count (mset ps) a \<le> 1" unfolding one by simp
      ultimately have "count (mset sel) a = count (mset ps) a" using le by linarith
      with True show ?thesis by simp
    qed (simp add: count_mset_0_iff)
  qed
  then show ?thesis
    by (simp add: retain_unselected_def)
qed

section \<open>Spending\<close>

lemma pw_persist_Ok:
  "pw_persist V w = (Ok u, w') \<longleftrightarrow>
     (\<exists>blob s. encode_envelope V (pw_counter w) (pw_proofs w) (pw_seed_id w) = Ok blob
        \<and> ps_save (we_store V) blob (pw_store w) = (Ok (), s) \<and> w' = w\<lparr>pw_store := s\<rparr>)"
  by (auto simp: pw_persist_def split: res.splits prod.splits)

lemma spend_Ok:
  assumes "spend V amount w = (Ok ps, w')"
  obtains blob s where "amount \<noteq> 0" "amount \<le> sum_list (map pf_amount (pw_proofs w))"
    "ps = select_loop amount 0 (by_amount_desc (pw_proofs w))"
    "w' = w\<lparr>pw_proofs := retain_unselected ps (pw_proofs w), pw_store := s\<rparr>"
    "encode_envelope V (pw_counter w) (retain_unselected ps (pw_proofs w)) (pw_seed_id w) = Ok blob"
    "ps_save (we_store V) blob (pw_store w) = (Ok (), s)"
  using assms that
  by (auto simp: spend_def bind_Ok_iff pw_persist_Ok not_less Let_def simp del: bind_guard_err split: if_splits)

lemma selected_sub: "mset (select_loop amount 0 (by_amount_desc ps)) \<subseteq># mset ps"
proof -
  obtain n where "select_loop amount 0 (by_amount_desc ps) = take n (by_amount_desc ps)" using select_loop_prefix by blast
  moreover have "mset (take n (by_amount_desc ps)) \<subseteq># mset (by_amount_desc ps)"
    by (metis append_take_drop_id mset_append mset_subset_eq_add_left)
  ultimately show ?thesis by simp
qed

text \<open>C23: spending moves value out exactly. The proofs handed out cover the amount, leaving out the last one would not,
  they are the proofs that left the wallet, no other proof left, and the store was given the wallet
  without them before they were handed out.\<close>

theorem spend_moves_selection:
  assumes "spend V amount w = (Ok ps, w')" "distinct (pw_proofs w)" "sum_nat (map pf_amount (pw_proofs w)) < 2 ^ 64"
  shows "mset (pw_proofs w) = mset (pw_proofs w') + mset ps
    \<and> unat amount \<le> sum_nat (map pf_amount ps) \<and> sum_nat (map pf_amount (butlast ps)) < unat amount
    \<and> (\<exists>blob. encode_envelope V (pw_counter w') (pw_proofs w') (pw_seed_id w') = Ok blob
         \<and> ps_save (we_store V) blob (pw_store w) = (Ok (), pw_store w'))"
proof -
  from spend_Ok[OF assms(1)] obtain blob s where s: "amount \<noteq> 0" "amount \<le> sum_list (map pf_amount (pw_proofs w))"
    and ps: "ps = select_loop amount 0 (by_amount_desc (pw_proofs w))"
    and w': "w' = w\<lparr>pw_proofs := retain_unselected ps (pw_proofs w), pw_store := s\<rparr>"
    and save: "encode_envelope V (pw_counter w) (retain_unselected ps (pw_proofs w)) (pw_seed_id w) = Ok blob"
      "ps_save (we_store V) blob (pw_store w) = (Ok (), s)" by metis
  have fits: "unat (0::u64) + sum_nat (map pf_amount (by_amount_desc (pw_proofs w))) < 2 ^ 64"
    using assms(3) by (simp only: sum_by_amount_desc unsigned_0)
  have enough: "unat amount \<le> unat (0::u64) + sum_nat (map pf_amount (by_amount_desc (pw_proofs w)))"
    using s(2) sum_amounts_word[OF assms(3)] by (simp only: sum_by_amount_desc word_le_nat_alt unsigned_0 add_0)
  have cover: "unat amount \<le> sum_nat (map pf_amount ps)"
    using select_loop_covers[OF fits enough] by (simp only: ps unsigned_0 add_0)
  with s(1) have "ps \<noteq> []" by (auto simp: unsigned_eq_0_iff)
  from select_loop_minimal[OF fits this[unfolded ps]] have "sum_nat (map pf_amount (butlast ps)) < unat amount"
    by (simp only: ps unsigned_0 add_0)
  moreover have "mset (pw_proofs w) = mset (pw_proofs w') + mset ps"
    using retain_partition[OF assms(2) selected_sub[of amount "pw_proofs w"]] by (simp add: w' ps)
  ultimately show ?thesis using cover save w' by auto
qed

text \<open>A spend can be undone. Rolling a spend back restores the bag of proofs the wallet had.\<close>

theorem undo_restores_balance:
  assumes "spend V amount w = (Ok ps, w1)" "distinct (pw_proofs w)" "undo_spend V ps w1 = (Ok (), w2)"
  shows "mset (pw_proofs w2) = mset (pw_proofs w) \<and> balance w2 = balance w"
proof -
  from assms(1) have "pw_proofs w1 = retain_unselected ps (pw_proofs w)" "ps = select_loop amount 0 (by_amount_desc (pw_proofs w))"
    by (auto elim!: spend_Ok)
  moreover have "pw_proofs w2 = pw_proofs w1 @ ps" using assms(3) by (auto simp: undo_spend_def bind_Ok_iff pw_persist_Ok)
  ultimately have "mset (pw_proofs w2) = mset (pw_proofs w)"
    using retain_partition[OF assms(2) selected_sub[of amount "pw_proofs w"]] by simp
  moreover from this have "balance w2 = balance w"
    unfolding balance_def by (metis mset_map sum_mset_sum_list)
  ultimately show ?thesis ..
qed

section \<open>The envelope\<close>

text \<open>Contract of the encoding, which a macro derives over the codecs of keys and DLEQ scalars written by hand
  in \<^verbatim>\<open>keypair.rs\<close> and \<^verbatim>\<open>nut12.rs\<close>: where encoding succeeds, the decoded envelope is the encoded one.\<close>

definition envelope_codec :: "('p, 't, 's) wallet_env \<Rightarrow> bool" where
  "envelope_codec V \<longleftrightarrow> (\<forall>e b. we_to_vec V e = Some b \<longrightarrow> we_decode V b = Some e)"

lemma encode_envelope_Ok:
  "encode_envelope V counter proofs seed_id = Ok blob \<longleftrightarrow>
     (\<exists>cbor. we_to_vec V \<lparr>ev_version = ENVELOPE_VERSION, ev_counter = counter, ev_proofs = proofs, ev_seed_id = seed_id\<rparr> = Some cbor
        \<and> blob = ENVELOPE_MAGIC @ rev (to_be_bytes 4 (unat (crc32 cbor))) @ cbor)"
  by (auto simp: encode_envelope_def)

lemma envelope_parts:
  assumes "blob = ENVELOPE_MAGIC @ rev (to_be_bytes 4 (unat c)) @ cbor"
  shows "\<not> length blob < length ENVELOPE_MAGIC + 4" "take 4 blob = ENVELOPE_MAGIC" "drop 8 blob = cbor"
    "word_of_nat (from_be_bytes (rev (take 4 (drop 4 blob)))) = (c::u32)"
proof -
  have len: "length ENVELOPE_MAGIC = 4" by (simp add: ENVELOPE_MAGIC_def)
  then show "\<not> length blob < length ENVELOPE_MAGIC + 4" "take 4 blob = ENVELOPE_MAGIC" "drop 8 blob = cbor" by (simp_all add: assms)
  have "take 4 (drop 4 blob) = rev (to_be_bytes 4 (unat c))" by (simp add: assms len)
  moreover have "from_be_bytes (to_be_bytes 4 (unat c)) = unat c" by (rule from_to_be_bytes) (use unat_bound[of c] in simp)
  ultimately show "word_of_nat (from_be_bytes (rev (take 4 (drop 4 blob)))) = c" by simp
qed

lemma envelope_reads:
  assumes "envelope_codec V" "encode_envelope V counter proofs seed_id = Ok blob"
  shows "decode_envelope V blob other_id = (if other_id = seed_id then Some (counter, proofs) else None)"
proof -
  from assms(2) obtain cbor where c: "we_to_vec V \<lparr>ev_version = ENVELOPE_VERSION, ev_counter = counter, ev_proofs = proofs, ev_seed_id = seed_id\<rparr> = Some cbor"
    "blob = ENVELOPE_MAGIC @ rev (to_be_bytes 4 (unat (crc32 cbor))) @ cbor" by (auto simp: encode_envelope_Ok)
  from c(1) assms(1) have "we_decode V cbor = Some \<lparr>ev_version = ENVELOPE_VERSION, ev_counter = counter, ev_proofs = proofs, ev_seed_id = seed_id\<rparr>"
    by (simp add: envelope_codec_def)
  with envelope_parts[OF c(2)] show ?thesis by (simp add: decode_envelope_def)
qed

section \<open>The checksum\<close>

lemma crc_bit_if: "crc_bit c = (if odd c then drop_bit 1 c XOR 0xEDB88320 else drop_bit 1 c)"
proof -
  have "c AND 1 = (if odd c then 1 else 0)" by (simp add: and_one_eq mod_2_eq_odd)
  then show ?thesis by (simp add: crc_bit_def)
qed

lemma xor_cancel: "x XOR p = y XOR p \<longleftrightarrow> x = (y :: u32)"
proof
  assume "x XOR p = y XOR p"
  then have "(x XOR p) XOR p = (y XOR p) XOR p" by (simp only:)
  then show "x = y" by (simp add: xor.assoc)
qed simp

lemma crc_bit_inj: "crc_bit c = crc_bit d \<Longrightarrow> c = d"
proof -
  assume eq: "crc_bit c = crc_bit d"
  have low: "\<not> bit (drop_bit 1 w) 31" for w :: u32 
    using bit_imp_le_length[of w 32] by (auto simp: bit_drop_bit_eq)
  have top: "bit (0xEDB88320 :: u32) 31" by simp
  have "bit (crc_bit w) 31 \<longleftrightarrow> odd w" for w using low[of w] top by (simp add: crc_bit_if bit_xor_iff)
  with eq have odd: "odd c \<longleftrightarrow> odd d" by metis
  from eq odd have drop: "drop_bit 1 c = drop_bit 1 d" by (simp add: crc_bit_if xor_cancel split: if_splits)
  show "c = d"
  proof (rule bit_eqI)
    fix n show "bit c n \<longleftrightarrow> bit d n"
      using odd arg_cong[OF drop, of "\<lambda>w. bit w (n - 1)"] by (cases n) (simp_all add: bit_0 bit_drop_bit_eq)
  qed
qed

lemma crc_byte_inj: "crc_byte c b = crc_byte d b \<Longrightarrow> c = d"
  and crc_byte_data: "crc_byte c b = crc_byte c b' \<Longrightarrow> b = b'"
proof -
  have inj: "inj (crc_bit ^^ n)" for n
    by (induction n) (auto simp: inj_def dest: crc_bit_inj)
  show "crc_byte c b = crc_byte d b \<Longrightarrow> c = d"
    using injD[OF inj] xor_cancel unfolding crc_byte_def by metis
  assume "crc_byte c b = crc_byte c b'"
  then have "c XOR ucast b = c XOR ucast b'" using injD[OF inj] unfolding crc_byte_def by metis
  then have "(ucast b :: u32) = ucast b'" by (metis xor_cancel xor.commute)
  moreover have "unat (ucast x :: u32) = unat x" for x :: u8
    using unat_bound[of x] by (simp add: unsigned_ucast_eq take_bit_nat_eq_self_iff)
  ultimately show "b = b'" by (metis word_unat_eq_iff)
qed

lemma crc_tail_inj: "foldl crc_byte c bs = foldl crc_byte d bs \<Longrightarrow> c = d"
  by (induction bs arbitrary: c d) (auto dest: crc_byte_inj)

lemma crc32_byte:
  assumes "crc32 (xs @ b # ys) = crc32 (xs @ b' # ys)"
  shows "b = b'"
proof -
  have "NOT (NOT u) = u" for u :: u32 by simp
  then have "foldl crc_byte 0xFFFFFFFF (xs @ b # ys) = foldl crc_byte 0xFFFFFFFF (xs @ b' # ys)"
    using arg_cong[OF assms[unfolded crc32_def], of NOT] by simp
  then have "foldl crc_byte (crc_byte (foldl crc_byte 0xFFFFFFFF xs) b) ys = foldl crc_byte (crc_byte (foldl crc_byte 0xFFFFFFFF xs) b') ys"
    by simp
  then have "crc_byte (foldl crc_byte 0xFFFFFFFF xs) b = crc_byte (foldl crc_byte 0xFFFFFFFF xs) b'"
    by (rule crc_tail_inj)
  then show ?thesis by (rule crc_byte_data)
qed

text \<open>C26: a changed byte is noticed. Reading an envelope back under the seed that wrote it gives counter and proofs,
  under another seed nothing; and when any single byte of its body was altered, nothing is read at all.\<close>

theorem envelope_roundtrip:
  assumes "envelope_codec V" "encode_envelope V counter proofs seed_id = Ok blob"
  shows "decode_envelope V blob seed_id = Some (counter, proofs)
    \<and> (other_id \<noteq> seed_id \<longrightarrow> decode_envelope V blob other_id = None)
    \<and> (8 \<le> i \<longrightarrow> i < length blob \<longrightarrow> b \<noteq> blob ! i \<longrightarrow> decode_envelope V (blob[i := b]) any_id = None)"
proof (intro conjI impI)
  show "decode_envelope V blob seed_id = Some (counter, proofs)" using envelope_reads[OF assms] by simp
  show "other_id \<noteq> seed_id \<Longrightarrow> decode_envelope V blob other_id = None" using envelope_reads[OF assms] by simp
  assume i: "8 \<le> i" "i < length blob" "b \<noteq> blob ! i"
  from assms(2) obtain cbor where c: "blob = ENVELOPE_MAGIC @ rev (to_be_bytes 4 (unat (crc32 cbor))) @ cbor"
    by (auto simp: encode_envelope_Ok)
  let ?head = "ENVELOPE_MAGIC @ rev (to_be_bytes 4 (unat (crc32 cbor)))"
  have len: "length ?head = 8" by (simp add: ENVELOPE_MAGIC_def)
  have c1: "blob = ?head @ cbor" using c by simp
  define j where "j = i - 8"
  have j: "j < length cbor" "blob ! i = cbor ! j" using i len by (simp_all only: c1 length_append j_def nth_append) simp_all
  have c': "blob[i := b] = ENVELOPE_MAGIC @ rev (to_be_bytes 4 (unat (crc32 cbor))) @ cbor[j := b]"
  proof -
    have "(?head @ cbor)[i := b] = ?head @ cbor[i - length ?head := b]" using i(1) len by (metis list_update_append not_le)
    then show ?thesis by (simp only: c1 len j_def append_assoc)
  qed
  have "crc32 (cbor[j := b]) \<noteq> crc32 cbor"
    using crc32_byte[of "take j cbor" b "drop (Suc j) cbor" "cbor ! j"] j i(3)
    by (auto simp: upd_conv_take_nth_drop simp flip: id_take_nth_drop)
  with envelope_parts[OF c'] show "decode_envelope V (blob[i := b]) any_id = None" by (simp add: decode_envelope_def)
qed

text \<open>C25: a restart loses nothing. A wallet opened with the same seed on the store that the last successful
  save left has the counter and the proofs that were saved.\<close>

theorem restart_restores_wallet:
  assumes "blob_store (we_store V) stored" "envelope_codec V"
    and "pw_persist V w = (Ok (), w')" "pw_seed_id w = seed_fingerprint (we_externs V) seed"
    and "persistent_new V url transport (pw_store w') seed = Ok u"
  shows "pw_counter u = pw_counter w \<and> pw_proofs u = pw_proofs w \<and> balance u = balance w"
proof -
  from assms(3) obtain blob s where save: "encode_envelope V (pw_counter w) (pw_proofs w) (pw_seed_id w) = Ok blob"
    "ps_save (we_store V) blob (pw_store w) = (Ok (), s)" "pw_store w' = s" by (auto simp: pw_persist_Ok)
  obtain l t where l: "ps_load (we_store V) s = (l, t)" by fastforce
  show ?thesis
  proof (cases l)
    case (Ok c)
    with blob_store.load_after_save(1)[OF assms(1) save(2)] l have "c = Some blob" by simp
    with l Ok save(3) assms(4,5) envelope_reads[OF assms(2) save(1)] show ?thesis
      by (auto simp: persistent_new_def Let_def balance_def)
  qed (use l save(3) assms(5) in \<open>simp_all add: persistent_new_def Let_def\<close>)
qed

section \<open>Only verified proofs enter\<close>

text \<open>
  The relation between a wallet and the wallet an operation leaves: every proof it holds was there
  before or carries a DLEQ proof against the mint's key of its amount.
\<close>

definition verified :: "('p, 't, 's) wallet_env \<Rightarrow> key_set \<Rightarrow> nut_proof \<Rightarrow> bool" where
  "verified V mint_keys p \<longleftrightarrow>
     (\<exists>dleq k. pf_dleq p = Some dleq \<and> k \<in> set (ks_keys mint_keys) \<and> kp_amount k = pf_amount p
        \<and> verify_proof_dleq (we_externs V) (we_curve V) (as_bytes (pf_secret p)) (pf_c p) dleq (kp_pubkey k))"

definition only_verified :: "('p, 't, 's) wallet_env \<Rightarrow> key_set \<Rightarrow> ('t, 's) persistent_wallet \<Rightarrow> ('t, 's) persistent_wallet \<Rightarrow> bool" where
  "only_verified V mint_keys w w' \<longleftrightarrow>
     (\<forall>p \<in> set (pw_proofs w'). p \<in> set (pw_proofs w) \<or> verified V mint_keys p)
     \<and> pw_seed w' = pw_seed w \<and> pw_seed_id w' = pw_seed_id w"

interpretation fresh: state_preorder "only_verified V mint_keys" for V mint_keys
  by unfold_locales (auto simp: only_verified_def)

lemma verify_fresh_one_Ok: "verify_fresh_one V mint_keys p = Ok () \<Longrightarrow> verified V mint_keys p"
  by (auto simp: verify_fresh_one_def verified_def dest!: find_SomeD split: if_splits)

lemma verify_fresh_Ok: "verify_fresh V mint_keys ps = Ok () \<Longrightarrow> p \<in> set ps \<Longrightarrow> verified V mint_keys p"
  by (induction ps) (auto dest: verify_fresh_one_Ok)

lemma fresh_persist: "climbs (only_verified V mint_keys) (pw_persist V)"
  by (auto simp: climbs_def only_verified_def pw_persist_def split: res.splits prod.splits)

lemma fresh_call: "climbs (only_verified V mint_keys) (call m)"
  by (auto simp: climbs_def only_verified_def call_def split: prod.splits)

lemma fresh_take_outputs: "climbs (only_verified V mint_keys) (take_outputs V keyset_id amounts)"
  unfolding take_outputs_def
  by (intro fresh.climbs_rules fresh.climbs_modify) (auto intro!: fresh.climbs_rules fresh.climbs_modify simp: only_verified_def split: prod.splits)

lemma fresh_verified_then:
  assumes "\<And>u. (\<forall>p \<in> set ps. verified V mint_keys p) \<Longrightarrow> climbs (only_verified V mint_keys) (f u)"
  shows "climbs (only_verified V mint_keys) (bind (lift_res (verify_fresh V mint_keys ps)) f)"
proof (cases "verify_fresh V mint_keys ps")
  case (Ok u)
  then have "\<forall>p \<in> set ps. verified V mint_keys p" using verify_fresh_Ok by fastforce
  with Ok assms[of u] show ?thesis by (simp add: climbs_def)
qed (simp_all add: climbs_def fresh.R_refl)

lemma fresh_credit: "\<forall>p \<in> set ps. verified V mint_keys p \<Longrightarrow> climbs (only_verified V mint_keys) (credit ps)"
  by (auto simp: climbs_def credit_def only_verified_def)

lemmas fresh_rules = fresh.climbs_bind fresh.climbs_ret fresh.climbs_gets fresh.climbs_lift_res fresh.climbs_guard_err
  fresh_persist fresh_call fresh_take_outputs fresh_credit fresh_verified_then

lemma fresh_mint: "climbs (only_verified V mint_keys) (mint_deterministic V quote_id amount keyset_id mint_keys)"
  unfolding mint_deterministic_def by (auto intro!: fresh_rules split: prod.splits)

lemma fresh_swap: "climbs (only_verified V mint_keys) (swap_deterministic V inputs amounts keyset_id mint_keys)"
  unfolding swap_deterministic_def by (auto intro!: fresh_rules split: prod.splits)

lemma fresh_melt: "climbs (only_verified V mint_keys) (melt_deterministic V quote_id amount fee keyset_id mint_keys)"
  unfolding melt_deterministic_def
  by (auto intro!: fresh_rules fresh.climbs_modify simp: only_verified_def retain_unselected_def split: prod.splits)

lemma fresh_restore: "climbs (only_verified V mint_keys) (wallet_restore V keyset_id mint_keys)"
  unfolding wallet_restore_def
  by (auto intro!: fresh_rules fresh.climbs_modify simp: only_verified_def split: prod.splits option.splits)

text \<open>Nothing unverified is credited. Whatever the mint answers and however the operation ends, each proof the
  wallet holds after minting, swapping, melting or restoring was held before or carries a DLEQ proof
  that verifies against the mint's key of its amount.\<close>

theorem only_verified_proofs_enter:
  "only_verified V mint_keys w (snd (mint_deterministic V quote_id amount keyset_id mint_keys w))
   \<and> only_verified V mint_keys w (snd (swap_deterministic V inputs amounts keyset_id mint_keys w))
   \<and> only_verified V mint_keys w (snd (melt_deterministic V quote_id amount fee keyset_id mint_keys w))
   \<and> only_verified V mint_keys w (snd (wallet_restore V keyset_id mint_keys w))"
  by (intro conjI fresh_mint[unfolded climbs_def, rule_format] fresh_swap[unfolded climbs_def, rule_format]
      fresh_melt[unfolded climbs_def, rule_format] fresh_restore[unfolded climbs_def, rule_format])

section \<open>A failed call keeps the wallet\<close>

definition keeps :: "('t, 's) persistent_wallet \<Rightarrow> ('t, 's) persistent_wallet \<Rightarrow> bool" where
  "keeps w w' \<longleftrightarrow> pw_proofs w' = pw_proofs w \<and> pw_store w' = pw_store w"

text \<open>Every failure but a failed save keeps proofs and store.\<close>

definition fails_cleanly :: "('t, 's, 'a) pw_op \<Rightarrow> bool" where
  "fails_cleanly m \<longleftrightarrow> (\<forall>w r w'. m w = (r, w') \<longrightarrow>
     (case r of Ok x \<Rightarrow> True | Err e \<Rightarrow> (\<exists>msg. e = Storage msg) \<or> keeps w w' | Panic \<Rightarrow> True))"

definition quiet_op :: "('t, 's, 'a) pw_op \<Rightarrow> bool" where
  "quiet_op m \<longleftrightarrow> (\<forall>w r w'. m w = (r, w') \<longrightarrow> keeps w w')"

lemma clean_bind:
  assumes "quiet_op m" "\<And>x. fails_cleanly (f x)"
  shows "fails_cleanly (bind m f)"
  unfolding fails_cleanly_def
proof (intro allI impI)
  fix w r w' assume run: "bind m f w = (r, w')"
  obtain q u where q: "m w = (q, u)" by fastforce
  with assms(1) have k: "keeps w u" by (simp add: quiet_op_def)
  show "case r of Ok x \<Rightarrow> True | Err e \<Rightarrow> (\<exists>msg. e = Storage msg) \<or> keeps w w' | Panic \<Rightarrow> True"
  proof (cases q)
    case (Ok x)
    with run q have "f x u = (r, w')" by (simp add: bind_def)
    with assms(2)[of x] k show ?thesis by (fastforce simp: fails_cleanly_def keeps_def split: res.splits)
  qed (use run q k in \<open>auto simp: bind_def\<close>)
qed

lemma clean_fail: "fails_cleanly m \<Longrightarrow> m w = (Err e, w') \<Longrightarrow> \<forall>msg. e \<noteq> Storage msg \<Longrightarrow> keeps w w'"
  unfolding fails_cleanly_def by fastforce

lemma quiet_basics:
  "quiet_op (ret x)" "quiet_op (gets g)" "quiet_op (lift_res q)" "quiet_op (guard_err b e)" "quiet_op (call m)"
  "quiet_op (take_outputs V keyset_id amounts)"
  by (auto simp: quiet_op_def keeps_def call_def take_outputs_def bind_def split: prod.splits res.splits if_splits)

lemma quiet_call: "call m w = (r, w') \<Longrightarrow> pw_proofs w' = pw_proofs w"
  by (auto simp: call_def split: prod.splits)

lemma quiet_take: "take_outputs V keyset_id amounts w = (r, w') \<Longrightarrow> pw_proofs w' = pw_proofs w"
  by (auto simp: take_outputs_def bind_def split: prod.splits res.splits)

lemma persist_errors: "pw_persist V w = (Err e, w') \<Longrightarrow> \<exists>msg. e = Storage msg"
  by (auto simp: pw_persist_def encode_envelope_def store_err_def ok_or_def split: res.splits prod.splits option.splits store_error.splits)

lemma clean_save:
  "fails_cleanly (bind (credit ps) (\<lambda>_. bind (pw_persist V) (\<lambda>_. ret x)))"
  "fails_cleanly (bind (modify h) (\<lambda>_. bind (pw_persist V) (\<lambda>_. ret x)))"
  "fails_cleanly (bind (pw_persist V) (\<lambda>_. ret x))"
  by (auto simp: fails_cleanly_def bind_def credit_def dest: persist_errors split: prod.splits res.splits)

text \<open>C24: a refused request costs nothing. When minting, swapping or melting fails for any reason but a failed save,
  the wallet still has the same proofs and the store the same contents; a melt that the mint does not report as paid keeps
  the proofs too.\<close>

theorem failed_request_keeps_proofs:
  assumes "\<forall>msg. e \<noteq> Storage msg"
  shows "(mint_deterministic V quote_id amount keyset_id mint_keys w = (Err e, w') \<longrightarrow> keeps w w')
    \<and> (swap_deterministic V inputs amounts keyset_id mint_keys w = (Err e, w') \<longrightarrow> keeps w w')
    \<and> (melt_deterministic V quote_id amount fee keyset_id mint_keys w = (Err e, w') \<longrightarrow> keeps w w')
    \<and> (melt_deterministic V quote_id amount fee keyset_id mint_keys w = (Ok out, w') \<longrightarrow> \<not> mo_paid out \<longrightarrow> pw_proofs w' = pw_proofs w)"
proof -
  have m: "fails_cleanly (mint_deterministic V quote_id amount keyset_id mint_keys)"
    unfolding mint_deterministic_def by (intro clean_bind quiet_basics clean_save) (auto intro!: clean_bind quiet_basics clean_save split: prod.splits)
  have s: "fails_cleanly (swap_deterministic V inputs amounts keyset_id mint_keys)"
    unfolding swap_deterministic_def by (auto intro!: clean_bind quiet_basics clean_save split: prod.splits)
  have l: "fails_cleanly (melt_deterministic V quote_id amount fee keyset_id mint_keys)"
    unfolding melt_deterministic_def by (auto intro!: clean_bind quiet_basics clean_save split: prod.splits)
  have u: "pw_proofs w' = pw_proofs w"
    if "melt_deterministic V quote_id amount fee keyset_id mint_keys w = (Ok out, w')" "\<not> mo_paid out"
    using that unfolding melt_deterministic_def
    by (auto simp: bind_Ok_iff pw_persist_Ok simp del: bind_guard_err bind_lift_res bind_gets
        dest!: quiet_call quiet_take split: if_splits prod.splits)
  show ?thesis using clean_fail[OF m _ assms] clean_fail[OF s _ assms] clean_fail[OF l _ assms] u by blast
qed

section \<open>A wallet at work\<close>

text \<open>
  A mint that never answers, the small group of \<^verbatim>\<open>Dhke\<close>, and an encoding that numbers the
  envelopes of a table.
\<close>

definition down :: "('t, cashu_error, 'a) op" where
  "down = throw (Transport ''down'')"

definition dead_client :: "unit mint_client" where
  "dead_client = \<lparr>mc_get_info = down, mc_get_keys = down, mc_get_keysets = down, mc_post_mint_quote = (\<lambda>r. down), mc_get_mint_quote = (\<lambda>q. down),
     mc_post_mint = (\<lambda>r. down), mc_post_melt_quote = (\<lambda>r. down), mc_get_melt_quote = (\<lambda>q. down), mc_post_melt = (\<lambda>r. down),
     mc_post_swap = (\<lambda>r. down), mc_post_check_state = (\<lambda>ys. down), mc_post_restore = (\<lambda>ys. down)\<rparr>"

definition spent_envelope :: "nut_proof list \<Rightarrow> envelope" where
  "spent_envelope ps = \<lparr>ev_version = 1, ev_counter = 7, ev_proofs = ps, ev_seed_id = (replicate 8 0)\<rparr>"

definition known_envelopes :: "envelope list" where
  "known_envelopes = [spent_envelope sample_coins, spent_envelope (map sample_coin [4, 1, 8]), spent_envelope (map sample_coin [4, 1, 8, 16])]"

definition sample_env :: "(z5, unit, memory_store) wallet_env" where
  "sample_env = \<lparr>we_externs = z5_externs, we_hex_error = (\<lambda>s. []), we_curve = z5_curve, we_client = dead_client,
     we_store = memory_store,
     we_to_vec = (\<lambda>e. map_of (zip known_envelopes [[0], [1], [2]]) e),
     we_decode = (\<lambda>b. map_of (zip [[0], [1], [2]] known_envelopes) b)\<rparr>"

definition sample_pw :: "nut_proof list \<Rightarrow> memory_store \<Rightarrow> (unit, memory_store) persistent_wallet" where
  "sample_pw ps s = \<lparr>pw_inner = wallet_new ''https://mint'' (), pw_store = s, pw_seed = [7], pw_seed_id = (replicate 8 0), pw_counter = 7, pw_proofs = ps\<rparr>"

lemma table_codec: "distinct bs \<Longrightarrow> map_of (zip es bs) e = Some b \<Longrightarrow> map_of (zip bs es) b = Some e"
  by (rule map_of_is_SomeI) (auto simp: in_set_zip distinct_map[symmetric] map_fst_zip_take dest!: map_of_SomeD)

lemma sample_codec: "envelope_codec sample_env"
  unfolding envelope_codec_def sample_env_def by (simp add: table_codec)

lemma sample_coin_amount [simp]: "pf_amount (sample_coin a) = a"
  by (simp add: sample_coin_def)

lemma sample_coin_eq [simp]: "sample_coin a = sample_coin b \<longleftrightarrow> a = b"
  by (metis sample_coin_amount)

lemma sample_sorted: "by_amount_desc sample_coins = map sample_coin [16, 8, 4, 1]"
  by (simp add: by_amount_desc_def sample_coins_def)

lemma sample_blob: "ps \<in> {sample_coins, map sample_coin [4, 1, 8], map sample_coin [4, 1, 8, 16]} \<Longrightarrow>
    \<exists>blob. encode_envelope sample_env 7 ps (replicate 8 0) = Ok blob"
  by (auto simp: encode_envelope_def sample_env_def known_envelopes_def spent_envelope_def ENVELOPE_VERSION_def)

lemma sample_persists:
  assumes "ps \<in> {sample_coins, map sample_coin [4, 1, 8], map sample_coin [4, 1, 8, 16]}"
  shows "\<exists>s'. pw_persist sample_env (sample_pw ps s) = (Ok (), sample_pw ps s')"
proof -
  obtain blob where "encode_envelope sample_env 7 ps (replicate 8 0) = Ok blob" using sample_blob[OF assms] by blast
  then have "pw_persist sample_env (sample_pw ps s) = (Ok (), sample_pw ps (Some blob))"
    by (simp add: pw_persist_def sample_pw_def) (simp add: sample_env_def memory_store_def memory_save_def)
  then show ?thesis by blast
qed

lemma sample_spends:
  "\<exists>s. spend sample_env 5 (sample_pw sample_coins None) = (Ok [sample_coin 16], sample_pw (map sample_coin [4, 1, 8]) s)"
proof -
  obtain s where "pw_persist sample_env (sample_pw (map sample_coin [4, 1, 8]) None) = (Ok (), sample_pw (map sample_coin [4, 1, 8]) s)"
    using sample_persists by blast
  moreover have "select_loop 5 0 (by_amount_desc sample_coins) = [sample_coin 16]" by (simp add: sample_sorted)
  moreover have "retain_unselected [sample_coin 16] sample_coins = map sample_coin [4, 1, 8]"
    by (simp add: retain_unselected_def sample_coins_def)
  moreover have "sum_list (map pf_amount sample_coins) = 29" by (simp add: sample_coins_def)
  ultimately have "spend sample_env 5 (sample_pw sample_coins None) = (Ok [sample_coin 16], sample_pw (map sample_coin [4, 1, 8]) s)"
    by (simp add: spend_def Let_def bind_def sample_pw_def)
  then show ?thesis by blast
qed

theorem spend_moves_selection_witness:
  "\<exists>w'. spend sample_env 5 (sample_pw sample_coins None) = (Ok [sample_coin 16], w') \<and> mset sample_coins = mset (pw_proofs w') + mset [sample_coin 16]"
proof -
  obtain s where s: "spend sample_env 5 (sample_pw sample_coins None) = (Ok [sample_coin 16], sample_pw (map sample_coin [4, 1, 8]) s)"
    using sample_spends by blast
  have "distinct (pw_proofs (sample_pw sample_coins None))" "sum_nat (map pf_amount (pw_proofs (sample_pw sample_coins None))) < 2 ^ 64"
    by (simp_all add: sample_pw_def sample_coins_def)
  from spend_moves_selection[OF s this] s show ?thesis by (auto simp: sample_pw_def)
qed

theorem undo_restores_balance_witness:
  "\<exists>w1 w2. spend sample_env 5 (sample_pw sample_coins None) = (Ok [sample_coin 16], w1) \<and> undo_spend sample_env [sample_coin 16] w1 = (Ok (), w2)
     \<and> mset (pw_proofs w2) = mset sample_coins"
proof -
  obtain s where s: "spend sample_env 5 (sample_pw sample_coins None) = (Ok [sample_coin 16], sample_pw (map sample_coin [4, 1, 8]) s)"
    using sample_spends by blast
  obtain s' where "pw_persist sample_env (sample_pw (map sample_coin [4, 1, 8, 16]) s) = (Ok (), sample_pw (map sample_coin [4, 1, 8, 16]) s')"
    using sample_persists by blast
  then have u: "undo_spend sample_env [sample_coin 16] (sample_pw (map sample_coin [4, 1, 8]) s) = (Ok (), sample_pw (map sample_coin [4, 1, 8, 16]) s')"
    by (simp add: undo_spend_def bind_def sample_pw_def)
  have "distinct (pw_proofs (sample_pw sample_coins None))" by (simp add: sample_pw_def sample_coins_def)
  from undo_restores_balance[OF s this u] s u show ?thesis by (auto simp: sample_pw_def)
qed

theorem envelope_roundtrip_witness:
  "\<exists>blob. encode_envelope sample_env 7 sample_coins (replicate 8 0) = Ok blob \<and> decode_envelope sample_env blob (replicate 8 0) = Some (7, sample_coins)
     \<and> decode_envelope sample_env blob [8] = None \<and> decode_envelope sample_env (blob[8 := 5]) (replicate 8 0) = None"
proof -
  obtain blob where b: "encode_envelope sample_env 7 sample_coins (replicate 8 0) = Ok blob" using sample_blob by blast
  then have "8 < length blob" "blob ! 8 = 0"
    by (auto simp: encode_envelope_def sample_env_def known_envelopes_def spent_envelope_def ENVELOPE_VERSION_def ENVELOPE_MAGIC_def nth_append)
  moreover have "([8] :: bytes) \<noteq> replicate 8 0" by (simp add: numeral_eq_Suc)
  ultimately show ?thesis using b envelope_roundtrip[OF sample_codec b, of "[8]" 8 5 "replicate 8 0"] by simp
qed

theorem restart_restores_wallet_witness:
  "\<exists>w' u. pw_persist sample_env (sample_pw sample_coins None) = (Ok (), w') \<and> persistent_new sample_env ''https://mint'' () (pw_store w') [7] = Ok u
     \<and> pw_proofs u = sample_coins"
proof -
  obtain s where p: "pw_persist sample_env (sample_pw sample_coins None) = (Ok (), sample_pw sample_coins s)" using sample_persists by blast
  have store: "we_store sample_env = memory_store" by (simp add: sample_env_def)
  have seed: "pw_seed_id (sample_pw sample_coins None) = seed_fingerprint (we_externs sample_env) [7]"
    by (simp add: sample_pw_def sample_env_def seed_fingerprint_def z5_externs_def)
  have "is_ok (persistent_new sample_env ''https://mint'' () (pw_store (sample_pw sample_coins s)) [7])"
    by (simp add: persistent_new_def Let_def store memory_store_def memory_load_def split: prod.split)
  then obtain u where u: "persistent_new sample_env ''https://mint'' () (pw_store (sample_pw sample_coins s)) [7] = Ok u"
    by (cases "persistent_new sample_env ''https://mint'' () (pw_store (sample_pw sample_coins s)) [7]") simp_all
  have "blob_store (we_store sample_env) (\<lambda>s. s)" unfolding store by (rule memory.blob_store_axioms)
  from restart_restores_wallet[OF this sample_codec p seed u] p u show ?thesis by (auto simp: sample_pw_def)
qed

lemma sample_derives: "\<exists>s bm. derive_blinded sample_env [7] ''00ab'' idx = Ok (s, bm)"
proof -
  have X: "we_externs sample_env = z5_externs" "we_curve sample_env = z5_curve" by (simp_all add: sample_env_def)
  have id: "hex_decode_keyset_id z5_externs (we_hex_error sample_env) ''00ab'' = Ok (as_bytes ''00ab'')"
    using trim_graphic[of "''00ab''"] by (simp add: hex_decode_keyset_id_def graphic_def z5_externs_def demo_externs_def)
  have hash: "hmac_sha256 z5_externs k m = replicate 31 0 @ [1]" for k m by (simp add: hmac_sha256_def Let_def z5_externs_def)
  have key: "sk_from_slice z5_externs (replicate 31 0 @ [1]) = Some (z5_key 1)"
    using z5_one[of undefined undefined undefined undefined undefined] by (simp add: hash_e_def z5_externs_def)
  obtain bm where bm: "blind_message z5_externs z5_curve (as_bytes (hex_encode z5_externs (replicate 31 0 @ [1]))) (Some (z5_key 1)) (z5_key 1) = Ok bm"
    using z5_blinds by blast
  show ?thesis
    unfolding derive_blinded_def derive_secret_def derive_blinder_def X id hash Let_def res_bind.simps key ok_or_simps bm crypto_err_def by simp
qed

theorem failed_request_keeps_proofs_witness:
  "\<exists>w'. swap_deterministic sample_env [] [1] ''00ab'' \<lparr>ks_id = [], ks_unit = [], ks_keys = []\<rparr> (sample_pw sample_coins None) = (Err (Transport ''down''), w')
     \<and> pw_proofs w' = sample_coins"
proof -
  obtain s bm where d: "derive_blinded sample_env [7] ''00ab'' 7 = Ok (s, bm)" using sample_derives by blast
  have down: "mc_post_swap (we_client sample_env) r = down" for r by (simp add: sample_env_def dead_client_def)
  obtain w' where w': "swap_deterministic sample_env [] [1] ''00ab'' \<lparr>ks_id = [], ks_unit = [], ks_keys = []\<rparr> (sample_pw sample_coins None)
      = (Err (Transport ''down''), w')"
    by (simp add: swap_deterministic_def take_outputs_def bind_def sample_pw_def d down call_def via_def down_def)
  have "\<forall>msg. Transport ''down'' \<noteq> Storage msg" by simp
  from failed_request_keeps_proofs[OF this] w' have "keeps (sample_pw sample_coins None) w'" by blast
  with w' show ?thesis by (auto simp: keeps_def sample_pw_def)
qed

end
