(* ===== verification/Engine_Theorems.thy ===== *)
theory Engine_Theorems
  imports Engine Wallet_Theorems
begin

text \<open>
  What the wallet engine promises: change coins of bounded size, only verified proofs in the wallet, exact
  tokens that leave it, and a history that keeps track of everything in flight.
\<close>


section \<open>Change in capped coins\<close>

lemma power_from_facts:
  assumes "k < 64" "0 < k \<Longrightarrow> 2 ^ (k - 1) < w" "w \<le> 2 ^ 63"
  shows "\<exists>j \<ge> k. j < 64 \<and> power_from k w = 2 ^ j \<and> w \<le> 2 ^ j \<and> (0 < j \<longrightarrow> 2 ^ (j - 1) < w)"
  using assms
proof (induction k w rule: power_from.induct)
  case (1 k w)
  show ?case
  proof (cases "w \<le> 2 ^ k")
    case True
    with 1(2,3) show ?thesis by (auto simp: power_from.simps[of k w] intro!: exI[of _ k])
  next
    case False
    with 1(2,4) have "k < 63" by (cases "k = 63") auto
    with False 1 obtain j where "Suc k \<le> j" "j < 64" "power_from (Suc k) w = 2 ^ j" "w \<le> 2 ^ j" "0 < j \<longrightarrow> 2 ^ (j - 1) < w"
      by (auto simp: not_le)
    with False \<open>k < 63\<close> show ?thesis by (auto simp: power_from.simps[of k w] intro!: exI[of _ j])
  qed
qed

lemma halved_power:
  assumes "0 < w" "w \<le> 2 ^ m" "m < 64"
  shows "\<exists>j \<le> m. drop_bit 1 (next_power_of_two w) = (if w = 1 then 0 else 2 ^ j) \<and> (w \<noteq> 1 \<longrightarrow> 2 ^ j < w)"
proof -
  have "(2 ^ m :: u64) \<le> 2 ^ 63" using assms(3) using power_increasing[of m 63 "2::nat"] by (simp add: word_le_nat_alt unat_pow2)
  with assms(2) have "w \<le> 2 ^ 63" by (rule order.trans)
  from power_from_facts[of 0 w, OF _ _ this] obtain j where j: "j < 64" "power_from 0 w = 2 ^ j" "w \<le> 2 ^ j" "0 < j \<Longrightarrow> 2 ^ (j - 1) < w"
    by auto
  show ?thesis
  proof (cases j)
    case 0
    with j(3) assms(1) have "w = 1" by (simp add: word_le_nat_alt word_less_nat_alt) (metis One_nat_def le_antisym Suc_le_eq unat_1 word_unat_eq_iff)
    with 0 j(2) show ?thesis by (auto simp: next_power_of_two_def)
  next
    case (Suc i)
    with j(4) have lt: "2 ^ i < w" by simp
    then have "w \<noteq> 1" using Suc j(1) unat_pow2[of i] by (auto simp: word_less_nat_alt)
    have "unat (2 ^ i :: u64) < unat (2 ^ m :: u64)" using lt assms(2) by (simp add: word_less_nat_alt word_le_nat_alt)
    with Suc j(1) assms(3) have "i \<le> m" by (simp add: unat_pow2)
    moreover have "drop_bit 1 (next_power_of_two w) = 2 ^ i" using Suc j(1,2) drop_pow2[of i] by (simp add: next_power_of_two_def)
    ultimately show ?thesis using lt \<open>w \<noteq> 1\<close> by auto
  qed
qed

lemma top_bit:
  assumes "2 ^ i \<le> unat x" "unat x < 2 ^ Suc i"
  shows "bit (x :: u64) i"
proof -
  have "unat x div 2 ^ i = 1" using assms by (intro div_nat_eqI) simp_all
  then have "bit (unat x) i" by (simp add: bit_iff_odd)
  then show ?thesis by (simp add: bit_unsigned_iff)
qed

lemma power_test:
  assumes "0 < w" "w \<le> 2 ^ 63" "w AND (w - 1) = (0 :: u64)"
  shows "\<exists>j < 64. w = 2 ^ j"
proof -
  from power_from_facts[of 0 w] assms(2) obtain j where j: "j < 64" "w \<le> 2 ^ j" "0 < j \<Longrightarrow> 2 ^ (j - 1) < w" by auto
  show ?thesis
  proof (rule ccontr)
    assume no: "\<not> (\<exists>j < 64. w = 2 ^ j)"
    have "0 < j"
    proof (rule ccontr)
      assume "\<not> 0 < j"
      with j(2) assms(1) have "unat w = unat (2 ^ 0 :: u64)" by (simp add: word_le_nat_alt word_less_nat_alt)
      then have "w = 2 ^ 0" by (simp only: word_unat_eq_iff)
      with no show False by (metis zero_less_numeral)
    qed
    then obtain i where i: "j = Suc i" by (cases j) auto
    from j no have "unat w < 2 ^ j" by (metis order_le_less unat_pow2 word_less_nat_alt)
    moreover have "2 ^ i < unat w" using j(1,3) i by (simp add: word_less_nat_alt unat_pow2)
    moreover have "unat (w - 1) = unat w - 1" using assms(1) by (simp add: unat_sub word_le_nat_alt word_less_nat_alt)
    ultimately have "bit w i" "bit (w - 1) i" using i by (auto intro!: top_bit)
    then have "bit (w AND (w - 1)) i" by (simp add: bit_and_iff)
    with assms(3) show False by simp
  qed
qed

lemma capped_coin_facts:
  assumes "most = 2 ^ m" "m < 64" "0 < remaining"
  shows "\<exists>j \<le> m. capped_coin most remaining = 2 ^ j \<and> unat (2 ^ j :: u64) \<le> unat remaining"
proof -
  let ?coin = "min most remaining"
  have most: "0 < most" "most \<le> 2 ^ 63"
    using assms(1,2) power_increasing[of m 63 "2::nat"] by (simp_all add: word_less_nat_alt word_le_nat_alt unat_pow2)
  then have coin: "0 < ?coin" "?coin \<le> most" "?coin \<le> remaining" using assms(3) by (simp_all add: min_less_iff_conj)
  show ?thesis
  proof (cases "?coin AND (?coin - 1) = 0")
    case True
    with power_test[of ?coin] coin(1) order.trans[OF coin(2) most(2)] obtain j where j: "j < 64" "?coin = 2 ^ j" by auto
    with coin(2) assms(1,2) have "j \<le> m" by (simp add: word_le_nat_alt unat_pow2)
    with j True coin(3) show ?thesis by (auto simp: capped_coin_def Let_def word_le_nat_alt intro!: exI[of _ j])
  next
    case False
    then have "?coin \<noteq> 1" by auto
    with halved_power[OF coin(1), of m] coin(2) assms(1,2) obtain j where
      "j \<le> m" "drop_bit 1 (next_power_of_two ?coin) = 2 ^ j" "2 ^ j < ?coin" by auto
    with False coin(3) show ?thesis
      by (auto simp: capped_coin_def Let_def word_less_nat_alt word_le_nat_alt intro!: exI[of _ j])
  qed
qed

lemma capped_loop_result:
  assumes "most = 2 ^ m" "m < 64"
  shows "\<exists>more. capped_loop most remaining coins = Some (coins @ more) \<and> sum_nat more = unat remaining
    \<and> (\<forall>c \<in> set more. c \<le> most \<and> (\<exists>j. c = 2 ^ j))"
proof (induction "unat remaining" arbitrary: remaining coins rule: less_induct)
  case less
  show ?case
  proof (cases "remaining = 0")
    case True
    then show ?thesis by (subst capped_loop.simps) simp
  next
    case False
    then have pos: "0 < remaining" by (simp add: word_neq_0_conv)
    from capped_coin_facts[OF assms pos] obtain j where j: "j \<le> m" "capped_coin most remaining = 2 ^ j"
      "unat (2 ^ j :: u64) \<le> unat remaining" by blast
    let ?c = "2 ^ j :: u64"
    have sub: "unat (remaining - ?c) = unat remaining - unat ?c" using j(3) by (simp add: unat_sub word_le_nat_alt)
    have c: "unat ?c = 2 ^ j" "?c \<le> most"
      using j(1) assms power_increasing[of j m "2::nat"] by (simp_all add: unat_pow2 word_le_nat_alt)
    with sub j(3) have "unat (remaining - ?c) < unat remaining" using zero_less_power[of "2::nat" j] by linarith
    from less[OF this, of "coins @ [?c]"] obtain more where
      "capped_loop most (remaining - ?c) (coins @ [?c]) = Some (coins @ ?c # more)" "sum_nat more = unat (remaining - ?c)"
      "\<forall>c \<in> set more. c \<le> most \<and> (\<exists>j. c = 2 ^ j)" by auto
    with pos j(2,3) sub c(2) show ?thesis by (subst capped_loop.simps) (auto intro!: exI[of _ "?c # more"])
  qed
qed

text \<open>Without a cap the loop has no value.\<close>

lemma capped_loop_stuck: "capped_loop most remaining coins = Some out \<Longrightarrow> most = 0 \<longrightarrow> remaining = 0"
  by (rule capped_loop.raw_induct[where P = "\<lambda>most remaining coins out. most = 0 \<longrightarrow> remaining = 0"])
    (auto simp: capped_coin_def word_neq_0_conv[symmetric] split: if_splits)

text \<open>C30: the change of a payment ends and adds up. For a cap that is a power of two, splitting an amount always ends, in powers of two
  no larger than the cap that sum exactly to the amount; for a cap of zero it ends for no positive amount.\<close>

theorem decompose_capped_correct:
  "(m < 64 \<longrightarrow> (\<exists>coins. decompose_capped amount (2 ^ m) = Some coins \<and> sum_nat coins = unat amount
      \<and> (\<forall>c \<in> set coins. c \<le> 2 ^ m \<and> (\<exists>j. c = 2 ^ j))))
   \<and> (amount \<noteq> 0 \<longrightarrow> decompose_capped amount 0 = None)"
  using capped_loop_result[OF refl, of m amount "[]"] capped_loop_stuck[of 0 amount "[]"]
  by (cases "decompose_capped amount 0") (auto simp: decompose_capped_def)

theorem decompose_capped_correct_witness:
  "(\<exists>coins. decompose_capped 70 16 = Some coins \<and> sum_nat coins = 70 \<and> (\<forall>c \<in> set coins. c \<le> 16 \<and> (\<exists>j. c = 2 ^ j)))
   \<and> decompose_capped 70 0 = None"
  using decompose_capped_correct[of 4 70] by simp

section \<open>What leaves the books alone\<close>

text \<open>The wallet and the transport change; the history, the sends in flight and what \<open>connect\<close> fetched do not.\<close>

definition same_books :: "('t, 's) engine \<Rightarrow> ('t, 's) engine \<Rightarrow> bool" where
  "same_books e e' \<longleftrightarrow> en_pending e' = en_pending e \<and> en_history e' = en_history e \<and> en_keys e' = en_keys e
     \<and> en_keyset_id e' = en_keyset_id e \<and> en_mint_url e' = en_mint_url e \<and> en_unit e' = en_unit e
     \<and> en_fee_ppk e' = en_fee_ppk e \<and> en_seed e' = en_seed e"

interpretation books: state_preorder same_books
  by unfold_locales (auto simp: same_books_def)

lemma books_in_wallet: "climbs same_books (in_wallet m)"
  by (auto simp: climbs_def same_books_def in_wallet_def split: prod.splits)

lemma books_meta: "climbs same_books (meta m)"
  unfolding meta_def by (rule books_in_wallet)

lemma climbs_ignore: "climbs R m \<Longrightarrow> climbs R (ignore m)"
  by (auto simp: climbs_def ignore_def split: prod.splits res.splits) (metis snd_conv)+

lemma books_ensure: "climbs same_books ensure_connected"
  unfolding ensure_connected_def by (intro books.climbs_rules)

lemma books_clock: "climbs same_books (read_clock E)"
  unfolding read_clock_def by (rule books_meta)

lemmas books_rules = books.climbs_rules books_in_wallet books_meta climbs_ignore books_ensure books_clock

lemma books_verify: "climbs same_books (verify_or_remove E ps)" "climbs same_books (verify_new_proofs E known)"
proof -
  show one: "climbs same_books (verify_or_remove E ps)" for ps
    unfolding verify_or_remove_def by (intro books.climbs_bind books.climbs_gets) (auto intro!: books_rules split: res.splits)
  show "climbs same_books (verify_new_proofs E known)"
    unfolding verify_new_proofs_def by (intro books.climbs_bind books.climbs_gets one)
qed

lemma books_reconcile: "climbs same_books (reconcile_spent E)"
  unfolding reconcile_spent_def by (auto intro!: books_rules simp: Let_def split: prod.splits)

lemma books_restore: "climbs same_books (en_restore E)"
  unfolding en_restore_def by (auto intro!: books_rules books_verify split: prod.splits)

context state_preorder
begin

lemma climbs_handle:
  assumes "climbs R m" "\<And>x. climbs R (f x)" "\<And>x. climbs R (g x)"
  shows "climbs R (handle m f g)"
proof -
  have "R s (snd (handle m f g s))" for s
  proof -
    obtain r t where r: "m s = (r, t)" by fastforce
    with assms(1) have "R s t" by (metis climbs_def snd_conv)
    moreover have "R t (snd (f x t))" "R t (snd (g y t))" for x y using assms(2,3) by (simp_all add: climbs_def)
    ultimately show ?thesis using r R_trans by (cases r) (auto simp: handle_def)
  qed
  then show ?thesis by (simp add: climbs_def)
qed

end

lemma books_fallback: "climbs same_books (compose_fallback E amount selected err)"
  unfolding compose_fallback_def held_exact_def
  by (auto intro!: books_rules books.climbs_handle books_reconcile books_restore split: option.splits res.splits)

lemma books_compose: "climbs same_books (compose_exact E amount)"
  unfolding compose_exact_def swap_fee_hint_def
  by (auto intro!: books_rules books.climbs_handle books_fallback simp: Let_def)

lemma books_probe: "climbs same_books (probe_pending E p)"
  unfolding probe_pending_def by (auto intro!: books_rules)

lemma books_prepare: "climbs same_books (prepare_melt E target)"
  unfolding prepare_melt_def
  by (auto intro!: books_rules books.climbs_handle simp: Let_def split: option.splits)

lemma books_receive: "climbs same_books (receive_groups E ctx gs acc)"
proof -
  have "climbs same_books (receive_group E ctx g)" for g
    unfolding receive_group_def by (auto intro!: books_rules books_verify)
  then show ?thesis by (induction gs arbitrary: acc) (auto intro!: books_rules)
qed

section \<open>The history keeps track of what is in flight\<close>

definition flight_ok :: "history_entry list \<Rightarrow> pending_send list \<Rightarrow> bool" where
  "flight_ok h ps \<longleftrightarrow> distinct (map pn_history_idx ps)
     \<and> (\<forall>i < length h. he_status (h ! i) = Pending \<longleftrightarrow> i \<in> pn_history_idx ` set ps)
     \<and> (\<forall>p \<in> set ps. pn_history_idx p < length h \<and> he_kind (h ! pn_history_idx p) = HistSend
           \<and> he_amount (h ! pn_history_idx p) = pn_amount p)"

definition books_ok :: "('t, 's) engine \<Rightarrow> bool" where
  "books_ok e \<longleftrightarrow> flight_ok (en_history e) (en_pending e)"

definition keeps_books :: "('t, 's) engine \<Rightarrow> ('t, 's) engine \<Rightarrow> bool" where
  "keeps_books e e' \<longleftrightarrow> (books_ok e \<longrightarrow> books_ok e')"

interpretation track: state_preorder keeps_books
  by unfold_locales (auto simp: keeps_books_def)

lemma track_same: "climbs same_books m \<Longrightarrow> climbs keeps_books m"
  by (auto simp: climbs_def keeps_books_def same_books_def books_ok_def)

lemma flight_append: "flight_ok h ps \<Longrightarrow> he_status x \<noteq> Pending \<Longrightarrow> flight_ok (h @ [x]) ps"
  by (auto simp: flight_ok_def nth_append less_Suc_eq)

lemma flight_send:
  assumes "flight_ok h ps" "he_kind x = HistSend" "he_amount x = pn_amount p" "he_status x = Pending" "pn_history_idx p = length h"
  shows "flight_ok (h @ [x]) (ps @ [p])"
  using assms by (auto simp: flight_ok_def nth_append less_Suc_eq image_iff)

lemma length_set_status [simp]: "length (set_status i st h) = length h"
  by (simp add: set_status_def)

lemma nth_set_status: "j < length h \<Longrightarrow> set_status i st h ! j = (if i = j then (h ! j)\<lparr>he_status := st\<rparr> else h ! j)"
  by (auto simp: set_status_def nth_list_update)

lemma flight_drop:
  assumes "flight_ok h ps" "p \<in> set ps" "st \<noteq> Pending" "set qs = set ps - {p}" "distinct (map pn_history_idx qs)"
  shows "flight_ok (set_status (pn_history_idx p) st h) qs"
proof -
  let ?h = "set_status (pn_history_idx p) st h"
  have inj: "inj_on pn_history_idx (set ps)"
    and st: "\<And>i. i < length h \<Longrightarrow> he_status (h ! i) = Pending \<longleftrightarrow> i \<in> pn_history_idx ` set ps"
    and row: "\<And>q. q \<in> set ps \<Longrightarrow> pn_history_idx q < length h \<and> he_kind (h ! pn_history_idx q) = HistSend
        \<and> he_amount (h ! pn_history_idx q) = pn_amount q"
    using assms(1) by (simp_all only: flight_ok_def distinct_map)
  have gone: "pn_history_idx ` set qs = pn_history_idx ` set ps - {pn_history_idx p}"
    unfolding assms(4) using inj_on_image_set_diff[OF inj, of "set ps" "{p}"] assms(2) by auto
  have "he_status (?h ! i) = Pending \<longleftrightarrow> i \<in> pn_history_idx ` set qs" if "i < length ?h" for i
    using that st[of i] assms(3) unfolding gone by (simp add: nth_set_status)
  moreover have "pn_history_idx q < length ?h \<and> he_kind (?h ! pn_history_idx q) = HistSend \<and> he_amount (?h ! pn_history_idx q) = pn_amount q"
    if "q \<in> set qs" for q using row[of q] that assms(4) by (auto simp: nth_set_status)
  ultimately show ?thesis using assms(5) by (simp add: flight_ok_def)
qed

lemma track_record: "climbs keeps_books (record_entry E kind amount detail)"
proof -
  have "climbs keeps_books (modify (\<lambda>e. e\<lparr>en_history := en_history e @
      [\<lparr>he_kind = kind, he_amount = amount, he_detail = detail, he_ts_secs = ts, he_status = Complete\<rparr>]\<rparr>))" for ts
    by (rule track.climbs_modify) (auto simp: keeps_books_def books_ok_def intro!: flight_append)
  then show ?thesis unfolding record_entry_def by (intro track.climbs_bind track_same[OF books_clock])
qed

lemma books_finalize: "books_ok e \<Longrightarrow> books_ok (finalize_claimed i e)"
proof (cases "i < length (en_pending e)")
  case True
  assume "books_ok e"
  let ?ps = "en_pending e" let ?p = "?ps ! i" let ?qs = "take i ?ps @ drop (Suc i) ?ps"
  have split: "?ps = take i ?ps @ ?p # drop (Suc i) ?ps" using True by (rule id_take_nth_drop)
  have "distinct (map pn_history_idx ?ps)" using \<open>books_ok e\<close> by (simp add: books_ok_def flight_ok_def)
  with split have "distinct (map pn_history_idx (take i ?ps @ ?p # drop (Suc i) ?ps))" by simp
  then have d: "distinct (map pn_history_idx ?qs)" "?p \<notin> set ?qs" by (auto simp: image_iff)
  moreover have "set ?ps = insert ?p (set ?qs)" by (subst split) auto
  with d(2) have "set ?qs = set ?ps - {?p}" by auto
  ultimately show ?thesis
    using flight_drop[of "en_history e" ?ps ?p Complete ?qs] \<open>books_ok e\<close> True by (auto simp: books_ok_def finalize_claimed_def)
qed (simp add: finalize_claimed_def)

lemma track_finalize: "climbs keeps_books (modify (finalize_claimed i))"
  by (rule track.climbs_modify) (simp add: keeps_books_def books_finalize)

lemma track_loop: "keeps_books e (snd (check_pending_loop E i statuses e))"
proof (induction E i statuses e rule: check_pending_loop.induct)
  case (1 E i statuses e)
  obtain r e1 where probe: "probe_pending E (en_pending e ! i) e = (r, e1)" by fastforce
  then have k: "keeps_books e e1" by (intro climbsD[OF track_same[OF books_probe]])
  then have f: "keeps_books e (finalize_claimed i e1)" by (simp add: keeps_books_def books_finalize)
  show ?case
    using 1 probe k f by (subst check_pending_loop.simps)
      (auto intro: track.R_trans track.R_refl split: res.splits pending_status.splits)
qed

lemmas track_rules = track.climbs_rules track.climbs_handle track_same[OF books_in_wallet] track_same[OF books_meta]
  track_same[OF books_ensure] track_same[OF books_clock] track_same[OF books_verify(2)] track_same[OF books_probe]
  track_record track_finalize

text \<open>While one send is looked at, the books stand still and the send stays in flight.\<close>

definition tracking :: "pending_send \<Rightarrow> ('t, 's) engine \<Rightarrow> bool" where
  "tracking p e \<longleftrightarrow> books_ok e \<and> p \<in> set (en_pending e)"

lemma tracking_step:
  assumes "climbs same_books m" "\<And>x. hoare books_ok (tracking p) (f x) (\<lambda>_. books_ok)"
  shows "hoare books_ok (tracking p) (bind m f) (\<lambda>_. books_ok)"
proof (rule hoare_bind[OF _ assms(2)])
  show "hoare books_ok (tracking p) m (\<lambda>_. tracking p)"
    by (rule hoare_climbs[OF assms(1)]) (auto simp: tracking_def same_books_def books_ok_def)
qed

lemma tracking_lost_race:
  assumes "climbs same_books m" "climbs same_books q"
  shows "hoare books_ok (tracking p)
    (handle m (\<lambda>_. ret ()) (\<lambda>_. bind (handle q (\<lambda>status. if status = Claimed then modify (finalize_claimed i) else ret ()) (\<lambda>_. ret ())) (\<lambda>_. throw err)))
    (\<lambda>_. tracking p)"
proof -
  have "books_ok e'" "tracking p e'" if "tracking p e" "same_books e e'" for e e'
    using that by (auto simp: tracking_def same_books_def books_ok_def)
  note keep = this
  have "case handle m (\<lambda>_. ret ()) (\<lambda>_. bind (handle q (\<lambda>status. if status = Claimed then modify (finalize_claimed i) else ret ()) (\<lambda>_. ret ())) (\<lambda>_. throw err)) e
      of (Ok x, t) \<Rightarrow> tracking p t | (_, t) \<Rightarrow> books_ok t" if e: "tracking p e" for e
  proof -
    obtain r u where r: "m e = (r, u)" by fastforce
    with e keep climbsD[OF assms(1)] have u: "tracking p u" "books_ok u" by blast+
    obtain c v where c: "q u = (c, v)" by fastforce
    with u keep climbsD[OF assms(2)] have "books_ok v" "books_ok (finalize_claimed i v)" by (blast intro: books_finalize)+
    with r c u show ?thesis by (cases r; cases c) (simp_all add: handle_def bind_def)
  qed
  then show ?thesis by (simp add: hoare_def)
qed

lemma tracking_settled: "hoare books_ok (tracking p)
    (bind (modify (\<lambda>e. e\<lparr>en_pending := filter (\<lambda>q. q \<noteq> p) (en_pending e)\<rparr>)) (\<lambda>_.
     bind (modify (\<lambda>e. e\<lparr>en_history := set_status (pn_history_idx p) Reclaimed (en_history e)\<rparr>)) (\<lambda>_. m)))
    (\<lambda>_. books_ok)" if "climbs keeps_books m" for m
proof -
  have "books_ok (e\<lparr>en_pending := filter (\<lambda>q. q \<noteq> p) (en_pending e), en_history := set_status (pn_history_idx p) Reclaimed (en_history e)\<rparr>)"
    if "tracking p e" for e
    using flight_drop[of "en_history e" "en_pending e" p Reclaimed "filter (\<lambda>q. q \<noteq> p) (en_pending e)"] that
    by (auto simp: tracking_def books_ok_def flight_ok_def distinct_map_filter)
  moreover have "books_ok e \<Longrightarrow> books_ok (snd (m e))" for e using that by (auto simp: climbs_def keeps_books_def)
  ultimately show ?thesis unfolding hoare_def bind_def by (fastforce split: prod.splits res.splits)
qed

lemma track_nth:
  assumes "\<And>p. hoare books_ok (tracking p) (f p) (\<lambda>_. books_ok)"
  shows "climbs keeps_books (bind (nth_pending i) f)"
proof -
  have "books_ok (snd (f (en_pending e ! i) e))" if "books_ok e" "i < length (en_pending e)" for e
    using hoare_final[OF assms[of "en_pending e ! i"], of e] that by (simp add: tracking_def)
  then show ?thesis
    by (auto simp: climbs_def keeps_books_def nth_pending_def bind_def split: prod.splits)
qed

lemma track_reclaim: "climbs keeps_books (reclaim_pending E i)"
proof -
  have "climbs keeps_books (bind (record_entry E HistReceive net ''ecash reclaimed'') (\<lambda>_. ret net))" for net
    by (intro track_rules)
  note settled = tracking_settled[OF this]
  show ?thesis
    unfolding reclaim_pending_def
    by (intro track.climbs_bind track_same[OF books_ensure] track_nth)
      (intro tracking_step books_rules books_verify hoare_bind[OF tracking_lost_race] books_probe settled)
qed

lemma track_handed_over:
  "climbs keeps_books
    (bind (gets (\<lambda>e. length (en_history e))) (\<lambda>history_idx.
     bind (record_entry E HistSend amount detail) (\<lambda>_.
     bind (modify (\<lambda>e. e\<lparr>en_history := (en_history e)[history_idx := (en_history e ! history_idx)\<lparr>he_status := Pending\<rparr>]\<rparr>)) (\<lambda>_.
     bind (modify (\<lambda>e. e\<lparr>en_pending := en_pending e @
         [\<lparr>pn_token = wire, pn_amount = amount, pn_memo = memo, pn_ts_secs = he_ts_secs (en_history e ! history_idx),
           pn_history_idx = history_idx\<rparr>]\<rparr>)) (\<lambda>_.
       ret wire)))))"
proof -
  have "keeps_books e e'" if "read_clock E e = (r, e')" for e e' r
    using climbsD[OF track_same[OF books_clock] that] .
  moreover have "en_history e' = en_history e \<and> en_pending e' = en_pending e" if "read_clock E e = (r, e')" for e e' r
    using climbsD[OF books_clock that] by (simp add: same_books_def)
  ultimately show ?thesis
    unfolding climbs_def record_entry_def bind_assoc
    by (auto simp: bind_def keeps_books_def books_ok_def list_update_append intro!: flight_send split: prod.splits res.splits)
qed

lemma track_send: "climbs keeps_books (send_token E amount memo)"
  unfolding send_token_def
  by (intro track.climbs_bind track_same[OF books_ensure] track_same[OF books_compose] track.climbs_gets track.climbs_lift_res
      track_same[OF books_in_wallet] track_handed_over)

lemma track_check: "climbs keeps_books (check_pending_send E i)"
proof -
  have "hoare books_ok (tracking p) (bind (probe_pending E p) (\<lambda>status.
      bind (if status = Claimed then modify (finalize_claimed i) else ret ()) (\<lambda>_. ret status))) (\<lambda>_. books_ok)" for p
    by (rule tracking_step[OF books_probe]) (auto simp: hoare_def tracking_def books_finalize)
  then show ?thesis
    unfolding check_pending_send_def by (intro track.climbs_bind track_same[OF books_ensure] track_nth)
qed

lemma track_check_all: "climbs keeps_books (check_all_pending E)"
proof -
  have "climbs keeps_books (check_pending_loop E 0 [])" by (simp add: climbs_def track_loop)
  then show ?thesis unfolding check_all_pending_def by (intro track.climbs_bind track_same[OF books_ensure])
qed

lemma track_connect: "climbs keeps_books (connect E)"
  unfolding connect_def Let_def
  by (intro track.climbs_bind track.climbs_lift_res track.climbs_modify track_same[OF books_meta])
    (auto simp: keeps_books_def books_ok_def)

lemma track_mint: "climbs keeps_books (mint_paid_quote E quote_id amount)"
  unfolding mint_paid_quote_def by (intro track_rules)

lemma track_receive: "climbs keeps_books (receive_token_with E token_str preimage)"
  unfolding receive_token_with_def by (intro track_rules track_same[OF books_receive])

lemma track_melt: "climbs keeps_books (melt_with E invoice amount)"
proof -
  have "climbs keeps_books (quote_melt_with E invoice amount)"
    unfolding quote_melt_with_def by (intro track_rules)
  then show ?thesis
    unfolding melt_with_def by (auto intro!: track_rules track_same[OF books_prepare] split: prod.splits)
qed

text \<open>The life of an engine: any of its operations, with any outcome.\<close>

inductive engine_step :: "('p, 't, 's, 'j) engine_env \<Rightarrow> ('t, 's) engine \<Rightarrow> ('t, 's) engine \<Rightarrow> bool"
  for E where
  "connect E e = (r, e') \<Longrightarrow> engine_step E e e'"
| "mint_via_invoice E amount e = (q, e') \<Longrightarrow> engine_step E e e'"
| "poll_mint_quote E quote_id e = (q, e') \<Longrightarrow> engine_step E e e'"
| "mint_paid_quote E quote_id amount e = (n, e') \<Longrightarrow> engine_step E e e'"
| "inspect_token E token_str e = (i, e') \<Longrightarrow> engine_step E e e'"
| "receive_token_with E token_str preimage e = (n, e') \<Longrightarrow> engine_step E e e'"
| "check_token_state E token_str e = (ss, e') \<Longrightarrow> engine_step E e e'"
| "send_token E amount memo e = (w, e') \<Longrightarrow> engine_step E e e'"
| "check_pending_send E i e = (st, e') \<Longrightarrow> engine_step E e e'"
| "check_all_pending E e = (sts, e') \<Longrightarrow> engine_step E e e'"
| "reclaim_pending E i e = (n, e') \<Longrightarrow> engine_step E e e'"
| "quote_melt_with E invoice limit e = (lq, e') \<Longrightarrow> engine_step E e e'"
| "melt_with E invoice limit e = (out, e') \<Longrightarrow> engine_step E e e'"
| "reconcile_spent E e = (n, e') \<Longrightarrow> engine_step E e e'"
| "en_restore E e = (n, e') \<Longrightarrow> engine_step E e e'"

inductive engine_start :: "('p, 't, 's, 'j) engine_env \<Rightarrow> ('t, 's) engine \<Rightarrow> bool" for E where
  "with_pending E mint_url transport store seed history pending = Ok e \<Longrightarrow> flight_ok history pending \<Longrightarrow> engine_start E e"

lemma books_lookups:
  "climbs same_books (mint_via_invoice E amount)" "climbs same_books (poll_mint_quote E quote_id)"
  "climbs same_books (check_token_state E token_str)" "climbs same_books (quote_melt_with E invoice limit)"
  unfolding mint_via_invoice_def poll_mint_quote_def check_token_state_def quote_melt_with_def by (intro books_rules)+

lemma climbs_map_err: "climbs R m \<Longrightarrow> climbs R (map_err_op f m)"
  by (auto simp: climbs_def map_err_op_def split: prod.splits) (metis snd_conv)

lemma books_inspect: "climbs same_books (inspect_token E token_str)"
  unfolding inspect_token_def by (intro books.climbs_rules climbs_map_err books_lookups)

interpretation engine_life: transition_system "engine_start E" "engine_step E" books_ok for E
proof
  fix e :: "('b, 'c) engine" assume "engine_start E e"
  then show "books_ok e" by (auto simp: with_pending_def books_ok_def Let_def elim!: engine_start.cases)
next
  fix e e' :: "('b, 'c) engine" assume ok: "books_ok e" and step: "engine_step E e e'"
  from step have "keeps_books e e'"
    by cases (auto dest: climbsD[OF track_connect] climbsD[OF track_mint] climbsD[OF track_receive] climbsD[OF track_send]
        climbsD[OF track_check] climbsD[OF track_check_all] climbsD[OF track_reclaim] climbsD[OF track_melt]
        climbsD[OF track_same[OF books_lookups(1)]] climbsD[OF track_same[OF books_lookups(2)]]
        climbsD[OF track_same[OF books_lookups(3)]] climbsD[OF track_same[OF books_lookups(4)]]
        climbsD[OF track_same[OF books_inspect]] climbsD[OF track_same[OF books_reconcile]] climbsD[OF track_same[OF books_restore]])
  with ok show "books_ok e'" by (simp add: keeps_books_def)
qed

text \<open>C28: the history keeps track of every send. In every state an engine can reach, each send in flight has a row of its own in the
  history, of its amount and marked pending, and no other row is marked pending.\<close>

theorem history_tracks_sends:
  assumes "reach (engine_start E) (engine_step E) e"
  shows "distinct (map pn_history_idx (en_pending e))
    \<and> (\<forall>i < length (en_history e). he_status (en_history e ! i) = Pending \<longleftrightarrow> i \<in> pn_history_idx ` set (en_pending e))
    \<and> (\<forall>p \<in> set (en_pending e). pn_history_idx p < length (en_history e)
          \<and> he_kind (en_history e ! pn_history_idx p) = HistSend \<and> he_amount (en_history e ! pn_history_idx p) = pn_amount p)"
  using engine_life.reach_inv[OF assms] by (simp add: books_ok_def flight_ok_def)

section \<open>Only verified proofs enter\<close>

text \<open>Every proof held is one of \<open>S\<close> or carries a DLEQ proof that verifies against the cached keys.\<close>

definition sound_proofs :: "('p, 't, 's, 'j) engine_env \<Rightarrow> key_set \<Rightarrow> nut_proof set \<Rightarrow> nut_proof set" where
  "sound_proofs E keys S = S \<union> {p. verified (ee_wallet E) keys p}"

definition holds :: "('p, 't, 's, 'j) engine_env \<Rightarrow> key_set \<Rightarrow> nut_proof set \<Rightarrow> ('t, 's) engine \<Rightarrow> bool" where
  "holds E keys S e \<longleftrightarrow> en_keys e = keys \<and> set (pw_proofs (en_wallet e)) \<subseteq> sound_proofs E keys S"

abbreviation stays_sound :: "('p, 't, 's, 'j) engine_env \<Rightarrow> key_set \<Rightarrow> nut_proof set \<Rightarrow> (('t, 's) engine, 'e, 'a) op \<Rightarrow> bool" where
  "stays_sound E keys S m \<equiv> hoare (holds E keys S) (holds E keys S) m (\<lambda>_. holds E keys S)"

lemma sound_bind:
  "stays_sound E keys S m \<Longrightarrow> (\<And>x. stays_sound E keys S (f x)) \<Longrightarrow> stays_sound E keys S (bind m f)"
  by (rule hoare_bind)

lemma sound_handle:
  "stays_sound E keys S m \<Longrightarrow> (\<And>x. stays_sound E keys S (f x)) \<Longrightarrow> (\<And>x. stays_sound E keys S (g x)) \<Longrightarrow>
     stays_sound E keys S (handle m f g)"
proof -
  assume a: "stays_sound E keys S m" "\<And>x. stays_sound E keys S (f x)" "\<And>x. stays_sound E keys S (g x)"
  show ?thesis
    unfolding hoare_def
  proof (intro allI impI)
    fix e assume e: "holds E keys S e"
    obtain r u where r: "m e = (r, u)" by fastforce
    with a(1) e have "holds E keys S u" unfolding hoare_def by (cases r) force+
    with a(2,3) r show "case handle m f g e of (Ok x, t) \<Rightarrow> holds E keys S t | (_, t) \<Rightarrow> holds E keys S t"
      unfolding hoare_def handle_def by (cases r) simp_all
  qed
qed

lemma sound_ignore: "stays_sound E keys S m \<Longrightarrow> stays_sound E keys S (ignore m)"
  unfolding hoare_def ignore_def by (fastforce split: prod.splits res.splits)

lemma sound_basics:
  "stays_sound E keys S (ret x)" "stays_sound E keys S (throw err)" "stays_sound E keys S panic"
  "stays_sound E keys S (gets g)" "stays_sound E keys S (lift_res r)" "stays_sound E keys S (guard_err b err)"
  by (auto simp: hoare_def split: res.splits)

lemma sound_in_walletI:
  assumes "\<And>w r w'. m w = (r, w') \<Longrightarrow> set (pw_proofs w) \<subseteq> sound_proofs E keys S \<Longrightarrow> set (pw_proofs w') \<subseteq> sound_proofs E keys S
      \<and> (\<forall>x. r = Ok x \<longrightarrow> P x)"
  shows "hoare (holds E keys S) (holds E keys S) (in_wallet m) (\<lambda>x e. holds E keys S e \<and> P x)"
  unfolding hoare_def
proof (intro allI impI)
  fix e assume e: "holds E keys S e"
  obtain r w' where m: "m (en_wallet e) = (r, w')" by fastforce
  from assms[OF m] e m show "case in_wallet m e of (Ok x, t) \<Rightarrow> holds E keys S t \<and> P x | (_, t) \<Rightarrow> holds E keys S t"
    by (cases r) (simp_all add: in_wallet_def holds_def)
qed

lemma sound_in_wallet:
  assumes "climbs (only_verified (ee_wallet E) keys) m"
  shows "stays_sound E keys S (in_wallet m)"
proof -
  have "set (pw_proofs w') \<subseteq> sound_proofs E keys S" if "m w = (r, w')" "set (pw_proofs w) \<subseteq> sound_proofs E keys S" for w r w'
    using climbsD[OF assms that(1)] that(2) by (auto simp: only_verified_def sound_proofs_def)
  then have "hoare (holds E keys S) (holds E keys S) (in_wallet m) (\<lambda>x e. holds E keys S e \<and> True)"
    by (intro sound_in_walletI) blast
  then show ?thesis by simp
qed

lemma sound_meta: "stays_sound E keys S (meta m)"
  unfolding meta_def by (rule sound_in_wallet[OF fresh_call])

lemma sound_clock: "stays_sound E keys S (read_clock E')"
  unfolding read_clock_def by (rule sound_meta)

lemma sound_ensure: "stays_sound E keys S ensure_connected"
  unfolding ensure_connected_def by (intro sound_bind sound_basics)

lemma sound_books: "(\<And>e. en_wallet (h e) = en_wallet e \<and> en_keys (h e) = en_keys e) \<Longrightarrow> stays_sound E keys S (modify h)"
  by (auto simp: hoare_def holds_def)

lemma sound_record: "stays_sound E keys S (record_entry E' kind amount detail)"
  unfolding record_entry_def by (intro sound_bind sound_clock sound_books) simp

lemma fresh_remove: "climbs (only_verified V keys) (remove_proofs V ps)"
  unfolding remove_proofs_def
  by (intro fresh_rules fresh.climbs_modify) (auto simp: only_verified_def retain_unselected_def)

lemma sound_verify: "stays_sound E keys S (verify_or_remove E ps)" "stays_sound E keys S (verify_new_proofs E known)"
proof -
  show one: "stays_sound E keys S (verify_or_remove E ps)" for ps
    unfolding verify_or_remove_def
    by (intro sound_bind sound_basics) (auto intro!: sound_bind sound_basics sound_ignore sound_in_wallet fresh_remove split: res.splits)
  show "stays_sound E keys S (verify_new_proofs E known)"
    unfolding verify_new_proofs_def by (intro sound_bind sound_basics one)
qed

lemma sound_spend:
  assumes "\<And>sel. set sel \<subseteq> sound_proofs E keys S \<Longrightarrow> stays_sound E keys S (f sel)"
  shows "stays_sound E keys S (bind (in_wallet (spend (ee_wallet E) amount)) f)"
proof -
  have "set (pw_proofs w') \<subseteq> set (pw_proofs w) \<and> (\<forall>sel. r = Ok sel \<longrightarrow> set sel \<subseteq> set (pw_proofs w))"
    if run: "spend (ee_wallet E) amount w = (r, w')" for r w w'
  proof -
    have "set (pw_proofs w') \<subseteq> set (pw_proofs w)"
      using run by (auto simp: spend_def bind_def pw_persist_def retain_unselected_def Let_def split: if_splits res.splits prod.splits)
    moreover have "set sel \<subseteq> set (pw_proofs w)" if "r = Ok sel" for sel
      using spend_Ok[OF run[unfolded that]] set_mset_mono[OF selected_sub[of amount "pw_proofs w"]] by (metis set_mset_mset)
    ultimately show ?thesis by blast
  qed
  then have "hoare (holds E keys S) (holds E keys S) (in_wallet (spend (ee_wallet E) amount))
      (\<lambda>sel e. holds E keys S e \<and> set sel \<subseteq> sound_proofs E keys S)"
    by (intro sound_in_walletI conjI allI impI) blast+
  then show ?thesis
    by (rule hoare_bind) (use assms in \<open>auto simp: hoare_def\<close>)
qed

lemma sound_undo:
  assumes "set sel \<subseteq> sound_proofs E keys S"
  shows "stays_sound E keys S (in_wallet (undo_spend (ee_wallet E) sel))"
proof -
  have "set (pw_proofs w') = set (pw_proofs w) \<union> set sel" if "undo_spend (ee_wallet E) sel w = (r, w')" for r w w'
    using that by (auto simp: undo_spend_def pw_persist_def split: res.splits prod.splits)
  then have "hoare (holds E keys S) (holds E keys S) (in_wallet (undo_spend (ee_wallet E) sel)) (\<lambda>x e. holds E keys S e \<and> True)"
    using assms by (intro sound_in_walletI) simp
  then show ?thesis by simp
qed

lemma sound_calls:
  "stays_sound E keys S (in_wallet (mint_deterministic (ee_wallet E) quote_id amount keyset_id keys))"
  "stays_sound E keys S (in_wallet (swap_deterministic (ee_wallet E) inputs amounts keyset_id keys))"
  "stays_sound E keys S (in_wallet (melt_deterministic (ee_wallet E) quote_id amount fee keyset_id keys))"
  "stays_sound E keys S (in_wallet (wallet_restore (ee_wallet E) keyset_id keys))"
  "stays_sound E keys S (in_wallet (remove_proofs (ee_wallet E) ps))"
  by (intro sound_in_wallet fresh_mint fresh_swap fresh_melt fresh_restore fresh_remove)+

lemmas sound_rules = sound_bind sound_handle sound_ignore sound_basics sound_meta sound_clock sound_ensure sound_record
  sound_verify sound_undo

lemma sound_keys:
  assumes "stays_sound E keys S (f keys)"
  shows "stays_sound E keys S (bind (gets en_keys) f)"
  using assms by (auto simp: hoare_def holds_def)

lemma sound_reconcile: "stays_sound E keys S (reconcile_spent E)"
  unfolding reconcile_spent_def
  by (auto intro!: sound_rules sound_calls simp: Let_def split: prod.splits)

lemma sound_restore: "stays_sound E keys S (en_restore E)"
  unfolding en_restore_def by (auto intro!: sound_rules sound_keys sound_calls)

lemma sound_compose: "stays_sound E keys S (compose_exact E amount)"
proof -
  have hint: "stays_sound E keys S (swap_fee_hint E amount)"
    unfolding swap_fee_hint_def by (auto intro!: sound_rules sound_spend)
  have again: "stays_sound E keys S (compose_fallback E amount sel err)" if "set sel \<subseteq> sound_proofs E keys S" for sel err
    unfolding compose_fallback_def held_exact_def
    using that by (auto intro!: sound_rules sound_reconcile sound_restore split: option.splits res.splits)
  show ?thesis
    unfolding compose_exact_def
    by (auto intro!: sound_rules hint sound_spend sound_keys sound_calls again simp: Let_def)
qed

lemma sound_send: "stays_sound E keys S (send_token E amount memo)"
  unfolding send_token_def
  by (intro sound_bind sound_ensure sound_compose sound_basics sound_calls sound_record sound_books) simp_all

lemma sound_mint: "stays_sound E keys S (mint_paid_quote E quote_id amount)"
  unfolding mint_paid_quote_def by (intro sound_keys sound_rules sound_calls)

lemma sound_receive: "stays_sound E keys S (receive_token_with E token_str preimage)"
proof -
  have "stays_sound E keys S (receive_group E ctx g)" for ctx g
    unfolding receive_group_def by (intro sound_keys sound_rules sound_calls)
  then have "stays_sound E keys S (receive_groups E ctx gs acc)" for ctx gs acc
    by (induction gs arbitrary: acc) (auto intro!: sound_rules)
  then show ?thesis unfolding receive_token_with_def by (intro sound_rules)
qed

lemma finalize_frame [simp]:
  "en_wallet (finalize_claimed i e) = en_wallet e" "en_keys (finalize_claimed i e) = en_keys e"
  by (simp_all add: finalize_claimed_def)

lemma sound_reclaim: "stays_sound E keys S (reclaim_pending E i)"
proof -
  have "stays_sound E keys S (probe_pending E p)" for p unfolding probe_pending_def by (intro sound_rules)
  moreover have "stays_sound E keys S (nth_pending i)" unfolding nth_pending_def by (auto intro!: sound_rules)
  moreover have "stays_sound E keys S (modify (finalize_claimed i))" by (rule sound_books) simp
  ultimately show ?thesis
    unfolding reclaim_pending_def by (auto intro!: sound_keys sound_rules sound_calls sound_books)
qed

lemma sound_melt: "stays_sound E keys S (melt_with E invoice limit)"
proof -
  have "stays_sound E keys S (prepare_melt E target)" for target
    unfolding prepare_melt_def
    by (auto intro!: sound_keys sound_rules sound_spend sound_calls simp: Let_def split: option.splits)
  moreover have "stays_sound E keys S (quote_melt_with E invoice limit)" unfolding quote_melt_with_def by (intro sound_rules)
  ultimately show ?thesis
    unfolding melt_with_def by (auto intro!: sound_keys sound_rules sound_calls split: prod.splits)
qed

lemma sound_final:
  assumes "\<And>keys S. stays_sound E keys S m"
  shows "set (pw_proofs (en_wallet (snd (m e)))) \<subseteq> set (pw_proofs (en_wallet e)) \<union> {p. verified (ee_wallet E) (en_keys e) p}"
proof -
  have "holds E (en_keys e) (set (pw_proofs (en_wallet e))) e" by (simp add: holds_def sound_proofs_def)
  from hoare_final[OF assms this] show ?thesis by (auto simp: holds_def sound_proofs_def)
qed

text \<open>C29: nothing unverified is ever held. Whatever the mint answers, and however an operation of the engine ends, every proof the wallet
  holds after it was there before or carries a DLEQ proof that verifies against the mint's key of its amount.\<close>

theorem engine_holds_only_verified:
  "set (pw_proofs (en_wallet (snd (mint_paid_quote E quote_id amount e)))) \<subseteq> set (pw_proofs (en_wallet e)) \<union> {p. verified (ee_wallet E) (en_keys e) p}
   \<and> set (pw_proofs (en_wallet (snd (receive_token_with E token_str preimage e)))) \<subseteq> set (pw_proofs (en_wallet e)) \<union> {p. verified (ee_wallet E) (en_keys e) p}
   \<and> set (pw_proofs (en_wallet (snd (send_token E amount memo e)))) \<subseteq> set (pw_proofs (en_wallet e)) \<union> {p. verified (ee_wallet E) (en_keys e) p}
   \<and> set (pw_proofs (en_wallet (snd (reclaim_pending E i e)))) \<subseteq> set (pw_proofs (en_wallet e)) \<union> {p. verified (ee_wallet E) (en_keys e) p}
   \<and> set (pw_proofs (en_wallet (snd (melt_with E invoice limit e)))) \<subseteq> set (pw_proofs (en_wallet e)) \<union> {p. verified (ee_wallet E) (en_keys e) p}
   \<and> set (pw_proofs (en_wallet (snd (en_restore E e)))) \<subseteq> set (pw_proofs (en_wallet e)) \<union> {p. verified (ee_wallet E) (en_keys e) p}"
  by (intro conjI sound_final sound_mint sound_receive sound_send sound_reclaim sound_melt sound_restore)

section \<open>A token sent is exact\<close>

text \<open>What the search returns is a selection with the requested sum, however large the wallet.\<close>

definition picks :: "u64 list \<Rightarrow> nat \<Rightarrow> u64 \<Rightarrow> nat list \<Rightarrow> (unit, bool \<times> nat list \<times> u32) res \<Rightarrow> bool" where
  "picks amounts i remaining chosen r \<longleftrightarrow> (\<forall>b c n. r = Ok (b, c, n) \<longrightarrow>
     (if b then \<exists>more. c = chosen @ more \<and> sorted_wrt (<) more \<and> set more \<subseteq> {i..<length amounts}
          \<and> sum_list (map (\<lambda>j. unat (amounts ! j)) more) = unat remaining
      else c = chosen))"

lemma picks_later: "picks amounts (Suc i) remaining chosen r \<Longrightarrow> picks amounts i remaining chosen r"
  unfolding picks_def by (fastforce split: if_splits)

lemma picks_take:
  assumes "picks amounts (Suc i) (remaining - amounts ! i) (chosen @ [i]) (Ok (True, c, n))" "i < length amounts" "amounts ! i \<le> remaining"
  shows "picks amounts i remaining chosen (Ok (True, c, n))"
proof -
  from assms(1) obtain more where m: "c = chosen @ i # more" "sorted_wrt (<) more" "set more \<subseteq> {Suc i..<length amounts}"
    "sum_list (map (\<lambda>j. unat (amounts ! j)) more) = unat (remaining - amounts ! i)" by (auto simp: picks_def)
  have "unat (amounts ! i) + unat (remaining - amounts ! i) = unat remaining"
    using assms(3) by (simp add: unat_sub word_le_nat_alt)
  with m assms(2) show ?thesis by (auto simp: picks_def intro!: exI[of _ "i # more"])
qed

lemma dfs_picks:
  "picks amounts start remaining chosen (dfs amounts suffix start remaining chosen nodes)"
  "picks amounts i remaining chosen (dfs_loop amounts suffix i last_coin remaining chosen nodes)"
proof (induction amounts suffix start remaining chosen nodes and amounts suffix i last_coin remaining chosen nodes rule: dfs_dfs_loop.induct)
  case (1 amounts suffix start remaining chosen nodes)
  then show ?case by (subst dfs.simps) (auto simp: picks_def)
next
  case (2 amounts suffix i last_coin remaining chosen nodes)
  show ?case
  proof (cases "i < length amounts")
    case False
    then show ?thesis by (simp add: picks_def dfs_loop_end)
  next
    case True
    then have i: "\<not> length amounts \<le> i" by simp
    consider "last_coin = Some (amounts ! i)" | "last_coin \<noteq> Some (amounts ! i)" "amounts ! i > remaining"
      | "last_coin \<noteq> Some (amounts ! i)" "\<not> amounts ! i > remaining" by blast
    then show ?thesis
    proof cases
      case c: 1
      show ?thesis unfolding dfs_loop_same[OF True c] by (rule picks_later[OF "2.IH"(1)[OF i refl c]])
    next
      case c: 2
      show ?thesis unfolding dfs_loop_big[OF True c] by (rule picks_later[OF "2.IH"(2)[OF i refl c]])
    next
      case c: 3
      let ?r = "dfs amounts suffix (Suc i) (remaining - amounts ! i) (chosen @ [i]) (nodes + 1)"
      note rec = "2.IH"(3)[OF i refl c]
      show ?thesis
      proof (cases ?r)
        case (Ok t)
        obtain b ch n where t: "t = (b, ch, n)" by (cases t) auto
        note r = Ok[unfolded t]
        show ?thesis
        proof (cases b)
          case True
          with r have found: "?r = Ok (True, ch, n)" by simp
          from picks_take[OF rec[unfolded found]] c(2) \<open>i < length amounts\<close> show ?thesis
            unfolding dfs_loop_take[OF \<open>i < length amounts\<close> c r] using True by simp
        next
          case False
          then have ch: "butlast ch = chosen" using rec[unfolded r picks_def, rule_format, OF refl] by simp
          have "picks amounts (Suc i) remaining (butlast ch) (dfs_loop amounts suffix (Suc i) (Some (amounts ! i)) remaining (butlast ch) n)"
            using False t by (intro "2.IH"(4)[OF i refl c Ok]) simp_all
          with picks_later ch False show ?thesis unfolding dfs_loop_take[OF \<open>i < length amounts\<close> c r] by simp
        qed
      qed (use i c in \<open>simp_all add: dfs_loop.simps[of amounts] Let_def picks_def\<close>)
    qed
  qed
qed

lemma find_exact_sum:
  assumes "find_exact amount proofs = Ok (Some ps)"
  shows "sum_nat (map pf_amount ps) = unat amount"
proof -
  let ?as = "map pf_amount (spend_list proofs)"
  from assms obtain c n where c: "dfs ?as (suffix_sums ?as) 0 amount [] 0 = Ok (True, c, n)"
    and ps: "ps = map (\<lambda>k. proofs ! (spend_order proofs ! k)) c"
    unfolding find_exact_def spend_list_def spend_order_def
    by (cases "dfs (map (\<lambda>i. pf_amount (proofs ! i)) (sort_key (\<lambda>i. - uint (pf_amount (proofs ! i))) [0..<length proofs]))
        (suffix_sums (map (\<lambda>i. pf_amount (proofs ! i)) (sort_key (\<lambda>i. - uint (pf_amount (proofs ! i))) [0..<length proofs]))) 0 amount [] 0")
      (auto simp: Let_def comp_def split: if_splits bool.splits)
  from dfs_picks(1)[of ?as 0 amount "[]" "suffix_sums ?as" 0] c have sel: "set c \<subseteq> {0..<length ?as}"
    "sum_list (map (\<lambda>j. unat (?as ! j)) c) = unat amount" by (auto simp: picks_def)
  have "map unat (map pf_amount ps) = map (\<lambda>j. unat (?as ! j)) c"
    unfolding ps using sel(1) by (auto simp: spend_list_def spend_order_def)
  with sel(2) show ?thesis by simp
qed

lemma outputs_amounts:
  "deterministic_outputs V seed keyset_id idx amounts = Ok (ms, ps) \<Longrightarrow> map po_amount ps = amounts"
  by (induction amounts arbitrary: idx ms ps) (auto split: prod.splits)

lemma unblinded_amounts:
  assumes "unblind_to_proofs K pending sigs keys = Ok proofs"
  shows "map pf_amount proofs = map po_amount pending"
proof -
  from assms have len: "length pending = length sigs"
    and all: "list_all2 (\<lambda>x q. unblind_one K keys ''unblind failed'' (po_amount (fst x)) (fst x) (snd x) = Ok q) (zip pending sigs) proofs"
    by (auto simp: unblind_to_proofs_def map_res_Ok_iff case_prod_beta split: if_splits)
  have "pf_amount q = po_amount p" if "unblind_one K keys msg (po_amount p) p sg = Ok q" for msg p sg q
    using that by (auto simp: unblind_one_def signed_proof_def split: if_splits)
  with all have "list_all2 (\<lambda>x q. pf_amount q = po_amount (fst x)) (zip pending sigs) proofs"
    by (rule list_all2_mono)
  then have "map pf_amount proofs = map po_amount (map fst (zip pending sigs))"
    by (induction rule: list_all2_induct) auto
  with len show ?thesis by simp
qed

lemma swap_amounts:
  assumes "swap_deterministic V inputs amounts keyset_id keys w = (Ok fresh, w')"
  shows "map pf_amount fresh = amounts"
  using assms unfolding swap_deterministic_def take_outputs_def
  by (auto simp: bind_Ok_iff simp del: bind_gets bind_lift_res bind_guard_err dest!: outputs_amounts unblinded_amounts split: prod.splits)

lemma handle_Ok_iff:
  "handle m f g s = (Ok y, t) \<longleftrightarrow> (\<exists>x u. m s = (Ok x, u) \<and> f x u = (Ok y, t)) \<or> (\<exists>x u. m s = (Err x, u) \<and> g x u = (Ok y, t))"
  by (auto simp: handle_def split: prod.splits res.splits)

lemma in_wallet_Ok_iff: "in_wallet m e = (Ok x, e') \<longleftrightarrow> (\<exists>w. m (en_wallet e) = (Ok x, w) \<and> e' = e\<lparr>en_wallet := w\<rparr>)"
  by (auto simp: in_wallet_def split: prod.splits)

lemma fallback_exact:
  assumes "compose_fallback E amount selected err e = (Ok ps, e')"
  shows "sum_nat (map pf_amount ps) = unat amount"
proof -
  have "held_exact amount u = (Ok found, u') \<Longrightarrow> find_exact amount (pw_proofs (en_wallet u)) = Ok found" for u u' found
    by (auto simp: held_exact_def split: res.splits)
  moreover from assms obtain u where "held_exact amount u = (Ok (Some ps), e')"
    unfolding compose_fallback_def by (auto simp: bind_Ok_iff split: if_splits option.splits)
  ultimately show ?thesis using find_exact_sum by blast
qed

lemma compose_exact_sum:
  assumes "compose_exact E amount e = (Ok ps, e')"
  shows "sum_nat (map pf_amount ps) = unat amount"
proof -
  let ?d = "decompose_amount amount"
  from assms consider fresh rest where "ps = take (length ?d) fresh" "map pf_amount fresh = ?d @ rest"
    | sel err u where "compose_fallback E amount sel err u = (Ok ps, e')"
    unfolding compose_exact_def
    by (auto simp: bind_Ok_iff handle_Ok_iff in_wallet_Ok_iff Let_def simp del: bind_gets bind_lift_res bind_guard_err
        dest!: swap_amounts)
  then show ?thesis
  proof cases
    case 1
    then have "map pf_amount ps = ?d" by (simp add: take_map[symmetric])
    then show ?thesis by (simp only: sum_decompose_amount)
  qed (rule fallback_exact)
qed

lemma remove_proofs_gone:
  assumes "remove_proofs V ps w = (r, w')"
  shows "set (pw_proofs w') \<inter> set ps = {}"
  using assms by (auto simp: remove_proofs_def pw_persist_def retain_unselected_def split: res.splits prod.splits)

lemma meta_proofs: "meta m e = (r, e') \<Longrightarrow> pw_proofs (en_wallet e') = pw_proofs (en_wallet e)"
  by (auto simp: meta_def in_wallet_def dest: quiet_call split: prod.splits)

lemma record_Ok:
  assumes "record_entry E kind amount detail e = (Ok (), e')"
  shows "\<exists>ts. en_history e' = en_history e @
      [\<lparr>he_kind = kind, he_amount = amount, he_detail = detail, he_ts_secs = ts, he_status = Complete\<rparr>]
    \<and> en_pending e' = en_pending e \<and> pw_proofs (en_wallet e') = pw_proofs (en_wallet e)"
proof -
  from assms obtain ts u where u: "read_clock E e = (Ok ts, u)" and e': "e' = u\<lparr>en_history := en_history u @
      [\<lparr>he_kind = kind, he_amount = amount, he_detail = detail, he_ts_secs = ts, he_status = Complete\<rparr>]\<rparr>"
    by (auto simp: record_entry_def bind_Ok_iff)
  from climbsD[OF books_clock u] meta_proofs[OF u[unfolded read_clock_def]] e' show ?thesis by (simp add: same_books_def)
qed

definition sent_token :: "('t, 's) engine \<Rightarrow> string option \<Rightarrow> nut_proof list \<Rightarrow> token_v4" where
  "sent_token e memo ps = \<lparr>tk_mint = en_mint_url e, tk_unit = en_unit e, tk_memo = memo,
     tk_tokens = [\<lparr>tg_keyset_id = en_keyset_id e, tg_proofs = map send_proof ps\<rparr>]\<rparr>"

lemma send_token_Ok:
  assumes "send_token E amount memo e = (Ok wire, e')"
  obtains ps ts where "sum_nat (map pf_amount ps) = unat amount"
    "encode_token_wire (ee_externs E) (ee_cbor E) (sent_token e memo ps) = Ok wire"
    "set (pw_proofs (en_wallet e')) \<inter> set ps = {}"
    "en_history e' = en_history e @ [\<lparr>he_kind = HistSend, he_amount = amount, he_detail = ''ecash to QR'', he_ts_secs = ts, he_status = Pending\<rparr>]"
    "en_pending e' = en_pending e @ [\<lparr>pn_token = wire, pn_amount = amount, pn_memo = memo, pn_ts_secs = ts, pn_history_idx = length (en_history e)\<rparr>]"
proof -
  from assms obtain u0 ps u w u2 where
    u0: "ensure_connected e = (Ok (), u0)" and u: "compose_exact E amount u0 = (Ok ps, u)"
    and wire: "encode_token_wire (ee_externs E) (ee_cbor E) (sent_token u memo ps) = Ok wire"
    and rem: "remove_proofs (ee_wallet E) ps (en_wallet u) = (Ok (), w)"
    and rec: "record_entry E HistSend amount ''ecash to QR'' (u\<lparr>en_wallet := w\<rparr>) = (Ok (), u2)"
    and e': "e' = u2\<lparr>en_history := (en_history u2)[length (en_history u) := (en_history u2 ! length (en_history u))\<lparr>he_status := Pending\<rparr>],
        en_pending := en_pending u2 @ [\<lparr>pn_token = wire, pn_amount = amount, pn_memo = memo,
          pn_ts_secs = he_ts_secs (((en_history u2)[length (en_history u) := (en_history u2 ! length (en_history u))\<lparr>he_status := Pending\<rparr>]) ! length (en_history u)),
          pn_history_idx = length (en_history u)\<rparr>]\<rparr>"
    unfolding send_token_def
    by (auto simp: bind_Ok_iff in_wallet_Ok_iff sent_token_def ok_or_def simp del: bind_gets bind_lift_res bind_modify
        elim!: map_err.elims)
  have same: "same_books e u"
    using books.R_trans[OF climbsD[OF books_ensure u0] climbsD[OF books_compose u]] .
  from record_Ok[OF rec] obtain ts where ts: "en_history u2 = en_history u @
      [\<lparr>he_kind = HistSend, he_amount = amount, he_detail = ''ecash to QR'', he_ts_secs = ts, he_status = Complete\<rparr>]"
    "en_pending u2 = en_pending u" "pw_proofs (en_wallet u2) = pw_proofs w" by auto
  show ?thesis
  proof (rule that)
    show "sum_nat (map pf_amount ps) = unat amount" by (rule compose_exact_sum[OF u])
    show "encode_token_wire (ee_externs E) (ee_cbor E) (sent_token e memo ps) = Ok wire"
      using wire same by (simp add: sent_token_def same_books_def)
    show "set (pw_proofs (en_wallet e')) \<inter> set ps = {}" using remove_proofs_gone[OF rem] ts(3) e' by simp
    show "en_history e' = en_history e @ [\<lparr>he_kind = HistSend, he_amount = amount, he_detail = ''ecash to QR'', he_ts_secs = ts, he_status = Pending\<rparr>]"
      "en_pending e' = en_pending e @ [\<lparr>pn_token = wire, pn_amount = amount, pn_memo = memo, pn_ts_secs = ts, pn_history_idx = length (en_history e)\<rparr>]"
      using same ts(1,2) by (simp_all add: e' same_books_def)
  qed
qed

lemma wire_decodes:
  assumes "cbor_ok C" "token_ok X C t" "encode_token_wire X C t = Ok w"
  shows "decode_token X C (as_bytes w) = Ok t" "\<not> starts_with ''cashuA'' w"
proof -
  from assms(3) obtain bs where bs: "encode_token X C t = Ok bs" "w = CASHU_B @ of_bytes (encode_base64url bs)"
    by (auto simp: encode_token_wire_def)
  with token_reads[OF assms(1,2) bs(1), of "[]"] base64url.dec_enc[of bs] show "decode_token X C (as_bytes w) = Ok t"
    by (simp add: decode_token_def comp_def Let_def)
  show "\<not> starts_with ''cashuA'' w" by (simp add: bs(2) CASHU_B_def starts_with_def)
qed

text \<open>C27: a token that was sent is worth what was asked for and is on the books. When sending succeeds, the text handed over is the wire form of
  a token whose proofs sum exactly to the amount and have left the wallet, the history has a new pending row
  and the send is recorded as in flight; a reader of the text gets that token back.\<close>

theorem sent_token_exact:
  assumes "send_token E amount memo e = (Ok wire, e')"
  shows "\<exists>ps ts. sum_nat (map pf_amount ps) = unat amount \<and> set (pw_proofs (en_wallet e')) \<inter> set ps = {}
    \<and> encode_token_wire (ee_externs E) (ee_cbor E) (sent_token e memo ps) = Ok wire
    \<and> (cbor_ok (ee_cbor E) \<longrightarrow> token_ok (ee_externs E) (ee_cbor E) (sent_token e memo ps) \<longrightarrow>
         decode_token_any E wire = Ok (sent_token e memo ps))
    \<and> en_history e' = en_history e @ [\<lparr>he_kind = HistSend, he_amount = amount, he_detail = ''ecash to QR'', he_ts_secs = ts, he_status = Pending\<rparr>]
    \<and> en_pending e' = en_pending e @ [\<lparr>pn_token = wire, pn_amount = amount, pn_memo = memo, pn_ts_secs = ts, pn_history_idx = length (en_history e)\<rparr>]"
proof -
  from send_token_Ok[OF assms] obtain ps ts where ps: "sum_nat (map pf_amount ps) = unat amount"
    "encode_token_wire (ee_externs E) (ee_cbor E) (sent_token e memo ps) = Ok wire"
    "set (pw_proofs (en_wallet e')) \<inter> set ps = {}"
    "en_history e' = en_history e @ [\<lparr>he_kind = HistSend, he_amount = amount, he_detail = ''ecash to QR'', he_ts_secs = ts, he_status = Pending\<rparr>]"
    "en_pending e' = en_pending e @ [\<lparr>pn_token = wire, pn_amount = amount, pn_memo = memo, pn_ts_secs = ts, pn_history_idx = length (en_history e)\<rparr>]"
    by metis
  moreover have "decode_token_any E wire = Ok (sent_token e memo ps)"
    if "cbor_ok (ee_cbor E)" "token_ok (ee_externs E) (ee_cbor E) (sent_token e memo ps)"
    using wire_decodes[OF that ps(2)] by (simp add: decode_token_any_def)
  ultimately show ?thesis by blast
qed

section \<open>An engine without a mint\<close>

text \<open>The transport is down, the store takes everything; sending falls back to proofs held.\<close>

definition plain_env :: "(z5, unit, memory_store) wallet_env" where
  "plain_env = sample_env\<lparr>we_to_vec := (\<lambda>e. Some [])\<rparr>"

definition offline_env :: "(z5, unit, memory_store, unit) engine_env" where
  "offline_env = \<lparr>ee_wallet = plain_env, ee_signer = lock_signer, ee_cbor = wide_cbor, ee_cbor_error = (\<lambda>e. []),
     ee_base64 = (\<lambda>s. Err []),
     ee_json = \<lparr>sj_from_slice = (\<lambda>b. Err []), sj_get = (\<lambda>k v. None), sj_as_array = (\<lambda>v. None), sj_as_str = (\<lambda>v. None), sj_as_u64 = (\<lambda>v. None)\<rparr>,
     ee_debug = (\<lambda>e. []), ee_now = (\<lambda>t. (1000, t))\<rparr>"

definition offline_engine :: "(unit, memory_store) engine" where
  "offline_engine = \<lparr>en_mint_url = ''https://mint'', en_seed = [7], en_wallet = sample_pw sample_coins None,
     en_keyset_id = ''00ab'', en_keys = \<lparr>ks_id = ''00ab'', ks_unit = ''sat'', ks_keys = []\<rparr>, en_fee_ppk = 0, en_unit = ''sat'',
     en_mint_name = [], en_history = [], en_pending = []\<rparr>"

lemma plain_persists: "\<exists>s. pw_persist plain_env w = (Ok (), w\<lparr>pw_store := s\<rparr>)"
  by (simp add: pw_persist_def encode_envelope_def plain_env_def sample_env_def memory_store_def memory_save_def) (rule exI, rule refl)

lemma plain_outputs: "\<exists>ms ps. deterministic_outputs plain_env [7] ''00ab'' idx amounts = Ok (ms, ps)"
proof (induction amounts arbitrary: idx)
  case (Cons a amounts)
  obtain s bm where "derive_blinded sample_env [7] ''00ab'' idx = Ok (s, bm)" using sample_derives by blast
  then have "derive_blinded plain_env [7] ''00ab'' idx = Ok (s, bm)" by (simp add: derive_blinded_def plain_env_def)
  with Cons[of "idx + 1"] show ?case by auto
qed simp

lemma offline_swap:
  assumes "amounts \<noteq> []" "pw_seed w = [7]"
  shows "\<exists>w'. swap_deterministic plain_env inputs amounts ''00ab'' keys w = (Err (Transport ''down''), w') \<and> pw_proofs w' = pw_proofs w"
proof -
  obtain ms ps where "deterministic_outputs plain_env [7] ''00ab'' (pw_counter w) amounts = Ok (ms, ps)" using plain_outputs by blast
  moreover have "mc_post_swap (we_client plain_env) r = down" for r by (simp add: plain_env_def sample_env_def dead_client_def)
  ultimately show ?thesis
    using assms by (simp add: swap_deterministic_def take_outputs_def bind_def call_def via_def down_def)
qed

lemma offline_spend:
  "\<exists>s. spend plain_env 21 (sample_pw sample_coins None) = (Ok (map sample_coin [16, 8]), sample_pw (map sample_coin [4, 1]) s)"
proof -
  have "select_loop 21 0 (by_amount_desc sample_coins) = map sample_coin [16, 8]" by (simp add: sample_sorted)
  moreover have "retain_unselected (map sample_coin [16, 8]) sample_coins = map sample_coin [4, 1]"
    by (simp add: retain_unselected_def sample_coins_def)
  moreover have "sum_list (map pf_amount sample_coins) = 29" by (simp add: sample_coins_def)
  ultimately show ?thesis
    using plain_persists[of "sample_pw (map sample_coin [4, 1]) None"] by (auto simp: spend_def Let_def bind_def sample_pw_def)
qed

lemma offline_exact: "find_exact 21 (map sample_coin [4, 1, 16, 8]) = Ok (Some (map sample_coin [16, 4, 1]))"
  by (simp add: find_exact_def upt_conv_Cons Let_def dfs.simps dfs_loop.simps saturating_add_def checked_add_def NODE_CAP_def word_le_nat_alt)

lemma offline_reconcile:
  assumes "en_keyset_id e \<noteq> []" "pw_proofs (en_wallet e) \<noteq> []"
  shows "\<exists>err e'. reconcile_spent offline_env e = (Err err, e') \<and> pw_proofs (en_wallet e') = pw_proofs (en_wallet e)"
proof -
  have "\<exists>r. hash_table (ee_externs offline_env) ps table ys = Ok r" for ps table ys
    by (induction ps arbitrary: table ys)
      (simp_all add: offline_env_def plain_env_def sample_env_def z5_hash crypto_err_def)
  then obtain table ys where h: "hash_table (ee_externs offline_env) (pw_proofs (en_wallet e)) [] [] = Ok (table, ys)" by force
  have "mc_post_check_state (we_client (ee_wallet offline_env)) r = down" for r
    by (simp add: offline_env_def plain_env_def sample_env_def dead_client_def)
  with assms h show ?thesis
    by (simp add: reconcile_spent_def ensure_connected_def bind_def meta_def in_wallet_def call_def via_def down_def)
qed

lemma offline_undo:
  "\<exists>w'. undo_spend plain_env ps w = (Ok (), w') \<and> pw_proofs w' = pw_proofs w @ ps"
proof -
  obtain s where "pw_persist plain_env (w\<lparr>pw_proofs := pw_proofs w @ ps\<rparr>) = (Ok (), w\<lparr>pw_proofs := pw_proofs w @ ps, pw_store := s\<rparr>)"
    using plain_persists[of "w\<lparr>pw_proofs := pw_proofs w @ ps\<rparr>"] by blast
  then show ?thesis by (simp add: undo_spend_def bind_def modify_def)
qed

lemma offline_fallback:
  assumes "en_keyset_id e = ''00ab''" "pw_proofs (en_wallet e) = map sample_coin [4, 1]"
  shows "\<exists>e'. compose_fallback offline_env 21 (map sample_coin [16, 8]) (Transport t) e = (Ok (map sample_coin [16, 4, 1]), e')"
proof -
  obtain w where w: "undo_spend plain_env (map sample_coin [16, 8]) (en_wallet e) = (Ok (), w)" "pw_proofs w = map sample_coin [4, 1, 16, 8]"
    using offline_undo[of "map sample_coin [16, 8]" "en_wallet e"] assms(2) by auto
  obtain err e' where "reconcile_spent offline_env (e\<lparr>en_wallet := w\<rparr>) = (Err err, e')" "pw_proofs (en_wallet e') = map sample_coin [4, 1, 16, 8]"
    using offline_reconcile[of "e\<lparr>en_wallet := w\<rparr>"] assms(1) w(2) by auto
  then show ?thesis
    using w(1) offline_exact
    by (simp add: compose_fallback_def bind_def ignore_def handle_def in_wallet_def offline_env_def is_transport_def held_exact_def)
qed

lemma offline_compose: "\<exists>e'. compose_exact offline_env 21 offline_engine = (Ok (map sample_coin [16, 4, 1]), e')"
proof -
  obtain s where spend: "spend plain_env 21 (sample_pw sample_coins None) = (Ok (map sample_coin [16, 8]), sample_pw (map sample_coin [4, 1]) s)"
    using offline_spend by blast
  let ?e = "offline_engine\<lparr>en_wallet := sample_pw (map sample_coin [4, 1]) s\<rparr>"
  let ?amounts = "decompose_amount 21 @ decompose_amount 3"
  have "?amounts \<noteq> []" using sum_decompose_amount[of 21] by auto
  then obtain w where w: "swap_deterministic plain_env (map sample_coin [16, 8]) ?amounts ''00ab'' (en_keys offline_engine) (en_wallet ?e)
      = (Err (Transport ''down''), w)" "pw_proofs w = map sample_coin [4, 1]"
    using offline_swap[of ?amounts "en_wallet ?e" "map sample_coin [16, 8]" "en_keys offline_engine"] by (auto simp: sample_pw_def)
  obtain e' where "compose_fallback offline_env 21 (map sample_coin [16, 8]) (Transport ''down'') (?e\<lparr>en_wallet := w\<rparr>)
      = (Ok (map sample_coin [16, 4, 1]), e')"
    using offline_fallback[of "?e\<lparr>en_wallet := w\<rparr>"] w(2) by (auto simp: offline_engine_def)
  then show ?thesis
    using spend w(1)
    by (simp add: compose_exact_def bind_def in_wallet_def swap_fee_hint_def offline_env_def offline_engine_def handle_def checked_add_def Let_def)
qed

lemma offline_encode: "\<exists>wire. encode_token_wire (ee_externs offline_env) (ee_cbor offline_env) (sent_token offline_engine memo ps) = Ok wire"
  by (simp add: encode_token_wire_def encode_token_def encode_group_def sent_token_def offline_env_def offline_engine_def plain_env_def
      sample_env_def z5_externs_def demo_externs_def)

lemma offline_sends: "\<exists>wire e'. send_token offline_env 21 None offline_engine = (Ok wire, e')"
proof -
  obtain e where e: "compose_exact offline_env 21 offline_engine = (Ok (map sample_coin [16, 4, 1]), e)" using offline_compose by blast
  have same: "same_books offline_engine e" using climbsD[OF books_compose e] .
  obtain wire where "encode_token_wire (ee_externs offline_env) (ee_cbor offline_env) (sent_token offline_engine None (map sample_coin [16, 4, 1])) = Ok wire"
    using offline_encode by blast
  with same have "encode_token_wire (ee_externs offline_env) (ee_cbor offline_env) (sent_token e None (map sample_coin [16, 4, 1])) = Ok wire"
    by (simp add: sent_token_def same_books_def)
  moreover obtain s where "remove_proofs (ee_wallet offline_env) (map sample_coin [16, 4, 1]) (en_wallet e) = (Ok (), s)"
    using plain_persists by (fastforce simp: remove_proofs_def bind_def modify_def offline_env_def)
  ultimately show ?thesis
    using e same
    by (simp add: send_token_def bind_def ensure_connected_def in_wallet_def sent_token_def record_entry_def read_clock_def meta_def
        offline_engine_def offline_env_def modify_def call_def via_def)
qed

theorem sent_token_exact_witness:
  "\<exists>wire e' ps. send_token offline_env 21 None offline_engine = (Ok wire, e') \<and> sum_nat (map pf_amount ps) = 21
     \<and> set (pw_proofs (en_wallet e')) \<inter> set ps = {} \<and> length (en_pending e') = 1"
proof -
  obtain wire e' where "send_token offline_env 21 None offline_engine = (Ok wire, e')" using offline_sends by blast
  from this sent_token_exact[OF this] show ?thesis by (force simp: offline_engine_def)
qed

text \<open>An engine restored with one send in flight.\<close>

definition waiting_row :: history_entry where
  "waiting_row = \<lparr>he_kind = HistSend, he_amount = 21, he_detail = ''ecash to QR'', he_ts_secs = 1000, he_status = Pending\<rparr>"

definition waiting_send :: pending_send where
  "waiting_send = \<lparr>pn_token = ''cashuB'', pn_amount = 21, pn_memo = None, pn_ts_secs = 1000, pn_history_idx = 0\<rparr>"

lemma waiting_reached:
  "\<exists>e. reach (engine_start offline_env) (engine_step offline_env) e \<and> en_pending e = [waiting_send] \<and> en_history e = [waiting_row]"
proof -
  obtain e where e: "with_pending offline_env ''https://mint/'' () None [7] [waiting_row] [waiting_send] = Ok e"
      "en_pending e = [waiting_send]" "en_history e = [waiting_row]"
    by (simp add: with_pending_def persistent_new_def offline_env_def plain_env_def sample_env_def memory_store_def memory_load_def Let_def)
  moreover have "flight_ok [waiting_row] [waiting_send]" by (simp add: flight_ok_def waiting_row_def waiting_send_def)
  ultimately have "engine_start offline_env e" by (blast intro: engine_start.intros)
  with e show ?thesis by (blast intro: reach.intros)
qed

theorem history_tracks_sends_witness:
  "\<exists>e. reach (engine_start offline_env) (engine_step offline_env) e \<and> en_pending e = [waiting_send]
     \<and> he_amount (en_history e ! pn_history_idx waiting_send) = 21"
proof -
  obtain e where "reach (engine_start offline_env) (engine_step offline_env) e" "en_pending e = [waiting_send]"
    using waiting_reached by blast
  with history_tracks_sends[OF this(1)] show ?thesis by (auto simp: waiting_send_def)
qed

end
