(* ===== verification/Device.thy ===== *)
theory Device
  imports Protocol Token Dhke
begin

text \<open>
  The application of the hardware wallet (\<^verbatim>\<open>micronuts-app\<close>): classification of scanned payloads
  (\<^verbatim>\<open>qr/mod.rs\<close>), assembly of animated QR codes (\<^verbatim>\<open>scanflow.rs\<close>), the firmware state
  (\<^verbatim>\<open>state.rs\<close>) and the command handlers (\<^verbatim>\<open>command_handler.rs\<close>). The board is a record
  of the methods of the trait \<^verbatim>\<open>MicronutsHardware\<close> over a state of its own, and the scanner crate
  \<^verbatim>\<open>gm65_scanner\<close> a record of the functions the application calls. Drawing is an event of the board;
  the pixels are not modelled.
\<close>

section \<open>Scanned payloads\<close>

record parsed_ur_fragment =
  uf_index :: u32
  uf_total :: u32
  uf_hash :: string
  uf_data :: bytes

datatype payload_type = PtCashuV4 | PtCashuV3 | PtUrl | PtPlainText | PtBinary | PtUrFragment

text \<open>What the application uses of \<^verbatim>\<open>gm65_scanner\<close>; \<open>'u\<close> is the state of its fragment decoder.\<close>

record 'u gm65 =
  gm_parse_ur :: "bytes \<Rightarrow> parsed_ur_fragment option"
  gm_classify :: "bytes \<Rightarrow> payload_type"
  ur_new :: 'u
  ur_reset :: "'u \<Rightarrow> 'u"
  ur_feed :: "bytes \<Rightarrow> 'u \<Rightarrow> bytes option \<times> 'u"
  ur_progress :: "'u \<Rightarrow> u32 \<times> u32"
  ur_is_active :: "'u \<Rightarrow> bool"

datatype qr_payload = CashuV4 bytes | CashuV3 bytes | UrFragment parsed_ur_fragment | PlainText bytes | Binary bytes

datatype decoded_payload = DecodedToken token_v4 | CashuV4Raw bytes string | DecodedFragment u32 u32
  | UrComplete token_v4 | DecodedText bytes | DecodedBinary bytes

definition is_cashu :: "qr_payload \<Rightarrow> bool" where
  "is_cashu p = (case p of CashuV4 _ \<Rightarrow> True | CashuV3 _ \<Rightarrow> True | _ \<Rightarrow> False)"

definition is_ur :: "qr_payload \<Rightarrow> bool" where
  "is_ur p = (case p of UrFragment _ \<Rightarrow> True | _ \<Rightarrow> False)"

primrec raw_data :: "qr_payload \<Rightarrow> bytes" where
  "raw_data (CashuV4 encoded) = encoded"
| "raw_data (CashuV3 json) = json"
| "raw_data (UrFragment parsed) = uf_data parsed"
| "raw_data (PlainText data) = data"
| "raw_data (Binary data) = data"

primrec type_name :: "qr_payload \<Rightarrow> string" where
  "type_name (CashuV4 _) = ''Cashu V4 Token''"
| "type_name (CashuV3 _) = ''Cashu V3 Token''"
| "type_name (UrFragment _) = ''UR Fragment''"
| "type_name (PlainText _) = ''Plain Text''"
| "type_name (Binary _) = ''Binary Data''"

text \<open>\<open>show_error\<close> is the \<^verbatim>\<open>Debug\<close> form of a decoder error.\<close>

definition qr_decode :: "externs \<Rightarrow> cbor \<Rightarrow> (cbor_error \<Rightarrow> string) \<Rightarrow> qr_payload \<Rightarrow> decoded_payload" where
  "qr_decode X C show_error p =
     (case p of
        CashuV4 encoded \<Rightarrow>
          (case decode_token X C encoded of Ok token \<Rightarrow> DecodedToken token
           | Err e \<Rightarrow> CashuV4Raw encoded (show_error e) | Panic \<Rightarrow> CashuV4Raw encoded [])
      | CashuV3 json \<Rightarrow> DecodedText json
      | UrFragment parsed \<Rightarrow> DecodedFragment (uf_index parsed) (uf_total parsed)
      | PlainText data \<Rightarrow> DecodedText data
      | Binary data \<Rightarrow> DecodedBinary data)"

definition strip_scanner_artifacts :: "bytes \<Rightarrow> bytes" where
  "strip_scanner_artifacts data = rev (dropWhile (\<lambda>b. b \<in> {0x00, 0x0A, 0x0D, 0x20}) (rev data))"

definition decode_qr :: "'u gm65 \<Rightarrow> bytes \<Rightarrow> qr_payload" where
  "decode_qr G data =
     (let data = strip_scanner_artifacts data in
      case gm_parse_ur G data of
        Some fragment \<Rightarrow> UrFragment fragment
      | None \<Rightarrow>
          (case gm_classify G data of
             PtCashuV4 \<Rightarrow> CashuV4 data
           | PtCashuV3 \<Rightarrow> CashuV3 data
           | PtUrl \<Rightarrow> PlainText data
           | PtPlainText \<Rightarrow> PlainText data
           | PtBinary \<Rightarrow> Binary data
           | PtUrFragment \<Rightarrow> PlainText data))"

section \<open>Assembly of animated codes\<close>

datatype scan_outcome = KeepScanning u32 u32 | TokenReady token_v4 | ShowPayload qr_payload | InvalidFragment

record 'u scan_assembler =
  sa_ur :: 'u
  sa_active_hash :: "string option"

definition asm_new :: "'u gm65 \<Rightarrow> 'u scan_assembler" where
  "asm_new G = \<lparr>sa_ur = ur_new G, sa_active_hash = None\<rparr>"

definition asm_reset :: "'u gm65 \<Rightarrow> 'u scan_assembler \<Rightarrow> 'u scan_assembler" where
  "asm_reset G a = a\<lparr>sa_ur := ur_reset G (sa_ur a), sa_active_hash := None\<rparr>"

definition asm_progress :: "'u gm65 \<Rightarrow> 'u scan_assembler \<Rightarrow> u32 \<times> u32" where
  "asm_progress G a = ur_progress G (sa_ur a)"

text \<open>What follows when a fragment of the active sequence has been fed.\<close>

definition asm_fed ::
  "externs \<Rightarrow> cbor \<Rightarrow> 'u gm65 \<Rightarrow> bytes option \<Rightarrow> 'u scan_assembler \<Rightarrow> scan_outcome \<times> 'u scan_assembler" where
  "asm_fed X C G complete a =
     (case complete of
        Some complete \<Rightarrow>
          (case decode_token X C complete of
             Ok token \<Rightarrow> (TokenReady token, a)
           | _ \<Rightarrow> (ShowPayload (PlainText complete), asm_reset G a))
      | None \<Rightarrow>
          if ur_is_active G (sa_ur a) then (case asm_progress G a of (received, expected) \<Rightarrow> (KeepScanning received expected, a))
          else (InvalidFragment, a))"

definition asm_process ::
  "externs \<Rightarrow> cbor \<Rightarrow> 'u gm65 \<Rightarrow> bytes \<Rightarrow> 'u scan_assembler \<Rightarrow> scan_outcome \<times> 'u scan_assembler" where
  "asm_process X C G data a =
     (case decode_qr G data of
        UrFragment parsed \<Rightarrow>
          if sa_active_hash a \<noteq> None \<and> sa_active_hash a \<noteq> Some (uf_hash parsed) then (InvalidFragment, a)
          else (case ur_feed G data (sa_ur a) of
                  (complete, ur) \<Rightarrow> asm_fed X C G complete (a\<lparr>sa_ur := ur, sa_active_hash := Some (uf_hash parsed)\<rparr>))
      | CashuV4 encoded \<Rightarrow>
          (case decode_token X C encoded of
             Ok token \<Rightarrow> (TokenReady token, a)
           | _ \<Rightarrow> (ShowPayload (CashuV4 encoded), a))
      | other \<Rightarrow> (ShowPayload other, a))"

section \<open>The firmware state and the board\<close>

datatype swap_state = Idle | TokenImported | BlindedGenerated | ProofsReady

record 'u firmware_state =
  fs_imported_token :: "token_v4 option"
  fs_blinded_messages :: "blinded list option"
  fs_swap_secrets :: "string list option"
  fs_swap_amounts :: "u64 list option"
  fs_new_proofs :: "token_proof list option"
  fs_swap_state :: swap_state
  fs_last_scan_data :: "bytes option"
  fs_scan_assembler :: "'u scan_assembler"

definition firmware_state_new :: "'u gm65 \<Rightarrow> 'u firmware_state" where
  "firmware_state_new G = \<lparr>fs_imported_token = None, fs_blinded_messages = None, fs_swap_secrets = None, fs_swap_amounts = None,
     fs_new_proofs = None, fs_swap_state = Idle, fs_last_scan_data = None, fs_scan_assembler = asm_new G\<rparr>"

record touch_point =
  tp_x :: u16
  tp_y :: u16
  tp_detected :: bool

datatype scan_error = NotConnected | NotReady | IoError

text \<open>The calls of \<^verbatim>\<open>display.rs\<close> the application makes, with their arguments.\<close>

datatype drawing = RenderError string | RenderTokenInfo token_v4 | RenderStatus string | RenderDecodedScan qr_payload
  | RenderHome bool bool | RenderWaitingToken | DrawScanning bool | DrawScanningProgress u32 u32 | DrawScanningRetry
  | RenderQrScreen string string

text \<open>The methods of the board; \<open>instant_now\<close> and \<open>tick_hz\<close> stand for the clock of \<^verbatim>\<open>embassy_time\<close> and its resolution.\<close>

record 'h hardware =
  is_connected :: "'h \<Rightarrow> bool"
  set_aim :: "bool \<Rightarrow> 'h \<Rightarrow> (scan_error, unit) res \<times> 'h"
  trigger :: "'h \<Rightarrow> (scan_error, unit) res \<times> 'h"
  read_scan_within :: "u64 \<Rightarrow> 'h \<Rightarrow> bytes option option \<times> 'h"
  hw_stop :: "'h \<Rightarrow> 'h"
  deep_sleep_reboot :: "'h \<Rightarrow> bool \<times> 'h"
  reinit_scanner :: "'h \<Rightarrow> (scan_error, unit) res \<times> 'h"
  factory_heal :: "'h \<Rightarrow> (scan_error, unit) res \<times> 'h"
  nfc_is_connected :: "'h \<Rightarrow> bool"
  nfc_poll :: "'h \<Rightarrow> (scan_error, bool) res \<times> 'h"
  nfc_read_ndef :: "'h \<Rightarrow> bytes option \<times> 'h"
  nfc_heal :: "'h \<Rightarrow> (scan_error, unit) res \<times> 'h"
  draw :: "drawing \<Rightarrow> 'h \<Rightarrow> 'h"
  qr_fits :: "string \<Rightarrow> bool"
  swap_buffers :: "'h \<Rightarrow> 'h"
  rng_fill_bytes :: "nat \<Rightarrow> 'h \<Rightarrow> bytes \<times> 'h"
  transport_send :: "response \<Rightarrow> 'h \<Rightarrow> 'h"
  touch_get :: "'h \<Rightarrow> touch_point option \<times> 'h"
  instant_now :: "'h \<Rightarrow> u64 \<times> 'h"
  tick_hz :: u64

record ('p, 'u, 'h) device_env =
  de_externs :: externs
  de_cbor :: cbor
  de_curve :: "'p curve"
  de_gm65 :: "'u gm65"
  de_hw :: "'h hardware"

record ('u, 'h) device =
  dv_state :: "'u firmware_state"
  dv_hw :: 'h
  dv_last_scan :: "bytes option"

text \<open>A handler returns a response; an early \<^verbatim>\<open>return\<close> of one is the error outcome.\<close>

type_synonym ('u, 'h, 'a) dv_op = "(('u, 'h) device, response, 'a) op"

definition hw_call :: "('h \<Rightarrow> 'a \<times> 'h) \<Rightarrow> ('u, 'h, 'a) dv_op" where
  "hw_call f = (\<lambda>d. case f (dv_hw d) of (x, h) \<Rightarrow> (Ok x, d\<lparr>dv_hw := h\<rparr>))"

definition hw_do :: "('h \<Rightarrow> 'h) \<Rightarrow> ('u, 'h, unit) dv_op" where
  "hw_do f = modify (\<lambda>d. d\<lparr>dv_hw := f (dv_hw d)\<rparr>)"

definition drawn :: "('p, 'u, 'h) device_env \<Rightarrow> drawing \<Rightarrow> ('u, 'h, unit) dv_op" where
  "drawn E c = hw_do (draw (de_hw E) c)"

definition set_state :: "('u firmware_state \<Rightarrow> 'u firmware_state) \<Rightarrow> ('u, 'h, unit) dv_op" where
  "set_state f = modify (\<lambda>d. d\<lparr>dv_state := f (dv_state d)\<rparr>)"

definition answer :: "status \<Rightarrow> ('u, 'h, 'a) dv_op" where
  "answer s = throw (response_new s)"

text \<open>\<^verbatim>\<open>Response::with_payload(...).unwrap_or_else(|| Response::new(otherwise))\<close>\<close>

definition payload_or :: "status \<Rightarrow> bytes \<Rightarrow> response" where
  "payload_or otherwise data =
     (case response_with_payload StOk data of Some r \<Rightarrow> r | None \<Rightarrow> response_new otherwise)"

text \<open>A write at the current offset of a buffer of \<open>MAX_PAYLOAD_SIZE\<close> bytes; the list is the part written so far.\<close>

definition put :: "bytes \<Rightarrow> bytes \<Rightarrow> ('u, 'h, bytes) dv_op" where
  "put data written =
     (if length written + length data \<le> MAX_PAYLOAD_SIZE then ret (written @ data) else panic)"

section \<open>Command handlers\<close>

definition classify_and_assemble :: "('p, 'u, 'h) device_env \<Rightarrow> bytes \<Rightarrow> ('u, 'h, response) dv_op" where
  "classify_and_assemble E data =
     (let payload = decode_qr (de_gm65 E) data;
          type_byte = (case payload of CashuV4 _ \<Rightarrow> 0x01 | CashuV3 _ \<Rightarrow> 0x02 | UrFragment _ \<Rightarrow> 0x03 | PlainText _ \<Rightarrow> 0x00 | Binary _ \<Rightarrow> 0x04) :: u8
      in bind (drawn E (RenderDecodedScan payload)) (\<lambda>_.
         bind (\<lambda>d. case asm_process (de_externs E) (de_cbor E) (de_gm65 E) data (fs_scan_assembler (dv_state d)) of
                     (out, a) \<Rightarrow> (Ok out, d\<lparr>dv_state := (dv_state d)\<lparr>fs_scan_assembler := a\<rparr>\<rparr>)) (\<lambda>outcome.
         bind (case outcome of
                 TokenReady token \<Rightarrow>
                   bind (drawn E (RenderTokenInfo token)) (\<lambda>_.
                   bind (set_state (\<lambda>s. s\<lparr>fs_imported_token := Some token, fs_swap_state := TokenImported\<rparr>)) (\<lambda>_. ret 2))
               | InvalidFragment \<Rightarrow> ret 1
               | ShowPayload (PlainText _) \<Rightarrow> ret 3
               | _ \<Rightarrow> ret (0::u8)) (\<lambda>asm_byte.
           let header = (if type_byte = 0x03 then [type_byte, asm_byte] else [type_byte])
           in ret (payload_or StBufferOverflow (header @ take (MAX_PAYLOAD_SIZE - length header) data))))))"

definition handle_get_token_info :: "('u, 'h, response) dv_op" where
  "handle_get_token_info =
     bind (gets (\<lambda>d. fs_imported_token (dv_state d))) (\<lambda>imported.
       case imported of
         None \<Rightarrow> ret (response_new StError)
       | Some token \<Rightarrow>
           (let mint = as_bytes (tk_mint token);
                unit = as_bytes (tk_unit token)
            in if 1 + length mint + 1 + length unit + 8 + 4 > MAX_PAYLOAD_SIZE then ret (response_new StBufferOverflow)
               else bind (put [word_of_nat (length mint)] []) (\<lambda>b. bind (put mint b) (\<lambda>b.
                    bind (put [word_of_nat (length unit)] b) (\<lambda>b. bind (put unit b) (\<lambda>b.
                    bind (put (to_be_bytes 8 (unat (total_amount token))) b) (\<lambda>b.
                    bind (put (to_be_bytes 4 (unat (word_of_nat (proof_count token) :: u32))) b) (\<lambda>b.
                      ret (payload_or StBufferOverflow b)))))))))"

text \<open>The loop over the proofs of the imported token: proofs whose blinding fails are skipped.\<close>

fun blind_proofs :: "('p, 'u, 'h) device_env \<Rightarrow> token_proof list \<Rightarrow> ('u, 'h, (string \<times> u64 \<times> blinded) list) dv_op" where
  "blind_proofs E [] = ret []"
| "blind_proofs E (p # ps) =
     bind (hw_call (rng_fill_bytes (de_hw E) 32)) (\<lambda>blinder_bytes.
       case sk_from_slice (de_externs E) blinder_bytes of
         None \<Rightarrow> blind_proofs E ps
       | Some blinder \<Rightarrow>
           (case blind_message (de_externs E) (de_curve E) (as_bytes (tp_secret p)) (Some blinder) blinder of
              Ok b \<Rightarrow> bind (blind_proofs E ps) (\<lambda>rest. ret ((tp_secret p, tp_amount p, b) # rest))
            | _ \<Rightarrow> blind_proofs E ps))"

text \<open>\<^verbatim>\<open>payload[offset..offset + 33].copy_from_slice(..)\<close> panics unless 33 bytes are copied.\<close>

fun put_points :: "public_key list \<Rightarrow> bytes \<Rightarrow> ('u, 'h, bytes) dv_op" where
  "put_points [] b = ret b"
| "put_points (pk # pks) b =
     (if length (to_bytes pk) = 33 then bind (put (to_bytes pk) b) (put_points pks) else panic)"

definition handle_get_blinded :: "('p, 'u, 'h) device_env \<Rightarrow> ('u, 'h, response) dv_op" where
  "handle_get_blinded E =
     bind (gets (\<lambda>d. fs_imported_token (dv_state d))) (\<lambda>imported.
       case imported of
         None \<Rightarrow> answer StError
       | Some token \<Rightarrow>
           bind (blind_proofs E (token_proofs token)) (\<lambda>outs.
             if outs = [] then answer CryptoError
             else if length outs * 33 > MAX_PAYLOAD_SIZE then answer StBufferOverflow
             else
               bind (put_points (map (\<lambda>(_, _, b). bl_blinded b) outs) []) (\<lambda>payload.
               bind (set_state (\<lambda>s. s\<lparr>fs_blinded_messages := Some (map (\<lambda>(_, _, b). b) outs),
                                     fs_swap_secrets := Some (map (\<lambda>(s, _, _). s) outs),
                                     fs_swap_amounts := Some (map (\<lambda>(_, a, _). a) outs),
                                     fs_swap_state := BlindedGenerated\<rparr>)) (\<lambda>_.
               bind (drawn E (RenderStatus ''Blinded outputs ready'')) (\<lambda>_.
                 ret (payload_or StBufferOverflow payload))))))"

definition pinned_demo_mint_key :: "externs \<Rightarrow> public_key option" where
  "pinned_demo_mint_key X =
     (case sk_from_slice X (sha256 X (as_bytes ''demo://micronuts'')) of None \<Rightarrow> None | Some sk \<Rightarrow> Some (pubkey_of X sk))"

definition ENTRY_LEN :: nat where "ENTRY_LEN = 33 + 32 + 32"

text \<open>One entry: the blind signature and the two scalars of its DLEQ proof, checked against the pinned key.\<close>

definition check_entry ::
  "('p, 'u, 'h) device_env \<Rightarrow> public_key \<Rightarrow> blinded \<Rightarrow> bytes \<Rightarrow> (status, secret_key \<times> secret_key \<times> public_key) res" where
  "check_entry E mint_pubkey b entry =
     (let c_prime_bytes = take 33 entry; e_bytes = take 32 (drop 33 entry); s_bytes = drop 65 entry in
      res_bind (ok_or CryptoError (pk_from_bytes (de_externs E) c_prime_bytes)) (\<lambda>blinded_sig.
      res_bind (ok_or CryptoError (sk_from_slice (de_externs E) e_bytes)) (\<lambda>e.
      res_bind (ok_or CryptoError (sk_from_slice (de_externs E) s_bytes)) (\<lambda>s.
      res_bind (if verify_dleq (de_externs E) (de_curve E) (bl_blinded b) blinded_sig e s mint_pubkey = Ok True then Ok () else Err CryptoError) (\<lambda>_.
        case unblind_signature (de_curve E) blinded_sig (bl_blinder b) mint_pubkey of
          Ok c \<Rightarrow> Ok (e, s, c) | Err _ \<Rightarrow> Err CryptoError | Panic \<Rightarrow> Panic)))))"

text \<open>\<^verbatim>\<open>state.swap_secrets.as_ref().unwrap()[i]\<close>\<close>

definition unwrap_nth :: "'a list option \<Rightarrow> nat \<Rightarrow> (status, 'a) res" where
  "unwrap_nth xs i = (case xs of None \<Rightarrow> Panic | Some xs \<Rightarrow> if i < length xs then Ok (xs ! i) else Panic)"

fun unblind_entries ::
  "('p, 'u, 'h) device_env \<Rightarrow> public_key \<Rightarrow> 'u firmware_state \<Rightarrow> string \<Rightarrow> bytes \<Rightarrow> nat \<Rightarrow> blinded list \<Rightarrow> (status, token_proof list) res" where
  "unblind_entries E mint_pubkey s keyset_id payload i [] = Ok []"
| "unblind_entries E mint_pubkey s keyset_id payload i (b # bs) =
     res_bind (check_entry E mint_pubkey b (take ENTRY_LEN (drop (i * ENTRY_LEN) payload))) (\<lambda>(e, sc, c).
     res_bind (unwrap_nth (fs_swap_secrets s) i) (\<lambda>secret.
     res_bind (unwrap_nth (fs_swap_amounts s) i) (\<lambda>amount.
     res_bind (unblind_entries E mint_pubkey s keyset_id payload (Suc i) bs) (\<lambda>rest.
       Ok (\<lparr>tp_amount = amount, tp_keyset_id = keyset_id, tp_secret = secret, tp_c = to_bytes c,
            tp_dleq = Some \<lparr>pd_e = e, pd_s = sc, pd_r = bl_blinder b\<rparr>\<rparr> # rest)))))"

definition first_keyset_id :: "'u firmware_state \<Rightarrow> string" where
  "first_keyset_id s =
     (case fs_imported_token s of None \<Rightarrow> ''00''
      | Some t \<Rightarrow> (case tk_tokens t of [] \<Rightarrow> ''00'' | g # _ \<Rightarrow> tg_keyset_id g))"

definition handle_send_signatures :: "('p, 'u, 'h) device_env \<Rightarrow> bytes \<Rightarrow> ('u, 'h, response) dv_op" where
  "handle_send_signatures E payload =
     bind (gets dv_state) (\<lambda>s.
       case fs_blinded_messages s of
         None \<Rightarrow> answer StError
       | Some blinded_messages \<Rightarrow>
           if length payload mod ENTRY_LEN \<noteq> 0 then answer InvalidPayload
           else if length payload div ENTRY_LEN \<noteq> length blinded_messages then answer InvalidPayload
           else (case pinned_demo_mint_key (de_externs E) of
              None \<Rightarrow> answer CryptoError
            | Some mint_pubkey \<Rightarrow>
                (case unblind_entries E mint_pubkey s (first_keyset_id s) payload 0 blinded_messages of
                   Err st \<Rightarrow> answer st
                 | Panic \<Rightarrow> panic
                 | Ok proofs \<Rightarrow>
                     if proofs = [] then answer CryptoError
                     else
                       bind (set_state (\<lambda>s. s\<lparr>fs_new_proofs := Some proofs, fs_swap_state := ProofsReady\<rparr>)) (\<lambda>_.
                       bind (drawn E (RenderStatus ''Proofs ready'')) (\<lambda>_. ret (response_new StOk))))))"

definition build_export_token :: "'u firmware_state \<Rightarrow> token_v4 option" where
  "build_export_token s =
     (case fs_new_proofs s of None \<Rightarrow> None
      | Some proofs \<Rightarrow>
          (case fs_imported_token s of None \<Rightarrow> None
           | Some token \<Rightarrow> Some \<lparr>tk_mint = tk_mint token, tk_unit = tk_unit token, tk_memo = Some ''Swapped via Micronuts'',
               tk_tokens = [\<lparr>tg_keyset_id = (case proofs of [] \<Rightarrow> ''00'' | p # _ \<Rightarrow> tp_keyset_id p), tg_proofs = proofs\<rparr>]\<rparr>))"

definition handle_get_proofs :: "('p, 'u, 'h) device_env \<Rightarrow> ('u, 'h, response) dv_op" where
  "handle_get_proofs E =
     bind (gets (\<lambda>d. build_export_token (dv_state d))) (\<lambda>exported.
       case exported of
         None \<Rightarrow> answer StError
       | Some new_token \<Rightarrow>
           (case encode_token (de_externs E) (de_cbor E) new_token of
              Ok encoded \<Rightarrow>
                if length encoded > MAX_PAYLOAD_SIZE then answer StBufferOverflow
                else ret (payload_or StBufferOverflow encoded)
            | Err _ \<Rightarrow> answer StError
            | Panic \<Rightarrow> panic))"

definition ok_or_answer :: "status \<Rightarrow> (scan_error, unit) res \<Rightarrow> ('u, 'h, response) dv_op" where
  "ok_or_answer st r = (case r of Ok _ \<Rightarrow> ret (response_new StOk) | Err _ \<Rightarrow> ret (response_new st) | Panic \<Rightarrow> panic)"

definition handle_trigger :: "('p, 'u, 'h) device_env \<Rightarrow> ('u, 'h, response) dv_op" where
  "handle_trigger E =
     bind (hw_call (set_aim (de_hw E) True)) (\<lambda>aimed.
       case aimed of
         Ok _ \<Rightarrow>
           bind (hw_call (trigger (de_hw E))) (\<lambda>triggered.
             case triggered of
               Ok _ \<Rightarrow> bind (drawn E (RenderStatus ''Scanning...'')) (\<lambda>_. ret (response_new StOk))
             | Err _ \<Rightarrow> bind (drawn E (RenderError ''Scanner error'')) (\<lambda>_. ret (response_new ScannerNotConnected))
             | Panic \<Rightarrow> panic)
       | Err _ \<Rightarrow> bind (drawn E (RenderError ''Scanner error'')) (\<lambda>_. ret (response_new ScannerNotConnected))
       | Panic \<Rightarrow> panic)"

definition handle_import :: "('p, 'u, 'h) device_env \<Rightarrow> bytes \<Rightarrow> ('u, 'h, response) dv_op" where
  "handle_import E payload =
     (case decode_token (de_externs E) (de_cbor E) payload of
        Ok token \<Rightarrow>
          bind (drawn E (RenderTokenInfo token)) (\<lambda>_.
          bind (set_state (\<lambda>s. s\<lparr>fs_imported_token := Some token, fs_swap_state := TokenImported\<rparr>)) (\<lambda>_.
            ret (response_new StOk)))
      | Err _ \<Rightarrow> bind (drawn E (RenderError ''Invalid token'')) (\<lambda>_. answer InvalidPayload)
      | Panic \<Rightarrow> panic)"

definition handle_nfc_poll :: "('p, 'u, 'h) device_env \<Rightarrow> ('u, 'h, response) dv_op" where
  "handle_nfc_poll E =
     bind (gets (\<lambda>d. nfc_is_connected (de_hw E) (dv_hw d))) (\<lambda>connected.
       if \<not> connected then ret (response_new NfcNotConnected)
       else bind (hw_call (nfc_poll (de_hw E))) (\<lambda>polled.
         case polled of
           Ok tag_present \<Rightarrow> ret (payload_or StError [if tag_present then 1 else 0])
         | Err _ \<Rightarrow> ret (response_new NfcNotConnected)
         | Panic \<Rightarrow> panic))"

text \<open>An early return is a response like any other.\<close>

definition returned :: "('u, 'h, response) dv_op \<Rightarrow> ('u, 'h, response) dv_op" where
  "returned m = (\<lambda>d. case m d of (Err r, d') \<Rightarrow> (Ok r, d') | other \<Rightarrow> other)"

definition handle_command :: "('p, 'u, 'h) device_env \<Rightarrow> command \<Rightarrow> bytes \<Rightarrow> ('u, 'h, response) dv_op" where
  "handle_command E cmd payload = returned
     (case cmd of
        ImportToken \<Rightarrow> handle_import E payload
      | GetTokenInfo \<Rightarrow> handle_get_token_info
      | GetBlinded \<Rightarrow> handle_get_blinded E
      | SendSignatures \<Rightarrow> handle_send_signatures E payload
      | GetProofs \<Rightarrow> handle_get_proofs E
      | ScannerStatus \<Rightarrow>
          bind (gets (\<lambda>d. is_connected (de_hw E) (dv_hw d))) (\<lambda>connected.
            ret (payload_or StError [if connected then 1 else 0, 0x00, 0x00]))
      | ScannerTrigger \<Rightarrow> handle_trigger E
      | ScannerHeal \<Rightarrow>
          bind (hw_call (deep_sleep_reboot (de_hw E))) (\<lambda>_.
          bind (hw_call (reinit_scanner (de_hw E))) (ok_or_answer ScannerNotConnected))
      | ScannerFactoryHeal \<Rightarrow> bind (hw_call (factory_heal (de_hw E))) (ok_or_answer ScannerNotConnected)
      | ScannerData \<Rightarrow>
          bind (\<lambda>d. (Ok (dv_last_scan d), d\<lparr>dv_last_scan := None\<rparr>)) (\<lambda>taken.
            case taken of Some data \<Rightarrow> classify_and_assemble E data | None \<Rightarrow> ret (response_new NoScanData))
      | NfcPoll \<Rightarrow> handle_nfc_poll E
      | NfcData \<Rightarrow>
          bind (hw_call (nfc_read_ndef (de_hw E))) (\<lambda>read.
            case read of Some data \<Rightarrow> classify_and_assemble E data | None \<Rightarrow> ret (response_new NfcNoTag))
      | NfcHeal \<Rightarrow> bind (hw_call (nfc_heal (de_hw E))) (ok_or_answer NfcNotConnected))"

end
