(* ===== verification/App.thy ===== *)
theory App
  imports Device
begin

text \<open>
  The main loop of the hardware wallet (\<^verbatim>\<open>micronuts-app/src/lib.rs\<close>): screens, touch handling, scanning with its
  timeout and retries, and the capture window of the USB path. One turn of the loop handles either a frame from the
  transport or a tick of the poll timer; which of the two happens is an argument.
\<close>

section \<open>Buttons\<close>

definition DISPLAY_WIDTH :: u32 where "DISPLAY_WIDTH = 480"

record button =
  bt_x :: u32
  bt_y :: u32
  bt_w :: u32
  bt_h :: u32
  bt_label :: string

definition button_hit :: "button \<Rightarrow> u16 \<Rightarrow> u16 \<Rightarrow> bool" where
  "button_hit b tx ty =
     (let tx = ucast tx :: u32; ty = ucast ty :: u32
      in bt_x b \<le> tx \<and> tx < bt_x b + bt_w b \<and> bt_y b \<le> ty \<and> ty < bt_y b + bt_h b)"

definition home_buttons :: "button list" where
  "home_buttons =
     [\<lparr>bt_x = 40, bt_y = 100, bt_w = DISPLAY_WIDTH - 80, bt_h = 120, bt_label = ''SCAN QR CODE''\<rparr>,
      \<lparr>bt_x = 40, bt_y = 300, bt_w = DISPLAY_WIDTH - 80, bt_h = 120, bt_label = ''IMPORT TOKEN''\<rparr>,
      \<lparr>bt_x = 40, bt_y = 500, bt_w = DISPLAY_WIDTH - 80, bt_h = 120, bt_label = ''SHOW PROOFS''\<rparr>]"

definition back_button :: button where
  "back_button = \<lparr>bt_x = 10, bt_y = 8, bt_w = 120, bt_h = 36, bt_label = ''< BACK''\<rparr>"

definition aim_button :: button where
  "aim_button = \<lparr>bt_x = DISPLAY_WIDTH - 170, bt_y = 8, bt_w = 160, bt_h = 36, bt_label = ''LASER: OFF''\<rparr>"

section \<open>The state of the loop\<close>

datatype app_screen = Home | Scanning | ScanResult | WaitingToken | TokenInfo | ShowProofs

record ('u, 'h) app =
  ap_device :: "('u, 'h) device"
  ap_scanner_connected :: bool
  ap_screen :: app_screen
  ap_touch_active :: bool
  ap_capture_until :: "u64 option"
  ap_aim_on :: bool
  ap_scan_ticks :: u32
  ap_scan_retries :: u32

definition SCAN_TIMEOUT_TICKS :: u32 where "SCAN_TIMEOUT_TICKS = 10 * 200"
definition MAX_SCAN_RETRIES :: u32 where "MAX_SCAN_RETRIES = 3"

type_synonym ('u, 'h, 'a) app_op = "(('u, 'h) app, unit, 'a) op"

definition on_device :: "('u, 'h, 'a) dv_op \<Rightarrow> ('u, 'h, (response, 'a) res) app_op" where
  "on_device m = (\<lambda>a. case m (ap_device a) of (r, d) \<Rightarrow> (Ok r, a\<lparr>ap_device := d\<rparr>))"

definition board :: "('h \<Rightarrow> 'h) \<Rightarrow> ('u, 'h, unit) app_op" where
  "board f = modify (\<lambda>a. a\<lparr>ap_device := (ap_device a)\<lparr>dv_hw := f (dv_hw (ap_device a))\<rparr>\<rparr>)"

definition ask_board :: "('h \<Rightarrow> 'a \<times> 'h) \<Rightarrow> ('u, 'h, 'a) app_op" where
  "ask_board f = (\<lambda>a. case f (dv_hw (ap_device a)) of (x, h) \<Rightarrow> (Ok x, a\<lparr>ap_device := (ap_device a)\<lparr>dv_hw := h\<rparr>\<rparr>))"

definition shown :: "('p, 'u, 'h) device_env \<Rightarrow> drawing \<Rightarrow> ('u, 'h, unit) app_op" where
  "shown E c = board (draw (de_hw E) c)"

text \<open>A call whose result is dropped, \<^verbatim>\<open>let _ = hw.trigger().await;\<close>\<close>

definition call_board :: "('h \<Rightarrow> 'a \<times> 'h) \<Rightarrow> ('u, 'h, unit) app_op" where
  "call_board f = bind (ask_board f) (\<lambda>_. ret ())"

definition set_screen :: "app_screen \<Rightarrow> ('u, 'h, unit) app_op" where
  "set_screen s = modify (\<lambda>a. a\<lparr>ap_screen := s\<rparr>)"

definition set_last_scan :: "bytes option \<Rightarrow> ('u, 'h, unit) app_op" where
  "set_last_scan x = modify (\<lambda>a. a\<lparr>ap_device := (ap_device a)\<lparr>dv_last_scan := x\<rparr>\<rparr>)"

definition set_firmware :: "('u firmware_state \<Rightarrow> 'u firmware_state) \<Rightarrow> ('u, 'h, unit) app_op" where
  "set_firmware f = modify (\<lambda>a. a\<lparr>ap_device := (ap_device a)\<lparr>dv_state := f (dv_state (ap_device a))\<rparr>\<rparr>)"

definition set_aim_on :: "bool \<Rightarrow> ('u, 'h, unit) app_op" where
  "set_aim_on b = modify (\<lambda>a. a\<lparr>ap_aim_on := b\<rparr>)"

definition clear_scan_counts :: "('u, 'h, unit) app_op" where
  "clear_scan_counts = modify (\<lambda>a. a\<lparr>ap_scan_ticks := 0, ap_scan_retries := 0\<rparr>)"

text \<open>Statements in sequence.\<close>

fun seq_ops :: "('s, 'e, unit) op list \<Rightarrow> ('s, 'e, unit) op" where
  "seq_ops [] = ret ()"
| "seq_ops (m # ms) = bind m (\<lambda>_. seq_ops ms)"

section \<open>Frames\<close>

definition redraws :: "command \<Rightarrow> bool" where
  "redraws c = (c \<in> {ImportToken, ScannerTrigger, ScannerData, NfcData, GetBlinded, SendSignatures})"

definition open_capture_window :: "('p, 'u, 'h) device_env \<Rightarrow> ('u, 'h, unit) app_op" where
  "open_capture_window E =
     bind (set_last_scan None) (\<lambda>_.
     bind (ask_board (instant_now (de_hw E))) (\<lambda>now.
       case checked_add now (10 * tick_hz (de_hw E)) of
         None \<Rightarrow> panic
       | Some deadline \<Rightarrow> modify (\<lambda>a. a\<lparr>ap_capture_until := Some deadline\<rparr>)))"

definition on_frame :: "('p, 'u, 'h) device_env \<Rightarrow> frame option \<Rightarrow> ('u, 'h, unit) app_op" where
  "on_frame E maybe_frame =
     (case maybe_frame of
        None \<Rightarrow> ret ()
      | Some frame \<Rightarrow>
          (case frame_payload frame of
             Ok payload \<Rightarrow>
               bind (on_device (handle_command E (fr_command frame) payload)) (\<lambda>result.
                 case result of
                   Ok response \<Rightarrow>
                     seq_ops
                       [if fr_command frame = ScannerTrigger then open_capture_window E else ret (),
                        if fr_command frame = ImportToken then
                          bind (gets ap_screen) (\<lambda>s. if s = WaitingToken then set_screen TokenInfo else ret ())
                        else ret (),
                        if redraws (fr_command frame) then board (swap_buffers (de_hw E)) else ret (),
                        board (transport_send (de_hw E) response)]
                 | _ \<Rightarrow> panic)
           | _ \<Rightarrow> panic))"

section \<open>Ticks\<close>

text \<open>The capture window of the USB path.\<close>

definition capture_scan :: "('p, 'u, 'h) device_env \<Rightarrow> ('u, 'h, unit) app_op" where
  "capture_scan E =
     bind (gets ap_capture_until) (\<lambda>until.
       case until of
         None \<Rightarrow> ret ()
       | Some deadline \<Rightarrow>
           bind (ask_board (instant_now (de_hw E))) (\<lambda>now.
             if deadline < now then panic
             else bind (ask_board (read_scan_within (de_hw E) (deadline - now))) (\<lambda>out.
               bind (case out of Some (Some data) \<Rightarrow> set_last_scan (Some data) | _ \<Rightarrow> ret ()) (\<lambda>_.
                 modify (\<lambda>a. a\<lparr>ap_capture_until := None\<rparr>)))))"

definition render_export_qr :: "('p, 'u, 'h) device_env \<Rightarrow> 'u firmware_state \<Rightarrow> ('u, 'h, unit) app_op" where
  "render_export_qr E s =
     (case build_export_token s of
        None \<Rightarrow> shown E (RenderStatus ''No proofs available yet'')
      | Some token \<Rightarrow>
          (case encode_token_wire (de_externs E) (de_cbor E) token of
             Ok wire \<Rightarrow> if qr_fits (de_hw E) wire then shown E (RenderQrScreen ''PROOFS'' wire) else shown E (RenderStatus ''QR encode failed'')
           | _ \<Rightarrow> shown E (RenderStatus ''Token encode failed'')))"

text \<open>A touch counts once until the finger is lifted.\<close>

definition on_touch :: "('p, 'u, 'h) device_env \<Rightarrow> (touch_point \<Rightarrow> ('u, 'h, bool) app_op) \<Rightarrow> ('u, 'h, bool) app_op" where
  "on_touch E f =
     bind (ask_board (touch_get (de_hw E))) (\<lambda>touch.
       case touch of
         None \<Rightarrow> bind (modify (\<lambda>a. a\<lparr>ap_touch_active := False\<rparr>)) (\<lambda>_. ret False)
       | Some tp \<Rightarrow>
           bind (gets ap_touch_active) (\<lambda>active.
             if active then ret False
             else bind (modify (\<lambda>a. a\<lparr>ap_touch_active := True\<rparr>)) (\<lambda>_. f tp)))"

definition start_scanning :: "('p, 'u, 'h) device_env \<Rightarrow> ('u, 'h, unit) app_op" where
  "start_scanning E =
     seq_ops
       [set_screen Scanning, set_last_scan None, set_aim_on True,
        set_firmware (\<lambda>s. s\<lparr>fs_scan_assembler := asm_reset (de_gm65 E) (fs_scan_assembler s)\<rparr>),
        call_board (set_aim (de_hw E) True), call_board (trigger (de_hw E)),
        shown E (DrawScanning True), shown E (DrawScanningProgress 0 10), board (swap_buffers (de_hw E)),
        clear_scan_counts]"

definition home_touched :: "('p, 'u, 'h) device_env \<Rightarrow> touch_point \<Rightarrow> ('u, 'h, bool) app_op" where
  "home_touched E tp =
     bind (if button_hit (home_buttons ! 0) (tp_x tp) (tp_y tp) then start_scanning E
           else if button_hit (home_buttons ! 1) (tp_x tp) (tp_y tp) then
             bind (gets (\<lambda>a. dv_last_scan (ap_device a))) (\<lambda>last.
               case last of
                 Some data \<Rightarrow>
                   seq_ops [set_screen ScanResult, shown E (RenderDecodedScan (decode_qr (de_gm65 E) data)), board (swap_buffers (de_hw E))]
               | None \<Rightarrow> seq_ops [set_screen WaitingToken, shown E RenderWaitingToken, board (swap_buffers (de_hw E))])
           else if button_hit (home_buttons ! 2) (tp_x tp) (tp_y tp) then
             bind (gets (\<lambda>a. dv_state (ap_device a))) (\<lambda>s.
               if fs_swap_state s = ProofsReady then
                 seq_ops [set_screen ShowProofs, render_export_qr E s, board (swap_buffers (de_hw E))]
               else
                 bind (gets (\<lambda>a. (ap_scanner_connected a, dv_last_scan (ap_device a) \<noteq> None))) (\<lambda>(connected, scanned).
                   seq_ops [shown E (RenderStatus ''No proofs available yet''), set_screen Home, shown E (RenderHome connected scanned),
                            board (swap_buffers (de_hw E))]))
           else ret ()) (\<lambda>_. ret False)"

definition import_scanned :: "token_v4 \<Rightarrow> ('u, 'h, unit) app_op" where
  "import_scanned token = set_firmware (\<lambda>s. s\<lparr>fs_imported_token := Some token, fs_swap_state := TokenImported\<rparr>)"

definition scanned :: "('p, 'u, 'h) device_env \<Rightarrow> bytes \<Rightarrow> ('u, 'h, unit) app_op" where
  "scanned E data =
     bind (\<lambda>a. case asm_process (de_externs E) (de_cbor E) (de_gm65 E) data (fs_scan_assembler (dv_state (ap_device a))) of
                 (out, asm) \<Rightarrow> (Ok out, a\<lparr>ap_device := (ap_device a)\<lparr>dv_state := (dv_state (ap_device a))\<lparr>fs_scan_assembler := asm\<rparr>\<rparr>\<rparr>)) (\<lambda>outcome.
       case outcome of
         TokenReady token \<Rightarrow>
           seq_ops [call_board (set_aim (de_hw E) False), set_aim_on False, clear_scan_counts, shown E (RenderTokenInfo token),
                    board (swap_buffers (de_hw E)), import_scanned token, set_last_scan (Some data), set_screen TokenInfo]
       | KeepScanning received expected \<Rightarrow>
           bind (gets ap_aim_on) (\<lambda>aim.
           seq_ops [clear_scan_counts, set_last_scan (Some data), shown E (DrawScanning aim),
                    shown E (DrawScanningProgress received expected), board (swap_buffers (de_hw E)), call_board (trigger (de_hw E))])
       | InvalidFragment \<Rightarrow>
           seq_ops [modify (\<lambda>a. a\<lparr>ap_scan_ticks := 0\<rparr>), set_last_scan (Some data), call_board (trigger (de_hw E))]
       | ShowPayload payload \<Rightarrow>
           seq_ops [set_screen ScanResult, call_board (set_aim (de_hw E) False), set_aim_on False, clear_scan_counts,
                    shown E (RenderDecodedScan payload), board (swap_buffers (de_hw E)), set_last_scan (Some data)])"

text \<open>A tick without a scan; the result says whether to return to the home screen.\<close>

definition scan_waited :: "('p, 'u, 'h) device_env \<Rightarrow> ('u, 'h, bool) app_op" where
  "scan_waited E =
     bind (modify (\<lambda>a. a\<lparr>ap_scan_ticks := ap_scan_ticks a + 1\<rparr>)) (\<lambda>_.
     bind (gets (\<lambda>a. (ap_scan_ticks a, ap_aim_on a))) (\<lambda>(ticks, aim).
     bind (if unat ticks mod 200 = 0 then
             seq_ops [shown E (DrawScanning aim), shown E (DrawScanningProgress (ticks div 200) (SCAN_TIMEOUT_TICKS div 200)),
                      board (swap_buffers (de_hw E))]
           else ret ()) (\<lambda>_.
       if ticks > SCAN_TIMEOUT_TICKS then
         bind (modify (\<lambda>a. a\<lparr>ap_scan_retries := ap_scan_retries a + 1, ap_scan_ticks := 0\<rparr>)) (\<lambda>_.
         bind (gets ap_scan_retries) (\<lambda>retries.
           if retries < MAX_SCAN_RETRIES then
             bind (seq_ops [shown E (DrawScanning aim), shown E DrawScanningRetry, board (swap_buffers (de_hw E)),
                            call_board (trigger (de_hw E))]) (\<lambda>_. ret False)
           else ret True))
       else ret False)))"

definition scanning_touched :: "('p, 'u, 'h) device_env \<Rightarrow> touch_point \<Rightarrow> ('u, 'h, bool) app_op" where
  "scanning_touched E tp =
     (if button_hit back_button (tp_x tp) (tp_y tp) then ret True
      else if button_hit aim_button (tp_x tp) (tp_y tp) then
        bind (modify (\<lambda>a. a\<lparr>ap_aim_on := \<not> ap_aim_on a\<rparr>)) (\<lambda>_.
        bind (gets (\<lambda>a. (ap_aim_on a, ap_scan_ticks a))) (\<lambda>(aim, ticks).
        bind (seq_ops [call_board (set_aim (de_hw E) aim), shown E (DrawScanning aim),
                       shown E (DrawScanningProgress (ticks div 200) (SCAN_TIMEOUT_TICKS div 200)), board (swap_buffers (de_hw E))]) (\<lambda>_.
          ret False)))
      else ret False)"

definition tick_scanning :: "('p, 'u, 'h) device_env \<Rightarrow> ('u, 'h, bool) app_op" where
  "tick_scanning E =
     bind (ask_board (read_scan_within (de_hw E) (5 * tick_hz (de_hw E)))) (\<lambda>out.
     bind (case out of Some (Some data) \<Rightarrow> bind (scanned E data) (\<lambda>_. ret False) | _ \<Rightarrow> scan_waited E) (\<lambda>timed_out.
     bind (on_touch E (scanning_touched E)) (\<lambda>touched. ret (timed_out \<or> touched))))"

definition go_home :: "('p, 'u, 'h) device_env \<Rightarrow> ('u, 'h, unit) app_op" where
  "go_home E =
     bind (seq_ops
       [call_board (set_aim (de_hw E) False), set_aim_on False,
        set_firmware (\<lambda>s. s\<lparr>fs_scan_assembler := asm_reset (de_gm65 E) (fs_scan_assembler s)\<rparr>),
        board (hw_stop (de_hw E)), set_screen Home]) (\<lambda>_.
     bind (gets (\<lambda>a. (ap_scanner_connected a, dv_last_scan (ap_device a) \<noteq> None))) (\<lambda>(connected, scanned).
       seq_ops [shown E (RenderHome connected scanned), board (swap_buffers (de_hw E)), clear_scan_counts]))"

definition on_tick :: "('p, 'u, 'h) device_env \<Rightarrow> ('u, 'h, unit) app_op" where
  "on_tick E =
     bind (capture_scan E) (\<lambda>_.
     bind (gets ap_screen) (\<lambda>screen.
     bind (case screen of
             Home \<Rightarrow> on_touch E (home_touched E)
           | Scanning \<Rightarrow> tick_scanning E
           | _ \<Rightarrow> on_touch E (\<lambda>tp. ret (button_hit back_button (tp_x tp) (tp_y tp)))) (\<lambda>home.
       if home then go_home E else ret ())))"

section \<open>The loop\<close>

datatype app_event = FrameEvent "frame option" | TickEvent

definition app_turn :: "('p, 'u, 'h) device_env \<Rightarrow> app_event \<Rightarrow> ('u, 'h, unit) app_op" where
  "app_turn E ev = (case ev of FrameEvent f \<Rightarrow> on_frame E f | TickEvent \<Rightarrow> on_tick E)"

definition app_init :: "('p, 'u, 'h) device_env \<Rightarrow> 'h \<Rightarrow> ('u, 'h) app" where
  "app_init E h =
     (let connected = is_connected (de_hw E) h;
          h = swap_buffers (de_hw E) (draw (de_hw E) (RenderHome connected False) h)
      in \<lparr>ap_device = \<lparr>dv_state = firmware_state_new (de_gm65 E), dv_hw = h, dv_last_scan = None\<rparr>,
          ap_scanner_connected = connected, ap_screen = Home, ap_touch_active = False, ap_capture_until = None,
          ap_aim_on = False, ap_scan_ticks = 0, ap_scan_retries = 0\<rparr>)"

end
