(* ===== verification/Device_Theorems.thy ===== *)
theory Device_Theorems
  imports Device
begin

text \<open>
  What the hardware wallet promises: no command makes it panic, every proof it exports was checked against the
  pinned key of the mint, a swap runs to completion, and both ways of capturing a token are the same.
\<close>

section \<open>What a command leaves behind\<close>

text \<open>Methods of the board return; they do not unwind into the application.\<close>

definition hw_returns :: "'h hardware \<Rightarrow> bool" where
  "hw_returns H \<longleftrightarrow> (\<forall>h. fst (trigger H h) \<noteq> Panic \<and> fst (reinit_scanner H h) \<noteq> Panic \<and> fst (factory_heal H h) \<noteq> Panic
     \<and> fst (nfc_poll H h) \<noteq> Panic \<and> fst (nfc_heal H h) \<noteq> Panic \<and> fst (set_aim H True h) \<noteq> Panic)"

definition env_ok :: "('p, 'u, 'h) device_env \<Rightarrow> bool" where
  "env_ok E \<longleftrightarrow> curve_ok (de_externs E) (de_curve E) \<and> points_encode (de_curve E) \<and> cbor_consumes (de_cbor E) \<and> hw_returns (de_hw E)"

abbreviation blinds :: "('p, 'u, 'h) device_env \<Rightarrow> blinded \<Rightarrow> string \<Rightarrow> bool" where
  "blinds E b secret \<equiv> blind_message (de_externs E) (de_curve E) (as_bytes secret) (Some (bl_blinder b)) (bl_blinder b) = Ok b"

text \<open>The outputs waiting for signatures: secrets, amounts and blinded messages belong together.\<close>

definition swap_ok :: "('p, 'u, 'h) device_env \<Rightarrow> 'u firmware_state \<Rightarrow> bool" where
  "swap_ok E s \<longleftrightarrow> (\<forall>bs. fs_blinded_messages s = Some bs \<longrightarrow>
     (\<exists>ss as. fs_swap_secrets s = Some ss \<and> fs_swap_amounts s = Some as \<and> length as = length bs \<and> list_all2 (blinds E) bs ss))"

text \<open>A proof whose DLEQ proof verifies against the pinned key.\<close>

definition proof_checked :: "('p, 'u, 'h) device_env \<Rightarrow> token_proof \<Rightarrow> bool" where
  "proof_checked E p \<longleftrightarrow> (\<exists>d pk. tp_dleq p = Some d \<and> pinned_demo_mint_key (de_externs E) = Some pk
     \<and> verify_proof_dleq (de_externs E) (de_curve E) (as_bytes (tp_secret p)) (PublicKey (tp_c p)) d pk)"

definition state_ok :: "('p, 'u, 'h) device_env \<Rightarrow> 'u firmware_state \<Rightarrow> bool" where
  "state_ok E s \<longleftrightarrow> swap_ok E s \<and> (\<forall>ps. fs_new_proofs s = Some ps \<longrightarrow> ps \<noteq> [] \<and> list_all (proof_checked E) ps)
     \<and> (fs_swap_state s = ProofsReady \<longrightarrow> build_export_token s \<noteq> None)
     \<and> (fs_blinded_messages s \<noteq> None \<longrightarrow> fs_imported_token s \<noteq> None)"

definition device_ok :: "('p, 'u, 'h) device_env \<Rightarrow> ('u, 'h) device \<Rightarrow> bool" where
  device_ok_state: "device_ok E d \<longleftrightarrow> state_ok E (dv_state d)"

lemmas device_ok_def = device_ok_state state_ok_def

definition response_ok :: "response \<Rightarrow> bool" where
  "response_ok r \<longleftrightarrow> length (rs_payload r) = MAX_PAYLOAD_SIZE \<and> unat (rs_length r) \<le> MAX_PAYLOAD_SIZE"

text \<open>The invariant, with a token imported when \<open>T\<close> asks for one.\<close>

definition device_inv :: "('p, 'u, 'h) device_env \<Rightarrow> bool \<Rightarrow> ('u, 'h) device \<Rightarrow> bool" where
  "device_inv E T d \<longleftrightarrow> device_ok E d \<and> (T \<longrightarrow> fs_imported_token (dv_state d) \<noteq> None)"

text \<open>An operation that keeps the invariant and does not panic, with \<open>Q\<close> of what it returns.\<close>

fun outcome_ok :: "('p, 'u, 'h) device_env \<Rightarrow> bool \<Rightarrow> ('a \<Rightarrow> bool) \<Rightarrow> (response, 'a) res \<times> ('u, 'h) device \<Rightarrow> bool" where
  "outcome_ok E T Q (Ok x, d) \<longleftrightarrow> Q x \<and> device_inv E T d"
| "outcome_ok E T Q (Err r, d) \<longleftrightarrow> response_ok r \<and> device_inv E T d"
| "outcome_ok E T Q (Panic, d) \<longleftrightarrow> False"

definition keeps :: "('p, 'u, 'h) device_env \<Rightarrow> bool \<Rightarrow> ('u, 'h, 'a) dv_op \<Rightarrow> ('a \<Rightarrow> bool) \<Rightarrow> bool" where
  "keeps E T m Q \<longleftrightarrow> (\<forall>d. device_inv E T d \<longrightarrow> outcome_ok E T Q (m d))"

lemma keepsI: "(\<And>d. device_inv E T d \<Longrightarrow> outcome_ok E T Q (m d)) \<Longrightarrow> keeps E T m Q"
  by (simp add: keeps_def)

lemma keepsD: "keeps E T m Q \<Longrightarrow> device_inv E T d \<Longrightarrow> outcome_ok E T Q (m d)"
  by (simp add: keeps_def)

lemma keeps_bind:
  assumes "keeps E T m Q" "\<And>x. Q x \<Longrightarrow> keeps E T (f x) R"
  shows "keeps E T (bind m f) R"
proof (rule keepsI)
  fix d assume "device_inv E T d"
  from keepsD[OF assms(1) this] show "outcome_ok E T R (bind m f d)"
    by (cases "(E, T, Q, m d)" rule: outcome_ok.cases) (auto simp: bind_def intro: keepsD[OF assms(2)])
qed

lemma build_export_None [simp]: "build_export_token s = None \<longleftrightarrow> fs_new_proofs s = None \<or> fs_imported_token s = None"
  by (auto simp: build_export_token_def split: option.splits)

lemma keeps_ret: "Q x \<Longrightarrow> keeps E T (ret x) Q"
  by (simp add: keeps_def)

lemma response_new_ok [simp]: "response_ok (response_new s)"
  by (simp add: response_ok_def response_new_def)

lemma payload_or_ok [simp]: "response_ok (payload_or s data)"
  by (auto simp: payload_or_def response_with_payload_def response_ok_def response_new_def overwrite_def MAX_PAYLOAD_SIZE_def unat_of_nat)

lemma keeps_answer: "keeps E T (answer s) Q"
  by (simp add: keeps_def answer_def)

lemma device_ok_hw [simp]: "device_inv E T (d\<lparr>dv_hw := h\<rparr>) = device_inv E T d" "device_inv E T (d\<lparr>dv_last_scan := x\<rparr>) = device_inv E T d"
  by (simp_all add: device_inv_def device_ok_def)

lemma keeps_hw: "keeps E T (hw_call f) (\<lambda>_. True)" "keeps E T (hw_do g) (\<lambda>_. True)" "keeps E T (drawn E c) (\<lambda>_. True)"
  by (simp_all add: keeps_def hw_call_def hw_do_def drawn_def split: prod.split)

lemma keeps_hw_result:
  assumes "\<And>h. fst (f h) \<noteq> Panic"
  shows "keeps E T (hw_call f) (\<lambda>r. r \<noteq> Panic)"
proof (rule keepsI)
  fix d assume "device_inv E T d"
  then show "outcome_ok E T (\<lambda>r. r \<noteq> Panic) (hw_call f d)" using assms[of "dv_hw d"] by (cases "f (dv_hw d)") (simp add: hw_call_def)
qed

lemma keeps_gets: "(\<And>d. device_inv E T d \<Longrightarrow> Q (g d)) \<Longrightarrow> keeps E T (gets g) Q"
  by (simp add: keeps_def)

lemma keeps_set_state:
  "(\<And>d. device_inv E T d \<Longrightarrow> device_inv E T (d\<lparr>dv_state := f (dv_state d)\<rparr>)) \<Longrightarrow> keeps E T (set_state f) (\<lambda>_. True)"
  by (simp add: keeps_def set_state_def)

lemmas keeps_rules = keeps_bind keeps_ret keeps_answer keeps_hw

lemma keeps_ok_or_answer: "r \<noteq> Panic \<Longrightarrow> keeps E T (ok_or_answer s r) response_ok"
  by (cases r) (auto simp: ok_or_answer_def intro: keeps_ret)

lemma keeps_import: "keeps E T (set_state (\<lambda>s. s\<lparr>fs_imported_token := Some token, fs_swap_state := TokenImported\<rparr>)) (\<lambda>_. True)"
  by (rule keeps_set_state) (auto simp: device_inv_def device_ok_def swap_ok_def)

lemma keeps_classify: "keeps E T (classify_and_assemble E data) response_ok"
proof -
  let ?process = "\<lambda>d. case asm_process (de_externs E) (de_cbor E) (de_gm65 E) data (fs_scan_assembler (dv_state d)) of
     (out, a) \<Rightarrow> (Ok out, d\<lparr>dv_state := (dv_state d)\<lparr>fs_scan_assembler := a\<rparr>\<rparr>)"
  have "keeps E T ?process (\<lambda>_. True)"
    by (auto simp: keeps_def device_inv_def device_ok_def swap_ok_def split: prod.splits)
  then show ?thesis
    unfolding classify_and_assemble_def Let_def
    by (auto intro!: keeps_rules keeps_import split: scan_outcome.splits qr_payload.splits)
qed

lemma keeps_put: "length written + length data \<le> MAX_PAYLOAD_SIZE \<Longrightarrow> keeps E T (put data written) (\<lambda>b. b = written @ data)"
  by (simp add: put_def keeps_ret)

lemma keeps_token_info: "keeps E T handle_get_token_info response_ok"
  unfolding handle_get_token_info_def Let_def
  by (rule keeps_bind[OF keeps_gets[where Q = "\<lambda>_. True"]])
    (auto intro!: keeps_rules keeps_put split: option.splits)

section \<open>Blinding\<close>

definition output_ok :: "('p, 'u, 'h) device_env \<Rightarrow> string \<times> u64 \<times> blinded \<Rightarrow> bool" where
  "output_ok E = (\<lambda>(secret, _, b). blinds E b secret \<and> length (to_bytes (bl_blinded b)) = 33)"

lemma blind_message_blinds:
  assumes "points_encode K" "blind_message X K secret (Some r) r = Ok b"
  shows "bl_blinder b = r" "length (to_bytes (bl_blinded b)) = 33"
  using assms by (auto simp: blind_message_def Let_def points_encode_def)

lemma keeps_blind_proofs:
  assumes "env_ok E"
  shows "keeps E T (blind_proofs E ps) (list_all (output_ok E))"
proof (induction ps)
  case Nil
  show ?case unfolding blind_proofs.simps by (rule keeps_ret) simp
next
  case (Cons p ps)
  have "output_ok E (tp_secret p, tp_amount p, b)"
    if "blind_message (de_externs E) (de_curve E) (as_bytes (tp_secret p)) (Some r) r = Ok b" for r b
    using blind_message_blinds[OF _ that] that assms by (simp add: output_ok_def env_ok_def)
  with Cons show ?case unfolding blind_proofs.simps
    by (auto intro!: keeps_bind[OF keeps_hw(1)] keeps_bind[OF Cons] keeps_ret split: option.splits res.splits)
qed

lemma keeps_put_points:
  "list_all (\<lambda>pk. length (to_bytes pk) = 33) pks \<Longrightarrow> length b + 33 * length pks \<le> MAX_PAYLOAD_SIZE
     \<Longrightarrow> keeps E T (put_points pks b) (\<lambda>r. r = b @ concat (map to_bytes pks))"
proof (induction pks arbitrary: b)
  case (Cons pk pks)
  have "keeps E T (put (to_bytes pk) b) (\<lambda>r. r = b @ to_bytes pk)" using Cons.prems by (intro keeps_put) simp
  then show ?case using Cons.prems Cons.IH[of "b @ to_bytes pk"] by (auto intro: keeps_bind)
qed (unfold put_points.simps, rule keeps_ret, simp)

lemma list_all2_outputs: "list_all (output_ok E) outs \<Longrightarrow> list_all2 (blinds E) (map (\<lambda>(_, _, b). b) outs) (map (\<lambda>(s, _, _). s) outs)"
  by (induction outs) (auto simp: output_ok_def)

lemma keeps_set_outputs:
  assumes "list_all (output_ok E) outs"
  shows "keeps E True (set_state (\<lambda>s. s\<lparr>fs_blinded_messages := Some (map (\<lambda>(_, _, b). b) outs), fs_swap_secrets := Some (map (\<lambda>(s, _, _). s) outs),
     fs_swap_amounts := Some (map (\<lambda>(_, a, _). a) outs), fs_swap_state := BlindedGenerated\<rparr>)) (\<lambda>_. True)"
  by (rule keeps_set_state) (use list_all2_outputs[OF assms] in \<open>auto simp: device_inv_def device_ok_def swap_ok_def\<close>)

lemma outcome_ok_weaken: "outcome_ok E True Q out \<Longrightarrow> outcome_ok E False Q out"
  by (cases "(E, True, Q, out)" rule: outcome_ok.cases) (auto simp: device_inv_def)

lemma keeps_get_blinded:
  assumes "env_ok E"
  shows "keeps E False (handle_get_blinded E) response_ok"
proof (rule keepsI)
  fix d assume ok: "device_inv E False d"
  show "outcome_ok E False response_ok (handle_get_blinded E d)"
  proof (cases "fs_imported_token (dv_state d)")
    case None
    with ok show ?thesis by (simp add: handle_get_blinded_def answer_def)
  next
    case (Some token)
    let ?rest = "\<lambda>outs. if outs = [] then answer CryptoError else if length outs * 33 > MAX_PAYLOAD_SIZE then answer StBufferOverflow
      else bind (put_points (map (\<lambda>(_, _, b). bl_blinded b) outs) []) (\<lambda>payload.
         bind (set_state (\<lambda>s. s\<lparr>fs_blinded_messages := Some (map (\<lambda>(_, _, b). b) outs), fs_swap_secrets := Some (map (\<lambda>(s, _, _). s) outs),
             fs_swap_amounts := Some (map (\<lambda>(_, a, _). a) outs), fs_swap_state := BlindedGenerated\<rparr>)) (\<lambda>_.
         bind (drawn E (RenderStatus ''Blinded outputs ready'')) (\<lambda>_. ret (payload_or StBufferOverflow payload))))"
    have "keeps E True (?rest outs) response_ok" if outs: "list_all (output_ok E) outs" for outs
    proof -
      have "list_all (\<lambda>pk. length (to_bytes pk) = 33) (map (\<lambda>(_, _, b). bl_blinded b) outs)"
        using outs by (auto simp: list_all_iff output_ok_def)
      then show ?thesis
        by (auto intro!: keeps_answer keeps_bind[OF keeps_put_points] keeps_bind[OF keeps_set_outputs[OF outs]] keeps_bind[OF keeps_hw(3)] keeps_ret)
    qed
    then have "keeps E True (bind (blind_proofs E (token_proofs token)) ?rest) response_ok"
      by (rule keeps_bind[OF keeps_blind_proofs[OF assms]])
    moreover have "device_inv E True d" using ok Some by (simp add: device_inv_def)
    ultimately show ?thesis
      using Some outcome_ok_weaken keepsD by (simp add: handle_get_blinded_def) blast
  qed
qed

section \<open>Signatures\<close>

lemma check_entry_not_Panic: "check_entry E pk b entry \<noteq> Panic"
  by (auto simp: check_entry_def Let_def unblind_signature_def ok_or_def split: option.splits)

lemma pk_from_bytes_nonzero: "curve_ok X K \<Longrightarrow> pk_from_bytes X b = Some pk \<Longrightarrow> to_point K pk \<noteq> c_zero K"
  by (auto simp: pk_from_bytes_def curve_ok_def encoding_laws_def split: if_splits)

lemma check_entry_verifies:
  assumes "env_ok E" "blinds E b secret" "check_entry E pk b entry = Ok (e, sc, c)"
  shows "verify_proof_dleq (de_externs E) (de_curve E) (as_bytes secret) c \<lparr>pd_e = e, pd_s = sc, pd_r = bl_blinder b\<rparr> pk"
proof -
  from assms(3) obtain c' where "pk_from_bytes (de_externs E) (take 33 entry) = Some c'"
    "verify_dleq (de_externs E) (de_curve E) (bl_blinded b) c' e sc pk = Ok True"
    "unblind_signature (de_curve E) c' (bl_blinder b) pk = Ok c"
    by (auto simp: check_entry_def Let_def split: if_splits res.splits)
  moreover have "curve_ok (de_externs E) (de_curve E)" "points_encode (de_curve E)" using assms(1) by (simp_all add: env_ok_def)
  ultimately show ?thesis using blind_check_carries_over[OF _ _ assms(2)] pk_from_bytes_nonzero by metis
qed

lemma unblind_entries_checked:
  assumes "env_ok E" "pinned_demo_mint_key (de_externs E) = Some pk"
    and "fs_swap_secrets s = Some ss" "fs_swap_amounts s = Some as" "length as = length ss"
  shows "list_all2 (blinds E) bs (drop i ss) \<Longrightarrow>
    (case unblind_entries E pk s kid payload i bs of
       Ok ps \<Rightarrow> map tp_secret ps = drop i ss \<and> map tp_amount ps = drop i as \<and> list_all (proof_checked E) ps
     | Err _ \<Rightarrow> True | Panic \<Rightarrow> False)"
proof (induction bs arbitrary: i)
  case Nil
  then show ?case using assms(5) by simp
next
  case (Cons b bs)
  then have i: "i < length ss" by (cases "i < length ss") simp_all
  have split: "drop i ss = ss ! i # drop (Suc i) ss" "drop i as = as ! i # drop (Suc i) as"
    using i assms(5) by (simp_all only: Cons_nth_drop_Suc)
  have b: "blinds E b (ss ! i)" "list_all2 (blinds E) bs (drop (Suc i) ss)"
    using Cons.prems unfolding split(1) list.rel_inject by blast+
  note IH = Cons.IH[OF b(2)]
  have nth: "unwrap_nth (fs_swap_secrets s) i = Ok (ss ! i)" "unwrap_nth (fs_swap_amounts s) i = Ok (as ! i)"
    using assms i by (simp_all add: unwrap_nth_def)
  show ?case
  proof (cases "check_entry E pk b (take ENTRY_LEN (drop (i * ENTRY_LEN) payload))")
    case (Ok x)
    obtain e sc c where x: "x = (e, sc, c)" by (cases x)
    have "proof_checked E \<lparr>tp_amount = as ! i, tp_keyset_id = kid, tp_secret = ss ! i, tp_c = to_bytes c,
        tp_dleq = Some \<lparr>pd_e = e, pd_s = sc, pd_r = bl_blinder b\<rparr>\<rparr>"
      using check_entry_verifies[OF assms(1) b(1) Ok[unfolded x]] assms(2) by (cases c) (simp add: proof_checked_def)
    with IH Ok x nth show ?thesis 
      by (cases "unblind_entries E pk s kid payload (Suc i) bs") (simp_all, simp_all only: split)
  qed (simp_all add: check_entry_not_Panic)
qed

lemma keeps_send_signatures:
  assumes "env_ok E"
  shows "keeps E False (handle_send_signatures E payload) response_ok"
proof (rule keepsI)
  fix d assume ok: "device_inv E False d"
  let ?s = "dv_state d"
  show "outcome_ok E False response_ok (handle_send_signatures E payload d)"
  proof (cases "fs_blinded_messages ?s")
    case None
    with ok show ?thesis by (simp add: handle_send_signatures_def answer_def)
  next
    case (Some bs)
    show ?thesis
    proof (cases "pinned_demo_mint_key (de_externs E)")
      case None
      with ok Some show ?thesis by (simp add: handle_send_signatures_def answer_def)
    next
      case key: (Some pk)
      from ok Some obtain ss as where ss: "fs_swap_secrets ?s = Some ss" "fs_swap_amounts ?s = Some as"
        "length as = length bs" "list_all2 (blinds E) bs ss"
        by (auto simp: device_inv_def device_ok_def swap_ok_def)
      then have "length as = length ss" "list_all2 (blinds E) bs (drop 0 ss)" by (simp_all add: list_all2_lengthD)
      note ss = ss(1,2) this
      note entries = unblind_entries_checked[OF assms key ss, of "first_keyset_id ?s" payload]
      show ?thesis
        using ok Some key entries
        by (auto simp: handle_send_signatures_def answer_def set_state_def drawn_def hw_do_def device_inv_def device_ok_def swap_ok_def
            split: res.splits)
    qed
  qed
qed

section \<open>The invariant\<close>

lemma map_res_not_Panic: "(\<And>x. x \<in> set xs \<Longrightarrow> f x \<noteq> Panic) \<Longrightarrow> map_res f xs \<noteq> Panic"
proof (induction xs)
  case (Cons x xs)
  then have "f x \<noteq> Panic" "map_res f xs \<noteq> Panic" by simp_all
  then show ?case by (cases "f x"; cases "map_res f xs") simp_all
qed simp

lemma encode_token_not_Panic: "encode_token X C t \<noteq> Panic"
proof -
  have "encode_group X C g \<noteq> Panic" for g by (cases "hex_decode X (tg_keyset_id g)") (simp_all add: encode_group_def)
  then have "map_res (encode_group X C) (tk_tokens t) \<noteq> Panic" by (simp add: map_res_not_Panic)
  then show ?thesis by (cases "map_res (encode_group X C) (tk_tokens t)") (simp_all add: encode_token_def)
qed

lemma keeps_get_proofs: "keeps E False (handle_get_proofs E) response_ok"
  unfolding handle_get_proofs_def
  by (rule keeps_bind[OF keeps_gets[where Q = "\<lambda>_. True"]])
    (auto intro!: keeps_rules simp: encode_token_not_Panic split: option.splits res.splits)

lemma keeps_handle_import:
  assumes "env_ok E"
  shows "keeps E False (handle_import E payload) response_ok"
proof -
  have "decode_token (de_externs E) (de_cbor E) payload \<noteq> Panic"
    using assms decode_token_returns(2) by (auto simp: env_ok_def)
  then show ?thesis unfolding handle_import_def by (auto intro!: keeps_rules keeps_import split: res.splits)
qed

lemma keeps_trigger:
  assumes "env_ok E"
  shows "keeps E False (handle_trigger E) response_ok"
proof -
  have "keeps E False (hw_call (set_aim (de_hw E) True)) (\<lambda>r. r \<noteq> Panic)" "keeps E False (hw_call (trigger (de_hw E))) (\<lambda>r. r \<noteq> Panic)"
    using assms by (auto simp: env_ok_def hw_returns_def intro!: keeps_hw_result)
  note aim = this
  show ?thesis unfolding handle_trigger_def
    by (rule keeps_bind[OF aim(1)]) (auto intro!: keeps_bind[OF aim(2)] keeps_rules split: res.splits)
qed

lemma keeps_nfc_poll:
  assumes "env_ok E"
  shows "keeps E False (handle_nfc_poll E) response_ok"
proof -
  have poll: "keeps E False (hw_call (nfc_poll (de_hw E))) (\<lambda>r. r \<noteq> Panic)"
    using assms by (auto simp: env_ok_def hw_returns_def intro!: keeps_hw_result)
  show ?thesis unfolding handle_nfc_poll_def
    by (rule keeps_bind[OF keeps_gets[where Q = "\<lambda>_. True"]])
      (auto intro!: keeps_bind[OF poll] keeps_rules split: res.splits)
qed

lemma keeps_heal: "(\<And>h. fst (f h) \<noteq> Panic) \<Longrightarrow> keeps E False (bind (hw_call f) (ok_or_answer st)) response_ok"
  by (rule keeps_bind[OF keeps_hw_result keeps_ok_or_answer])

lemma keeps_heals:
  assumes "env_ok E"
  shows "keeps E False (bind (hw_call (deep_sleep_reboot (de_hw E))) (\<lambda>_. bind (hw_call (reinit_scanner (de_hw E))) (ok_or_answer ScannerNotConnected))) response_ok"
    and "keeps E False (bind (hw_call (factory_heal (de_hw E))) (ok_or_answer ScannerNotConnected)) response_ok"
    and "keeps E False (bind (hw_call (nfc_heal (de_hw E))) (ok_or_answer NfcNotConnected)) response_ok"
  by (rule keeps_bind[OF keeps_hw(1)] keeps_heal; use assms in \<open>simp add: env_ok_def hw_returns_def keeps_heal\<close>)+

lemma keeps_capture:
  "keeps E False (bind (\<lambda>d. (Ok (dv_last_scan d), d\<lparr>dv_last_scan := None\<rparr>)) (\<lambda>taken.
     case taken of Some data \<Rightarrow> classify_and_assemble E data | None \<Rightarrow> ret (response_new NoScanData))) response_ok"
  "keeps E False (bind (hw_call (nfc_read_ndef (de_hw E))) (\<lambda>read.
     case read of Some data \<Rightarrow> classify_and_assemble E data | None \<Rightarrow> ret (response_new NfcNoTag))) response_ok"
proof -
  have "keeps E False (\<lambda>d. (Ok (dv_last_scan d), d\<lparr>dv_last_scan := None\<rparr>)) (\<lambda>_. True)" by (simp add: keeps_def)
  then show "keeps E False (bind (\<lambda>d. (Ok (dv_last_scan d), d\<lparr>dv_last_scan := None\<rparr>)) (\<lambda>taken.
     case taken of Some data \<Rightarrow> classify_and_assemble E data | None \<Rightarrow> ret (response_new NoScanData))) response_ok"
    by (rule keeps_bind) (auto intro!: keeps_classify keeps_ret split: option.splits)
qed (auto intro!: keeps_bind[OF keeps_hw(1)] keeps_classify keeps_ret split: option.splits)

lemma keeps_status: "keeps E False (bind (gets (\<lambda>d. is_connected (de_hw E) (dv_hw d))) (\<lambda>connected.
    ret (payload_or StError [if connected then 1 else 0, 0x00, 0x00]))) response_ok"
  by (rule keeps_bind[OF keeps_gets[where Q = "\<lambda>_. True"]]) (auto intro: keeps_ret)

lemma command_answers:
  assumes "env_ok E" "device_ok E d"
  shows "\<exists>r d'. handle_command E cmd payload d = (Ok r, d') \<and> response_ok r \<and> device_ok E d'"
proof -
  have returned: "\<exists>r d'. returned m d = (Ok r, d') \<and> response_ok r \<and> device_ok E d'" if "keeps E False m response_ok" for m
  proof -
    from keepsD[OF that, of d] assms(2) have "outcome_ok E False response_ok (m d)" by (simp add: device_inv_def)
    then show ?thesis
      by (cases "(E, False, response_ok, m d)" rule: outcome_ok.cases) (auto simp: returned_def device_inv_def)
  qed
  have "keeps E False (case cmd of ImportToken \<Rightarrow> handle_import E payload | GetTokenInfo \<Rightarrow> handle_get_token_info
      | GetBlinded \<Rightarrow> handle_get_blinded E | SendSignatures \<Rightarrow> handle_send_signatures E payload | GetProofs \<Rightarrow> handle_get_proofs E
      | ScannerStatus \<Rightarrow> bind (gets (\<lambda>d. is_connected (de_hw E) (dv_hw d))) (\<lambda>connected. ret (payload_or StError [if connected then 1 else 0, 0x00, 0x00]))
      | ScannerTrigger \<Rightarrow> handle_trigger E
      | ScannerHeal \<Rightarrow> bind (hw_call (deep_sleep_reboot (de_hw E))) (\<lambda>_. bind (hw_call (reinit_scanner (de_hw E))) (ok_or_answer ScannerNotConnected))
      | ScannerFactoryHeal \<Rightarrow> bind (hw_call (factory_heal (de_hw E))) (ok_or_answer ScannerNotConnected)
      | ScannerData \<Rightarrow> bind (\<lambda>d. (Ok (dv_last_scan d), d\<lparr>dv_last_scan := None\<rparr>)) (\<lambda>taken.
          case taken of Some data \<Rightarrow> classify_and_assemble E data | None \<Rightarrow> ret (response_new NoScanData))
      | NfcPoll \<Rightarrow> handle_nfc_poll E
      | NfcData \<Rightarrow> bind (hw_call (nfc_read_ndef (de_hw E))) (\<lambda>read.
          case read of Some data \<Rightarrow> classify_and_assemble E data | None \<Rightarrow> ret (response_new NfcNoTag))
      | NfcHeal \<Rightarrow> bind (hw_call (nfc_heal (de_hw E))) (ok_or_answer NfcNotConnected)) response_ok"
    using keeps_handle_import[OF assms(1)] keeps_token_info keeps_get_blinded[OF assms(1)] keeps_send_signatures[OF assms(1)]
      keeps_get_proofs keeps_status keeps_trigger[OF assms(1)] keeps_heals[OF assms(1)] keeps_capture keeps_nfc_poll[OF assms(1)]
    by (cases cmd; simp only: command.case; blast)
  from returned[OF this] show ?thesis unfolding handle_command_def .
qed

text \<open>A device in service: it starts with a fresh state, handles commands, and its board and the captured scan change on their own.\<close>

inductive device_start :: "('p, 'u, 'h) device_env \<Rightarrow> ('u, 'h) device \<Rightarrow> bool" for E where
  "device_start E \<lparr>dv_state = firmware_state_new (de_gm65 E), dv_hw = h, dv_last_scan = None\<rparr>"

inductive device_step :: "('p, 'u, 'h) device_env \<Rightarrow> ('u, 'h) device \<Rightarrow> ('u, 'h) device \<Rightarrow> bool" for E where
  step_command: "handle_command E cmd payload d = (r, d') \<Longrightarrow> device_step E d d'"
| step_board: "device_step E d (d\<lparr>dv_hw := h, dv_last_scan := x\<rparr>)"

inductive_cases device_stepE: "device_step E d d'"

interpretation device_life: transition_system "device_start E" "device_step E" "\<lambda>d. env_ok E \<longrightarrow> device_ok E d" for E
proof
  show "env_ok E \<longrightarrow> device_ok E s" if "device_start E s" for s
    using that by cases (simp add: device_ok_def swap_ok_def firmware_state_new_def)
next
  fix s t assume inv: "env_ok E \<longrightarrow> device_ok E s" and "device_step E s t"
  from this(2) show "env_ok E \<longrightarrow> device_ok E t"
  proof (rule device_stepE)
    fix cmd payload r assume "handle_command E cmd payload s = (r, t)"
    then show ?thesis using command_answers[of E s cmd payload] inv by auto
  qed (use inv in \<open>simp add: device_ok_def\<close>)
qed

lemma device_reached: "env_ok E \<Longrightarrow> reach (device_start E) (device_step E) d \<Longrightarrow> device_ok E d"
  using device_life.reach_inv by blast

text \<open>C34: no command makes the device panic. In every state a device can reach, whatever command arrives with whatever bytes, the
  handler returns a response whose payload lies within its frame; the outputs waiting for signatures always match the secrets and
  amounts they stand for.\<close>

theorem device_answers:
  assumes "env_ok E" "reach (device_start E) (device_step E) d"
  shows "\<exists>r d'. handle_command E cmd payload d = (Ok r, d') \<and> response_ok r \<and> swap_ok E (dv_state d')"
  using command_answers[OF assms(1) device_reached[OF assms]] by (fastforce simp: device_ok_def)

lemma response_payload_or:
  assumes "length data \<le> MAX_PAYLOAD_SIZE"
  shows "rs_status (payload_or st data) = StOk" "response_payload (payload_or st data) = Ok data"
  using assms by (simp_all add: payload_or_def response_with_payload_def response_new_def response_payload_def slice_to_def overwrite_def
      MAX_PAYLOAD_SIZE_def unat_of_nat)

lemma get_proofs_Ok:
  assumes "handle_command E GetProofs payload d = (Ok r, d')" "rs_status r = StOk"
  obtains t encoded where "build_export_token (dv_state d) = Some t" "encode_token (de_externs E) (de_cbor E) t = Ok encoded"
    "response_payload r = Ok encoded"
  using assms response_payload_or(2)
  by (fastforce simp: handle_command_def returned_def handle_get_proofs_def answer_def response_new_def split: option.splits res.splits if_splits)

text \<open>C32: every proof exported was checked. In every reachable state, when the device hands out proofs, the answer encodes
  a token with at least one proof, and each of them carries a DLEQ proof that verifies against the key pinned in the firmware.\<close>

theorem exported_proofs_checked:
  assumes "env_ok E" "reach (device_start E) (device_step E) d"
    and "handle_command E GetProofs payload d = (Ok r, d')" "rs_status r = StOk"
  shows "\<exists>t encoded. response_payload r = Ok encoded \<and> encode_token (de_externs E) (de_cbor E) t = Ok encoded
    \<and> token_proofs t \<noteq> [] \<and> list_all (proof_checked E) (token_proofs t)"
proof -
  obtain t encoded where t: "build_export_token (dv_state d) = Some t" "encode_token (de_externs E) (de_cbor E) t = Ok encoded"
    "response_payload r = Ok encoded"
    using get_proofs_Ok[OF assms(3,4)] .
  have "token_proofs t \<noteq> [] \<and> list_all (proof_checked E) (token_proofs t)"
    using device_reached[OF assms(1,2)] t(1) by (auto simp: device_ok_def build_export_token_def token_proofs_def split: option.splits)
  with t show ?thesis by blast
qed

section \<open>A swap runs to completion\<close>

text \<open>Every point has an encoding that is read back.\<close>

definition swap_env_ok :: "('p, 'u, 'h) device_env \<Rightarrow> bool" where
  "swap_env_ok E \<longleftrightarrow> env_ok E
     \<and> (\<forall>P pk. of_point (de_curve E) P = Some pk \<longrightarrow> pk_from_bytes (de_externs E) (to_bytes pk) = Some pk)"

text \<open>The random bytes the board will deliver for these proofs are scalars that blind them.\<close>

fun draws_ok :: "('p, 'u, 'h) device_env \<Rightarrow> token_proof list \<Rightarrow> 'h \<Rightarrow> bool" where
  "draws_ok E [] h \<longleftrightarrow> True"
| "draws_ok E (p # ps) h \<longleftrightarrow> (case rng_fill_bytes (de_hw E) 32 h of (rb, h') \<Rightarrow>
     (\<exists>k b. sk_from_slice (de_externs E) rb = Some k
        \<and> blind_message (de_externs E) (de_curve E) (as_bytes (tp_secret p)) (Some k) k = Ok b) \<and> draws_ok E ps h')"

text \<open>The entry an honest mint with key \<open>a\<close> sends for a blinded output.\<close>

definition honest_entry :: "('p, 'u, 'h) device_env \<Rightarrow> secret_key \<Rightarrow> blinded \<Rightarrow> bytes \<Rightarrow> bool" where
  "honest_entry E a b entry \<longleftrightarrow> (\<exists>rho fresh d c. prove_dleq (de_externs E) (de_curve E) (bl_blinded b) a (Some rho) fresh = Ok d
     \<and> sign_message (de_curve E) a (bl_blinded b) = Ok c
     \<and> entry = to_bytes c @ to_secret_bytes (bd_e d) @ to_secret_bytes (bd_s d))"

lemma blind_proofs_all:
  assumes "env_ok E"
  shows "draws_ok E ps (dv_hw d) \<Longrightarrow> \<exists>outs h. blind_proofs E ps d = (Ok outs, d\<lparr>dv_hw := h\<rparr>) \<and> list_all (output_ok E) outs
    \<and> map (\<lambda>(s, a, _). (s, a)) outs = map (\<lambda>p. (tp_secret p, tp_amount p)) ps \<and> (\<forall>(_, _, b) \<in> set outs. key_ok (de_curve E) (bl_blinder b))"
proof (induction ps arbitrary: d)
  case Nil
  show ?case by (intro exI[of _ "[]"] exI[of _ "dv_hw d"]) simp
next
  case (Cons p ps)
  have env: "curve_ok (de_externs E) (de_curve E)" "points_encode (de_curve E)" using assms(1) by (simp_all add: env_ok_def)
  obtain rb h k b where rng: "rng_fill_bytes (de_hw E) 32 (dv_hw d) = (rb, h)" and k: "sk_from_slice (de_externs E) rb = Some k"
    and b: "blind_message (de_externs E) (de_curve E) (as_bytes (tp_secret p)) (Some k) k = Ok b" and rest: "draws_ok E ps h"
    using Cons.prems by (auto split: prod.splits)
  note key = key_ok_from_slice(1)[OF env(1) k]
  note bl = blind_message_blinds[OF env(2) b]
  obtain outs h' where outs: "blind_proofs E ps (d\<lparr>dv_hw := h\<rparr>) = (Ok outs, d\<lparr>dv_hw := h'\<rparr>)" "list_all (output_ok E) outs"
    "map (\<lambda>(s, a, _). (s, a)) outs = map (\<lambda>p. (tp_secret p, tp_amount p)) ps" "\<forall>(_, _, b) \<in> set outs. key_ok (de_curve E) (bl_blinder b)"
    using Cons.IH[of "d\<lparr>dv_hw := h\<rparr>"] rest by auto
  have "blind_proofs E (p # ps) d = (Ok ((tp_secret p, tp_amount p, b) # outs), d\<lparr>dv_hw := h'\<rparr>)"
    using rng k b outs(1) by (simp add: bind_def hw_call_def)
  moreover have "output_ok E (tp_secret p, tp_amount p, b)" using b bl by (simp add: output_ok_def)
  ultimately show ?case
    using outs(2-4) bl(1) key by (intro exI[of _ "(tp_secret p, tp_amount p, b) # outs"] exI[of _ h']) simp
qed

lemma put_points_all:
  "list_all (\<lambda>pk. length (to_bytes pk) = 33) pks \<Longrightarrow> length w + 33 * length pks \<le> MAX_PAYLOAD_SIZE
     \<Longrightarrow> put_points pks w d = (Ok (w @ concat (map to_bytes pks)), d)"
  by (induction pks arbitrary: w) (simp_all add: put_def)

lemma secret_bytes_reread:
  assumes "sk_from_slice X b = Some k"
  shows "sk_from_slice X (to_secret_bytes k) = Some k" "length (to_secret_bytes k) = 32"
  using assms by (auto simp: sk_from_slice_def split: if_splits)

lemma check_entry_honest:
  assumes "swap_env_ok E" "pinned_demo_mint_key (de_externs E) = Some (pubkey_of (de_externs E) a)" "key_ok (de_curve E) a"
    and "blinds E b secret" "key_ok (de_curve E) (bl_blinder b)" "honest_entry E a b entry"
  shows "length entry = ENTRY_LEN" "\<exists>x. check_entry E (pubkey_of (de_externs E) a) b entry = Ok x"
proof -
  let ?X = "de_externs E" and ?K = "de_curve E"
  have env: "curve_ok ?X ?K" "points_encode ?K" using assms(1) by (simp_all add: swap_env_ok_def env_ok_def)
  from assms(6) obtain rho fresh d c where d: "prove_dleq ?X ?K (bl_blinded b) a (Some rho) fresh = Ok d"
    "sign_message ?K a (bl_blinded b) = Ok c" "entry = to_bytes c @ to_secret_bytes (bd_e d) @ to_secret_bytes (bd_s d)"
    by (auto simp: honest_entry_def)
  obtain c1 where c1: "of_point ?K (c_mul ?K (to_scalar a) (to_point ?K (bl_blinded b))) = Some c1"
    "verify_dleq ?X ?K (bl_blinded b) c1 (bd_e d) (bd_s d) (pubkey_of ?X a) = Ok True"
    using prove_dleq_verifies[OF env(1) assms(3) d(1)] by blast
  then have c: "c1 = c" "pk_from_bytes ?X (to_bytes c) = Some c" "length (to_bytes c) = 33"
    using d(2) assms(1) env(2) by (auto simp: sign_message_def swap_env_ok_def points_encode_def)
  have scalars: "\<exists>e. sk_from_slice ?X e = Some (bd_e d)" "\<exists>s. sk_from_slice ?X s = Some (bd_s d)"
    using d(1) by (auto simp: prove_dleq_def)
  then have es: "sk_from_slice ?X (to_secret_bytes (bd_e d)) = Some (bd_e d)" "sk_from_slice ?X (to_secret_bytes (bd_s d)) = Some (bd_s d)"
    "length (to_secret_bytes (bd_e d)) = 32" "length (to_secret_bytes (bd_s d)) = 32"
    using secret_bytes_reread by blast+
  obtain c2 where "unblind_signature ?K c (bl_blinder b) (pubkey_of ?X a) = Ok c2"
    using blind_sign_unblind[OF env(1) assms(3,5,4)] d(2) by auto
  with c c1(2) es d(3) show "length entry = ENTRY_LEN" "\<exists>x. check_entry E (pubkey_of ?X a) b entry = Ok x"
    by (simp_all add: ENTRY_LEN_def check_entry_def Let_def)
qed

lemma chunk_nth: "list_all (\<lambda>e. length e = n) es \<Longrightarrow> i < length es \<Longrightarrow> take n (drop (i * n) (concat es)) = es ! i"
proof (induction es arbitrary: i)
  case (Cons e es)
  then show ?case by (cases i) simp_all
qed simp

lemma length_chunks: "list_all (\<lambda>e. length e = n) es \<Longrightarrow> length (concat es) = length es * n"
  by (induction es) simp_all

lemma unblind_entries_returns:
  assumes "fs_swap_secrets s = Some ss" "fs_swap_amounts s = Some as" "length as = length ss"
  shows "i + length bs \<le> length ss \<Longrightarrow>
    (\<And>j. j < length bs \<Longrightarrow> \<exists>x. check_entry E pk (bs ! j) (take ENTRY_LEN (drop ((i + j) * ENTRY_LEN) payload)) = Ok x) \<Longrightarrow>
    \<exists>ps. unblind_entries E pk s kid payload i bs = Ok ps"
proof (induction bs arbitrary: i)
  case (Cons b bs)
  obtain e sc c where x: "check_entry E pk b (take ENTRY_LEN (drop (i * ENTRY_LEN) payload)) = Ok (e, sc, c)"
    using Cons.prems(2)[of 0] by auto
  have "\<exists>ps. unblind_entries E pk s kid payload (Suc i) bs = Ok ps"
  proof (rule Cons.IH)
    show "Suc i + length bs \<le> length ss" using Cons.prems(1) by simp
    show "\<exists>x. check_entry E pk (bs ! j) (take ENTRY_LEN (drop ((Suc i + j) * ENTRY_LEN) payload)) = Ok x" if "j < length bs" for j
      using Cons.prems(2)[of "Suc j"] that by simp
  qed
  with x Cons.prems(1) assms show ?case by (auto simp: unwrap_nth_def)
qed simp

lemma unblind_entries_first: "unblind_entries E pk s kid payload i bs = Ok ps \<Longrightarrow> length ps = length bs"
  by (induction bs arbitrary: i ps) auto

lemma outputs_columns:
  assumes "map (\<lambda>(s, a, _). (s, a)) outs = map (\<lambda>p. (f p, g p)) ps"
  shows "map (\<lambda>(s, _, _). s) outs = map f ps" "map (\<lambda>(_, a, _). a) outs = map g ps" "length outs = length ps"
proof -
  have "length outs = length ps" by (rule map_eq_imp_length_eq[OF assms])
  then have "map (\<lambda>(s, _, _). s) outs = map f ps \<and> map (\<lambda>(_, a, _). a) outs = map g ps"
    using assms by (induction outs ps rule: list_induct2) auto
  with \<open>length outs = length ps\<close> show "map (\<lambda>(s, _, _). s) outs = map f ps" "map (\<lambda>(_, a, _). a) outs = map g ps" "length outs = length ps"
    by blast+
qed

lemma put_outputs:
  assumes "list_all (output_ok E) outs" "33 * length outs \<le> MAX_PAYLOAD_SIZE"
  shows "put_points (map (\<lambda>(_, _, b). bl_blinded b) outs) [] d = (Ok (concat (map (\<lambda>b. to_bytes (bl_blinded b)) (map (\<lambda>(_, _, b). b) outs))), d)"
    and "length (concat (map (\<lambda>b. to_bytes (bl_blinded b)) (map (\<lambda>(_, _, b). b) outs))) \<le> MAX_PAYLOAD_SIZE"
proof -
  let ?pks = "map (\<lambda>(_, _, b). bl_blinded b) outs"
  have eq: "map to_bytes ?pks = map (\<lambda>b. to_bytes (bl_blinded b)) (map (\<lambda>(_, _, b). b) outs)" by (simp add: case_prod_beta)
  have ok: "list_all (\<lambda>pk. length (to_bytes pk) = 33) ?pks" using assms(1) by (auto simp: list_all_iff output_ok_def)
  then have "list_all (\<lambda>e. length e = 33) (map to_bytes ?pks)" by (simp add: list.pred_map comp_def)
  from length_chunks[OF this] assms(2) show "length (concat (map (\<lambda>b. to_bytes (bl_blinded b)) (map (\<lambda>(_, _, b). b) outs))) \<le> MAX_PAYLOAD_SIZE"
    unfolding eq[symmetric] by (simp only: length_map mult.commute)
  show "put_points ?pks [] d = (Ok (concat (map (\<lambda>b. to_bytes (bl_blinded b)) (map (\<lambda>(_, _, b). b) outs))), d)"
    unfolding eq[symmetric] using put_points_all[OF ok, of "[]"] assms(2) by simp
qed

lemma get_blinded_completes:
  assumes "env_ok E" "fs_imported_token (dv_state d) = Some t" "token_proofs t \<noteq> []" "33 * length (token_proofs t) \<le> MAX_PAYLOAD_SIZE"
    and "draws_ok E (token_proofs t) (dv_hw d)"
  obtains r d1 bs where "handle_command E GetBlinded p d = (Ok r, d1)" "rs_status r = StOk"
    "response_payload r = Ok (concat (map (\<lambda>b. to_bytes (bl_blinded b)) bs))"
    "fs_blinded_messages (dv_state d1) = Some bs" "fs_imported_token (dv_state d1) = Some t"
    "fs_swap_secrets (dv_state d1) = Some (map tp_secret (token_proofs t))" "fs_swap_amounts (dv_state d1) = Some (map tp_amount (token_proofs t))"
    "list_all2 (blinds E) bs (map tp_secret (token_proofs t))" "list_all (\<lambda>b. key_ok (de_curve E) (bl_blinder b)) bs"
proof -
  obtain outs h where outs: "blind_proofs E (token_proofs t) d = (Ok outs, d\<lparr>dv_hw := h\<rparr>)" "list_all (output_ok E) outs"
    "map (\<lambda>(s, a, _). (s, a)) outs = map (\<lambda>p. (tp_secret p, tp_amount p)) (token_proofs t)" "\<forall>(_, _, b) \<in> set outs. key_ok (de_curve E) (bl_blinder b)"
    using blind_proofs_all[OF assms(1,5)] by blast
  let ?bs = "map (\<lambda>(_, _, b). b) outs"
  let ?payload = "concat (map (\<lambda>b. to_bytes (bl_blinded b)) ?bs)"
  note columns = outputs_columns[OF outs(3)]
  have fits: "33 * length outs \<le> MAX_PAYLOAD_SIZE" using columns(3) assms(4) by simp
  note put = put_outputs[OF outs(2) fits]
  let ?f = "\<lambda>s. s\<lparr>fs_blinded_messages := Some ?bs, fs_swap_secrets := Some (map (\<lambda>(s, _, _). s) outs),
       fs_swap_amounts := Some (map (\<lambda>(_, a, _). a) outs), fs_swap_state := BlindedGenerated\<rparr>"
  let ?d1 = "d\<lparr>dv_state := ?f (dv_state d), dv_hw := draw (de_hw E) (RenderStatus ''Blinded outputs ready'') h\<rparr>"
  have nonempty: "outs \<noteq> []" "\<not> length outs * 33 > MAX_PAYLOAD_SIZE" using columns(3) assms(3) fits by auto
  have "handle_get_blinded E d = (Ok (payload_or StBufferOverflow ?payload), ?d1)"
    unfolding handle_get_blinded_def bind_gets assms(2) option.case
    by (simp only: bind_apply_Ok[where m = "blind_proofs E (token_proofs t)", OF outs(1)] nonempty if_False
        bind_apply_Ok[where m = "put_points (map (\<lambda>(_, _, b). bl_blinded b) outs) []", OF put(1)])
      (simp add: set_state_def drawn_def hw_do_def)
  then have "handle_command E GetBlinded p d = (Ok (payload_or StBufferOverflow ?payload), ?d1)"
    by (simp add: handle_command_def returned_def)
  moreover have "list_all2 (blinds E) ?bs (map tp_secret (token_proofs t))"
    using list_all2_outputs[OF outs(2)] unfolding columns(1) .
  moreover have "list_all (\<lambda>b. key_ok (de_curve E) (bl_blinder b)) ?bs" using outs(4) by (auto simp: list_all_iff)
  ultimately show thesis
    using that[of _ ?d1 ?bs] response_payload_or[OF put(2), of StBufferOverflow] assms(2) columns(1,2) by simp
qed

text \<open>The second half of the swap.\<close>

lemma send_signatures_completes:
  assumes env: "swap_env_ok E" and key: "sk_from_slice (de_externs E) (sha256 (de_externs E) (as_bytes ''demo://micronuts'')) = Some a"
    and st: "fs_blinded_messages (dv_state d) = Some bs" "fs_imported_token (dv_state d) = Some t" "token_proofs t \<noteq> []"
      "fs_swap_secrets (dv_state d) = Some (map tp_secret (token_proofs t))" "fs_swap_amounts (dv_state d) = Some (map tp_amount (token_proofs t))"
    and bs: "list_all2 (blinds E) bs (map tp_secret (token_proofs t))" "list_all (\<lambda>b. key_ok (de_curve E) (bl_blinder b)) bs"
    and entries: "list_all2 (honest_entry E a) bs entries"
  shows "\<exists>d2 t'. handle_command E SendSignatures (concat entries) d = (Ok (response_new StOk), d2)
    \<and> fs_swap_state (dv_state d2) = ProofsReady \<and> build_export_token (dv_state d2) = Some t' \<and> tk_mint t' = tk_mint t
    \<and> map tp_secret (token_proofs t') = map tp_secret (token_proofs t) \<and> map tp_amount (token_proofs t') = map tp_amount (token_proofs t)
    \<and> list_all (proof_checked E) (token_proofs t')"
proof -
  have ok: "env_ok E" using env by (simp add: swap_env_ok_def)
  then have a: "key_ok (de_curve E) a" using key key_ok_from_slice(1) by (auto simp: env_ok_def)
  have pinned: "pinned_demo_mint_key (de_externs E) = Some (pubkey_of (de_externs E) a)" using key by (simp add: pinned_demo_mint_key_def)
  have len: "length bs = length (token_proofs t)" using bs(1) list_all2_lengthD by fastforce
  have entry: "length (entries ! j) = ENTRY_LEN" "\<exists>x. check_entry E (pubkey_of (de_externs E) a) (bs ! j) (entries ! j) = Ok x"
    if "j < length bs" for j
    using check_entry_honest[OF env pinned a, where b = "bs ! j" and secret = "map tp_secret (token_proofs t) ! j" and entry = "entries ! j"] that
      list_all2_nthD[OF bs(1)] list_all2_nthD[OF entries] bs(2) by (auto simp: list_all_length)
  have sizes: "length entries = length bs" "list_all (\<lambda>e. length e = ENTRY_LEN) entries"
    using entry(1) list_all2_lengthD[OF entries] by (auto simp: list_all_length)
  let ?kid = "first_keyset_id (dv_state d)"
  have "\<exists>ps. unblind_entries E (pubkey_of (de_externs E) a) (dv_state d) ?kid (concat entries) 0 bs = Ok ps"
    by (rule unblind_entries_returns[OF st(4,5)]) (use entry(2) chunk_nth[OF sizes(2)] sizes(1) len in simp_all)
  then obtain ps where ps: "unblind_entries E (pubkey_of (de_externs E) a) (dv_state d) ?kid (concat entries) 0 bs = Ok ps" by blast
  have checked: "map tp_secret ps = map tp_secret (token_proofs t)" "map tp_amount ps = map tp_amount (token_proofs t)" "list_all (proof_checked E) ps"
    using unblind_entries_checked[OF ok pinned st(4,5), where i = 0 and bs = bs and kid = ?kid and payload = "concat entries"] bs(1) ps by simp_all
  have "ps \<noteq> []" using checked(1) st(3) by auto
  let ?d2 = "d\<lparr>dv_state := (dv_state d)\<lparr>fs_new_proofs := Some ps, fs_swap_state := ProofsReady\<rparr>, dv_hw := draw (de_hw E) (RenderStatus ''Proofs ready'') (dv_hw d)\<rparr>"
  have "handle_send_signatures E (concat entries) d = (Ok (response_new StOk), ?d2)"
    using st(1) pinned ps \<open>ps \<noteq> []\<close> length_chunks[OF sizes(2)] sizes(1)
    by (simp add: handle_send_signatures_def ENTRY_LEN_def bind_def set_state_def drawn_def hw_do_def)
  then have "handle_command E SendSignatures (concat entries) d = (Ok (response_new StOk), ?d2)" by (simp add: handle_command_def returned_def)
  then show ?thesis using st(2) checked by (intro exI[of _ ?d2]) (simp add: build_export_token_def token_proofs_def)
qed

text \<open>C33: a swap runs to completion. After a token was imported, the device answers with the blinded outputs of its proofs, and
  whatever nonces an honest mint uses, its signatures are accepted and the device holds a token of the same mint with the
  same secrets and amounts whose proofs all verify. The statement is about the handlers of the commands: the signatures of more than ten
  proofs do not fit the frame that should carry them.\<close>

theorem device_swap_completes:
  assumes "swap_env_ok E" "sk_from_slice (de_externs E) (sha256 (de_externs E) (as_bytes ''demo://micronuts'')) = Some a"
    and "fs_imported_token (dv_state d) = Some t" "token_proofs t \<noteq> []" "33 * length (token_proofs t) \<le> MAX_PAYLOAD_SIZE"
    and "draws_ok E (token_proofs t) (dv_hw d)"
  shows "\<exists>r1 d1 bs. handle_command E GetBlinded p d = (Ok r1, d1) \<and> rs_status r1 = StOk
    \<and> fs_blinded_messages (dv_state d1) = Some bs \<and> response_payload r1 = Ok (concat (map (\<lambda>b. to_bytes (bl_blinded b)) bs))
    \<and> (\<forall>entries. list_all2 (honest_entry E a) bs entries \<longrightarrow>
        (\<exists>d2 t'. handle_command E SendSignatures (concat entries) d1 = (Ok (response_new StOk), d2)
          \<and> fs_swap_state (dv_state d2) = ProofsReady \<and> build_export_token (dv_state d2) = Some t' \<and> tk_mint t' = tk_mint t
          \<and> map tp_secret (token_proofs t') = map tp_secret (token_proofs t) \<and> map tp_amount (token_proofs t') = map tp_amount (token_proofs t)
          \<and> list_all (proof_checked E) (token_proofs t')))"
proof -
  have env: "env_ok E" using assms(1) by (simp add: swap_env_ok_def)
  obtain r1 d1 bs where d1: "handle_command E GetBlinded p d = (Ok r1, d1)" "rs_status r1 = StOk"
    "response_payload r1 = Ok (concat (map (\<lambda>b. to_bytes (bl_blinded b)) bs))"
    "fs_blinded_messages (dv_state d1) = Some bs" "fs_imported_token (dv_state d1) = Some t"
    "fs_swap_secrets (dv_state d1) = Some (map tp_secret (token_proofs t))" "fs_swap_amounts (dv_state d1) = Some (map tp_amount (token_proofs t))"
    "list_all2 (blinds E) bs (map tp_secret (token_proofs t))" "list_all (\<lambda>b. key_ok (de_curve E) (bl_blinder b)) bs"
    by (rule get_blinded_completes[OF env assms(3-6)])
  show ?thesis using d1(1-4) send_signatures_completes[OF assms(1,2) d1(4,5) assms(4) d1(6-9)] by blast
qed

section \<open>Two ways to capture\<close>

text \<open>What was scanned and what was read from a tag are the same command apart from where the bytes come from: the answer and the state
  afterwards are the same.\<close>

lemma classify_board:
  "fst (classify_and_assemble E data (d\<lparr>dv_hw := h\<rparr>)) = fst (classify_and_assemble E data (d\<lparr>dv_hw := k, dv_last_scan := x\<rparr>))"
  "dv_state (snd (classify_and_assemble E data (d\<lparr>dv_hw := h\<rparr>))) = dv_state (snd (classify_and_assemble E data (d\<lparr>dv_hw := k, dv_last_scan := x\<rparr>)))"
proof -
  obtain out a where p: "asm_process (de_externs E) (de_cbor E) (de_gm65 E) data (fs_scan_assembler (dv_state d)) = (out, a)" by fastforce
  let ?c = "classify_and_assemble E data"
  show "fst (?c (d\<lparr>dv_hw := h\<rparr>)) = fst (?c (d\<lparr>dv_hw := k, dv_last_scan := x\<rparr>))"
    "dv_state (snd (?c (d\<lparr>dv_hw := h\<rparr>))) = dv_state (snd (?c (d\<lparr>dv_hw := k, dv_last_scan := x\<rparr>)))"
    by (cases out; cases "decode_qr (de_gm65 E) data";
        simp add: p classify_and_assemble_def Let_def bind_def drawn_def hw_do_def set_state_def split: qr_payload.split)+
qed

lemma captures_agree:
  fixes E :: "('p, 'u, 'h) device_env"
  assumes "nfc_read_ndef (de_hw E) (dv_hw d) = (Some data, h)" "dv_last_scan d = Some data"
  shows "fst (handle_command E NfcData p d) = fst (handle_command E ScannerData q d)
    \<and> dv_state (snd (handle_command E NfcData p d)) = dv_state (snd (handle_command E ScannerData q d))"
proof -
  let ?m = "classify_and_assemble E data"
  have same: "d\<lparr>dv_last_scan := None\<rparr> = d\<lparr>dv_hw := dv_hw d, dv_last_scan := None\<rparr>" by simp
  have "handle_command E NfcData p d = returned ?m (d\<lparr>dv_hw := h\<rparr>)" "handle_command E ScannerData q d = returned ?m (d\<lparr>dv_last_scan := None\<rparr>)"
    using assms by (simp_all add: handle_command_def returned_def bind_def hw_call_def)
  moreover have "fst (returned m c) = (case fst (m c) of Err r \<Rightarrow> Ok r | other \<Rightarrow> other)" "dv_state (snd (returned m c)) = dv_state (snd (m c))"
    for m :: "('u, 'h, response) dv_op" and c :: "('u, 'h) device"
    by (simp_all add: returned_def split: prod.split res.split)
  ultimately show ?thesis using classify_board[of E data h d None "dv_hw d", folded same] by simp
qed

section \<open>A device that runs\<close>

text \<open>A board whose touch screen reports one finger, whose scanner stays silent and whose random bytes are the scalar 1; the group is that of
  the integers modulo 5, where hashes are the scalar 1 as well.\<close>

definition sample_board :: "bool hardware" where
  "sample_board = \<lparr>is_connected = (\<lambda>_. True), set_aim = (\<lambda>_ h. (Ok (), h)), trigger = (\<lambda>h. (Ok (), h)), read_scan_within = (\<lambda>_ h. (None, h)),
     hw_stop = (\<lambda>h. h), deep_sleep_reboot = (\<lambda>h. (True, h)), reinit_scanner = (\<lambda>h. (Ok (), h)), factory_heal = (\<lambda>h. (Ok (), h)),
     nfc_is_connected = (\<lambda>_. False), nfc_poll = (\<lambda>h. (Ok False, h)), nfc_read_ndef = (\<lambda>h. (None, h)), nfc_heal = (\<lambda>h. (Ok (), h)),
     draw = (\<lambda>_ h. h), qr_fits = (\<lambda>_. True), swap_buffers = (\<lambda>h. h), rng_fill_bytes = (\<lambda>_ h. (replicate 31 0 @ [1], h)),
     transport_send = (\<lambda>_ h. h), touch_get = (\<lambda>h. (if h then Some \<lparr>tp_x = 100, tp_y = 150, tp_detected = True\<rparr> else None, False)), instant_now = (\<lambda>h. (0, h)), tick_hz = 1000\<rparr>"

definition sample_gm65 :: "unit gm65" where
  "sample_gm65 = \<lparr>gm_parse_ur = (\<lambda>_. None), gm_classify = (\<lambda>_. PtCashuV4), ur_new = (), ur_reset = (\<lambda>_. ()), ur_feed = (\<lambda>_ _. (None, ())),
     ur_progress = (\<lambda>_. (0, 0)), ur_is_active = (\<lambda>_. False)\<rparr>"

definition pointwise :: "z5 curve" where
  "pointwise = z5_curve\<lparr>uncompressed := (\<lambda>pk. [word_of_int (Rep_z5 (to_point z5_curve pk))])\<rparr>"

definition sample_device :: "(z5, unit, bool) device_env" where
  "sample_device = \<lparr>de_externs = z5_externs, de_cbor = wide_cbor, de_curve = pointwise, de_gm65 = sample_gm65, de_hw = sample_board\<rparr>"

lemma pointwise_simps [simp]:
  "c_add pointwise = c_add z5_curve" "c_neg pointwise = c_neg z5_curve" "c_zero pointwise = c_zero z5_curve" "c_gen pointwise = c_gen z5_curve"
  "c_mul pointwise = c_mul z5_curve" "c_order pointwise = c_order z5_curve" "to_point pointwise = to_point z5_curve" "of_point pointwise = of_point z5_curve"
  by (simp_all add: pointwise_def)

lemma pointwise_same [simp]:
  "blind_message X pointwise = blind_message X z5_curve" "unblind_signature pointwise = unblind_signature z5_curve" "sign_message pointwise = sign_message z5_curve"
  by (simp_all add: fun_eq_iff blind_message_def unblind_signature_def sign_message_def c_sub_def)

lemma pointwise_ok: "curve_ok z5_externs pointwise"
  using z5_ok unfolding curve_ok_def group_laws_def scalar_laws_def order_laws_def encoding_laws_def pointwise_simps .

lemma sample_device_ok: "swap_env_ok sample_device"
proof -
  have "points_encode pointwise" using z5_of_point_reads(1) by (simp add: points_encode_def pointwise_def)
  moreover have "hw_returns sample_board" by (simp add: hw_returns_def sample_board_def)
  ultimately show ?thesis
    using pointwise_ok wide_cbor_consumes z5_of_point_reads(2) by (simp add: swap_env_ok_def env_ok_def sample_device_def)
qed

lemma sample_env_ok: "env_ok sample_device"
  using sample_device_ok by (simp add: swap_env_ok_def)

abbreviation sample_start :: "bool \<Rightarrow> (unit, bool) device" where
  "sample_start h \<equiv> \<lparr>dv_state = firmware_state_new sample_gm65, dv_hw = h, dv_last_scan = None\<rparr>"

lemma sample_start_reached: "reach (device_start sample_device) (device_step sample_device) (sample_start h)"
  using device_start.intros[of sample_device h] by (auto intro: reach_init simp: sample_device_def)

theorem device_answers_witness:
  "\<exists>r d. handle_command sample_device GetBlinded [] (sample_start False) = (Ok r, d) \<and> response_ok r \<and> swap_ok sample_device (dv_state d)"
  by (rule device_answers[OF sample_env_ok sample_start_reached])

text \<open>A swap of one proof on that device.\<close>

definition swap_token :: token_v4 where
  "swap_token = \<lparr>tk_mint = ''https://mint'', tk_unit = ''sat'', tk_memo = None,
     tk_tokens = [\<lparr>tg_keyset_id = ''00ab'', tg_proofs = [\<lparr>tp_amount = 8, tp_keyset_id = ''00ab'', tp_secret = ''aa'', tp_c = [2, 3], tp_dleq = None\<rparr>]\<rparr>]\<rparr>"

definition swap_blinded :: blinded where
  "swap_blinded = \<lparr>bl_blinded = PublicKey (to_be_bytes 33 4), bl_blinder = z5_key 1\<rparr>"

definition swap_proof :: token_proof where
  "swap_proof = \<lparr>tp_amount = 8, tp_keyset_id = ''00ab'', tp_secret = ''aa'', tp_c = to_be_bytes 33 3,
     tp_dleq = Some \<lparr>pd_e = z5_key 1, pd_s = SecretKey (to_be_bytes 32 2), pd_r = z5_key 1\<rparr>\<rparr>"

definition swap_entry :: bytes where
  "swap_entry = to_be_bytes 33 4 @ to_secret_bytes (z5_key 1) @ to_be_bytes 32 2"

abbreviation swap_fresh :: "swap_state \<Rightarrow> unit firmware_state" where
  "swap_fresh st \<equiv> (firmware_state_new sample_gm65)\<lparr>fs_imported_token := Some swap_token, fs_swap_state := st\<rparr>"

abbreviation swap_blind :: "swap_state \<Rightarrow> unit firmware_state" where
  "swap_blind st \<equiv> (swap_fresh st)\<lparr>fs_blinded_messages := Some [swap_blinded], fs_swap_secrets := Some [''aa''], fs_swap_amounts := Some [8]\<rparr>"

lemma z5_slice_one: "sk_from_slice z5_externs (replicate 31 0 @ [1]) = Some (z5_key 1)"
  using z5_one[of z5_curve] by (simp add: hash_e_def z5_externs_def)

lemma z5_of_points:
  "of_point z5_curve (z5 1) = Some (PublicKey (to_be_bytes 33 1))" "of_point z5_curve (z5 3) = Some (PublicKey (to_be_bytes 33 3))"
  "of_point z5_curve (z5 4) = Some (PublicKey (to_be_bytes 33 4))"
  by (simp_all add: z5_curve_def z5_eq_iff)

lemma z5_blinds_to: "blind_message z5_externs z5_curve m (Some (z5_key 1)) (z5_key 1) = Ok swap_blinded"
proof -
  obtain bm where bm: "blind_message z5_externs z5_curve m (Some (z5_key 1)) (z5_key 1) = Ok bm" "to_point z5_curve (bl_blinded bm) = z5 4"
    using z5_blinds by blast
  then have "of_point z5_curve (z5 4) = Some (bl_blinded bm)" "bl_blinder bm = z5_key 1"
    using of_pointD[OF z5_ok] by (auto simp: blind_message_def Let_def)
  with bm(1) show ?thesis unfolding z5_of_points by (cases bm) (auto simp: swap_blinded_def)
qed

lemma z5_key_1: "to_scalar (z5_key 1) = 1" "to_scalar (SecretKey (to_be_bytes 32 2)) = 2"
  using z5_key_scalar[of 1] from_to_be_bytes[of 2 32] by (simp_all add: to_scalar_def)

lemma z5_points_four: "to_point z5_curve (PublicKey (to_be_bytes 33 4)) = z5 4"
  using of_pointD[OF z5_ok z5_of_points(3)] by blast

lemma z5_pinned_point: "to_point z5_curve (pubkey_of z5_externs (z5_key 1)) = z5 1"
  using pubkey_point[OF z5_ok z5_key_ok[of 1]] by (simp add: z5_key_1 z5_curve_def z5_eq_iff del: One_nat_def)

lemma swap_entry_checks:
  "check_entry sample_device (pubkey_of z5_externs (z5_key 1)) swap_blinded swap_entry = Ok (z5_key 1, SecretKey (to_be_bytes 32 2), PublicKey (to_be_bytes 33 3))"
proof -
  have r: "c_sub pointwise (c_mul z5_curve 2 (c_gen z5_curve)) (c_mul z5_curve 1 (z5 1)) = z5 1"
    "c_sub pointwise (c_mul z5_curve 2 (z5 4)) (c_mul z5_curve 1 (z5 4)) = z5 4" "c_sub z5_curve (z5 4) (c_mul z5_curve 1 (z5 1)) = z5 3"
    by (simp_all add: c_sub_def z5_curve_def z5_eq_iff)
  have h: "to_secret_bytes (z5_key 1) = hash_e z5_externs pointwise r1 r2 A C" for r1 r2 A C
    by (simp add: hash_e_def z5_externs_def z5_key_def)
  have v: "verify_dleq z5_externs pointwise (PublicKey (to_be_bytes 33 4)) (PublicKey (to_be_bytes 33 4)) (z5_key 1) (SecretKey (to_be_bytes 32 2))
      (pubkey_of z5_externs (z5_key 1)) = Ok True"
    unfolding verify_dleq_def dleq_r1_def dleq_r2_def using r(1,2) h by (simp add: z5_points_four z5_pinned_point z5_key_1 z5_of_points del: One_nat_def)
  have u: "unblind_signature z5_curve (PublicKey (to_be_bytes 33 4)) (z5_key 1) (pubkey_of z5_externs (z5_key 1)) = Ok (PublicKey (to_be_bytes 33 3))"
    by (simp add: unblind_signature_def z5_points_four z5_pinned_point z5_key_1 r(3) z5_of_points del: One_nat_def)
  have k: "to_secret_bytes (z5_key 1) = replicate 31 0 @ [1]" by (simp add: z5_key_def)
  show ?thesis
    using v u z5_of_point_reads(2)[OF z5_of_points(3)] z5_scalar_slice[of 2] z5_slice_one
    unfolding check_entry_def swap_entry_def k by (simp add: sample_device_def swap_blinded_def del: One_nat_def)
qed

lemma swap_token_ok: "token_ok z5_externs wide_cbor swap_token"
  by (simp add: token_ok_def swap_token_def str_ok_def short_def group_ok_def proof_ok_def z5_externs_def demo_externs_def wide_cbor_def comp_def)

lemma swap_imports: "\<exists>p. handle_command sample_device ImportToken p (sample_start h) = (Ok (response_new StOk), (sample_start h)\<lparr>dv_state := swap_fresh TokenImported\<rparr>)"
proof -
  obtain bs where bs: "encode_token z5_externs wide_cbor swap_token = Ok bs" using encode_token_Ok[OF swap_token_ok] by blast
  have "decode_token z5_externs wide_cbor (as_bytes (CASHU_B @ of_bytes (encode_base64url bs))) = Ok swap_token"
    using token_reads[OF wide_cbor_ok swap_token_ok bs, of "[]"] base64url.dec_enc[of bs] by (simp add: decode_token_def comp_def Let_def)
  then show ?thesis
    by (intro exI[of _ "as_bytes (CASHU_B @ of_bytes (encode_base64url bs))"])
      (simp add: handle_command_def returned_def handle_import_def set_state_def drawn_def hw_do_def sample_device_def sample_board_def)
qed

lemma swap_blinds:
  "\<exists>r. handle_command sample_device GetBlinded [] ((sample_start h)\<lparr>dv_state := swap_fresh TokenImported\<rparr>) = (Ok r, (sample_start h)\<lparr>dv_state := swap_blind BlindedGenerated\<rparr>)"
  using z5_blinds_to[of "as_bytes ''aa''"] z5_slice_one
  by (simp add: handle_command_def returned_def handle_get_blinded_def set_state_def drawn_def hw_do_def hw_call_def bind_def put_def MAX_PAYLOAD_SIZE_def
      sample_device_def sample_board_def swap_token_def token_proofs_def swap_blinded_def)

lemma swap_signs:
  "handle_command sample_device SendSignatures swap_entry ((sample_start h)\<lparr>dv_state := swap_blind BlindedGenerated\<rparr>)
     = (Ok (response_new StOk), (sample_start h)\<lparr>dv_state := (swap_blind ProofsReady)\<lparr>fs_new_proofs := Some [swap_proof]\<rparr>\<rparr>)"
proof -
  have "pinned_demo_mint_key z5_externs = Some (pubkey_of z5_externs (z5_key 1))"
    using z5_slice_one by (simp add: pinned_demo_mint_key_def z5_externs_def)
  moreover have "length swap_entry = ENTRY_LEN" "ENTRY_LEN div ENTRY_LEN = 1" by (simp_all add: swap_entry_def ENTRY_LEN_def z5_key_def)
  ultimately show ?thesis
    using swap_entry_checks
    by (simp add: handle_command_def returned_def handle_send_signatures_def set_state_def drawn_def hw_do_def bind_def unwrap_nth_def first_keyset_id_def
        sample_device_def sample_board_def swap_token_def swap_blinded_def swap_proof_def)
qed

lemma swap_proof_fits:
  assumes "encode_token z5_externs wide_cbor \<lparr>tk_mint = ''https://mint'', tk_unit = ''sat'', tk_memo = Some ''Swapped via Micronuts'',
     tk_tokens = [\<lparr>tg_keyset_id = ''00ab'', tg_proofs = [swap_proof]\<rparr>]\<rparr> = Ok bs"
  shows "length bs \<le> MAX_PAYLOAD_SIZE"
  using assms by (auto simp: encode_token_def encode_group_def encode_proof_def encode_dleq_def swap_proof_def z5_externs_def demo_externs_def wide_cbor_def cbor_head_def
      z5_key_def MAX_PAYLOAD_SIZE_def)

lemma get_proofs_answers:
  assumes "build_export_token (dv_state d) = Some t" "encode_token (de_externs E) (de_cbor E) t = Ok bs" "length bs \<le> MAX_PAYLOAD_SIZE"
  shows "handle_command E GetProofs p d = (Ok (payload_or StBufferOverflow bs), d)"
  using assms by (simp add: handle_command_def returned_def handle_get_proofs_def)

lemma swap_exports:
  "\<exists>r d. handle_command sample_device GetProofs [] ((sample_start h)\<lparr>dv_state := (swap_blind ProofsReady)\<lparr>fs_new_proofs := Some [swap_proof]\<rparr>\<rparr>) = (Ok r, d) \<and> rs_status r = StOk"
proof -
  define t where "t = \<lparr>tk_mint = ''https://mint'', tk_unit = ''sat'', tk_memo = Some ''Swapped via Micronuts'', tk_tokens = [\<lparr>tg_keyset_id = ''00ab'', tg_proofs = [swap_proof]\<rparr>]\<rparr>"
  have "hex_decode z5_externs s = Some (as_bytes s)" for s by (simp add: z5_externs_def demo_externs_def)
  then obtain bs where bs: "encode_token z5_externs wide_cbor t = Ok bs" by (simp add: encode_token_def encode_group_def t_def)
  then have fits: "length bs \<le> MAX_PAYLOAD_SIZE" unfolding t_def by (rule swap_proof_fits)
  have "build_export_token ((swap_blind ProofsReady)\<lparr>fs_new_proofs := Some [swap_proof]\<rparr>) = Some t"
    by (simp add: build_export_token_def swap_token_def swap_proof_def t_def)
  then have "handle_command sample_device GetProofs [] ((sample_start h)\<lparr>dv_state := (swap_blind ProofsReady)\<lparr>fs_new_proofs := Some [swap_proof]\<rparr>\<rparr>)
      = (Ok (payload_or StBufferOverflow bs), (sample_start h)\<lparr>dv_state := (swap_blind ProofsReady)\<lparr>fs_new_proofs := Some [swap_proof]\<rparr>\<rparr>)"
    using bs fits by (intro get_proofs_answers) (simp_all add: sample_device_def)
  with response_payload_or(1)[OF fits] show ?thesis by (intro exI conjI)
qed

definition swapped :: "(unit, bool) device" where
  "swapped = (sample_start False)\<lparr>dv_state := (swap_blind ProofsReady)\<lparr>fs_new_proofs := Some [swap_proof]\<rparr>\<rparr>"

lemma reach_command:
  "reach (device_start E) (device_step E) d \<Longrightarrow> handle_command E cmd p d = (r, d') \<Longrightarrow> reach (device_start E) (device_step E) d'"
  by (erule reach_step) (erule step_command)

lemma swapped_reached: "reach (device_start sample_device) (device_step sample_device) swapped"
  unfolding swapped_def
  by (rule exE[OF swap_imports[of False]], rule exE[OF swap_blinds[of False]])
    (rule reach_command[OF reach_command[OF reach_command[OF sample_start_reached]] swap_signs])

lemma swapped_exports: "\<exists>r d. handle_command sample_device GetProofs [] swapped = (Ok r, d) \<and> rs_status r = StOk"
  unfolding swapped_def by (rule swap_exports)

theorem exported_proofs_checked_witness:
  "reach (device_start sample_device) (device_step sample_device) swapped
     \<and> (\<exists>r d'. handle_command sample_device GetProofs [] swapped = (Ok r, d') \<and> rs_status r = StOk
       \<and> (\<exists>t encoded. response_payload r = Ok encoded \<and> encode_token (de_externs sample_device) (de_cbor sample_device) t = Ok encoded
          \<and> token_proofs t \<noteq> [] \<and> list_all (proof_checked sample_device) (token_proofs t)))"
  using swapped_reached swapped_exports exported_proofs_checked[OF sample_env_ok swapped_reached] by blast

definition swap_imported :: "(unit, bool) device" where
  "swap_imported = (sample_start False)\<lparr>dv_state := swap_fresh TokenImported\<rparr>"

lemma swap_entry_honest: "honest_entry sample_device (z5_key 1) swap_blinded swap_entry"
proof -
  have pts: "c_mul z5_curve 1 (z5 4) = z5 4" "c_mul z5_curve 1 (c_gen z5_curve) = z5 1" by (simp_all add: z5_curve_def z5_eq_iff)
  have "scalar_bytes pointwise (1 + 1 * 1) = to_be_bytes 32 2" by (simp add: scalar_bytes_def z5_curve_def)
  with z5_scalar_slice[of 2] have "prove_dleq z5_externs pointwise (bl_blinded swap_blinded) (z5_key 1) (Some (z5_key 1)) None
      = Ok \<lparr>bd_e = z5_key 1, bd_s = SecretKey (to_be_bytes 32 2)\<rparr>"
    unfolding prove_dleq_def option.case res_bind.simps z5_key_1 swap_blinded_def blinded.simps pointwise_simps z5_points_four pts z5_of_points ok_or_simps z5_one by simp
  moreover have "sign_message z5_curve (z5_key 1) (bl_blinded swap_blinded) = Ok (PublicKey (to_be_bytes 33 4))"
    by (simp add: sign_message_def swap_blinded_def z5_key_1 z5_points_four pts z5_of_points del: One_nat_def)
  ultimately show ?thesis
    unfolding honest_entry_def by (intro exI[of _ "z5_key 1"] exI[of _ None] exI[of _ "\<lparr>bd_e = z5_key 1, bd_s = SecretKey (to_be_bytes 32 2)\<rparr>"]
        exI[of _ "PublicKey (to_be_bytes 33 4)"]) (simp add: sample_device_def swap_entry_def)
qed

lemma swap_waits: "\<exists>r d. handle_command sample_device GetBlinded [] swap_imported = (Ok r, d) \<and> fs_blinded_messages (dv_state d) = Some [swap_blinded]"
proof -
  obtain r where "handle_command sample_device GetBlinded [] swap_imported = (Ok r, (sample_start False)\<lparr>dv_state := swap_blind BlindedGenerated\<rparr>)"
    unfolding swap_imported_def by (rule exE[OF swap_blinds])
  then show ?thesis by simp
qed

lemma swap_draws: "draws_ok sample_device (token_proofs swap_token) (dv_hw swap_imported)"
  using z5_blinds_to z5_slice_one by (simp add: sample_device_def sample_board_def token_proofs_def swap_token_def)

lemma swap_pinned: "sk_from_slice (de_externs sample_device) (sha256 (de_externs sample_device) (as_bytes ''demo://micronuts'')) = Some (z5_key 1)"
  using z5_slice_one by (simp add: sample_device_def z5_externs_def)

theorem device_swap_completes_witness:
  "honest_entry sample_device (z5_key 1) swap_blinded swap_entry
   \<and> (\<exists>r1 d1 d2 t'. handle_command sample_device GetBlinded [] swap_imported = (Ok r1, d1) \<and> rs_status r1 = StOk
    \<and> fs_blinded_messages (dv_state d1) = Some [swap_blinded]
    \<and> handle_command sample_device SendSignatures (concat [swap_entry]) d1 = (Ok (response_new StOk), d2)
    \<and> fs_swap_state (dv_state d2) = ProofsReady \<and> build_export_token (dv_state d2) = Some t' \<and> tk_mint t' = tk_mint swap_token
    \<and> map tp_secret (token_proofs t') = map tp_secret (token_proofs swap_token) \<and> map tp_amount (token_proofs t') = map tp_amount (token_proofs swap_token)
    \<and> list_all (proof_checked sample_device) (token_proofs t'))"
proof -
  have token: "fs_imported_token (dv_state swap_imported) = Some swap_token" "token_proofs swap_token \<noteq> []" "33 * length (token_proofs swap_token) \<le> MAX_PAYLOAD_SIZE"
    by (simp_all add: swap_imported_def swap_token_def token_proofs_def MAX_PAYLOAD_SIZE_def)
  obtain r d where run: "handle_command sample_device GetBlinded [] swap_imported = (Ok r, d)" "fs_blinded_messages (dv_state d) = Some [swap_blinded]"
    using swap_waits by blast
  have honest: "list_all2 (honest_entry sample_device (z5_key 1)) [swap_blinded] [swap_entry]" using swap_entry_honest by simp
  show ?thesis
    using device_swap_completes[OF sample_device_ok swap_pinned token swap_draws, of "[]"] run honest swap_entry_honest by (metis Pair_inject option.inject)
qed

end
