(* ===== verification/App_Theorems.thy ===== *)
theory App_Theorems
  imports App Device_Theorems
begin

text \<open>
  The main loop: its counters stay in bounds, the firmware state keeps its invariant, scanning ends by itself, and the
  only panics are those of the clock arithmetic.
\<close>

section \<open>Evaluating a turn\<close>

abbreviation with_hw :: "('h \<Rightarrow> 'h) \<Rightarrow> ('u, 'h) app \<Rightarrow> ('u, 'h) app" where
  "with_hw f a \<equiv> a\<lparr>ap_device := (ap_device a)\<lparr>dv_hw := f (dv_hw (ap_device a))\<rparr>\<rparr>"

lemma bind_ask_board [simp]: "bind (ask_board f) g a = g (fst (f (dv_hw (ap_device a)))) (with_hw (\<lambda>h. snd (f h)) a)"
  by (simp add: bind_def ask_board_def split: prod.split)

lemma call_board_modify: "call_board f = modify (with_hw (\<lambda>h. snd (f h)))"
  by (simp add: call_board_def fun_eq_iff)

lemmas app_ops = shown_def board_def call_board_modify set_screen_def set_last_scan_def set_firmware_def set_aim_on_def clear_scan_counts_def
  import_scanned_def bind_assoc

section \<open>The invariant of the loop\<close>

definition loop_ok :: "('u, 'h) app \<Rightarrow> bool" where
  "loop_ok a \<longleftrightarrow> unat (ap_scan_ticks a) \<le> 2000 \<and> unat (ap_scan_retries a) \<le> 2
     \<and> (ap_screen a \<noteq> Scanning \<longrightarrow> ap_scan_ticks a = 0 \<and> ap_scan_retries a = 0)"

definition app_ok :: "('p, 'u, 'h) device_env \<Rightarrow> ('u, 'h) app \<Rightarrow> bool" where
  "app_ok E a \<longleftrightarrow> state_ok E (dv_state (ap_device a)) \<and> loop_ok a"

lemma state_ok_assembler [simp]: "state_ok E (s\<lparr>fs_scan_assembler := x\<rparr>) = state_ok E s"
  by (simp add: state_ok_def swap_ok_def)

lemma state_ok_imported: "state_ok E s \<Longrightarrow> state_ok E (s\<lparr>fs_imported_token := Some t, fs_swap_state := TokenImported\<rparr>)"
  by (auto simp: state_ok_def swap_ok_def)

text \<open>From a state with \<open>P\<close> the operation does not panic and ends in a state with \<open>Q\<close>.\<close>

definition runs :: "('s \<Rightarrow> bool) \<Rightarrow> ('s, 'e, 'a) op \<Rightarrow> ('a \<Rightarrow> 's \<Rightarrow> bool) \<Rightarrow> bool" where
  "runs P m Q \<longleftrightarrow> (\<forall>s. P s \<longrightarrow> (\<exists>x t. m s = (Ok x, t) \<and> Q x t))"

lemma runsI: "(\<And>s. P s \<Longrightarrow> \<exists>x t. m s = (Ok x, t) \<and> Q x t) \<Longrightarrow> runs P m Q"
  by (simp add: runs_def)

lemma runsD: "runs P m Q \<Longrightarrow> P s \<Longrightarrow> \<exists>x t. m s = (Ok x, t) \<and> Q x t"
  by (simp add: runs_def)

lemma runs_bind:
  assumes "runs P m Q" "\<And>x. runs (Q x) (f x) R"
  shows "runs P (bind m f) R"
proof (rule runsI)
  fix s assume "P s"
  from runsD[OF assms(1) this] obtain x t where m: "m s = (Ok x, t)" "Q x t" by blast
  from runsD[OF assms(2) m(2)] m(1) show "\<exists>y u. bind m f s = (Ok y, u) \<and> R y u" by (simp add: bind_def)
qed

lemma runs_ret: "(\<And>s. P s \<Longrightarrow> Q x s) \<Longrightarrow> runs P (ret x) Q"
  by (simp add: runs_def)

lemma runs_modify: "(\<And>s. P s \<Longrightarrow> Q () (f s)) \<Longrightarrow> runs P (modify f) Q"
  by (simp add: runs_def)

lemma runs_seq: "(\<And>m. m \<in> set ms \<Longrightarrow> runs P m (\<lambda>_. P)) \<Longrightarrow> runs P (seq_ops ms) (\<lambda>_. P)"
  by (induction ms) (auto intro: runs_ret runs_bind)

lemma runs_on_touch:
  assumes "\<And>tp. runs P (f tp) Q" "\<And>a h. P a \<Longrightarrow> P (a\<lparr>ap_device := (ap_device a)\<lparr>dv_hw := h\<rparr>\<rparr>)" "\<And>a b. P a \<Longrightarrow> P (a\<lparr>ap_touch_active := b\<rparr>)" "\<And>a. P a \<Longrightarrow> Q False a"
  shows "runs P (on_touch E f) Q"
proof (rule runsI)
  fix a assume a: "P a"
  let ?b = "with_hw (\<lambda>h. snd (touch_get (de_hw E) h)) a"
  have b: "P ?b" "P (?b\<lparr>ap_touch_active := x\<rparr>)" for x
    by (rule assms(2)[OF a], rule assms(3)[OF assms(2)[OF a]])
  show "\<exists>x t. on_touch E f a = (Ok x, t) \<and> Q x t"
  proof (cases "fst (touch_get (de_hw E) (dv_hw (ap_device a)))")
    case None
    then have "on_touch E f a = (Ok False, ?b\<lparr>ap_touch_active := False\<rparr>)" by (simp add: on_touch_def)
    with assms(4)[OF b(2)[of False]] show ?thesis by blast
  next
    case (Some tp)
    have "on_touch E f a = (if ap_touch_active a then (Ok False, ?b) else f tp (?b\<lparr>ap_touch_active := True\<rparr>))"
      using Some by (simp add: on_touch_def)
    then show ?thesis using assms(4)[OF b(1)] runsD[OF assms(1) b(2)[of True], of tp] by (cases "ap_touch_active a") auto
  qed
qed

text \<open>Outside of scanning the counters rest at zero, whatever the screen.\<close>

definition rests :: "('p, 'u, 'h) device_env \<Rightarrow> ('u, 'h) app \<Rightarrow> bool" where
  "rests E a \<longleftrightarrow> state_ok E (dv_state (ap_device a)) \<and> ap_scan_ticks a = 0 \<and> ap_scan_retries a = 0"

lemma rests_app_ok: "rests E a \<Longrightarrow> app_ok E a"
  by (simp add: rests_def app_ok_def loop_ok_def)

lemma app_ok_rests: "app_ok E a \<Longrightarrow> ap_screen a \<noteq> Scanning \<Longrightarrow> rests E a"
  by (simp add: rests_def app_ok_def loop_ok_def)

lemma runs_rest:
  "runs (rests E) (shown E c) (\<lambda>_. rests E)" "runs (rests E) (board f) (\<lambda>_. rests E)" "runs (rests E) (call_board g) (\<lambda>_. rests E)"
  "runs (rests E) (set_screen s) (\<lambda>_. rests E)" "runs (rests E) (set_last_scan x) (\<lambda>_. rests E)" "runs (rests E) (set_aim_on b) (\<lambda>_. rests E)"
  "runs (rests E) (set_firmware (\<lambda>s. s\<lparr>fs_scan_assembler := asm_reset G (fs_scan_assembler s)\<rparr>)) (\<lambda>_. rests E)"
  by (auto simp: app_ops rests_def intro!: runs_modify)

lemma runs_weaken: "runs P m Q \<Longrightarrow> (\<And>s. P' s \<Longrightarrow> P s) \<Longrightarrow> (\<And>x s. Q x s \<Longrightarrow> Q' x s) \<Longrightarrow> runs P' m Q'"
  unfolding runs_def by blast

lemma runs_gets: "(\<And>x. runs P (f x) Q) \<Longrightarrow> runs P (bind (gets g) f) Q"
  by (simp add: runs_def)

lemma runs_clear: "runs (\<lambda>a. state_ok E (dv_state (ap_device a))) clear_scan_counts (\<lambda>_. rests E)"
  by (auto simp: app_ops rests_def intro!: runs_modify)

lemma runs_clear_rest: "runs (rests E) clear_scan_counts (\<lambda>_. rests E)"
  by (rule runs_weaken[OF runs_clear]) (simp_all add: rests_def)

lemmas rest_rules = runs_seq runs_rest runs_clear_rest runs_gets runs_ret

lemma runs_export: "runs (rests E) (render_export_qr E s) (\<lambda>_. rests E)"
  unfolding render_export_qr_def by (auto intro!: rest_rules split: option.split res.split)

lemma runs_home_touched: "runs (rests E) (home_touched E tp) (\<lambda>_. rests E)"
  unfolding home_touched_def start_scanning_def
  by (rule runs_bind[where Q = "\<lambda>_. rests E"]) (auto intro!: rest_rules runs_export simp del: seq_ops.simps split: option.split)

text \<open>From anywhere, going home comes to rest.\<close>

lemma runs_go_home: "runs (\<lambda>a. state_ok E (dv_state (ap_device a))) (go_home E) (\<lambda>_ a. rests E a \<and> ap_screen a = Home)"
  by (rule runsI) (simp add: go_home_def app_ops rests_def bind_assoc)

section \<open>Scanning\<close>

text \<open>A scan leaves the counters at rest, except for a fragment that was refused.\<close>

lemma runs_scanned: "runs (app_ok E) (scanned E data) (\<lambda>_. app_ok E)"
proof (rule runsI)
  fix a assume a: "app_ok E a"
  show "\<exists>x t. scanned E data a = (Ok x, t) \<and> app_ok E t"
  proof (cases "asm_process (de_externs E) (de_cbor E) (de_gm65 E) data (fs_scan_assembler (dv_state (ap_device a)))")
    case (Pair out asm)
    with a show ?thesis
      by (cases out) (simp_all add: scanned_def bind_def app_ops app_ok_def loop_ok_def state_ok_imported)
  qed
qed

lemma ticks_next: "unat (t :: u32) \<le> 2000 \<Longrightarrow> unat (t + 1) = unat t + 1"
  by (simp add: unat_word_ariths)

text \<open>What a tick without a scan does to the board and to the counters.\<close>

definition waited_hw :: "('p, 'u, 'h) device_env \<Rightarrow> ('u, 'h) app \<Rightarrow> 'h" where
  "waited_hw E a =
     (let H = de_hw E; t = ap_scan_ticks a + 1; h = dv_hw (ap_device a);
          h = (if unat t mod 200 = 0 then swap_buffers H (draw H (DrawScanningProgress (t div 200) (SCAN_TIMEOUT_TICKS div 200)) (draw H (DrawScanning (ap_aim_on a)) h)) else h)
      in if t > SCAN_TIMEOUT_TICKS \<and> ap_scan_retries a + 1 < MAX_SCAN_RETRIES
         then snd (trigger H (swap_buffers H (draw H DrawScanningRetry (draw H (DrawScanning (ap_aim_on a)) h)))) else h)"

lemma scan_waited_effect:
  "scan_waited E a =
     (if ap_scan_ticks a + 1 > SCAN_TIMEOUT_TICKS
      then (Ok (\<not> ap_scan_retries a + 1 < MAX_SCAN_RETRIES),
            a\<lparr>ap_device := (ap_device a)\<lparr>dv_hw := waited_hw E a\<rparr>, ap_scan_retries := ap_scan_retries a + 1, ap_scan_ticks := 0\<rparr>)
      else (Ok False, a\<lparr>ap_device := (ap_device a)\<lparr>dv_hw := waited_hw E a\<rparr>, ap_scan_ticks := ap_scan_ticks a + 1\<rparr>))"
  by (simp add: scan_waited_def app_ops waited_hw_def Let_def)

lemma runs_scan_waited:
  "runs (\<lambda>a. app_ok E a \<and> ap_screen a = Scanning) (scan_waited E) (\<lambda>home a. state_ok E (dv_state (ap_device a)) \<and> (home \<or> app_ok E a))"
proof (rule runsI)
  fix a assume a: "app_ok E a \<and> ap_screen a = Scanning"
  then have t: "unat (ap_scan_ticks a + 1) = unat (ap_scan_ticks a) + 1" "unat (ap_scan_retries a + 1) = unat (ap_scan_retries a) + 1"
    by (intro ticks_next; simp add: app_ok_def loop_ok_def)+
  show "\<exists>x u. scan_waited E a = (Ok x, u) \<and> state_ok E (dv_state (ap_device u)) \<and> (x \<or> app_ok E u)"
    using a t scan_waited_effect[of E a]
    by (cases "SCAN_TIMEOUT_TICKS < ap_scan_ticks a + 1"; cases "ap_scan_retries a + 1 < MAX_SCAN_RETRIES")
      (auto simp: app_ok_def loop_ok_def SCAN_TIMEOUT_TICKS_def MAX_SCAN_RETRIES_def word_less_nat_alt)
qed

lemma app_ok_quiet:
  "app_ok E a \<Longrightarrow> app_ok E (a\<lparr>ap_device := (ap_device a)\<lparr>dv_hw := h\<rparr>\<rparr>)" "app_ok E a \<Longrightarrow> app_ok E (a\<lparr>ap_touch_active := b\<rparr>)" "app_ok E a \<Longrightarrow> app_ok E (a\<lparr>ap_aim_on := b\<rparr>)"
  by (simp_all add: app_ok_def loop_ok_def)

lemma runs_scanning_touched:
  assumes "\<And>a h. P a \<Longrightarrow> P (a\<lparr>ap_device := (ap_device a)\<lparr>dv_hw := h\<rparr>\<rparr>)" "\<And>a b. P a \<Longrightarrow> P (a\<lparr>ap_aim_on := b\<rparr>)"
  shows "runs P (scanning_touched E tp) (\<lambda>_. P)"
proof (rule runsI)
  fix s assume "P s"
  then have "P (s\<lparr>ap_aim_on := b\<rparr>)" for b using assms(2) by blast
  from assms(1)[OF this] have "P (s\<lparr>ap_aim_on := b, ap_device := (ap_device s)\<lparr>dv_hw := h\<rparr>\<rparr>)" for b h by simp
  with \<open>P s\<close> show "\<exists>x t. scanning_touched E tp s = (Ok x, t) \<and> P t" by (auto simp: scanning_touched_def app_ops)
qed

lemma runs_tick_scanning:
  "runs (\<lambda>a. app_ok E a \<and> ap_screen a = Scanning) (tick_scanning E) (\<lambda>home a. state_ok E (dv_state (ap_device a)) \<and> (home \<or> app_ok E a))"
proof (rule runsI)
  fix a assume a: "app_ok E a \<and> ap_screen a = Scanning"
  let ?out = "fst (read_scan_within (de_hw E) (5 * tick_hz (de_hw E)) (dv_hw (ap_device a)))"
  let ?b = "with_hw (\<lambda>h. snd (read_scan_within (de_hw E) (5 * tick_hz (de_hw E)) h)) a"
  let ?P = "\<lambda>home a. state_ok E (dv_state (ap_device a)) \<and> (home \<or> app_ok E a)"
  let ?read = "case ?out of Some (Some data) \<Rightarrow> bind (scanned E data) (\<lambda>_. ret False) | _ \<Rightarrow> scan_waited E"
  have b: "app_ok E ?b \<and> ap_screen ?b = Scanning" using a app_ok_quiet(1) by auto
  have scan: "runs (\<lambda>a. app_ok E a \<and> ap_screen a = Scanning) (bind (scanned E data) (\<lambda>_. ret False)) ?P" for data
    by (rule runs_bind[where Q = "\<lambda>_. app_ok E"], rule runs_weaken[OF runs_scanned]) (auto intro: runs_ret simp: app_ok_def)
  have any: "runs (\<lambda>a. app_ok E a \<and> ap_screen a = Scanning) ?read ?P"
    by (auto split: option.split intro: scan runs_scan_waited)
  obtain timed_out c where read: "?read ?b = (Ok timed_out, c)" "?P timed_out c" using runsD[OF any, of ?b] b by blast
  have "runs (?P timed_out) (on_touch E (scanning_touched E)) (\<lambda>_. ?P timed_out)"
    by (intro runs_on_touch runs_scanning_touched) (auto intro: app_ok_quiet)
  from runsD[OF this read(2)] obtain touched e where "on_touch E (scanning_touched E) c = (Ok touched, e)" "?P timed_out e" by blast
  then show "\<exists>x t. tick_scanning E a = (Ok x, t) \<and> ?P x t"
    using read(1) by (auto simp: tick_scanning_def bind_def ask_board_def split: prod.splits)
qed

section \<open>A turn of the loop\<close>

text \<open>The clock is late when a tick finds the deadline of the capture window in the past.\<close>

definition late :: "('p, 'u, 'h) device_env \<Rightarrow> ('u, 'h) app \<Rightarrow> bool" where
  "late E a \<longleftrightarrow> (case ap_capture_until a of None \<Rightarrow> False | Some deadline \<Rightarrow> deadline < fst (instant_now (de_hw E) (dv_hw (ap_device a))))"

lemma runs_capture: "runs (\<lambda>a. app_ok E a \<and> \<not> late E a) (capture_scan E) (\<lambda>_. app_ok E)"
proof (rule runsI)
  fix a assume a: "app_ok E a \<and> \<not> late E a"
  show "\<exists>x t. capture_scan E a = (Ok x, t) \<and> app_ok E t"
  proof (cases "ap_capture_until a")
    case (Some deadline)
    with a show ?thesis
      by (auto simp: capture_scan_def late_def app_ops app_ok_def loop_ok_def split: option.split)
  qed (use a in \<open>simp add: capture_scan_def\<close>)
qed

lemma runs_screen:
  "runs (app_ok E) (bind (gets ap_screen) (\<lambda>screen.
      case screen of Home \<Rightarrow> on_touch E (home_touched E) | Scanning \<Rightarrow> tick_scanning E
      | _ \<Rightarrow> on_touch E (\<lambda>tp. ret (button_hit back_button (tp_x tp) (tp_y tp)))))
     (\<lambda>home a. state_ok E (dv_state (ap_device a)) \<and> (home \<or> app_ok E a))"
proof (rule runsI)
  fix a assume a: "app_ok E a"
  let ?P = "\<lambda>home a. state_ok E (dv_state (ap_device a)) \<and> (home \<or> app_ok E a)"
  have rest: "rests E b \<Longrightarrow> ?P x b" for x b using rests_app_ok by (auto simp: app_ok_def)
  have home: "runs (rests E) (on_touch E (home_touched E)) ?P"
    by (rule runs_on_touch[OF runs_weaken[OF runs_home_touched]]) (use rest in \<open>auto simp: rests_def\<close>)
  have other: "runs (rests E) (on_touch E (\<lambda>tp. ret (button_hit back_button (tp_x tp) (tp_y tp)))) ?P"
    by (rule runs_on_touch[OF runs_ret]) (use rest in \<open>auto simp: rests_def\<close>)
  show "\<exists>x t. bind (gets ap_screen) (\<lambda>screen. case screen of Home \<Rightarrow> on_touch E (home_touched E) | Scanning \<Rightarrow> tick_scanning E
      | _ \<Rightarrow> on_touch E (\<lambda>tp. ret (button_hit back_button (tp_x tp) (tp_y tp)))) a = (Ok x, t) \<and> ?P x t"
  proof (cases "ap_screen a = Scanning")
    case True
    then show ?thesis using runsD[OF runs_tick_scanning, of E a] a by simp
  next
    case False
    then have "rests E a" using app_ok_rests[OF a] by simp
    then show ?thesis using runsD[OF home, of a] runsD[OF other, of a] False by (cases "ap_screen a") simp_all
  qed
qed

lemma runs_tick: "runs (\<lambda>a. app_ok E a \<and> \<not> late E a) (on_tick E) (\<lambda>_. app_ok E)"
proof -
  have home: "runs (\<lambda>a. state_ok E (dv_state (ap_device a)) \<and> (b \<or> app_ok E a)) (if b then go_home E else ret ()) (\<lambda>_. app_ok E)" for b
  proof (cases b)
    case True
    then show ?thesis by (auto intro!: runs_weaken[OF runs_go_home[of E]] rests_app_ok)
  qed (auto intro: runs_ret)
  have "on_tick E = bind (capture_scan E) (\<lambda>_. bind (bind (gets ap_screen) (\<lambda>screen.
      case screen of Home \<Rightarrow> on_touch E (home_touched E) | Scanning \<Rightarrow> tick_scanning E
      | _ \<Rightarrow> on_touch E (\<lambda>tp. ret (button_hit back_button (tp_x tp) (tp_y tp))))) (\<lambda>home. if home then go_home E else ret ()))"
    by (simp only: on_tick_def bind_assoc)
  moreover note runs_bind[OF runs_capture runs_bind[OF runs_screen home]]
  ultimately show ?thesis by simp
qed

text \<open>A frame the decoder delivers has its payload inside the buffer; the clock does not run over within ten seconds.\<close>

definition frame_ok :: "('p, 'u, 'h) device_env \<Rightarrow> frame option \<Rightarrow> bool" where
  "frame_ok E f \<longleftrightarrow> (case f of None \<Rightarrow> True | Some f \<Rightarrow> is_ok (frame_payload f))
     \<and> (\<forall>h. checked_add (fst (instant_now (de_hw E) h)) (10 * tick_hz (de_hw E)) \<noteq> None)"

lemma runs_frame:
  assumes "env_ok E" "frame_ok E f"
  shows "runs (app_ok E) (on_frame E f) (\<lambda>_. app_ok E)"
proof (cases f)
  case (Some fr)
  with assms(2) obtain payload where p: "frame_payload fr = Ok payload"
    by (cases "frame_payload fr") (auto simp: frame_ok_def)
  show ?thesis
  proof (rule runsI)
    fix a assume a: "app_ok E a"
    then obtain r d where cmd: "handle_command E (fr_command fr) payload (ap_device a) = (Ok r, d)" "state_ok E (dv_state d)"
      using command_answers[OF assms(1), of "ap_device a" "fr_command fr" payload] by (auto simp: app_ok_def device_ok_state)
    have "runs (app_ok E) (open_capture_window E) (\<lambda>_. app_ok E)"
      using assms(2) by (intro runsI) (auto simp: open_capture_window_def app_ops frame_ok_def app_ok_def loop_ok_def split: option.split)
    moreover have "runs (app_ok E) (bind (gets ap_screen) (\<lambda>s. if s = WaitingToken then set_screen TokenInfo else ret ())) (\<lambda>_. app_ok E)"
      by (rule runsI) (auto simp: app_ops app_ok_def loop_ok_def)
    moreover have "runs (app_ok E) (board g) (\<lambda>_. app_ok E)" for g by (auto simp: app_ops app_ok_def loop_ok_def intro!: runs_modify)
    ultimately have rest: "runs (app_ok E) (seq_ops
       [if fr_command fr = ScannerTrigger then open_capture_window E else ret (),
        if fr_command fr = ImportToken then bind (gets ap_screen) (\<lambda>s. if s = WaitingToken then set_screen TokenInfo else ret ()) else ret (),
        if redraws (fr_command fr) then board (swap_buffers (de_hw E)) else ret (), board (transport_send (de_hw E) r)]) (\<lambda>_. app_ok E)"
      by (intro runs_seq) (auto intro: runs_ret)
    have "app_ok E (a\<lparr>ap_device := d\<rparr>)" using a cmd(2) by (simp add: app_ok_def loop_ok_def)
    from runsD[OF rest this] show "\<exists>x t. on_frame E f a = (Ok x, t) \<and> app_ok E t"
      using cmd(1) by (simp add: Some p on_frame_def bind_def on_device_def del: seq_ops.simps)
  qed
qed (simp add: on_frame_def runs_ret)

text \<open>The life of the loop: turns, and a board that changes on its own.\<close>

inductive app_start :: "('p, 'u, 'h) device_env \<Rightarrow> ('u, 'h) app \<Rightarrow> bool" for E where
  "app_start E (app_init E h)"

inductive app_step :: "('p, 'u, 'h) device_env \<Rightarrow> ('u, 'h) app \<Rightarrow> ('u, 'h) app \<Rightarrow> bool" for E where
  step_frame: "frame_ok E f \<Longrightarrow> app_turn E (FrameEvent f) a = (Ok (), b) \<Longrightarrow> app_step E a b"
| step_tick: "app_turn E TickEvent a = (Ok (), b) \<Longrightarrow> app_step E a b"
| step_hardware: "app_step E a (a\<lparr>ap_device := (ap_device a)\<lparr>dv_hw := h\<rparr>\<rparr>)"

inductive_cases app_stepE: "app_step E a b"

lemma late_panics: "late E a \<Longrightarrow> \<exists>b. on_tick E a = (Panic, b)"
  by (auto simp: late_def on_tick_def capture_scan_def bind_def ask_board_def split: option.splits prod.splits)

lemma app_step_ok: "env_ok E \<Longrightarrow> app_ok E a \<Longrightarrow> app_step E a b \<Longrightarrow> app_ok E b"
proof (erule app_stepE)
  fix f assume "env_ok E" "app_ok E a" "frame_ok E f" "app_turn E (FrameEvent f) a = (Ok (), b)"
  then show "app_ok E b" using runsD[OF runs_frame[of E f], of a] by (simp add: app_turn_def)
next
  assume "app_ok E a" "app_turn E TickEvent a = (Ok (), b)"
  then show "app_ok E b" using runsD[OF runs_tick[of E], of a] late_panics[of E a] by (auto simp: app_turn_def)
qed (auto intro: app_ok_quiet)

interpretation app_life: transition_system "app_start E" "app_step E" "\<lambda>a. env_ok E \<longrightarrow> app_ok E a" for E
proof
  show "env_ok E \<longrightarrow> app_ok E a" if "app_start E a" for a
    using that by cases (simp add: app_init_def Let_def app_ok_def loop_ok_def state_ok_def swap_ok_def firmware_state_new_def)
qed (auto intro: app_step_ok)

text \<open>The counters of the scan timeout stay in bounds. In every state the loop can reach, the ticks are at most 2000 and the retries
  at most 2, both are zero outside of the scanning screen, and so no counter ever overflows.\<close>

theorem scan_counters_bounded:
  assumes "env_ok E" "reach (app_start E) (app_step E) a"
  shows "unat (ap_scan_ticks a) \<le> 2000 \<and> unat (ap_scan_retries a) \<le> 2
    \<and> (ap_screen a \<noteq> Scanning \<longrightarrow> ap_scan_ticks a = 0 \<and> ap_scan_retries a = 0)"
  using app_life.reach_inv[OF assms(2)] assms(1) by (simp add: app_ok_def loop_ok_def)

text \<open>C37: only the clock makes the loop panic. In every reachable state a tick panics exactly when it comes after the
  deadline of the capture window, and a frame of the decoder never does.\<close>

theorem app_panics_only_late:
  assumes "env_ok E" "reach (app_start E) (app_step E) a"
  shows "(fst (app_turn E TickEvent a) = Panic \<longleftrightarrow> late E a) \<and> (frame_ok E f \<longrightarrow> fst (app_turn E (FrameEvent f) a) = Ok ())"
proof -
  have ok: "app_ok E a" using app_life.reach_inv[OF assms(2)] assms(1) by simp
  have "fst (on_tick E a) = Panic \<longleftrightarrow> late E a"
    using late_panics[of E a] runsD[OF runs_tick[of E], of a] ok by (cases "late E a") auto
  moreover have "frame_ok E f \<longrightarrow> fst (on_frame E f a) = Ok ()" using runsD[OF runs_frame[OF assms(1), of f], of a] ok by auto
  ultimately show ?thesis by (simp add: app_turn_def)
qed

section \<open>Scanning ends\<close>

text \<open>While the board is in \<open>S\<close>, nobody touches the screen or shows a code, and waiting does not change that.\<close>

definition silent :: "'h hardware \<Rightarrow> ('h \<Rightarrow> bool) \<Rightarrow> bool" where
  "silent H S \<longleftrightarrow> (\<forall>h. S h \<longrightarrow> (\<forall>t data. fst (read_scan_within H t h) \<noteq> Some (Some data)) \<and> fst (touch_get H h) = None
     \<and> (\<forall>t. S (snd (read_scan_within H t h))) \<and> S (snd (touch_get H h)) \<and> (\<forall>c. S (draw H c h)) \<and> S (swap_buffers H h) \<and> S (snd (trigger H h)))"

primrec run_ticks :: "('p, 'u, 'h) device_env \<Rightarrow> nat \<Rightarrow> ('u, 'h, unit) app_op" where
  "run_ticks E 0 = ret ()"
| "run_ticks E (Suc n) = bind (app_turn E TickEvent) (\<lambda>_. run_ticks E n)"

text \<open>The silent ticks that are left before the loop gives up.\<close>

definition patience :: "('u, 'h) app \<Rightarrow> nat" where
  "patience a = (2 - unat (ap_scan_retries a)) * 2001 + (2000 - unat (ap_scan_ticks a)) + 1"

lemma silent_waited: "silent (de_hw E) S \<Longrightarrow> S (dv_hw (ap_device a)) \<Longrightarrow> S (waited_hw E a)"
  by (simp add: waited_hw_def silent_def Let_def)

text \<open>A silent tick is a tick of waiting, and the touch screen finds no finger.\<close>

lemma silent_read:
  assumes "silent (de_hw E) S" "S (dv_hw (ap_device a))"
  shows "bind (case fst (read_scan_within (de_hw E) t (dv_hw (ap_device a))) of Some (Some data) \<Rightarrow> f data | _ \<Rightarrow> g) k b = bind g k b"
  using assms by (auto simp: silent_def split: option.splits)

lemma silent_touch:
  assumes "silent (de_hw E) S" "S (dv_hw (ap_device a))"
  shows "bind (on_touch E f) g a = g False ((with_hw (\<lambda>h. snd (touch_get (de_hw E) h)) a)\<lparr>ap_touch_active := False\<rparr>)"
  using assms by (simp add: on_touch_def silent_def bind_assoc)

lemma silent_turn:
  assumes "silent (de_hw E) S" "S (dv_hw (ap_device a))" "ap_screen a = Scanning" "ap_capture_until a = None"
    and w: "scan_waited E (with_hw (\<lambda>h. snd (read_scan_within (de_hw E) (5 * tick_hz (de_hw E)) h)) a) = (Ok home, c)" and c: "S (dv_hw (ap_device c))"
  shows "app_turn E TickEvent a = (if home then go_home E else ret ()) ((with_hw (\<lambda>h. snd (touch_get (de_hw E) h)) c)\<lparr>ap_touch_active := False\<rparr>)"
proof -
  have "on_tick E a = bind (tick_scanning E) (\<lambda>home. if home then go_home E else ret ()) a"
    using assms(3,4) by (simp add: on_tick_def capture_scan_def bind_assoc)
  also have "\<dots> = bind (scan_waited E) (\<lambda>timed_out. bind (on_touch E (scanning_touched E)) (\<lambda>touched. if timed_out \<or> touched then go_home E else ret ()))
      (with_hw (\<lambda>h. snd (read_scan_within (de_hw E) (5 * tick_hz (de_hw E)) h)) a)"
    by (simp add: tick_scanning_def bind_assoc silent_read[OF assms(1,2)])
  also have "\<dots> = bind (on_touch E (scanning_touched E)) (\<lambda>touched. if home \<or> touched then go_home E else ret ()) c"
    by (rule bind_apply_Ok[where m = "scan_waited E", OF w])
  also have "\<dots> = (if home then go_home E else ret ()) ((with_hw (\<lambda>h. snd (touch_get (de_hw E) h)) c)\<lparr>ap_touch_active := False\<rparr>)"
    by (simp add: silent_touch[OF assms(1) c])
  finally show ?thesis by (simp add: app_turn_def)
qed

lemma silent_tick:
  assumes "silent (de_hw E) S" "S (dv_hw (ap_device a))" "app_ok E a" "ap_screen a = Scanning" "ap_capture_until a = None"
  shows "\<exists>b. app_turn E TickEvent a = (Ok (), b) \<and> (ap_screen b = Home
    \<or> S (dv_hw (ap_device b)) \<and> app_ok E b \<and> ap_screen b = Scanning \<and> ap_capture_until b = None \<and> patience b < patience a)"
proof -
  let ?a = "with_hw (\<lambda>h. snd (read_scan_within (de_hw E) (5 * tick_hz (de_hw E)) h)) a"
  define h where "h = waited_hw E ?a"
  have "S (dv_hw (ap_device ?a))" using assms(1,2) by (simp add: silent_def)
  then have h: "S h" unfolding h_def by (rule silent_waited[OF assms(1)])
  note w = scan_waited_effect[of E ?a, folded h_def]
  have t: "unat (ap_scan_ticks a + 1) = unat (ap_scan_ticks a) + 1" "unat (ap_scan_retries a + 1) = unat (ap_scan_retries a) + 1"
    using assms(3) by (intro ticks_next; simp add: app_ok_def loop_ok_def)+
  have touched: "S (snd (touch_get (de_hw E) h))" using assms(1) h by (simp add: silent_def)
  show ?thesis
  proof (cases "ap_scan_ticks a + 1 > SCAN_TIMEOUT_TICKS")
    case True
    define c where "c = a\<lparr>ap_device := (ap_device a)\<lparr>dv_hw := h\<rparr>, ap_scan_retries := ap_scan_retries a + 1, ap_scan_ticks := 0\<rparr>"
    have "scan_waited E ?a = (Ok (\<not> ap_scan_retries a + 1 < MAX_SCAN_RETRIES), c)" using True by (simp add: w c_def)
    then have turn: "app_turn E TickEvent a = (if \<not> ap_scan_retries a + 1 < MAX_SCAN_RETRIES then go_home E else ret ())
        ((with_hw (\<lambda>h. snd (touch_get (de_hw E) h)) c)\<lparr>ap_touch_active := False\<rparr>)"
      by (rule silent_turn[OF assms(1,2,4,5)]) (simp add: c_def h)
    show ?thesis
    proof (cases "ap_scan_retries a + 1 < MAX_SCAN_RETRIES")
      case True
      then show ?thesis using assms(3-5) t h touched
        by (simp add: turn c_def app_ok_def loop_ok_def patience_def MAX_SCAN_RETRIES_def word_less_nat_alt) arith
    next
      case False
      have "state_ok E (dv_state (ap_device ((with_hw (\<lambda>h. snd (touch_get (de_hw E) h)) c)\<lparr>ap_touch_active := False\<rparr>)))"
        using assms(3) by (simp add: app_ok_def c_def)
      from runsD[OF runs_go_home this] False show ?thesis unfolding turn by auto
    qed
  next
    case False
    define c where "c = a\<lparr>ap_device := (ap_device a)\<lparr>dv_hw := h\<rparr>, ap_scan_ticks := ap_scan_ticks a + 1\<rparr>"
    have "scan_waited E ?a = (Ok False, c)" using False by (simp add: w c_def)
    then have turn: "app_turn E TickEvent a = (if False then go_home E else ret ())
        ((with_hw (\<lambda>h. snd (touch_get (de_hw E) h)) c)\<lparr>ap_touch_active := False\<rparr>)"
      by (rule silent_turn[OF assms(1,2,4,5)]) (simp add: c_def h)
    show ?thesis using False assms(3-5) t h touched
      by (simp add: turn c_def app_ok_def loop_ok_def patience_def SCAN_TIMEOUT_TICKS_def word_less_nat_alt)
  qed
qed

lemma patience_runs_out:
  assumes "silent (de_hw E) S"
  shows "S (dv_hw (ap_device a)) \<Longrightarrow> app_ok E a \<Longrightarrow> ap_screen a = Scanning \<Longrightarrow> ap_capture_until a = None \<Longrightarrow>
    \<exists>n b. n \<le> patience a \<and> run_ticks E n a = (Ok (), b) \<and> ap_screen b = Home"
proof (induction "patience a" arbitrary: a rule: less_induct)
  case less
  obtain b where b: "app_turn E TickEvent a = (Ok (), b)"
    "ap_screen b = Home \<or> S (dv_hw (ap_device b)) \<and> app_ok E b \<and> ap_screen b = Scanning \<and> ap_capture_until b = None \<and> patience b < patience a"
    using silent_tick[OF assms less.prems] by blast
  show ?case
  proof (cases "ap_screen b = Home")
    case True
    then show ?thesis using b(1) by (intro exI[of _ 1] exI[of _ b]) (simp add: bind_def patience_def)
  next
    case False
    with b(2) less.hyps obtain n c where "n \<le> patience b" "run_ticks E n b = (Ok (), c)" "ap_screen c = Home" "patience b < patience a" by blast
    then show ?thesis using b(1) by (intro exI[of _ "Suc n"] exI[of _ c]) (simp add: bind_def)
  qed
qed

text \<open>C36: scanning ends by itself. From every reachable state on the scanning screen with no capture window open, when nobody touches the device or shows it a code,
  the loop is back on the home screen after at most 6003 ticks.\<close>

theorem scanning_ends:
  assumes "env_ok E" "reach (app_start E) (app_step E) a" "silent (de_hw E) S" "S (dv_hw (ap_device a))"
    and "ap_screen a = Scanning" "ap_capture_until a = None"
  shows "\<exists>n b. n \<le> 6003 \<and> run_ticks E n a = (Ok (), b) \<and> ap_screen b = Home"
proof -
  have "app_ok E a" using app_life.reach_inv[OF assms(2)] assms(1) by simp
  moreover have "patience a \<le> 6003" by (simp add: patience_def)
  ultimately show ?thesis using patience_runs_out[OF assms(3,4) _ assms(5,6)] by (meson le_trans)
qed

section \<open>A loop that runs\<close>

text \<open>Started with a finger on the scan button, the loop is scanning after one tick; then the finger is gone.\<close>

definition scanning_app :: "(unit, bool) app" where
  "scanning_app = (app_init sample_device False)\<lparr>ap_screen := Scanning, ap_touch_active := True, ap_aim_on := True\<rparr>"

lemma sample_turn: "app_turn sample_device TickEvent (app_init sample_device True) = (Ok (), scanning_app)"
  by (simp add: app_turn_def on_tick_def capture_scan_def on_touch_def home_touched_def start_scanning_def app_ops bind_assoc button_hit_def home_buttons_def DISPLAY_WIDTH_def
      scanning_app_def app_init_def sample_device_def sample_board_def firmware_state_new_def asm_reset_def asm_new_def sample_gm65_def)
    (simp add: bind_def)

lemma scanning_app_reached: "reach (app_start sample_device) (app_step sample_device) scanning_app"
  using reach_step[OF reach_init, of "app_start sample_device" "app_init sample_device True" "app_step sample_device" scanning_app]
    app_start.intros[of sample_device True] step_tick[OF sample_turn] by blast

theorem scan_counters_bounded_witness:
  "ap_screen (app_init sample_device True) = Home \<and> unat (ap_scan_ticks scanning_app) \<le> 2000 \<and> unat (ap_scan_retries scanning_app) \<le> 2
    \<and> ap_scan_ticks (app_init sample_device True) = 0"
proof -
  have start: "reach (app_start sample_device) (app_step sample_device) (app_init sample_device True)" by (intro reach_init app_start.intros)
  have "ap_screen (app_init sample_device True) = Home" by (simp add: app_init_def Let_def)
  then show ?thesis using scan_counters_bounded[OF sample_env_ok start] scan_counters_bounded[OF sample_env_ok scanning_app_reached] by simp
qed

theorem app_panics_only_late_witness:
  "fst (app_turn sample_device TickEvent scanning_app) \<noteq> Panic \<and> fst (app_turn sample_device (FrameEvent None) scanning_app) = Ok ()"
proof -
  have "\<not> late sample_device scanning_app" by (simp add: late_def scanning_app_def app_init_def Let_def)
  moreover have "frame_ok sample_device None" by (simp add: frame_ok_def sample_device_def sample_board_def checked_add_def)
  ultimately show ?thesis using app_panics_only_late[OF sample_env_ok scanning_app_reached, of None] by simp
qed

theorem scanning_ends_witness:
  "\<exists>n b. n \<le> 6003 \<and> run_ticks sample_device n scanning_app = (Ok (), b) \<and> ap_screen b = Home"
proof (rule scanning_ends[OF sample_env_ok scanning_app_reached, where S = "\<lambda>h. \<not> h"])
  show "silent (de_hw sample_device) (\<lambda>h. \<not> h)" by (simp add: silent_def sample_device_def sample_board_def)
qed (simp_all add: scanning_app_def app_init_def sample_device_def sample_board_def)

end
