(* ===== verification/Reserve.thy ===== *)
theory Reserve
  imports Backend Dhke "HOL-Library.Multiset"
begin

text \<open>
  The upstream settlement backend of the mint (\<^verbatim>\<open>micronuts-mint/src/upstream.rs\<close>) and the reserve of upstream proofs it
  pays from (\<^verbatim>\<open>reserve.rs\<close>, \<^verbatim>\<open>upstream_wire.rs\<close>). The HTTP agent, \<^verbatim>\<open>serde_json\<close>, the random generators and the snapshot
  file are fields of a record; \<open>'j\<close> is the type of JSON values and \<open>'n\<close> the world behind the calls. Lines written to the
  log are not modelled.
\<close>

section \<open>What the backend calls\<close>

text \<open>The methods of \<^verbatim>\<open>serde_json::Value\<close> that are used; \<open>v_number\<close> is \<^verbatim>\<open>as_u64\<close> of a number and nothing for other values.\<close>

record 'j serde =
  v_get :: "string \<Rightarrow> 'j \<Rightarrow> 'j option"
  v_index :: "string \<Rightarrow> 'j \<Rightarrow> 'j"
  v_as_str :: "'j \<Rightarrow> string option"
  v_as_bool :: "'j \<Rightarrow> bool option"
  v_as_array :: "'j \<Rightarrow> 'j list option"
  v_as_object :: "'j \<Rightarrow> (string \<times> 'j) list option"
  v_number :: "'j \<Rightarrow> u64 option option"
  v_is_null :: "'j \<Rightarrow> bool"
  v_show :: "'j \<Rightarrow> string"
  v_object :: "(string \<times> 'j) list \<Rightarrow> 'j"
  v_u64 :: "u64 \<Rightarrow> 'j"
  v_string :: "string \<Rightarrow> 'j"
  v_array :: "'j list \<Rightarrow> 'j"
  v_to_vec :: "'j \<Rightarrow> string + bytes"

record 'j http_response =
  hr_status :: u16
  hr_text :: "string option"
  hr_json :: "string + 'j"

section \<open>Wire data\<close>

record upstream_keyset =
  uk_id :: string
  uk_input_fee_ppk :: u64
  uk_keys :: "(u64 \<times> public_key) list"

record pending_change =
  pc_secret_hex :: string
  pc_blinder :: secret_key

record keyset_snap =
  kn_id :: string
  kn_input_fee_ppk :: u64
  kn_keys :: "(u64 \<times> string) list"

record proof_snap =
  pn_amount :: u64
  pn_id :: string
  pn_secret :: string
  pn_c_hex :: string

record reserve_snapshot =
  rn_base_url :: string
  rn_unit :: string
  rn_keyset :: "keyset_snap option"
  rn_proofs :: "proof_snap list"

record ('p, 'j, 'n) reserve_env =
  re_externs :: externs
  re_curve :: "'p curve"
  re_serde :: "'j serde"
  re_get :: "string \<Rightarrow> 'n \<Rightarrow> (string + 'j http_response) \<times> 'n"
  re_post :: "string \<Rightarrow> bytes \<Rightarrow> 'n \<Rightarrow> (string + 'j http_response) \<times> 'n"
  re_random :: "'n \<Rightarrow> bytes \<times> 'n"
  re_scalar :: "'n \<Rightarrow> secret_key \<times> 'n"
  re_sleep :: "'n \<Rightarrow> 'n"
  re_pay_timeout :: "u64 option"
  re_save :: "reserve_snapshot \<Rightarrow> 'n \<Rightarrow> bool \<times> 'n"
  re_load :: "'n \<Rightarrow> (string + reserve_snapshot option) \<times> 'n"

record 'n reserve_wallet =
  rw_base_url :: string
  rw_unit :: string
  rw_bootstrap_sats :: u64
  rw_keyset :: "upstream_keyset option"
  rw_proofs :: "nut_proof list"
  rw_stored :: bool
  rw_world :: 'n

type_synonym ('n, 'a) rw_op = "('n reserve_wallet, cashu_error, 'a) op"

definition on_net :: "('n \<Rightarrow> 'a \<times> 'n) \<Rightarrow> ('n, 'a) rw_op" where
  "on_net f = (\<lambda>w. case f (rw_world w) of (x, n) \<Rightarrow> (Ok x, w\<lparr>rw_world := n\<rparr>))"

section \<open>HTTP and JSON helpers\<close>

definition unreadable :: "string option \<Rightarrow> string" where
  "unreadable t = (case t of Some t \<Rightarrow> t | None \<Rightarrow> ''<unreadable body>'')"

definition upstream_get :: "('p, 'j, 'n) reserve_env \<Rightarrow> string \<Rightarrow> ('n, 'j) rw_op" where
  "upstream_get E url =
     bind (on_net (re_get E url)) (\<lambda>answer.
       case answer of
         Inl err \<Rightarrow> throw (Transport (''upstream GET '' @ url @ '': '' @ err))
       | Inr response \<Rightarrow>
           if hr_status response \<ge> 400 then
             throw (Transport (''upstream GET '' @ url @ '': status '' @ show_nat (unat (hr_status response)) @ '': '' @ unreadable (hr_text response)))
           else (case hr_json response of
                   Inl err \<Rightarrow> throw (Protocol (''upstream GET '' @ url @ '': invalid JSON: '' @ err))
                 | Inr v \<Rightarrow> ret v))"

definition upstream_post :: "('p, 'j, 'n) reserve_env \<Rightarrow> string \<Rightarrow> 'j \<Rightarrow> ('n, 'j) rw_op" where
  "upstream_post E url body =
     (case v_to_vec (re_serde E) body of
        Inl err \<Rightarrow> throw (Protocol (''upstream POST '' @ url @ '': serialize: '' @ err))
      | Inr payload \<Rightarrow>
          bind (on_net (re_post E url payload)) (\<lambda>answer.
            case answer of
              Inl err \<Rightarrow> throw (Transport (''upstream POST '' @ url @ '': '' @ err))
            | Inr response \<Rightarrow>
                if hr_status response \<ge> 400 then
                  throw (Protocol (''upstream POST '' @ url @ '': status '' @ show_nat (unat (hr_status response)) @ '': '' @ unreadable (hr_text response)))
                else (case hr_json response of
                        Inl err \<Rightarrow> throw (Protocol (''upstream POST '' @ url @ '': invalid JSON: '' @ err))
                      | Inr v \<Rightarrow> ret v)))"

definition amount_err :: "'j serde \<Rightarrow> string \<Rightarrow> 'j \<Rightarrow> cashu_error" where
  "amount_err S field value = Protocol (''upstream field '' @ [CHR 0x27] @ field @ [CHR 0x27] @ '' is not an amount: '' @ v_show S value)"

definition json_amount :: "'j serde \<Rightarrow> string \<Rightarrow> 'j \<Rightarrow> (cashu_error, u64) res" where
  "json_amount S field value =
     (case v_number S value of
        Some n \<Rightarrow> ok_or (amount_err S field value) n
      | None \<Rightarrow>
          (case v_as_str S value of
             Some s \<Rightarrow> ok_or (amount_err S field value) (parse_u64 s)
           | None \<Rightarrow> Err (amount_err S field value)))"

definition json_amount_or :: "'j serde \<Rightarrow> string \<Rightarrow> 'j option \<Rightarrow> u64 \<Rightarrow> (cashu_error, u64) res" where
  "json_amount_or S field value otherwise =
     (case value of None \<Rightarrow> Ok otherwise
      | Some v \<Rightarrow> if v_is_null S v then Ok otherwise else json_amount S field v)"

definition json_str :: "'j serde \<Rightarrow> string \<Rightarrow> 'j \<Rightarrow> (cashu_error, string) res" where
  "json_str S field value =
     ok_or (Protocol (''upstream field '' @ [CHR 0x27] @ field @ [CHR 0x27] @ '' is not a string'')) (v_as_str S value)"

definition json_point :: "externs \<Rightarrow> 'j serde \<Rightarrow> 'j \<Rightarrow> (cashu_error, public_key) res" where
  "json_point X S value =
     res_bind (json_str S ''point'' value) (\<lambda>hex_str.
     res_bind (ok_or (Protocol ''upstream point is not hex'') (hex_decode X hex_str)) (\<lambda>bytes.
       if length bytes \<noteq> 33 then Err (Protocol ''upstream point is not 33 bytes'')
       else ok_or (Protocol ''upstream point is not a valid key'') (pk_from_bytes X bytes)))"

section \<open>Keysets and outputs\<close>

fun insert_keys :: "externs \<Rightarrow> 'j serde \<Rightarrow> (string \<times> 'j) list \<Rightarrow> (u64 \<times> public_key) list \<Rightarrow> (cashu_error, (u64 \<times> public_key) list) res" where
  "insert_keys X S [] keys = Ok keys"
| "insert_keys X S ((amount, pubkey) # entries) keys =
     res_bind (ok_or (Protocol (''upstream keyset: bad amount key '' @ [CHR 0x27] @ amount @ [CHR 0x27])) (parse_u64 amount)) (\<lambda>parsed.
     res_bind (json_point X S pubkey) (\<lambda>point. insert_keys X S entries (AList.update parsed point keys)))"

definition parse_keyset_keys :: "externs \<Rightarrow> 'j serde \<Rightarrow> 'j \<Rightarrow> (cashu_error, (u64 \<times> public_key) list) res" where
  "parse_keyset_keys X S keyset =
     res_bind (ok_or (Protocol ''upstream keyset: no keys map'') (Option.bind (v_get S ''keys'' keyset) (v_as_object S))) (\<lambda>entries.
       insert_keys X S entries [])"

definition usable_keyset :: "'j serde \<Rightarrow> string \<Rightarrow> 'j \<Rightarrow> bool" where
  "usable_keyset S u keyset \<longleftrightarrow>
     (case Option.bind (v_get S ''unit'' keyset) (v_as_str S) of Some s \<Rightarrow> s | None \<Rightarrow> []) = u
     \<and> (case Option.bind (v_get S ''active'' keyset) (v_as_bool S) of Some b \<Rightarrow> b | None \<Rightarrow> True)"

definition from_keys_response :: "externs \<Rightarrow> 'j serde \<Rightarrow> 'j \<Rightarrow> string \<Rightarrow> (cashu_error, upstream_keyset) res" where
  "from_keys_response X S value u =
     res_bind (ok_or (Protocol ''upstream /v1/keys: no keysets array'') (Option.bind (v_get S ''keysets'' value) (v_as_array S))) (\<lambda>keysets.
       case find (usable_keyset S u) keysets of
         None \<Rightarrow> Err KeysetNotFound
       | Some keyset \<Rightarrow>
           res_bind (json_str S ''id'' (v_index S ''id'' keyset)) (\<lambda>i.
           res_bind (json_amount_or S ''input_fee_ppk'' (v_get S ''input_fee_ppk'' keyset) 0) (\<lambda>fee.
           res_bind (parse_keyset_keys X S keyset) (\<lambda>keys.
             Ok \<lparr>uk_id = i, uk_input_fee_ppk = fee, uk_keys = keys\<rparr>))))"

definition blind_output :: "('p, 'j, 'n) reserve_env \<Rightarrow> string \<Rightarrow> u64 \<Rightarrow> ('n, 'j \<times> pending_change) rw_op" where
  "blind_output E keyset_id amount =
     bind (on_net (re_random E)) (\<lambda>secret.
     let S = re_serde E; secret_hex = hex_encode (re_externs E) secret in
     bind (on_net (re_scalar E)) (\<lambda>fresh.
       case blind_message (re_externs E) (re_curve E) (as_bytes secret_hex) None fresh of
         Ok blinded \<Rightarrow>
           ret (v_object S [(''amount'', v_u64 S amount), (''B_'', v_string S (hex_encode (re_externs E) (to_bytes (bl_blinded blinded)))), (''id'', v_string S keyset_id)],
                \<lparr>pc_secret_hex = secret_hex, pc_blinder = bl_blinder blinded\<rparr>)
       | Err _ \<Rightarrow> throw (Crypto ''reserve blind_message failed'')
       | Panic \<Rightarrow> panic))"

definition blind_outputs :: "('p, 'j, 'n) reserve_env \<Rightarrow> u64 list \<Rightarrow> string \<Rightarrow> ('n, 'j list \<times> pending_change list) rw_op" where
  "blind_outputs E amounts keyset_id =
     bind (map_op (blind_output E keyset_id) amounts) (\<lambda>outs. ret (map fst outs, map snd outs))"

definition signatures_array :: "'j serde \<Rightarrow> 'j \<Rightarrow> (cashu_error, 'j list) res" where
  "signatures_array S value =
     ok_or (Protocol ''upstream mint: no signatures array'') (Option.bind (v_get S ''signatures'' value) (v_as_array S))"

definition proof_json :: "externs \<Rightarrow> 'j serde \<Rightarrow> nut_proof \<Rightarrow> 'j" where
  "proof_json X S p =
     v_object S [(''amount'', v_u64 S (pf_amount p)), (''id'', v_string S (pf_id p)), (''secret'', v_string S (pf_secret p)),
                 (''C'', v_string S (hex_encode X (to_bytes (pf_c p))))]"

section \<open>The reserve\<close>

definition trim_slashes :: "string \<Rightarrow> string" where
  "trim_slashes s = rev (dropWhile (\<lambda>c. c = CHR ''/'') (rev s))"

definition reserve_new :: "string \<Rightarrow> string \<Rightarrow> u64 \<Rightarrow> 'n \<Rightarrow> 'n reserve_wallet" where
  "reserve_new base_url u bootstrap_sats n =
     \<lparr>rw_base_url = trim_slashes base_url, rw_unit = u, rw_bootstrap_sats = bootstrap_sats, rw_keyset = None, rw_proofs = [],
      rw_stored = False, rw_world = n\<rparr>"

definition reserve_snap :: "externs \<Rightarrow> 'n reserve_wallet \<Rightarrow> reserve_snapshot" where
  "reserve_snap X w =
     \<lparr>rn_base_url = rw_base_url w, rn_unit = rw_unit w,
      rn_keyset = map_option (\<lambda>k. \<lparr>kn_id = uk_id k, kn_input_fee_ppk = uk_input_fee_ppk k,
                                    kn_keys = map (\<lambda>(a, pk). (a, hex_encode X (to_bytes pk))) (uk_keys k)\<rparr>) (rw_keyset w),
      rn_proofs = map (\<lambda>p. \<lparr>pn_amount = pf_amount p, pn_id = pf_id p, pn_secret = pf_secret p, pn_c_hex = hex_encode X (to_bytes (pf_c p))\<rparr>) (rw_proofs w)\<rparr>"

definition restore_point :: "externs \<Rightarrow> string \<Rightarrow> public_key option" where
  "restore_point X text = Option.bind (hex_decode X text) (pk_from_bytes X)"

definition restore_keyset :: "externs \<Rightarrow> keyset_snap \<Rightarrow> upstream_keyset option" where
  "restore_keyset X k =
     map_option (\<lambda>keys. \<lparr>uk_id = kn_id k, uk_input_fee_ppk = kn_input_fee_ppk k, uk_keys = keys\<rparr>)
       (map_opt (\<lambda>(a, text). map_option (\<lambda>pk. (a, pk)) (restore_point X text)) (kn_keys k))"

definition restore_proof :: "externs \<Rightarrow> proof_snap \<Rightarrow> nut_proof option" where
  "restore_proof X p =
     map_option (\<lambda>c. \<lparr>pf_amount = pn_amount p, pf_id = pn_id p, pf_secret = pn_secret p, pf_c = c, pf_dleq = None, pf_witness = None\<rparr>)
       (restore_point X (pn_c_hex p))"

text \<open>Every defect of a snapshot panics: the era guard, hex that does not decode, bytes that are no point.\<close>

definition reserve_restore :: "externs \<Rightarrow> reserve_snapshot \<Rightarrow> ('n, unit) rw_op" where
  "reserve_restore X snap =
     bind (gets (\<lambda>w. rn_base_url snap \<noteq> rw_base_url w \<or> rn_unit snap \<noteq> rw_unit w)) (\<lambda>other_era.
       if other_era then panic
       else
         bind (case rn_keyset snap of
                 None \<Rightarrow> modify (\<lambda>w. w\<lparr>rw_keyset := None\<rparr>)
               | Some k \<Rightarrow> (case restore_keyset X k of None \<Rightarrow> panic | Some k \<Rightarrow> modify (\<lambda>w. w\<lparr>rw_keyset := Some k\<rparr>))) (\<lambda>_.
           case map_opt (restore_proof X) (rn_proofs snap) of
             None \<Rightarrow> panic
           | Some ps \<Rightarrow> modify (\<lambda>w. w\<lparr>rw_proofs := ps\<rparr>)))"

definition save_or_panic :: "('p, 'j, 'n) reserve_env \<Rightarrow> ('n, unit) rw_op" where
  "save_or_panic E =
     bind (gets (reserve_snap (re_externs E))) (\<lambda>snap.
     bind (on_net (re_save E snap)) (\<lambda>ok. if ok then ret () else panic))"

definition reserve_with_state_file :: "('p, 'j, 'n) reserve_env \<Rightarrow> ('n, unit) rw_op" where
  "reserve_with_state_file E =
     bind (on_net (re_load E)) (\<lambda>loaded.
     bind (case loaded of
             Inr (Some snap) \<Rightarrow> reserve_restore (re_externs E) snap
           | Inr None \<Rightarrow> save_or_panic E
           | Inl _ \<Rightarrow> panic) (\<lambda>_.
       modify (\<lambda>w. w\<lparr>rw_stored := True\<rparr>)))"

definition reserve_persist :: "('p, 'j, 'n) reserve_env \<Rightarrow> ('n, unit) rw_op" where
  "reserve_persist E = bind (gets rw_stored) (\<lambda>stored. if stored then save_or_panic E else ret ())"

definition balance_sats :: "'n reserve_wallet \<Rightarrow> u64" where
  "balance_sats w = (case try_fold_add 0 (map pf_amount (rw_proofs w)) of Some t \<Rightarrow> t | None \<Rightarrow> - 1)"

fun poll_loop :: "('p, 'j, 'n) reserve_env \<Rightarrow> string \<Rightarrow> nat \<Rightarrow> ('n, bool) rw_op" where
  "poll_loop E url 0 = ret False"
| "poll_loop E url (Suc tries) =
     bind (upstream_get E url) (\<lambda>quote.
     bind (lift_res (json_str (re_serde E) ''state'' (v_index (re_serde E) ''state'' quote))) (\<lambda>state.
       if state \<in> {''PAID'', ''ISSUED''} then ret True
       else bind (modify (\<lambda>w. w\<lparr>rw_world := re_sleep E (rw_world w)\<rparr>)) (\<lambda>_. poll_loop E url tries)))"

definition poll_until_paid :: "('p, 'j, 'n) reserve_env \<Rightarrow> string \<Rightarrow> ('n, bool) rw_op" where
  "poll_until_paid E quote_id =
     bind (gets rw_base_url) (\<lambda>base_url.
       let timeout_secs = (case re_pay_timeout E of Some t \<Rightarrow> t | None \<Rightarrow> 5);
           tries = max (case checked_mul timeout_secs 2 of Some t \<Rightarrow> t | None \<Rightarrow> - 1) 1
       in poll_loop E (base_url @ ''/v1/mint/quote/bolt11/'' @ quote_id) (unat tries))"

definition ensure_keyset :: "('p, 'j, 'n) reserve_env \<Rightarrow> ('n, upstream_keyset) rw_op" where
  "ensure_keyset E =
     bind (gets (\<lambda>w. (rw_keyset w, rw_base_url w, rw_unit w))) (\<lambda>(keyset, base_url, u).
       case keyset of
         Some k \<Rightarrow> ret k
       | None \<Rightarrow>
           bind (upstream_get E (base_url @ ''/v1/keys'')) (\<lambda>keys.
           bind (lift_res (from_keys_response (re_externs E) (re_serde E) keys u)) (\<lambda>k.
           bind (modify (\<lambda>w. w\<lparr>rw_keyset := Some k\<rparr>)) (\<lambda>_. ret k))))"

text \<open>The greedy loop over the proofs, smallest first.\<close>

fun cover :: "u64 list \<Rightarrow> u64 \<Rightarrow> u64 \<Rightarrow> nat list \<Rightarrow> nat list" where
  "cover amounts target acc [] = []"
| "cover amounts target acc (idx # order) =
     (if acc \<ge> target then []
      else (case checked_add acc (amounts ! idx) of
              Some next \<Rightarrow> idx # cover amounts target next order
            | None \<Rightarrow> []))"

definition reserve_select :: "u64 \<Rightarrow> 'n reserve_wallet \<Rightarrow> nat list" where
  "reserve_select target w =
     (let amounts = map pf_amount (rw_proofs w)
      in cover amounts target 0 (sort_key (\<lambda>i. amounts ! i) [0..<length amounts]))"

text \<open>\<^verbatim>\<open>Vec::swap_remove\<close>: the last element takes the place of the removed one.\<close>

definition swap_remove :: "nat \<Rightarrow> ('n, unit) rw_op" where
  "swap_remove idx =
     bind (gets rw_proofs) (\<lambda>ps.
       if idx < length ps then modify (\<lambda>w. w\<lparr>rw_proofs := butlast (ps[idx := last ps])\<rparr>) else panic)"

definition remove_selected :: "nat list \<Rightarrow> ('n, unit) rw_op" where
  "remove_selected selected = for_each swap_remove (rev (sort selected))"

fun append_loop :: "('p, 'j, 'n) reserve_env \<Rightarrow> upstream_keyset \<Rightarrow> (pending_change \<times> 'j) list \<Rightarrow> u64 \<Rightarrow> ('n, u64) rw_op" where
  "append_loop E keyset [] acc = ret acc"
| "append_loop E keyset ((p, sig) # rest) acc =
     bind (lift_res (json_amount (re_serde E) ''signature amount'' (v_index (re_serde E) ''amount'' sig))) (\<lambda>amount.
     bind (lift_res (json_point (re_externs E) (re_serde E) (v_index (re_serde E) ''C_'' sig))) (\<lambda>c_prime.
     bind (lift_res (ok_or KeysetNotFound (map_of (uk_keys keyset) amount))) (\<lambda>pubkey.
     bind (lift_res (case unblind_signature (re_curve E) c_prime (pc_blinder p) pubkey of
             Ok c \<Rightarrow> Ok c | Err _ \<Rightarrow> Err (Crypto ''reserve unblind failed'') | Panic \<Rightarrow> Panic)) (\<lambda>c.
     bind (lift_res (ok_or InvalidAmount (checked_add acc amount))) (\<lambda>acc.
     bind (modify (\<lambda>w. w\<lparr>rw_proofs := rw_proofs w @
             [\<lparr>pf_amount = amount, pf_id = uk_id keyset, pf_secret = pc_secret_hex p, pf_c = c, pf_dleq = None, pf_witness = None\<rparr>]\<rparr>)) (\<lambda>_.
       append_loop E keyset rest acc))))))"

definition append_unblinded ::
  "('p, 'j, 'n) reserve_env \<Rightarrow> pending_change list \<Rightarrow> 'j list \<Rightarrow> upstream_keyset \<Rightarrow> u64 \<Rightarrow> ('n, unit) rw_op" where
  "append_unblinded E pending signatures keyset expected_change =
     (if length signatures > length pending then
        throw (Protocol (''upstream returned '' @ show_nat (length signatures) @ '' change signatures for '' @ show_nat (length pending) @ '' blanks''))
      else
        bind (append_loop E keyset (zip pending signatures) 0) (\<lambda>sum.
          if sum \<noteq> expected_change then
            throw (Protocol (''upstream change sum '' @ show_u64 sum @ '' != expected overpay '' @ show_u64 expected_change))
          else ret ()))"

definition reserve_bootstrap :: "('p, 'j, 'n) reserve_env \<Rightarrow> u64 \<Rightarrow> ('n, unit) rw_op" where
  "reserve_bootstrap E amount_sat =
     (let S = re_serde E in
      bind (guard_err (amount_sat = 0) InvalidAmount) (\<lambda>_.
      bind (ensure_keyset E) (\<lambda>keyset.
      bind (gets (\<lambda>w. (rw_base_url w, rw_unit w))) (\<lambda>(base_url, u).
      bind (upstream_post E (base_url @ ''/v1/mint/quote/bolt11'') (v_object S [(''amount'', v_u64 S amount_sat), (''unit'', v_string S u)])) (\<lambda>quote.
      bind (lift_res (json_str S ''quote'' (v_index S ''quote'' quote))) (\<lambda>quote_id.
      bind (lift_res (json_str S ''request'' (v_index S ''request'' quote))) (\<lambda>invoice.
      bind (poll_until_paid E quote_id) (\<lambda>paid.
      bind (guard_err (\<not> paid) QuoteNotPaid) (\<lambda>_.
      bind (blind_outputs E (decompose_amount amount_sat) (uk_id keyset)) (\<lambda>(outputs, pending).
      bind (upstream_post E (base_url @ ''/v1/mint/bolt11'') (v_object S [(''quote'', v_string S quote_id), (''outputs'', v_array S outputs)])) (\<lambda>minted.
      bind (lift_res (signatures_array S minted)) (\<lambda>signatures.
      bind (append_unblinded E pending signatures keyset amount_sat) (\<lambda>_.
        reserve_persist E)))))))))))))"

section \<open>Paying from the reserve\<close>

text \<open>Errors after the payment are logged, not returned.\<close>

definition logged :: "('n, unit) rw_op \<Rightarrow> ('n, unit) rw_op" where
  "logged m = (\<lambda>w. case m w of (Err _, w') \<Rightarrow> (Ok (), w') | other \<Rightarrow> other)"

definition pay_settled ::
  "('p, 'j, 'n) reserve_env \<Rightarrow> nat list \<Rightarrow> pending_change list \<Rightarrow> upstream_keyset \<Rightarrow> u64 \<Rightarrow> 'j \<Rightarrow> ('n, string) rw_op" where
  "pay_settled E selected pending keyset change_amount response =
     (let S = re_serde E;
          state = (case Option.bind (v_get S ''state'' response) (v_as_str S) of Some s \<Rightarrow> s | None \<Rightarrow> []);
          paid = (case Option.bind (v_get S ''paid'' response) (v_as_bool S) of Some b \<Rightarrow> b | None \<Rightarrow> False)
      in if paid \<or> state = ''PAID'' then
           bind (remove_selected selected) (\<lambda>_.
           bind (case Option.bind (v_get S ''change'' response) (v_as_array S) of
                   None \<Rightarrow> ret ()
                 | Some change \<Rightarrow>
                     if change = [] then ret () else logged (append_unblinded E pending change keyset change_amount)) (\<lambda>_.
           bind (reserve_persist E) (\<lambda>_.
             ret (case Option.bind (case v_get S ''payment_preimage'' response of Some v \<Rightarrow> Some v | None \<Rightarrow> v_get S ''preimage'' response) (v_as_str S) of
                    Some s \<Rightarrow> s | None \<Rightarrow> []))))
         else if state = ''FAILED'' then throw PaymentFailed
         else
           bind (remove_selected selected) (\<lambda>_.
           bind (reserve_persist E) (\<lambda>_.
             throw (Protocol (''upstream melt state ambiguous: '' @ state)))))"

definition div_ceil :: "u64 \<Rightarrow> u64 \<Rightarrow> u64" where
  "div_ceil a b = (if a mod b = 0 then a div b else a div b + 1)"

text \<open>From the selection on: fees, change outputs, the melt request and its answer.\<close>

definition pay_selected :: "('p, 'j, 'n) reserve_env \<Rightarrow> string \<Rightarrow> u64 \<Rightarrow> nat list \<Rightarrow> u64 \<Rightarrow> ('n, string) rw_op" where
  "pay_selected E quote_id amount_needed selected selected_sum =
     (let S = re_serde E in
      bind (ensure_keyset E) (\<lambda>keyset.
      bind (lift_res (ok_or InvalidAmount (map_option (\<lambda>ppk. div_ceil ppk 1000) (checked_mul (uk_input_fee_ppk keyset) (word_of_nat (length selected)))))) (\<lambda>input_fee.
      bind (lift_res (ok_or InvalidAmount (Option.bind (checked_sub selected_sum amount_needed) (\<lambda>v. checked_sub v input_fee)))) (\<lambda>change_amount.
      bind (blind_outputs E (if change_amount > 0 then decompose_amount change_amount else []) (uk_id keyset)) (\<lambda>(outputs, pending).
      bind (gets (\<lambda>w. (rw_base_url w, map (\<lambda>i. proof_json (re_externs E) S (rw_proofs w ! i)) selected))) (\<lambda>(base_url, inputs).
      bind (\<lambda>w. case upstream_post E (base_url @ ''/v1/melt/bolt11'')
                  (v_object S [(''quote'', v_string S quote_id), (''inputs'', v_array S inputs), (''outputs'', v_array S outputs)]) w of
                (Err _, w') \<Rightarrow> (Err PaymentFailed, w') | other \<Rightarrow> other) (\<lambda>response.
        pay_settled E selected pending keyset change_amount response)))))))"

definition reserve_pay :: "('p, 'j, 'n) reserve_env \<Rightarrow> string \<Rightarrow> u64 \<Rightarrow> ('n, string) rw_op" where
  "reserve_pay E quote_id amount_needed =
     bind (guard_err (amount_needed = 0) InvalidAmount) (\<lambda>_.
     bind (gets (\<lambda>w. (balance_sats w, rw_bootstrap_sats w))) (\<lambda>(balance, bootstrap_sats).
     bind (if balance < amount_needed then
             bind (lift_res (ok_or InvalidAmount (checked_add (amount_needed - balance) bootstrap_sats))) (reserve_bootstrap E)
           else ret ()) (\<lambda>_.
     bind (lift_res (ok_or InvalidAmount (Option.bind (checked_add amount_needed (amount_needed div 20)) (\<lambda>v. checked_add v 1)))) (\<lambda>target.
     bind (gets (\<lambda>w. (reserve_select target w, map pf_amount (rw_proofs w)))) (\<lambda>(selected, amounts).
     bind (lift_res (ok_or InvalidAmount (try_fold_add 0 (map (\<lambda>i. amounts ! i) selected)))) (\<lambda>selected_sum.
     bind (guard_err (selected_sum < amount_needed) InsufficientInputs) (\<lambda>_.
       pay_selected E quote_id amount_needed selected selected_sum)))))))"

section \<open>The backend\<close>

record upstream_melt_quote =
  um_quote_id :: string
  um_amount :: u64
  um_fee_reserve :: u64

record 'n upstream_backend =
  ub_base_url :: string
  ub_unit :: string
  ub_mint_quotes :: "(string \<times> string) list"
  ub_melt_quotes :: "(string \<times> upstream_melt_quote) list"
  ub_reserve :: "'n reserve_wallet"

type_synonym ('n, 'a) ub_op = "('n upstream_backend, cashu_error, 'a) op"

definition on_reserve :: "('n, 'a) rw_op \<Rightarrow> ('n, 'a) ub_op" where
  "on_reserve m = (\<lambda>b. case m (ub_reserve b) of (r, w) \<Rightarrow> (r, b\<lparr>ub_reserve := w\<rparr>))"

definition upstream_backend_new ::
  "('p, 'j, 'n) reserve_env \<Rightarrow> string \<Rightarrow> string \<Rightarrow> u64 \<Rightarrow> bool \<Rightarrow> 'n \<Rightarrow> (cashu_error, unit) res \<times> 'n upstream_backend" where
  "upstream_backend_new E base_url u bootstrap_sats state_file n =
     (case (if state_file then reserve_with_state_file E else ret ()) (reserve_new base_url u bootstrap_sats n) of
        (r, w) \<Rightarrow> (r, \<lparr>ub_base_url = trim_slashes base_url, ub_unit = u, ub_mint_quotes = [], ub_melt_quotes = [], ub_reserve = w\<rparr>))"

definition reserve_balance_sats :: "'n upstream_backend \<Rightarrow> u64" where
  "reserve_balance_sats b = balance_sats (ub_reserve b)"

definition upstream_create_invoice :: "('p, 'j, 'n) reserve_env \<Rightarrow> u64 \<Rightarrow> string \<Rightarrow> ('n, string) ub_op" where
  "upstream_create_invoice E amount_sat description =
     (let S = re_serde E in
      bind (gets (\<lambda>b. (ub_base_url b, ub_unit b))) (\<lambda>(base_url, u).
      bind (on_reserve (upstream_post E (base_url @ ''/v1/mint/quote/bolt11'') (v_object S [(''amount'', v_u64 S amount_sat), (''unit'', v_string S u)]))) (\<lambda>quote.
      bind (lift_res (json_str S ''quote'' (v_index S ''quote'' quote))) (\<lambda>quote_id.
      bind (lift_res (json_str S ''request'' (v_index S ''request'' quote))) (\<lambda>invoice.
      bind (modify (\<lambda>b. b\<lparr>ub_mint_quotes := AList.update invoice quote_id (ub_mint_quotes b)\<rparr>)) (\<lambda>_. ret invoice))))))"

definition upstream_is_settled :: "('p, 'j, 'n) reserve_env \<Rightarrow> string \<Rightarrow> ('n, bool) ub_op" where
  "upstream_is_settled E invoice =
     bind (gets (\<lambda>b. (map_of (ub_mint_quotes b) invoice, ub_base_url b))) (\<lambda>(known, base_url).
       case known of
         None \<Rightarrow> throw (Protocol ''is_settled: invoice has no upstream mint quote'')
       | Some quote_id \<Rightarrow>
           (\<lambda>b. case on_reserve (upstream_get E (base_url @ ''/v1/mint/quote/bolt11/'' @ quote_id)) b of
                  (Ok quote, b') \<Rightarrow>
                    (map_ok (\<lambda>state. state \<in> {''PAID'', ''ISSUED''}) (json_str (re_serde E) ''state'' (v_index (re_serde E) ''state'' quote)), b')
                | (Err _, b') \<Rightarrow> (Ok False, b')
                | (Panic, b') \<Rightarrow> (Panic, b')))"

definition upstream_lookup_amount :: "('p, 'j, 'n) reserve_env \<Rightarrow> string \<Rightarrow> ('n, u64) ub_op" where
  "upstream_lookup_amount E invoice =
     (let S = re_serde E in
      bind (gets (\<lambda>b. (map_of (ub_melt_quotes b) invoice, ub_base_url b, ub_unit b))) (\<lambda>(known, base_url, u).
        case known of
          Some quote \<Rightarrow> ret (um_amount quote)
        | None \<Rightarrow>
            bind (on_reserve (upstream_post E (base_url @ ''/v1/melt/quote/bolt11'') (v_object S [(''request'', v_string S invoice), (''unit'', v_string S u)]))) (\<lambda>quote.
            bind (lift_res (json_str S ''quote'' (v_index S ''quote'' quote))) (\<lambda>quote_id.
            bind (lift_res (json_amount S ''amount'' (v_index S ''amount'' quote))) (\<lambda>amount.
            bind (lift_res (json_amount_or S ''fee_reserve'' (v_get S ''fee_reserve'' quote) 0)) (\<lambda>fee_reserve.
            bind (modify (\<lambda>b. b\<lparr>ub_melt_quotes := AList.update invoice
                    \<lparr>um_quote_id = quote_id, um_amount = amount, um_fee_reserve = fee_reserve\<rparr> (ub_melt_quotes b)\<rparr>)) (\<lambda>_. ret amount)))))))"

definition upstream_pay_invoice :: "('p, 'j, 'n) reserve_env \<Rightarrow> string \<Rightarrow> u64 \<Rightarrow> ('n, string) ub_op" where
  "upstream_pay_invoice E invoice amount_sat =
     bind (gets (\<lambda>b. map_of (ub_melt_quotes b) invoice = None)) (\<lambda>unknown.
     bind (if unknown then bind (upstream_lookup_amount E invoice) (\<lambda>_. ret ()) else ret ()) (\<lambda>_.
     bind (gets (\<lambda>b. map_of (ub_melt_quotes b) invoice)) (\<lambda>known.
       case known of
         None \<Rightarrow> throw (Protocol ''pay_invoice: invoice has no upstream melt quote'')
       | Some quote \<Rightarrow>
           bind (lift_res (ok_or InvalidAmount (checked_add (um_amount quote) (um_fee_reserve quote)))) (\<lambda>needed.
             on_reserve (reserve_pay E (um_quote_id quote) needed)))))"

end
