(* ===== verification/Reserve_Theorems.thy ===== *)
theory Reserve_Theorems
  imports Reserve
begin

text \<open>
  What the reserve promises: proofs sent upstream leave it unless the upstream mint said that the payment failed, no other
  failure costs a proof, the selection covers what is needed, and a restart finds the reserve that was saved or refuses to start.
\<close>

section \<open>What a call keeps\<close>

definition same_proofs :: "'n reserve_wallet \<Rightarrow> 'n reserve_wallet \<Rightarrow> bool" where
  "same_proofs w w' \<longleftrightarrow> rw_proofs w' = rw_proofs w"

definition grows :: "'n reserve_wallet \<Rightarrow> 'n reserve_wallet \<Rightarrow> bool" where
  "grows w w' \<longleftrightarrow> mset (rw_proofs w) \<subseteq># mset (rw_proofs w')"

interpretation same: state_preorder same_proofs
  by unfold_locales (simp_all add: same_proofs_def)

interpretation growing: state_preorder grows
  by unfold_locales (auto simp: grows_def)

lemma same_grows: "climbs same_proofs m \<Longrightarrow> climbs grows m"
  by (auto simp: climbs_def same_proofs_def grows_def)

lemma same_on_net: "climbs same_proofs (on_net f)"
  by (auto simp: climbs_def on_net_def same_proofs_def split: prod.split)

lemma same_modify: "climbs same_proofs (modify (\<lambda>w. w\<lparr>rw_world := f w\<rparr>))" "climbs same_proofs (modify (\<lambda>w. w\<lparr>rw_keyset := k\<rparr>))"
  by (simp_all add: climbs_def same_proofs_def)

lemma grows_push: "climbs grows (modify (\<lambda>w. w\<lparr>rw_proofs := rw_proofs w @ ps\<rparr>))"
  by (simp add: climbs_def grows_def)

lemma same_get: "climbs same_proofs (upstream_get E url)"
  unfolding upstream_get_def by (auto intro!: same.climbs_rules same_on_net split: sum.split)

lemma same_post: "climbs same_proofs (upstream_post E url body)"
  unfolding upstream_post_def by (auto intro!: same.climbs_rules same_on_net split: sum.split)

lemma same_ensure_keyset: "climbs same_proofs (ensure_keyset E)"
  unfolding ensure_keyset_def
  by (auto intro!: same.climbs_rules same_modify same_get split: option.split)

lemma same_poll: "climbs same_proofs (poll_loop E url tries)"
proof (induction tries)
  case (Suc tries)
  then show ?case unfolding poll_loop.simps by (auto intro!: same.climbs_rules same_modify same_get)
qed (unfold poll_loop.simps, rule same.climbs_ret)

lemma same_blind_outputs: "climbs same_proofs (blind_outputs E amounts kid)"
  unfolding blind_outputs_def blind_output_def Let_def
  by (auto intro!: same.climbs_rules same_on_net split: res.split)

lemma same_persist: "climbs same_proofs (reserve_persist E)"
  unfolding reserve_persist_def save_or_panic_def by (auto intro!: same.climbs_rules same_on_net)

lemma grows_append: "climbs grows (append_loop E keyset xs acc)"
proof (induction xs arbitrary: acc)
  case (Cons x xs)
  obtain p sig where x: "x = (p, sig)" by fastforce
  show ?case unfolding x append_loop.simps by (intro growing.climbs_rules grows_push Cons)
qed (unfold append_loop.simps, rule growing.climbs_ret)

lemma grows_append_unblinded: "climbs grows (append_unblinded E pending sigs keyset expected)"
  unfolding append_unblinded_def by (auto intro!: growing.climbs_rules grows_append)

lemma grows_bootstrap: "climbs grows (reserve_bootstrap E amount)"
  unfolding reserve_bootstrap_def poll_until_paid_def Let_def
  by (auto intro!: growing.climbs_rules grows_append_unblinded same_grows[OF same_ensure_keyset] same_grows[OF same_post] same_grows[OF same_poll]
      same_grows[OF same_blind_outputs] same_grows[OF same_persist])

section \<open>Selection and removal\<close>

text \<open>The greedy choice is a prefix of the order it walks.\<close>

lemma cover_prefix: "\<exists>k. cover amounts target acc order = take k order"
proof (induction order arbitrary: acc)
  case (Cons i order)
  show ?case
  proof (cases "acc \<ge> target")
    case False
    show ?thesis
    proof (cases "checked_add acc (amounts ! i)")
      case (Some s)
      from Cons.IH[of s] obtain k where "cover amounts target s order = take k order" by blast
      with False Some show ?thesis by (intro exI[of _ "Suc k"]) simp
    qed (use False in \<open>auto intro: exI[of _ 0]\<close>)
  qed (auto intro: exI[of _ 0])
qed simp

lemma reserve_select_indices:
  "distinct (reserve_select target w)" "set (reserve_select target w) \<subseteq> {..<length (rw_proofs w)}"
proof -
  let ?order = "sort_key (\<lambda>i. map pf_amount (rw_proofs w) ! i) [0..<length (rw_proofs w)]"
  obtain k where k: "reserve_select target w = take k ?order"
    using cover_prefix[of "map pf_amount (rw_proofs w)" target 0 ?order] by (auto simp: reserve_select_def Let_def)
  show "distinct (reserve_select target w)" unfolding k by (intro distinct_take) simp
  show "set (reserve_select target w) \<subseteq> {..<length (rw_proofs w)}" unfolding k using set_take_subset[of k ?order] by auto
qed

text \<open>It covers the target, or it took every proof, unless amounts overflow.\<close>

lemma cover_enough:
  "unat acc + sum_nat (map ((!) amounts) order) < 2 ^ 64 \<Longrightarrow>
     unat (target :: u64) \<le> unat acc + sum_nat (map ((!) amounts) (cover amounts target acc order)) \<or> cover amounts target acc order = order"
proof (induction order arbitrary: acc)
  case (Cons i order)
  show ?case
  proof (cases "acc \<ge> target")
    case False
    then obtain s where s: "checked_add acc (amounts ! i) = Some s" using Cons.prems by (auto simp: checked_add_def)
    from checked_add_Some[OF this] Cons.prems Cons.IH[of s] False s show ?thesis by auto
  qed (simp add: word_le_nat_alt)
qed simp

lemma sum_nat_sort: "sum_nat (map ((!) amounts) (sort_key f [0..<length amounts])) = sum_nat amounts"
proof -
  have "mset (map ((!) amounts) (sort_key f [0..<length amounts])) = mset amounts"
    by (metis map_nth mset_map mset_sort)
  then show ?thesis by (metis mset_map sum_mset_sum_list)
qed

lemma reserve_select_covers:
  assumes "sum_nat (map pf_amount (rw_proofs w)) < 2 ^ 64"
  shows "min (unat target) (sum_nat (map pf_amount (rw_proofs w))) \<le> sum_nat (map ((!) (map pf_amount (rw_proofs w))) (reserve_select target w))"
proof -
  let ?a = "map pf_amount (rw_proofs w)" let ?order = "sort_key (\<lambda>i. ?a ! i) [0..<length ?a]"
  have sum: "sum_nat (map ((!) ?a) ?order) = sum_nat ?a" by (rule sum_nat_sort)
  then have "unat (0::u64) + sum_nat (map ((!) ?a) ?order) < 2 ^ 64" using assms by simp
  from cover_enough[OF this, of target] sum show ?thesis by (auto simp: reserve_select_def Let_def)
qed

lemma mset_swap_remove:
  assumes "d < length ps"
  shows "mset ps = add_mset (ps ! d) (mset (butlast (ps[d := last ps])))"
proof -
  have ne: "ps[d := last ps] \<noteq> []" "ps \<noteq> []" using assms by auto
  have "last (ps[d := last ps]) = last ps"
    unfolding last_conv_nth[OF ne(1)] using assms by (cases "d = length ps - 1") (simp_all add: last_conv_nth[OF ne(2)])
  then have "mset (ps[d := last ps]) = add_mset (last ps) (mset (butlast (ps[d := last ps])))"
    by (metis append_butlast_last_id mset.simps mset_append ne(1) union_mset_add_mset_right add.right_neutral)
  moreover have "mset (ps[d := last ps]) = add_mset (last ps) (mset ps - {#ps ! d#})" using assms by (rule mset_update)
  ultimately have "mset (butlast (ps[d := last ps])) = mset ps - {#ps ! d#}" by simp
  then show ?thesis using assms by simp
qed

lemma nth_swap_remove: "i < d \<Longrightarrow> d < length ps \<Longrightarrow> butlast (ps[d := last ps]) ! i = ps ! i"
  by (simp add: nth_butlast)

lemma remove_descending:
  assumes "sorted_wrt (>) ds" "\<forall>d \<in> set ds. d < length (rw_proofs w)"
  shows "\<exists>ps. for_each swap_remove ds w = (Ok (), w\<lparr>rw_proofs := ps\<rparr>) \<and> mset (rw_proofs w) = mset (map ((!) (rw_proofs w)) ds) + mset ps"
  using assms
proof (induction ds arbitrary: w)
  case (Cons d ds)
  let ?ps = "rw_proofs w" let ?qs = "butlast (?ps[d := last ?ps])"
  have d: "d < length ?ps" and less: "\<forall>i \<in> set ds. i < d" using Cons.prems by auto
  then have step: "swap_remove d w = (Ok (), w\<lparr>rw_proofs := ?qs\<rparr>)" by (simp add: swap_remove_def)
  have "\<forall>i \<in> set ds. i < length (rw_proofs (w\<lparr>rw_proofs := ?qs\<rparr>))" using less d by auto
  then obtain ps where ps: "for_each swap_remove ds (w\<lparr>rw_proofs := ?qs\<rparr>) = (Ok (), w\<lparr>rw_proofs := ps\<rparr>)" "mset ?qs = mset (map ((!) ?qs) ds) + mset ps"
    using Cons.IH[of "w\<lparr>rw_proofs := ?qs\<rparr>"] Cons.prems(1) by auto
  have "map ((!) ?qs) ds = map ((!) ?ps) ds" using less d nth_swap_remove by (auto intro: map_cong)
  with ps mset_swap_remove[OF d] step show ?case by (auto simp: bind_def)
next
  case Nil
  then show ?case by (intro exI[of _ "rw_proofs w"]) simp
qed

lemma remove_selected_removes:
  assumes "distinct sel" "set sel \<subseteq> {..<length (rw_proofs w)}"
  shows "\<exists>ps. remove_selected sel w = (Ok (), w\<lparr>rw_proofs := ps\<rparr>) \<and> mset (rw_proofs w) = mset (map ((!) (rw_proofs w)) sel) + mset ps"
proof -
  have "sorted_wrt (<) (sort sel)" using assms(1) by (simp add: strict_sorted_iff)
  then have "sorted_wrt (>) (rev (sort sel))" by (simp add: sorted_wrt_rev)
  moreover have "\<forall>d \<in> set (rev (sort sel)). d < length (rw_proofs w)" using assms(2) by auto
  ultimately obtain ps where "for_each swap_remove (rev (sort sel)) w = (Ok (), w\<lparr>rw_proofs := ps\<rparr>)"
    "mset (rw_proofs w) = mset (map ((!) (rw_proofs w)) (rev (sort sel))) + mset ps" using remove_descending by blast
  then show ?thesis by (auto simp: remove_selected_def)
qed

section \<open>Paying\<close>

abbreviation value_of :: "nut_proof multiset \<Rightarrow> nat" where
  "value_of ps \<equiv> \<Sum>p \<in># ps. unat (pf_amount p)"

text \<open>Where requests and draws of random numbers may lead the world, and a generator that draws no secret of a given set on the way.\<close>

inductive later :: "('p, 'j, 'n) reserve_env \<Rightarrow> 'n \<Rightarrow> 'n \<Rightarrow> bool" for E n where
  later_refl: "later E n n"
| later_get: "later E n m \<Longrightarrow> later E n (snd (re_get E url m))"
| later_post: "later E n m \<Longrightarrow> later E n (snd (re_post E url body m))"
| later_random: "later E n m \<Longrightarrow> later E n (snd (re_random E m))"
| later_scalar: "later E n m \<Longrightarrow> later E n (snd (re_scalar E m))"

definition fresh_draws :: "('p, 'j, 'n) reserve_env \<Rightarrow> string set \<Rightarrow> 'n \<Rightarrow> bool" where
  "fresh_draws E old n \<longleftrightarrow> (\<forall>m. later E n m \<longrightarrow> hex_encode (re_externs E) (fst (re_random E m)) \<notin> old)"

abbreviation secrets :: "'n reserve_wallet \<Rightarrow> string set" where
  "secrets w \<equiv> pf_secret ` set (rw_proofs w)"

text \<open>
  The reserve after the top-up that precedes a payment, and the two ways a payment leaves it: no proof moved; or exactly the proofs the
  selection chose for the amount are gone, they are worth the amount, and what came in carries none of the secrets held before.
\<close>

definition top_up :: "('p, 'j, 'n) reserve_env \<Rightarrow> u64 \<Rightarrow> ('n, unit) rw_op" where
  "top_up E needed = bind (gets (\<lambda>w. (balance_sats w, rw_bootstrap_sats w))) (\<lambda>(balance, bootstrap_sats).
     if balance < needed then bind (lift_res (ok_or InvalidAmount (checked_add (needed - balance) bootstrap_sats))) (reserve_bootstrap E) else ret ())"

definition pay_target :: "u64 \<Rightarrow> u64 option" where
  "pay_target needed = Option.bind (checked_add needed (needed div 20)) (\<lambda>v. checked_add v 1)"

definition chosen :: "u64 \<Rightarrow> 'n reserve_wallet \<Rightarrow> nut_proof multiset" where
  "chosen needed w = (case pay_target needed of Some target \<Rightarrow> mset (map ((!) (rw_proofs w)) (reserve_select target w)) | None \<Rightarrow> {#})"

definition kept :: "'n reserve_wallet \<Rightarrow> 'n reserve_wallet \<Rightarrow> bool" where
  "kept w w' \<longleftrightarrow> rw_proofs w' = rw_proofs w"

definition left_with :: "nat \<Rightarrow> nut_proof multiset \<Rightarrow> 'n reserve_wallet \<Rightarrow> 'n reserve_wallet \<Rightarrow> bool" where
  "left_with needed sent w w' \<longleftrightarrow> needed \<le> value_of sent
     \<and> (\<exists>rest change. mset (rw_proofs w) = sent + rest \<and> mset (rw_proofs w') = rest + change \<and> (\<forall>p \<in># change. pf_secret p \<notin> secrets w))"

definition parted :: "u64 \<Rightarrow> 'n reserve_wallet \<Rightarrow> 'n reserve_wallet \<Rightarrow> bool" where
  "parted needed w w' \<longleftrightarrow> left_with (unat needed) (chosen needed w) w w'"

text \<open>In numbers: every proof held before is held as often as before, less the times it was sent.\<close>

lemma parted_count: "parted needed w w' \<Longrightarrow> p \<in> set (rw_proofs w) \<Longrightarrow> count (mset (rw_proofs w')) p = count (mset (rw_proofs w)) p - count (chosen needed w) p"
proof -
  assume "parted needed w w'" and p: "p \<in> set (rw_proofs w)"
  then obtain rest change where rc: "mset (rw_proofs w) = chosen needed w + rest" "mset (rw_proofs w') = rest + change" "\<forall>q \<in># change. pf_secret q \<notin> secrets w"
    by (auto simp: parted_def left_with_def)
  have "p \<notin># change" using rc(3) p by auto
  then have "count change p = 0" by (simp add: not_in_iff)
  with rc(1,2) show ?thesis by simp
qed

lemma same_proofsD: "climbs same_proofs m \<Longrightarrow> m w = (r, v) \<Longrightarrow> rw_proofs v = rw_proofs w"
  using climbsD[of same_proofs m w r v] by (simp add: same_proofs_def)

lemma logged_climbs: "climbs R m \<Longrightarrow> climbs R (logged m)"
  by (auto simp: climbs_def logged_def split: prod.splits res.splits) (metis snd_conv)+

lemma sum_selected:
  "sum_nat (map ((!) (map pf_amount ps)) sel) = value_of (mset (map ((!) ps) sel))" if "set sel \<subseteq> {..<length ps}"
  using that by (induction sel) auto

lemma bind_cases:
  assumes "bind m f s = (r, t)"
  obtains (ok) x u where "m s = (Ok x, u)" "f x u = (r, t)"
  | (err) e where "m s = (Err e, t)" "r = Err e"
  | (panics) "m s = (Panic, t)" "r = Panic"
  using assms by (auto simp: bind_def split: prod.splits res.splits)

definition ambiguous :: "cashu_error \<Rightarrow> bool" where
  "ambiguous e \<longleftrightarrow> (\<exists>state. e = Protocol (''upstream melt state ambiguous: '' @ state))"

definition outcome :: "nat \<Rightarrow> nut_proof multiset \<Rightarrow> 'n reserve_wallet \<Rightarrow> (cashu_error, string) res \<Rightarrow> 'n reserve_wallet \<Rightarrow> bool" where
  "outcome n sent w r u \<longleftrightarrow> (\<forall>pre. r = Ok pre \<longrightarrow> left_with n sent w u) \<and> (r = Err PaymentFailed \<longrightarrow> kept w u)
     \<and> (\<forall>e. r = Err e \<longrightarrow> ambiguous e \<longrightarrow> left_with n sent w u) \<and> (kept w u \<or> left_with n sent w u)"

text \<open>Operations whose errors are none of an ambiguous melt.\<close>

definition calm :: "('s, cashu_error, 'a) op \<Rightarrow> bool" where
  "calm m \<longleftrightarrow> (\<forall>s e t. m s = (Err e, t) \<longrightarrow> \<not> ambiguous e)"

definition calm_res :: "(cashu_error, 'a) res \<Rightarrow> bool" where
  "calm_res r \<longleftrightarrow> (\<forall>e. r = Err e \<longrightarrow> \<not> ambiguous e)"

lemma calm_ops:
  "calm (ret x)" "calm panic" "calm (gets g)" "calm (modify h)" "calm (on_net f)" "\<not> ambiguous e \<Longrightarrow> calm (throw e)" "\<not> ambiguous e \<Longrightarrow> calm (guard_err b e)"
  by (auto simp: calm_def on_net_def split: prod.splits)

lemma calm_bind: "calm m \<Longrightarrow> (\<And>x. calm (f x)) \<Longrightarrow> calm (bind m f)"
  unfolding calm_def by (blast elim: bind_cases)

lemma calmD: "calm m \<Longrightarrow> m s = (Err e, t) \<Longrightarrow> \<not> ambiguous e"
  by (auto simp: calm_def)

lemma calm_lift: "calm_res r \<Longrightarrow> calm (lift_res r)"
  by (auto simp: calm_def calm_res_def)

lemma calm_res_rules:
  "calm_res (Ok x)" "\<not> ambiguous e \<Longrightarrow> calm_res (Err e)" "\<not> ambiguous e \<Longrightarrow> calm_res (ok_or e v)" "calm_res Panic"
  "calm_res q \<Longrightarrow> (\<And>x. calm_res (f x)) \<Longrightarrow> calm_res (res_bind q f)"
  by (cases q; auto simp: calm_res_def)+

lemma not_ambiguous [simp]:
  "\<not> ambiguous (Transport t)" "\<not> ambiguous (Crypto t)" "\<not> ambiguous InvalidAmount" "\<not> ambiguous KeysetNotFound" "\<not> ambiguous QuoteNotPaid"
  "\<not> ambiguous InsufficientInputs" "\<not> ambiguous PaymentFailed" "\<not> ambiguous (amount_err S f v)"
  by (simp_all add: ambiguous_def amount_err_def)

lemmas calm_rules = calm_ops calm_bind calm_lift calm_res_rules

lemma calm_map_op: "(\<And>x. calm (f x)) \<Longrightarrow> calm (map_op f xs)"
  by (induction xs; unfold map_op.simps) (auto intro!: calm_ops calm_bind)

lemma calm_json:
  "calm_res (json_str S f v)" "calm_res (json_amount S f v)" "calm_res (json_amount_or S f o' d)" "calm_res (json_point X S v)" "calm_res (signatures_array S v)"
  by (auto simp: json_str_def json_amount_def json_amount_or_def json_point_def signatures_array_def ambiguous_def amount_err_def intro!: calm_res_rules split: option.split)

lemma calm_insert_keys: "calm_res (insert_keys X S entries keys)"
proof (induction entries arbitrary: keys)
  case (Cons e entries)
  then show ?case by (cases e) (auto simp: ambiguous_def intro!: calm_res_rules calm_json)
qed (simp add: calm_res_rules)

lemma calm_from_keys: "calm_res (from_keys_response X S v u)"
  unfolding from_keys_response_def parse_keyset_keys_def
  by (auto intro!: calm_res_rules calm_json calm_insert_keys simp: ambiguous_def split: option.split)

lemma calm_http: "calm (upstream_get E url)" "calm (upstream_post E url body)"
  unfolding upstream_get_def upstream_post_def by (auto intro!: calm_rules simp: ambiguous_def split: sum.split)

lemma calm_ensure_keyset: "calm (ensure_keyset E)"
  unfolding ensure_keyset_def by (auto intro!: calm_rules calm_http calm_from_keys split: option.split)

lemma calm_poll: "calm (poll_loop E url tries)"
proof (induction tries)
  case (Suc tries)
  then show ?case unfolding poll_loop.simps by (auto intro!: calm_rules calm_http calm_json)
qed (unfold poll_loop.simps, rule calm_ops)

lemma calm_blind_outputs: "calm (blind_outputs E amounts kid)"
  unfolding blind_outputs_def blind_output_def Let_def by (auto intro!: calm_rules calm_map_op split: res.split)

lemma calm_append: "calm (append_loop E keyset xs acc)"
proof (induction xs arbitrary: acc)
  case (Cons x xs)
  obtain p sig where x: "x = (p, sig)" by fastforce
  show ?case unfolding x append_loop.simps by (intro calm_bind calm_lift calm_json Cons calm_ops) (auto intro!: calm_res_rules split: res.split)
qed (unfold append_loop.simps, rule calm_ops)

lemma calm_persist: "calm (reserve_persist E)"
  unfolding reserve_persist_def save_or_panic_def by (auto intro!: calm_rules)

lemma calm_bootstrap: "calm (reserve_bootstrap E amount)"
  unfolding reserve_bootstrap_def poll_until_paid_def append_unblinded_def Let_def
  by (auto intro!: calm_rules calm_ensure_keyset calm_http calm_json calm_poll calm_blind_outputs calm_append calm_persist simp: ambiguous_def)

lemma persist_no_error: "reserve_persist E w \<noteq> (Err e, v)" "logged m w \<noteq> (Err e, v)"
  by (auto simp: reserve_persist_def save_or_panic_def on_net_def logged_def bind_def split: prod.splits res.splits if_splits)

text \<open>What comes in carries no secret of a given set.\<close>

definition added :: "string set \<Rightarrow> 'n reserve_wallet \<Rightarrow> 'n reserve_wallet \<Rightarrow> bool" where
  "added old w w' \<longleftrightarrow> (\<exists>new. mset (rw_proofs w') = mset (rw_proofs w) + new \<and> (\<forall>p \<in># new. pf_secret p \<notin> old))"

lemma added_trans: "added old u v \<Longrightarrow> added old v w \<Longrightarrow> added old u w"
proof -
  assume "added old u v" "added old v w"
  then obtain a b where "mset (rw_proofs v) = mset (rw_proofs u) + a" "mset (rw_proofs w) = mset (rw_proofs v) + b"
    "\<forall>p \<in># a. pf_secret p \<notin> old" "\<forall>p \<in># b. pf_secret p \<notin> old" by (auto simp: added_def)
  then show ?thesis by (auto simp: added_def intro!: exI[of _ "a + b"])
qed

interpretation adding: state_preorder "added old" for old
  by unfold_locales (simp add: added_def, rule added_trans)

lemma same_added: "climbs same_proofs m \<Longrightarrow> climbs (added old) m"
  by (simp add: climbs_def same_proofs_def added_def)

lemma added_append: "\<forall>(p, sig) \<in> set xs. pc_secret_hex p \<notin> old \<Longrightarrow> climbs (added old) (append_loop E keyset xs acc)"
proof (induction xs arbitrary: acc)
  case (Cons x xs)
  obtain p sig where x: "x = (p, sig)" by fastforce
  have push: "climbs (added old) (modify (\<lambda>w. w\<lparr>rw_proofs := rw_proofs w @ [q]\<rparr>))" if "pf_secret q \<notin> old" for q
    using that by (simp add: climbs_def added_def)
  show ?case unfolding x append_loop.simps by (intro adding.climbs_rules push Cons.IH) (use Cons.prems x in auto)
qed (unfold append_loop.simps, rule adding.climbs_ret)

lemma added_append_unblinded:
  assumes "\<forall>p \<in> set pending. pc_secret_hex p \<notin> old"
  shows "climbs (added old) (append_unblinded E pending sigs keyset expected)"
proof -
  have "\<forall>(p, sig) \<in> set (zip pending sigs). pc_secret_hex p \<notin> old" using assms by (auto dest: set_zip_leftD)
  then show ?thesis unfolding append_unblinded_def by (auto intro!: adding.climbs_rules added_append)
qed

text \<open>After the answer of the upstream mint.\<close>

lemma settled_outcomes:
  assumes sel: "distinct sel" "set sel \<subseteq> {..<length (rw_proofs w)}" and n: "n \<le> value_of (mset (map ((!) (rw_proofs w)) sel))"
    and fresh: "\<forall>p \<in> set pending. pc_secret_hex p \<notin> secrets w"
    and run: "pay_settled E sel pending keyset change response w = (r, w')"
  shows "outcome n (mset (map ((!) (rw_proofs w)) sel)) w r w'"
proof -
  let ?sent = "mset (map ((!) (rw_proofs w)) sel)"
  obtain ps where ps: "remove_selected sel w = (Ok (), w\<lparr>rw_proofs := ps\<rparr>)" "mset (rw_proofs w) = ?sent + mset ps"
    using remove_selected_removes[OF sel] by blast
  have gone: "left_with n ?sent w v" if "added (secrets w) (w\<lparr>rw_proofs := ps\<rparr>) v" for v
    using that ps(2) n by (auto simp: left_with_def added_def intro!: exI[of _ "mset ps"])
  have after: "climbs (added (secrets w)) m \<Longrightarrow> m (w\<lparr>rw_proofs := ps\<rparr>) = (q, v) \<Longrightarrow> left_with n ?sent w v" for m :: "('a, 'x) rw_op" and q v
    using climbsD[of "added (secrets w)" m] gone by blast
  let ?S = "re_serde E"
  let ?state = "case Option.bind (v_get ?S ''state'' response) (v_as_str ?S) of Some s \<Rightarrow> s | None \<Rightarrow> []"
  let ?paid = "case Option.bind (v_get ?S ''paid'' response) (v_as_bool ?S) of Some b \<Rightarrow> b | None \<Rightarrow> False"
  let ?change = "case Option.bind (v_get ?S ''change'' response) (v_as_array ?S) of None \<Rightarrow> ret ()
     | Some cs \<Rightarrow> if cs = [] then ret () else logged (append_unblinded E pending cs keyset change)"
  consider (paid) "?paid \<or> ?state = ''PAID''" | (failed) "\<not> (?paid \<or> ?state = ''PAID'')" "?state = ''FAILED''"
    | (ambiguous) "\<not> (?paid \<or> ?state = ''PAID'')" "?state \<noteq> ''FAILED''" by blast
  then show ?thesis
  proof cases
    case paid
    let ?rest = "bind ?change (\<lambda>_. bind (reserve_persist E) (\<lambda>_. ret
       (case Option.bind (case v_get ?S ''payment_preimage'' response of Some v \<Rightarrow> Some v | None \<Rightarrow> v_get ?S ''preimage'' response) (v_as_str ?S) of
          Some s \<Rightarrow> s | None \<Rightarrow> [])))"
    have rest: "?rest (w\<lparr>rw_proofs := ps\<rparr>) = (r, w')"
      using run paid by (simp add: pay_settled_def Let_def bind_apply_Ok[where m = "remove_selected sel", OF ps(1)])
    have "climbs (added (secrets w)) ?rest"
      by (auto intro!: adding.climbs_rules logged_climbs added_append_unblinded[OF fresh] same_added[OF same_persist] split: option.split)
    then have "left_with n ?sent w w'" using rest by (rule after)
    moreover have "?change u \<noteq> (Err e, v)" for u e v using persist_no_error(2) by (auto split: option.split)
    then have "r \<noteq> Err e" for e using rest persist_no_error(1)[of E] by (auto elim!: bind_cases)
    ultimately show ?thesis by (auto simp: outcome_def)
  next
    case failed
    then have "r = Err PaymentFailed" "w' = w" using run by (simp_all add: pay_settled_def Let_def)
    then show ?thesis by (simp add: kept_def outcome_def)
  next
    case ambiguous
    let ?rest = "bind (reserve_persist E) (\<lambda>_. throw (Protocol (''upstream melt state ambiguous: '' @ ?state))) :: ('a, string) rw_op"
    have rest: "?rest (w\<lparr>rw_proofs := ps\<rparr>) = (r, w')"
      using run ambiguous by (simp add: pay_settled_def Let_def bind_apply_Ok[where m = "remove_selected sel", OF ps(1)])
    have "climbs (added (secrets w)) ?rest" by (intro adding.climbs_rules same_added[OF same_persist])
    then have "left_with n ?sent w w'" using rest by (rule after)
    moreover have "r \<noteq> Ok x" "r \<noteq> Err PaymentFailed" for x using rest persist_no_error(1)[of E] by (auto elim!: bind_cases)
    ultimately show ?thesis by (auto simp: outcome_def)
  qed
qed

text \<open>Steps that leave the proofs alone and lead the world onward, before an operation that settles.\<close>

definition onward :: "('p, 'j, 'n) reserve_env \<Rightarrow> 'n reserve_wallet \<Rightarrow> 'n reserve_wallet \<Rightarrow> bool" where
  "onward E w w' \<longleftrightarrow> rw_proofs w' = rw_proofs w \<and> (\<forall>n. later E n (rw_world w) \<longrightarrow> later E n (rw_world w'))"

interpretation onwards: state_preorder "onward E" for E
  by unfold_locales (auto simp: onward_def)

lemma onward_net:
  "climbs (onward E) (on_net (re_get E url))" "climbs (onward E) (on_net (re_post E url body))" "climbs (onward E) (on_net (re_random E))"
  "climbs (onward E) (on_net (re_scalar E))" "climbs (onward E) (modify (\<lambda>w. w\<lparr>rw_keyset := k\<rparr>))"
  by (auto simp: climbs_def onward_def on_net_def split: prod.splits)
    (metis snd_conv later_get later_post later_random later_scalar)+

lemma onward_http: "climbs (onward E) (upstream_get E url)" "climbs (onward E) (upstream_post E url body)"
  unfolding upstream_get_def upstream_post_def by (auto intro!: onwards.climbs_rules onward_net split: sum.split)

lemma onward_ensure_keyset: "climbs (onward E) (ensure_keyset E)"
  unfolding ensure_keyset_def by (auto intro!: onwards.climbs_rules onward_net onward_http split: option.split)

lemma onward_blind_output: "climbs (onward E) (blind_output E kid a)"
  unfolding blind_output_def Let_def by (auto intro!: onwards.climbs_rules onward_net split: res.split)

lemma onward_blind_outputs: "climbs (onward E) (blind_outputs E amounts kid)"
  unfolding blind_outputs_def by (auto intro!: onwards.climbs_rules onward_blind_output)

lemma climbs_failed: "climbs R m \<Longrightarrow> climbs R (\<lambda>w. case m w of (Err _, w') \<Rightarrow> (Err PaymentFailed, w') | other \<Rightarrow> other)"
  by (auto simp: climbs_def split: prod.splits res.splits) (metis snd_conv)+

lemma calm_failed: "calm m \<Longrightarrow> calm (\<lambda>w. case m w of (Err _, w') \<Rightarrow> (Err PaymentFailed, w') | other \<Rightarrow> other)"
  by (auto simp: calm_def split: prod.splits res.splits)

text \<open>The secrets of blinded outputs are drawn on the way.\<close>

lemma blind_output_fresh:
  "blind_output E kid a v = (Ok (j, p), u) \<Longrightarrow> pc_secret_hex p = hex_encode (re_externs E) (fst (re_random E (rw_world v)))"
  by (auto simp: blind_output_def on_net_def Let_def bind_def split: prod.splits res.splits)

lemma map_blind_fresh:
  assumes "fresh_draws E old n"
  shows "map_op (blind_output E kid) as v = (Ok outs, u) \<Longrightarrow> later E n (rw_world v) \<Longrightarrow> \<forall>p \<in> set (map snd outs). pc_secret_hex p \<notin> old"
proof (induction "as" arbitrary: v outs)
  case (Cons a "as")
  from Cons.prems(1) obtain j p t rest where run: "blind_output E kid a v = (Ok (j, p), t)" "map_op (blind_output E kid) as t = (Ok rest, u)" "outs = (j, p) # rest"
    by (auto simp: bind_Ok_iff)
  have "later E n (rw_world t)" using climbsD[OF onward_blind_output run(1)] Cons.prems(2) by (simp add: onward_def)
  with Cons.IH[OF run(2)] blind_output_fresh[OF run(1)] assms Cons.prems(2) run(3) show ?case by (auto simp: fresh_draws_def)
qed simp

lemma blind_outputs_fresh:
  "fresh_draws E old n \<Longrightarrow> blind_outputs E as kid v = (Ok (js, pending), u) \<Longrightarrow> later E n (rw_world v) \<Longrightarrow> \<forall>p \<in> set pending. pc_secret_hex p \<notin> old"
  using map_blind_fresh[of E old n kid "as" v] by (auto simp: blind_outputs_def bind_Ok_iff)

definition settles :: "('p, 'j, 'n) reserve_env \<Rightarrow> nat \<Rightarrow> nut_proof multiset \<Rightarrow> 'n reserve_wallet \<Rightarrow> ('n, string) rw_op \<Rightarrow> bool" where
  "settles E n sent w m \<longleftrightarrow> (\<forall>v r u. onward E w v \<longrightarrow> m v = (r, u) \<longrightarrow> outcome n sent w r u)"

lemma settles_bind_when:
  assumes "climbs (onward E) m" "calm m" "\<And>v x u. onward E w v \<Longrightarrow> m v = (Ok x, u) \<Longrightarrow> settles E n sent w (f x)"
  shows "settles E n sent w (bind m f)"
  unfolding settles_def
proof (intro allI impI)
  fix v r u assume v: "onward E w v" and run: "bind m f v = (r, u)"
  from run show "outcome n sent w r u"
  proof (cases rule: bind_cases)
    case (ok x t)
    have "onward E w t" using climbsD[OF assms(1) ok(1)] v by (simp add: onward_def)
    with assms(3)[OF v ok(1)] ok(2) show ?thesis by (auto simp: settles_def)
  next
    case (err e)
    with climbsD[OF assms(1) err(1)] calmD[OF assms(2) err(1)] v show ?thesis by (simp add: outcome_def kept_def onward_def)
  next
    case panics
    with climbsD[OF assms(1) panics(1)] v show ?thesis by (simp add: outcome_def kept_def onward_def)
  qed
qed

lemma settlesD: "settles E n sent w m \<Longrightarrow> m w = (r, u) \<Longrightarrow> outcome n sent w r u"
  unfolding settles_def onward_def by blast

lemma settles_settled:
  assumes "distinct sel" "set sel \<subseteq> {..<length (rw_proofs w)}" "n \<le> value_of (mset (map ((!) (rw_proofs w)) sel))"
    and "\<forall>p \<in> set pending. pc_secret_hex p \<notin> secrets w"
  shows "settles E n (mset (map ((!) (rw_proofs w)) sel)) w (pay_settled E sel pending keyset change response)"
  unfolding settles_def
proof (intro allI impI)
  fix v r u assume v: "onward E w v" and run: "pay_settled E sel pending keyset change response v = (r, u)"
  from settled_outcomes[OF _ _ _ _ run, of n] assms v show "outcome n (mset (map ((!) (rw_proofs w)) sel)) w r u"
    by (simp add: outcome_def kept_def left_with_def onward_def)
qed

lemma settles_selected:
  assumes sel: "distinct sel" "set sel \<subseteq> {..<length (rw_proofs w)}" "n \<le> value_of (mset (map ((!) (rw_proofs w)) sel))"
    and fresh: "fresh_draws E (secrets w) (rw_world w)"
  shows "settles E n (mset (map ((!) (rw_proofs w)) sel)) w (pay_selected E q needed sel s)"
proof -
  have drawn: False if "onward E w v" "blind_outputs E as kid v = (Ok (js, pending), u)" "p \<in> set pending" "pc_secret_hex p = pf_secret x" "x \<in> set (rw_proofs w)"
    for v "as" kid js pending u p x
    using blind_outputs_fresh[OF fresh that(2)] that later_refl[of E "rw_world w"] by (auto simp: onward_def)
  show ?thesis
    unfolding pay_selected_def Let_def
    by (auto intro!: settles_bind_when onwards.climbs_rules onward_ensure_keyset onward_blind_outputs climbs_failed onward_http
        settles_settled[unfolded mset_map] sel[unfolded mset_map] calm_rules calm_ensure_keyset calm_blind_outputs calm_failed calm_http dest: drawn)
qed

lemma outcome_stops: "kept w u \<Longrightarrow> (\<And>pre. r \<noteq> Ok pre) \<Longrightarrow> (\<And>e. r = Err e \<Longrightarrow> \<not> ambiguous e) \<Longrightarrow> outcome n sent w r u"
  by (auto simp: outcome_def)

text \<open>From the selection on, with the reserve topped up.\<close>

definition pay_covered :: "('p, 'j, 'n) reserve_env \<Rightarrow> string \<Rightarrow> u64 \<Rightarrow> ('n, string) rw_op" where
  "pay_covered E q needed = bind (lift_res (ok_or InvalidAmount (pay_target needed))) (\<lambda>target.
       bind (gets (\<lambda>w. (reserve_select target w, map pf_amount (rw_proofs w)))) (\<lambda>(selected, amounts).
       bind (lift_res (ok_or InvalidAmount (try_fold_add 0 (map (\<lambda>i. amounts ! i) selected)))) (\<lambda>selected_sum.
       bind (guard_err (selected_sum < needed) InsufficientInputs) (\<lambda>_. pay_selected E q needed selected selected_sum))))"

lemma covered_outcome:
  assumes run: "pay_covered E q needed v = (r, w')" and fresh: "fresh_draws E (secrets v) (rw_world v)"
  shows "outcome (unat needed) (chosen needed v) v r w'"
proof -
  consider (stopped) "w' = v" "\<And>pre. r \<noteq> Ok pre" "\<And>e. r = Err e \<Longrightarrow> \<not> ambiguous e"
    | (on) target total where "pay_target needed = Some target"
      "try_fold_add 0 (map (\<lambda>i. map pf_amount (rw_proofs v) ! i) (reserve_select target v)) = Some total"
      "needed \<le> total" "pay_selected E q needed (reserve_select target v) total v = (r, w')"
    using run by (auto simp: pay_covered_def ok_or_def not_less split: res.splits if_splits option.splits)
  then show ?thesis
  proof cases
    case stopped
    show ?thesis unfolding stopped(1) by (rule outcome_stops[OF _ stopped(2,3)]) (simp add: kept_def)
  next
    case on
    have "unat needed \<le> value_of (mset (map ((!) (rw_proofs v)) (reserve_select target v)))"
      using checked_sum_Some[OF on(2)] on(3) sum_selected[OF reserve_select_indices(2)[of target v]] by (simp add: word_le_nat_alt)
    from settlesD[OF settles_selected[OF reserve_select_indices this fresh] on(4)] on(1) show ?thesis by (simp add: chosen_def)
  qed
qed

lemma reserve_pay_split: "reserve_pay E q needed w = (if needed = 0 then (Err InvalidAmount, w) else bind (top_up E needed) (\<lambda>_. pay_covered E q needed) w)"
  by (simp add: reserve_pay_def top_up_def pay_covered_def pay_target_def bind_assoc bind_def split: prod.split)

text \<open>C35: the reserve parts with exactly what it sent. A payment first tops the reserve up, which costs no proof. With a generator that does not
  repeat a secret the reserve then holds, whatever the upstream mint answers, paying ends in one of two ways: the proofs are what they were
  after the top-up; or exactly the proofs selected for the amount are gone, they are worth at least the amount, and every proof that
  came in has a secret the reserve did not hold. A payment that succeeded or whose state the upstream mint left open always ends the second
  way, a payment reported as failed the first.\<close>

theorem reserve_parts_with_what_it_sent:
  assumes run: "reserve_pay E q needed w = (r, w')" and topped: "v = snd (top_up E needed w)" and fresh: "fresh_draws E (secrets v) (rw_world v)"
  shows "mset (rw_proofs w) \<subseteq># mset (rw_proofs v) \<and> (\<forall>pre. r = Ok pre \<longrightarrow> parted needed v w')
    \<and> (r = Err PaymentFailed \<longrightarrow> needed \<noteq> 0 \<and> rw_proofs w' = rw_proofs v)
    \<and> (\<forall>state. r = Err (Protocol (''upstream melt state ambiguous: '' @ state)) \<longrightarrow> parted needed v w')
    \<and> (rw_proofs w' = rw_proofs w \<or> rw_proofs w' = rw_proofs v \<or> parted needed v w')"
proof (cases "needed = 0")
  case True
  with run topped show ?thesis by (auto simp: reserve_pay_split top_up_def)
next
  case False
  have top: "climbs grows (top_up E needed)" unfolding top_up_def by (auto intro!: growing.climbs_rules grows_bootstrap)
  have calm: "calm (top_up E needed)" unfolding top_up_def by (auto intro!: calm_rules calm_bootstrap)
  from run False have "bind (top_up E needed) (\<lambda>_. pay_covered E q needed) w = (r, w')" by (simp add: reserve_pay_split)
  then have "outcome (unat needed) (chosen needed v) v r w'"
  proof (cases rule: bind_cases)
    case (ok x u)
    with topped fresh covered_outcome[of E q needed v r w'] show ?thesis by simp
  next
    case (err e)
    with topped calmD[OF calm err(1)] show ?thesis by (auto intro!: outcome_stops simp: kept_def)
  next
    case panics
    with topped show ?thesis by (auto intro!: outcome_stops simp: kept_def)
  qed
  moreover have "grows w v" using climbsD[OF top, of w "fst (top_up E needed w)"] topped by simp
  ultimately show ?thesis using False by (auto simp: outcome_def ambiguous_def grows_def kept_def parted_def)
qed

section \<open>Restart\<close>

text \<open>What the snapshots rely on: hex decodes what it encoded, and the encoding of a point is read back.\<close>

definition reserve_env_ok :: "('p, 'j, 'n) reserve_env \<Rightarrow> bool" where
  "reserve_env_ok E \<longleftrightarrow> (\<forall>b. hex_decode (re_externs E) (hex_encode (re_externs E) b) = Some b)
     \<and> (\<forall>P pk. of_point (re_curve E) P = Some pk \<longrightarrow> pk_from_bytes (re_externs E) (to_bytes pk) = Some pk)"

abbreviation valid_point :: "externs \<Rightarrow> public_key \<Rightarrow> bool" where
  "valid_point X pk \<equiv> pk_from_bytes X (to_bytes pk) = Some pk"

definition reserve_ok :: "externs \<Rightarrow> 'n reserve_wallet \<Rightarrow> bool" where
  "reserve_ok X w \<longleftrightarrow> (\<forall>p \<in> set (rw_proofs w). valid_point X (pf_c p) \<and> pf_dleq p = None \<and> pf_witness p = None)
     \<and> (\<forall>k. rw_keyset w = Some k \<longrightarrow> (\<forall>(a, pk) \<in> set (uk_keys k). valid_point X pk))"

definition stays_ok :: "externs \<Rightarrow> 'n reserve_wallet \<Rightarrow> 'n reserve_wallet \<Rightarrow> bool" where
  "stays_ok X w w' \<longleftrightarrow> (reserve_ok X w \<longrightarrow> reserve_ok X w') \<and> rw_base_url w' = rw_base_url w \<and> rw_unit w' = rw_unit w"

interpretation sound: state_preorder "stays_ok X" for X
  by unfold_locales (auto simp: stays_ok_def)

lemma pk_from_bytes_valid: "pk_from_bytes X b = Some pk \<Longrightarrow> valid_point X pk"
  by (auto simp: pk_from_bytes_def split: if_splits)

lemma json_point_valid: "json_point X S v = Ok pk \<Longrightarrow> valid_point X pk"
  by (auto simp: json_point_def dest: pk_from_bytes_valid split: if_splits)

lemma set_update: "set (AList.update k v al) \<subseteq> insert (k, v) (set al)"
  by (induction al) auto

lemma insert_keys_valid:
  "insert_keys X S entries keys = Ok out \<Longrightarrow> \<forall>(a, pk) \<in> set keys. valid_point X pk \<Longrightarrow> \<forall>(a, pk) \<in> set out. valid_point X pk"
proof (induction entries arbitrary: keys)
  case (Cons e entries)
  obtain amount pubkey where e: "e = (amount, pubkey)" by fastforce
  with Cons.prems obtain n pk where "parse_u64 amount = Some n" "json_point X S pubkey = Ok pk" "insert_keys X S entries (AList.update n pk keys) = Ok out" by auto
  moreover have "\<forall>(a, pk) \<in> set (AList.update n pk keys). valid_point X pk"
    using set_update[of n pk keys] Cons.prems(2) json_point_valid[OF calculation(2)] by fastforce
  ultimately show ?case using Cons.IH by blast
qed simp

lemma from_keys_valid: "from_keys_response X S v u = Ok k \<Longrightarrow> \<forall>(a, pk) \<in> set (uk_keys k). valid_point X pk"
  using insert_keys_valid[of X S _ "[]"] by (fastforce simp: from_keys_response_def parse_keyset_keys_def split: option.splits)

lemma reserve_sound_steps:
  "climbs (stays_ok X) (on_net f)" "climbs (stays_ok X) (modify (\<lambda>w. w\<lparr>rw_world := g w\<rparr>))"
  by (auto simp: climbs_def on_net_def stays_ok_def reserve_ok_def split: prod.split)

lemma reserve_sound_get: "climbs (stays_ok X) (upstream_get E url)"
  unfolding upstream_get_def by (auto intro!: sound.climbs_rules reserve_sound_steps split: sum.split)

lemma reserve_sound_post: "climbs (stays_ok X) (upstream_post E url body)"
  unfolding upstream_post_def by (auto intro!: sound.climbs_rules reserve_sound_steps split: sum.split)

lemma reserve_sound_lift: "(\<And>x. r = Ok x \<Longrightarrow> climbs (stays_ok X) (f x)) \<Longrightarrow> climbs (stays_ok X) (bind (lift_res r) f)"
  by (cases r) (auto simp: climbs_def stays_ok_def)

lemma reserve_sound_ensure_keyset: "climbs (stays_ok (re_externs E)) (ensure_keyset E)"
proof -
  have "climbs (stays_ok (re_externs E)) (modify (\<lambda>w. w\<lparr>rw_keyset := Some k\<rparr>))"
    if "from_keys_response (re_externs E) S v u = Ok k" for S v u k
    using from_keys_valid[OF that] by (auto simp: climbs_def stays_ok_def reserve_ok_def)
  then show ?thesis
    unfolding ensure_keyset_def by (auto intro!: sound.climbs_rules reserve_sound_lift reserve_sound_get split: option.split)
qed

lemma reserve_sound_poll: "climbs (stays_ok X) (poll_loop E url tries)"
proof (induction tries)
  case (Suc tries)
  then show ?case unfolding poll_loop.simps by (auto intro!: sound.climbs_rules reserve_sound_steps reserve_sound_get)
qed (unfold poll_loop.simps, rule sound.climbs_ret)

lemma reserve_sound_blind_outputs: "climbs (stays_ok X) (blind_outputs E amounts kid)"
  unfolding blind_outputs_def blind_output_def Let_def by (auto intro!: sound.climbs_rules reserve_sound_steps split: res.split)

lemma reserve_sound_persist: "climbs (stays_ok X) (reserve_persist E)"
  unfolding reserve_persist_def save_or_panic_def by (auto intro!: sound.climbs_rules reserve_sound_steps)

lemma reserve_sound_append:
  assumes "reserve_env_ok E"
  shows "climbs (stays_ok (re_externs E)) (append_loop E keyset xs acc)"
proof (induction xs arbitrary: acc)
  case (Cons x xs)
  obtain p sig where x: "x = (p, sig)" by fastforce
  have push: "climbs (stays_ok (re_externs E)) (modify (\<lambda>w. w\<lparr>rw_proofs := rw_proofs w @
      [\<lparr>pf_amount = a, pf_id = i, pf_secret = s, pf_c = c, pf_dleq = None, pf_witness = None\<rparr>]\<rparr>))"
    if "unblind_signature (re_curve E) cp b pk = Ok c" for a i s c cp b pk
    using that assms by (auto simp: climbs_def stays_ok_def reserve_ok_def unblind_signature_def reserve_env_ok_def)
  show ?case unfolding x append_loop.simps
    by (intro reserve_sound_lift sound.climbs_bind Cons push) (auto split: res.splits)
qed (unfold append_loop.simps, rule sound.climbs_ret)

lemma reserve_sound_append_unblinded: "reserve_env_ok E \<Longrightarrow> climbs (stays_ok (re_externs E)) (append_unblinded E pending sigs keyset expected)"
  unfolding append_unblinded_def by (auto intro!: sound.climbs_rules reserve_sound_append)

lemma reserve_sound_bootstrap: "reserve_env_ok E \<Longrightarrow> climbs (stays_ok (re_externs E)) (reserve_bootstrap E amount)"
  unfolding reserve_bootstrap_def poll_until_paid_def Let_def
  by (auto intro!: sound.climbs_rules reserve_sound_append_unblinded reserve_sound_ensure_keyset reserve_sound_post reserve_sound_poll reserve_sound_blind_outputs reserve_sound_persist)

lemma reserve_sound_remove: "climbs (stays_ok X) (remove_selected sel)"
proof -
  have "set (butlast (ps[i := last ps])) \<subseteq> set ps" if "i < length ps" for i and ps :: "nut_proof list"
  proof -
    have "set (ps[i := last ps]) \<subseteq> insert (last ps) (set ps)" by (rule set_update_subset_insert)
    moreover have "last ps \<in> set ps" using that by (intro last_in_set) auto
    ultimately show ?thesis using in_set_butlastD by fastforce
  qed
  then have "climbs (stays_ok X) (swap_remove i)" for i by (auto simp: climbs_def swap_remove_def stays_ok_def reserve_ok_def)
  then show ?thesis unfolding remove_selected_def by (intro sound.climbs_for_each)
qed

lemma reserve_sound_caught:
  "climbs (stays_ok X) m \<Longrightarrow> climbs (stays_ok X) (\<lambda>w. case m w of (Err _, w') \<Rightarrow> (Err PaymentFailed, w') | other \<Rightarrow> other)"
  "climbs (stays_ok X) k \<Longrightarrow> climbs (stays_ok X) (logged k)"
  by (auto simp: climbs_def logged_def split: prod.splits res.splits) (metis snd_conv)+

lemma reserve_sound_settled: "reserve_env_ok E \<Longrightarrow> climbs (stays_ok (re_externs E)) (pay_settled E sel pending keyset change response)"
  unfolding pay_settled_def Let_def
  by (auto intro!: sound.climbs_rules reserve_sound_remove reserve_sound_persist reserve_sound_caught(2) reserve_sound_append_unblinded split: option.split)

lemma reserve_sound_pay: "reserve_env_ok E \<Longrightarrow> climbs (stays_ok (re_externs E)) (reserve_pay E q needed)"
  unfolding reserve_pay_def pay_selected_def Let_def
  by (auto intro!: sound.climbs_rules reserve_sound_bootstrap reserve_sound_ensure_keyset reserve_sound_blind_outputs reserve_sound_caught(1) reserve_sound_post reserve_sound_settled)

lemma restored_valid:
  "restore_keyset X k = Some k' \<Longrightarrow> \<forall>(a, pk) \<in> set (uk_keys k'). valid_point X pk"
  "map_opt (restore_proof X) snaps = Some ps \<Longrightarrow> \<forall>p \<in> set ps. valid_point X (pf_c p) \<and> pf_dleq p = None \<and> pf_witness p = None"
proof -
  have point: "restore_point X t = Some pk \<Longrightarrow> valid_point X pk" for t pk by (auto simp: restore_point_def bind_eq_Some_conv dest: pk_from_bytes_valid)
  assume "restore_keyset X k = Some k'"
  then have "list_all2 (\<lambda>x y. \<exists>pk. restore_point X (snd x) = Some pk \<and> (fst x, pk) = y) (kn_keys k) (uk_keys k')"
    by (auto simp: restore_keyset_def map_opt_Some_iff case_prod_beta)
  then show "\<forall>(a, pk) \<in> set (uk_keys k'). valid_point X pk" by (induction rule: list_all2_induct) (auto dest: point)
next
  have point: "restore_point X t = Some pk \<Longrightarrow> valid_point X pk" for t pk by (auto simp: restore_point_def bind_eq_Some_conv dest: pk_from_bytes_valid)
  assume "map_opt (restore_proof X) snaps = Some ps"
  then have "list_all2 (\<lambda>s p. restore_proof X s = Some p) snaps ps" by (simp add: map_opt_Some_iff)
  then show "\<forall>p \<in> set ps. valid_point X (pf_c p) \<and> pf_dleq p = None \<and> pf_witness p = None"
    by (induction rule: list_all2_induct) (auto simp: restore_proof_def dest: point)
qed

lemma reserve_sound_restore: "climbs (stays_ok X) (reserve_restore X snap)"
proof -
  have "climbs (stays_ok X) (modify (\<lambda>w. w\<lparr>rw_keyset := Some k\<rparr>))" if "restore_keyset X s = Some k" for s k
    using restored_valid(1)[OF that] by (auto simp: climbs_def stays_ok_def reserve_ok_def)
  moreover have "climbs (stays_ok X) (modify (\<lambda>w. w\<lparr>rw_proofs := ps\<rparr>))" if "map_opt (restore_proof X) ss = Some ps" for ss ps
    using restored_valid(2)[OF that] by (auto simp: climbs_def stays_ok_def reserve_ok_def)
  moreover have "climbs (stays_ok X) (modify (\<lambda>w. w\<lparr>rw_keyset := None\<rparr>))" by (simp add: climbs_def stays_ok_def reserve_ok_def)
  ultimately show ?thesis unfolding reserve_restore_def by (auto intro!: sound.climbs_rules split: option.split)
qed

lemma reserve_sound_state_file: "climbs (stays_ok (re_externs E)) (reserve_with_state_file E)"
proof -
  have "climbs (stays_ok (re_externs E)) (modify (\<lambda>w. w\<lparr>rw_stored := True\<rparr>))" by (simp add: climbs_def stays_ok_def reserve_ok_def)
  then show ?thesis
    unfolding reserve_with_state_file_def save_or_panic_def
    by (auto intro!: sound.climbs_rules reserve_sound_steps reserve_sound_restore split: sum.split option.split)
qed

text \<open>The life of a reserve: its operations, whatever they return, and a world that moves on its own.\<close>

inductive reserve_start :: "'n reserve_wallet \<Rightarrow> bool" where
  "reserve_start (reserve_new url u b n)"

inductive reserve_step :: "('p, 'j, 'n) reserve_env \<Rightarrow> 'n reserve_wallet \<Rightarrow> 'n reserve_wallet \<Rightarrow> bool" for E where
  step_bootstrap: "reserve_bootstrap E amount w = (r, w') \<Longrightarrow> reserve_step E w w'"
| step_pay: "reserve_pay E q needed w = (s, w') \<Longrightarrow> reserve_step E w w'"
| step_state_file: "reserve_with_state_file E w = (r, w') \<Longrightarrow> reserve_step E w w'"
| step_world: "reserve_step E w (w\<lparr>rw_world := n\<rparr>)"

inductive_cases reserve_stepE: "reserve_step E w w'"

interpretation reserve_life: transition_system reserve_start "reserve_step E" "\<lambda>w. reserve_env_ok E \<longrightarrow> reserve_ok (re_externs E) w" for E
proof
  show "reserve_env_ok E \<longrightarrow> reserve_ok (re_externs E) w" if "reserve_start w" for w
    using that by cases (simp add: reserve_new_def reserve_ok_def)
next
  fix w w' assume inv: "reserve_env_ok E \<longrightarrow> reserve_ok (re_externs E) w" and step: "reserve_step E w w'"
  have "reserve_env_ok E \<Longrightarrow> stays_ok (re_externs E) w w'"
    using step
  proof (cases rule: reserve_step.cases)
    case step_world
    then show ?thesis by (simp add: stays_ok_def reserve_ok_def)
  qed (blast dest: climbsD[OF reserve_sound_bootstrap] climbsD[OF reserve_sound_pay] climbsD[OF reserve_sound_state_file])+
  with inv show "reserve_env_ok E \<longrightarrow> reserve_ok (re_externs E) w'" by (simp add: stays_ok_def)
qed

lemma restore_point_snap: "reserve_env_ok E \<Longrightarrow> valid_point (re_externs E) pk \<Longrightarrow> restore_point (re_externs E) (hex_encode (re_externs E) (to_bytes pk)) = Some pk"
  by (simp add: restore_point_def reserve_env_ok_def)

lemma restore_snapped:
  assumes "reserve_env_ok E" "reserve_ok (re_externs E) w"
  shows "reserve_restore (re_externs E) (reserve_snap (re_externs E) w) v =
    (if rw_base_url w = rw_base_url v \<and> rw_unit w = rw_unit v then (Ok (), v\<lparr>rw_keyset := rw_keyset w, rw_proofs := rw_proofs w\<rparr>) else (Panic, v))"
proof -
  let ?X = "re_externs E"
  have keys: "restore_keyset ?X \<lparr>kn_id = uk_id k, kn_input_fee_ppk = uk_input_fee_ppk k, kn_keys = map (\<lambda>(a, pk). (a, hex_encode ?X (to_bytes pk))) (uk_keys k)\<rparr> = Some k"
    if "rw_keyset w = Some k" for k
  proof -
    have "map_opt (\<lambda>(a, t). map_option (\<lambda>pk. (a, pk)) (restore_point ?X t)) (map (\<lambda>(a, pk). (a, hex_encode ?X (to_bytes pk))) (uk_keys k)) = Some (uk_keys k)"
      using assms that by (intro map_opt_map) (auto simp: reserve_ok_def restore_point_snap)
    then show ?thesis by (simp add: restore_keyset_def)
  qed
  have proofs: "map_opt (restore_proof ?X) (rn_proofs (reserve_snap ?X w)) = Some (rw_proofs w)"
    unfolding reserve_snap_def reserve_snapshot.simps
    using assms by (intro map_opt_map) (auto simp: reserve_ok_def restore_proof_def restore_point_snap)
  have eq: "rn_base_url (reserve_snap ?X w) = rw_base_url w" "rn_unit (reserve_snap ?X w) = rw_unit w" by (simp_all add: reserve_snap_def)
  show ?thesis
    unfolding reserve_restore_def bind_gets proofs eq
    by (cases "rw_keyset w") (simp_all add: reserve_snap_def keys)
qed

text \<open>A restart finds the reserve that was saved, or refuses to start. From the snapshot of any reserve that can arise, a wallet of the same
  upstream mint and unit comes up with the same proofs and keys; a wallet for another mint or unit panics.\<close>

theorem reserve_restart:
  assumes "reserve_env_ok E" "reach reserve_start (reserve_step E) w" "re_load E n = (Inr (Some (reserve_snap (re_externs E) w)), n')"
  shows "(trim_slashes url = rw_base_url w \<and> u = rw_unit w \<longrightarrow>
      reserve_with_state_file E (reserve_new url u b n) = (Ok (), w\<lparr>rw_bootstrap_sats := b, rw_stored := True, rw_world := n'\<rparr>))
    \<and> (trim_slashes url \<noteq> rw_base_url w \<or> u \<noteq> rw_unit w \<longrightarrow> fst (reserve_with_state_file E (reserve_new url u b n)) = Panic)"
proof -
  have "reserve_ok (re_externs E) w" using reserve_life.reach_inv[OF assms(2)] assms(1) by simp
  from restore_snapped[OF assms(1) this, of "(reserve_new url u b n)\<lparr>rw_world := n'\<rparr>"] have "reserve_with_state_file E (reserve_new url u b n) =
      (if rw_base_url w = trim_slashes url \<and> rw_unit w = u
       then (Ok (), (reserve_new url u b n)\<lparr>rw_keyset := rw_keyset w, rw_proofs := rw_proofs w, rw_stored := True, rw_world := n'\<rparr>)
       else (Panic, (reserve_new url u b n)\<lparr>rw_world := n'\<rparr>))"
    using assms(3) by (simp add: reserve_with_state_file_def on_net_def bind_def reserve_new_def)
  then show ?thesis by (auto simp: reserve_new_def)
qed

section \<open>A reserve that pays\<close>

text \<open>An upstream mint that answers every request with \<open>PAID\<close>, and a world that is the content of the state file.\<close>

definition text_values :: "string serde" where
  "text_values = \<lparr>v_get = (\<lambda>_ v. Some v), v_index = (\<lambda>_ v. v), v_as_str = Some, v_as_bool = (\<lambda>_. None), v_as_array = (\<lambda>_. None), v_as_object = (\<lambda>_. None),
     v_number = (\<lambda>_. None), v_is_null = (\<lambda>_. False), v_show = (\<lambda>v. v), v_object = (\<lambda>_. ''object''), v_u64 = show_u64, v_string = (\<lambda>s. s),
     v_array = (\<lambda>_. ''array''), v_to_vec = (\<lambda>v. Inr (as_bytes v))\<rparr>"

definition sample_upstream :: "(z5, string, reserve_snapshot option) reserve_env" where
  "sample_upstream = \<lparr>re_externs = z5_externs, re_curve = z5_curve, re_serde = text_values,
     re_get = (\<lambda>_ n. (Inl ''offline'', n)), re_post = (\<lambda>_ _ n. (Inr \<lparr>hr_status = 200, hr_text = None, hr_json = Inr ''PAID''\<rparr>, n)),
     re_random = (\<lambda>n. (replicate 32 7, n)), re_scalar = (\<lambda>n. (z5_key 1, n)), re_sleep = (\<lambda>n. n), re_pay_timeout = None,
     re_save = (\<lambda>s n. (True, Some s)), re_load = (\<lambda>n. (Inr n, n))\<rparr>"

definition sample_snap :: reserve_snapshot where
  "sample_snap = \<lparr>rn_base_url = ''https://up'', rn_unit = ''sat'', rn_keyset = Some \<lparr>kn_id = ''00ab'', kn_input_fee_ppk = 0, kn_keys = []\<rparr>,
     rn_proofs = [\<lparr>pn_amount = 8, pn_id = ''00ab'', pn_secret = ''aa'', pn_c_hex = of_bytes (to_be_bytes 33 1)\<rparr>]\<rparr>"

definition sample_reserve :: "reserve_snapshot option reserve_wallet" where
  "sample_reserve = \<lparr>rw_base_url = ''https://up'', rw_unit = ''sat'', rw_bootstrap_sats = 0,
     rw_keyset = Some \<lparr>uk_id = ''00ab'', uk_input_fee_ppk = 0, uk_keys = []\<rparr>,
     rw_proofs = [\<lparr>pf_amount = 8, pf_id = ''00ab'', pf_secret = ''aa'', pf_c = PublicKey (to_be_bytes 33 1), pf_dleq = None, pf_witness = None\<rparr>],
     rw_stored = True, rw_world = Some sample_snap\<rparr>"

lemma sample_upstream_ok: "reserve_env_ok sample_upstream"
  using z5_of_point_reads(2) by (simp add: reserve_env_ok_def sample_upstream_def) (simp add: z5_externs_def demo_externs_def comp_def)

lemma sample_opens: "reserve_with_state_file sample_upstream (reserve_new ''https://up/'' ''sat'' 0 (Some sample_snap)) = (Ok (), sample_reserve)"
proof -
  have "pk_from_bytes z5_externs (to_be_bytes 33 1) = Some (PublicKey (to_be_bytes 33 1))"
    using z5_bytes[of 1] by (simp add: pk_from_bytes_def z5_externs_def)
  then have "restore_point z5_externs (of_bytes (to_be_bytes 33 1)) = Some (PublicKey (to_be_bytes 33 1))"
    by (simp add: restore_point_def) (simp add: z5_externs_def demo_externs_def comp_def)
  then show ?thesis
    by (simp add: reserve_with_state_file_def on_net_def reserve_new_def trim_slashes_def reserve_restore_def restore_keyset_def restore_proof_def bind_def
        sample_upstream_def sample_snap_def sample_reserve_def)
qed

lemma reach_state_file:
  "reach reserve_start (reserve_step E) w \<Longrightarrow> reserve_with_state_file E w = (r, w') \<Longrightarrow> reach reserve_start (reserve_step E) w'"
  by (erule reach_step) (erule step_state_file)

lemma sample_reserve_reached: "reach reserve_start (reserve_step sample_upstream) sample_reserve"
  by (rule reach_state_file[OF _ sample_opens], rule reach_init, rule reserve_start.intros)

lemma sample_settles: "\<exists>w. pay_settled sample_upstream [0] [] k 0 ''PAID'' sample_reserve = (Ok ''PAID'', w)"
proof -
  have remove: "remove_selected [0] sample_reserve = (Ok (), sample_reserve\<lparr>rw_proofs := []\<rparr>)"
    by (simp add: remove_selected_def swap_remove_def sample_reserve_def bind_def)
  have "\<exists>w. reserve_persist sample_upstream (sample_reserve\<lparr>rw_proofs := []\<rparr>) = (Ok (), w)"
    by (simp add: reserve_persist_def save_or_panic_def on_net_def bind_def sample_upstream_def sample_reserve_def)
  then obtain w where persist: "reserve_persist sample_upstream (sample_reserve\<lparr>rw_proofs := []\<rparr>) = (Ok (), w)" by blast
  have vals: "re_serde sample_upstream = text_values" by (simp add: sample_upstream_def)
  show ?thesis
    unfolding pay_settled_def Let_def vals
    by (simp add: text_values_def bind_apply_Ok[where m = "remove_selected [0]", OF remove] bind_apply_Ok[where m = "reserve_persist sample_upstream", OF persist])
qed

lemma sample_pays: "\<exists>w. reserve_pay sample_upstream ''q'' 8 sample_reserve = (Ok ''PAID'', w)"
proof -
  have facts: "balance_sats sample_reserve = 8" "reserve_select 9 sample_reserve = [0]" "map pf_amount (rw_proofs sample_reserve) = [8]"
    by (simp_all add: balance_sats_def reserve_select_def sample_reserve_def checked_add_def)
  have adds: "checked_add (8::u64) 0 = Some 8" "checked_add (8::u64) 1 = Some 9" "checked_add (0::u64) 8 = Some 8" by (simp_all add: checked_add_def)
  have keyset: "ensure_keyset sample_upstream sample_reserve = (Ok \<lparr>uk_id = ''00ab'', uk_input_fee_ppk = 0, uk_keys = []\<rparr>, sample_reserve)"
    by (simp add: ensure_keyset_def sample_reserve_def)
  have post: "upstream_post sample_upstream url body sample_reserve = (Ok ''PAID'', sample_reserve)" for url body
    by (simp add: upstream_post_def on_net_def bind_def sample_upstream_def text_values_def sample_reserve_def)
  have "reserve_pay sample_upstream ''q'' 8 sample_reserve = pay_selected sample_upstream ''q'' 8 [0] 8 sample_reserve"
    by (simp add: reserve_pay_def facts adds)
  also have "\<dots> = pay_settled sample_upstream [0] [] \<lparr>uk_id = ''00ab'', uk_input_fee_ppk = 0, uk_keys = []\<rparr> 0 ''PAID'' sample_reserve"
    unfolding pay_selected_def Let_def bind_apply_Ok[where m = "ensure_keyset sample_upstream", OF keyset]
    by (simp add: checked_mul_def div_ceil_def checked_sub_def blind_outputs_def) (simp add: bind_def post)
  finally show ?thesis using sample_settles by simp
qed

theorem reserve_parts_with_what_it_sent_witness:
  "\<exists>w. reserve_pay sample_upstream ''q'' 8 sample_reserve = (Ok ''PAID'', w) \<and> parted 8 sample_reserve w
    \<and> (\<forall>p \<in> set (rw_proofs sample_reserve). p \<notin> set (rw_proofs w))"
proof -
  obtain w where w: "reserve_pay sample_upstream ''q'' 8 sample_reserve = (Ok ''PAID'', w)" using sample_pays by blast
  have top: "sample_reserve = snd (top_up sample_upstream 8 sample_reserve)"
    by (simp add: top_up_def balance_sats_def sample_reserve_def checked_add_def)
  have fresh: "fresh_draws sample_upstream (secrets sample_reserve) (rw_world sample_reserve)"
  proof -
    have "length (of_bytes (replicate 32 7)) \<noteq> length ''aa''" by simp
    then have "of_bytes (replicate 32 7) \<noteq> ''aa''" by metis
    then show ?thesis
      by (simp add: fresh_draws_def sample_upstream_def sample_reserve_def) (simp add: z5_externs_def demo_externs_def comp_def)
  qed
  from reserve_parts_with_what_it_sent[OF w top fresh] have p: "parted 8 sample_reserve w" by simp
  have "chosen 8 sample_reserve = mset (rw_proofs sample_reserve)"
    by (simp add: chosen_def pay_target_def reserve_select_def sample_reserve_def checked_add_def)
  with parted_count[OF p] have "p \<in> set (rw_proofs sample_reserve) \<Longrightarrow> count (mset (rw_proofs w)) p = 0" for p by simp
  with w p show ?thesis by (auto simp: count_eq_zero_iff)
qed

theorem reserve_restart_witness:
  "reserve_with_state_file sample_upstream (reserve_new ''https://up//'' ''sat'' 5 (Some (reserve_snap z5_externs sample_reserve)))
     = (Ok (), sample_reserve\<lparr>rw_bootstrap_sats := 5, rw_stored := True, rw_world := Some (reserve_snap z5_externs sample_reserve)\<rparr>)
   \<and> fst (reserve_with_state_file sample_upstream (reserve_new ''https://other'' ''sat'' 5 (Some (reserve_snap z5_externs sample_reserve)))) = Panic"
proof -
  have load: "re_load sample_upstream (Some (reserve_snap z5_externs sample_reserve))
      = (Inr (Some (reserve_snap (re_externs sample_upstream) sample_reserve)), Some (reserve_snap z5_externs sample_reserve))"
    by (simp add: sample_upstream_def)
  have "trim_slashes ''https://up//'' = rw_base_url sample_reserve" "trim_slashes ''https://other'' \<noteq> rw_base_url sample_reserve" "''sat'' = rw_unit sample_reserve"
    by (simp_all add: trim_slashes_def sample_reserve_def)
  then show ?thesis
    using reserve_restart[OF sample_upstream_ok sample_reserve_reached load, of "''https://up//''" "''sat''" 5]
      reserve_restart[OF sample_upstream_ok sample_reserve_reached load, of "''https://other''" "''sat''" 5] by blast
qed

end
