(* ===== verification/Rpc.thy ===== *)
theory Rpc
  imports Mint_Core Wallet
begin

text \<open>
  The mint RPC boundary (\<^verbatim>\<open>cashu-core-lite/src/rpc.rs\<close>): the envelopes, the handler that dispatches them to a mint service, and the
  wallet-side client; the service of the demo mint (\<^verbatim>\<open>micronuts-mint/src/rpc_service.rs\<close>), the in-process transports
  (\<^verbatim>\<open>loopback_transport.rs\<close>, \<^verbatim>\<open>direct_transport.rs\<close>) and the mint server that reads one hexadecimal frame per line
  (\<^verbatim>\<open>demo_roles.rs\<close>). The codecs derived by \<^verbatim>\<open>minicbor\<close> and the \<^verbatim>\<open>{:?}\<close> text of a result are a parameter. Requests and responses
  with one field are that field.
\<close>

section \<open>Envelopes\<close>

datatype mint_rpc_method =
    MGetInfo
  | MGetKeys
  | MGetKeysets
  | MMintQuote mint_quote_request
  | MGetMintQuote string
  | MMint mint_request
  | MMeltQuote melt_quote_request
  | MGetMeltQuote string
  | MMelt melt_request
  | MSwap swap_request
  | MCheckState "public_key list"
  | MRestore "public_key list"
  | MBatchCheckMintQuotes "string list"
  | MBatchMint batch_mint_request

datatype mint_rpc_result =
    RGetInfo mint_info
  | RGetKeys "key_set list"
  | RGetKeysets "keyset_info list"
  | RMintQuote mint_quote_response
  | RGetMintQuote mint_quote_response
  | RMint "blind_signature list"
  | RMeltQuote melt_quote_response
  | RGetMeltQuote melt_quote_response
  | RMelt melt_response
  | RSwap "blind_signature list"
  | RCheckState "proof_state list"
  | RRestore "restore_output list"
  | RBatchCheckMintQuotes "mint_quote_response list"
  | RBatchMint "blind_signature list"

datatype mint_rpc_payload = RpcSuccess mint_rpc_result | RpcError cashu_error

record mint_rpc_request =
  rq_id :: u32
  rq_method :: mint_rpc_method

record mint_rpc_response =
  rs_id :: u32
  rs_payload :: mint_rpc_payload

text \<open>\<^verbatim>\<open>minicbor::to_vec\<close> and \<^verbatim>\<open>minicbor::decode\<close> on the two envelopes, with the text of their errors, and \<^verbatim>\<open>{:?}\<close> on a result.\<close>

record rpc_codec =
  cbor_request :: "mint_rpc_request \<Rightarrow> string + bytes"
  cbor_request_of :: "bytes \<Rightarrow> string + mint_rpc_request"
  cbor_response :: "mint_rpc_response \<Rightarrow> string + bytes"
  cbor_response_of :: "bytes \<Rightarrow> string + mint_rpc_response"
  debug_result :: "mint_rpc_result \<Rightarrow> string"

definition framed :: "string \<Rightarrow> string + 'a \<Rightarrow> (cashu_error, 'a) res" where
  "framed what r = (case r of Inl err \<Rightarrow> Err (Protocol (what @ '': '' @ err)) | Inr x \<Rightarrow> Ok x)"

definition encode_rpc_request :: "rpc_codec \<Rightarrow> mint_rpc_request \<Rightarrow> (cashu_error, bytes) res" where
  "encode_rpc_request C request = framed ''failed to encode rpc request'' (cbor_request C request)"

definition decode_rpc_request :: "rpc_codec \<Rightarrow> bytes \<Rightarrow> (cashu_error, mint_rpc_request) res" where
  "decode_rpc_request C b = framed ''failed to decode rpc request'' (cbor_request_of C b)"

definition encode_rpc_response :: "rpc_codec \<Rightarrow> mint_rpc_response \<Rightarrow> (cashu_error, bytes) res" where
  "encode_rpc_response C response = framed ''failed to encode rpc response'' (cbor_response C response)"

definition decode_rpc_response :: "rpc_codec \<Rightarrow> bytes \<Rightarrow> (cashu_error, mint_rpc_response) res" where
  "decode_rpc_response C b = framed ''failed to decode rpc response'' (cbor_response_of C b)"

section \<open>The mint service\<close>

record 's mint_service =
  sv_get_info :: "('s, cashu_error, mint_info) op"
  sv_get_keys :: "('s, cashu_error, key_set list) op"
  sv_get_keysets :: "('s, cashu_error, keyset_info list) op"
  sv_post_mint_quote :: "mint_quote_request \<Rightarrow> ('s, cashu_error, mint_quote_response) op"
  sv_get_mint_quote :: "string \<Rightarrow> ('s, cashu_error, mint_quote_response) op"
  sv_post_mint :: "mint_request \<Rightarrow> ('s, cashu_error, blind_signature list) op"
  sv_post_melt_quote :: "melt_quote_request \<Rightarrow> ('s, cashu_error, melt_quote_response) op"
  sv_get_melt_quote :: "string \<Rightarrow> ('s, cashu_error, melt_quote_response) op"
  sv_post_melt :: "melt_request \<Rightarrow> ('s, cashu_error, melt_response) op"
  sv_post_swap :: "swap_request \<Rightarrow> ('s, cashu_error, blind_signature list) op"
  sv_post_check_state :: "public_key list \<Rightarrow> ('s, cashu_error, proof_state list) op"
  sv_post_restore :: "public_key list \<Rightarrow> ('s, cashu_error, restore_output list) op"
  sv_batch_check_mint_quotes :: "string list \<Rightarrow> ('s, cashu_error, mint_quote_response list) op"
  sv_batch_mint :: "batch_mint_request \<Rightarrow> ('s, cashu_error, blind_signature list) op"

definition demo_mint_service :: "externs \<Rightarrow> 'w env \<Rightarrow> 'w mint mint_service" where
  "demo_mint_service X E =
     \<lparr>sv_get_info = (\<lambda>s. (get_info X s, s)), sv_get_keys = gets get_keys, sv_get_keysets = gets get_keysets,
      sv_post_mint_quote = post_mint_quote X E, sv_get_mint_quote = get_mint_quote X E, sv_post_mint = post_mint X E,
      sv_post_melt_quote = post_melt_quote X E, sv_get_melt_quote = get_melt_quote, sv_post_melt = post_melt X E,
      sv_post_swap = post_swap X E, sv_post_check_state = (\<lambda>ys. gets (post_check_state X ys)),
      sv_post_restore = (\<lambda>ys. gets (post_restore X ys)),
      sv_batch_check_mint_quotes = batch_check_mint_quotes X E, sv_batch_mint = batch_mint X E\<rparr>"

section \<open>The handler\<close>

definition rpc_success :: "('s, cashu_error, 'a) op \<Rightarrow> ('a \<Rightarrow> mint_rpc_result) \<Rightarrow> ('s, cashu_error, mint_rpc_payload) op" where
  "rpc_success m success = (\<lambda>s. case m s of
       (Ok v, s') \<Rightarrow> (Ok (RpcSuccess (success v)), s')
     | (Err e, s') \<Rightarrow> (Ok (RpcError e), s')
     | (Panic, s') \<Rightarrow> (Panic, s'))"

fun handle_method :: "'s mint_service \<Rightarrow> mint_rpc_method \<Rightarrow> ('s, cashu_error, mint_rpc_payload) op" where
  "handle_method S MGetInfo = rpc_success (sv_get_info S) RGetInfo"
| "handle_method S MGetKeys = rpc_success (sv_get_keys S) RGetKeys"
| "handle_method S MGetKeysets = rpc_success (sv_get_keysets S) RGetKeysets"
| "handle_method S (MMintQuote body) = rpc_success (sv_post_mint_quote S body) RMintQuote"
| "handle_method S (MGetMintQuote quote) = rpc_success (sv_get_mint_quote S quote) RGetMintQuote"
| "handle_method S (MMint body) = rpc_success (sv_post_mint S body) RMint"
| "handle_method S (MMeltQuote body) = rpc_success (sv_post_melt_quote S body) RMeltQuote"
| "handle_method S (MGetMeltQuote quote) = rpc_success (sv_get_melt_quote S quote) RGetMeltQuote"
| "handle_method S (MMelt body) = rpc_success (sv_post_melt S body) RMelt"
| "handle_method S (MSwap body) = rpc_success (sv_post_swap S body) RSwap"
| "handle_method S (MCheckState ys) = rpc_success (sv_post_check_state S ys) RCheckState"
| "handle_method S (MRestore ys) = rpc_success (sv_post_restore S ys) RRestore"
| "handle_method S (MBatchCheckMintQuotes quotes) = rpc_success (sv_batch_check_mint_quotes S quotes) RBatchCheckMintQuotes"
| "handle_method S (MBatchMint body) = rpc_success (sv_batch_mint S body) RBatchMint"

definition handle_request :: "'s mint_service \<Rightarrow> mint_rpc_request \<Rightarrow> ('s, cashu_error, mint_rpc_response) op" where
  "handle_request S request =
     bind (handle_method S (rq_method request)) (\<lambda>payload. ret \<lparr>rs_id = rq_id request, rs_payload = payload\<rparr>)"

definition handle_bytes :: "rpc_codec \<Rightarrow> 's mint_service \<Rightarrow> bytes \<Rightarrow> ('s, cashu_error, bytes) op" where
  "handle_bytes C S request_bytes =
     bind (lift_res (decode_rpc_request C request_bytes)) (\<lambda>request.
     bind (handle_request S request) (\<lambda>response.
       lift_res (encode_rpc_response C response)))"

section \<open>The client\<close>

record 't rpc_mint_client =
  rc_transport :: 't
  rc_next_id :: u32

definition rpc_client_new :: "'t \<Rightarrow> 't rpc_mint_client" where
  "rpc_client_new t = \<lparr>rc_transport = t, rc_next_id = 1\<rparr>"

definition on_rpc_transport :: "('t, 'e, 'a) op \<Rightarrow> ('t rpc_mint_client, 'e, 'a) op" where
  "on_rpc_transport m = (\<lambda>c. case m (rc_transport c) of (r, t) \<Rightarrow> (r, c\<lparr>rc_transport := t\<rparr>))"

definition next_request_id :: "('t rpc_mint_client, cashu_error, u32) op" where
  "next_request_id = (\<lambda>c. (Ok (rc_next_id c), c\<lparr>rc_next_id := rc_next_id c + 1\<rparr>))"

definition rpc_call ::
  "rpc_codec \<Rightarrow> (bytes \<Rightarrow> ('t, cashu_error, bytes) op) \<Rightarrow> mint_rpc_method \<Rightarrow> ('t rpc_mint_client, cashu_error, mint_rpc_result) op" where
  "rpc_call C exchange m =
     bind next_request_id (\<lambda>request_id.
     bind (lift_res (encode_rpc_request C \<lparr>rq_id = request_id, rq_method = m\<rparr>)) (\<lambda>request_bytes.
     bind (on_rpc_transport (exchange request_bytes)) (\<lambda>response_bytes.
     bind (lift_res (decode_rpc_response C response_bytes)) (\<lambda>response.
       if rs_id response \<noteq> request_id then throw (Protocol ''rpc response id mismatch'')
       else case rs_payload response of
         RpcSuccess result \<Rightarrow> ret result
       | RpcError err \<Rightarrow> throw err))))"

definition unexpected_result :: "rpc_codec \<Rightarrow> string \<Rightarrow> mint_rpc_result \<Rightarrow> cashu_error" where
  "unexpected_result C m r = Protocol (''unexpected rpc result for '' @ m @ '': '' @ debug_result C r)"

text \<open>A call of which the client expects one variant of the result, picked out by \<open>pick\<close>.\<close>

definition rpc_expect ::
  "rpc_codec \<Rightarrow> (bytes \<Rightarrow> ('t, cashu_error, bytes) op) \<Rightarrow> string \<Rightarrow> mint_rpc_method \<Rightarrow> (mint_rpc_result \<Rightarrow> 'a option)
     \<Rightarrow> ('t rpc_mint_client, cashu_error, 'a) op" where
  "rpc_expect C exchange name m pick =
     bind (rpc_call C exchange m) (\<lambda>result.
       case pick result of Some x \<Rightarrow> ret x | None \<Rightarrow> throw (unexpected_result C name result))"

definition rpc_client :: "rpc_codec \<Rightarrow> (bytes \<Rightarrow> ('t, cashu_error, bytes) op) \<Rightarrow> 't rpc_mint_client mint_client" where
  "rpc_client C x =
     \<lparr>mc_get_info = rpc_expect C x ''get_info'' MGetInfo (\<lambda>r. case r of RGetInfo i \<Rightarrow> Some i | _ \<Rightarrow> None),
      mc_get_keys = rpc_expect C x ''get_keys'' MGetKeys (\<lambda>r. case r of RGetKeys k \<Rightarrow> Some k | _ \<Rightarrow> None),
      mc_get_keysets = rpc_expect C x ''get_keysets'' MGetKeysets (\<lambda>r. case r of RGetKeysets k \<Rightarrow> Some k | _ \<Rightarrow> None),
      mc_post_mint_quote = (\<lambda>q. rpc_expect C x ''post_mint_quote'' (MMintQuote q) (\<lambda>r. case r of RMintQuote a \<Rightarrow> Some a | _ \<Rightarrow> None)),
      mc_get_mint_quote = (\<lambda>q. rpc_expect C x ''get_mint_quote'' (MGetMintQuote q) (\<lambda>r. case r of RGetMintQuote a \<Rightarrow> Some a | _ \<Rightarrow> None)),
      mc_post_mint = (\<lambda>q. rpc_expect C x ''post_mint'' (MMint q) (\<lambda>r. case r of RMint a \<Rightarrow> Some a | _ \<Rightarrow> None)),
      mc_post_melt_quote = (\<lambda>q. rpc_expect C x ''post_melt_quote'' (MMeltQuote q) (\<lambda>r. case r of RMeltQuote a \<Rightarrow> Some a | _ \<Rightarrow> None)),
      mc_get_melt_quote = (\<lambda>q. rpc_expect C x ''get_melt_quote'' (MGetMeltQuote q) (\<lambda>r. case r of RGetMeltQuote a \<Rightarrow> Some a | _ \<Rightarrow> None)),
      mc_post_melt = (\<lambda>q. rpc_expect C x ''post_melt'' (MMelt q) (\<lambda>r. case r of RMelt a \<Rightarrow> Some a | _ \<Rightarrow> None)),
      mc_post_swap = (\<lambda>q. rpc_expect C x ''post_swap'' (MSwap q) (\<lambda>r. case r of RSwap a \<Rightarrow> Some a | _ \<Rightarrow> None)),
      mc_post_check_state = (\<lambda>ys. rpc_expect C x ''post_check_state'' (MCheckState ys) (\<lambda>r. case r of RCheckState a \<Rightarrow> Some a | _ \<Rightarrow> None)),
      mc_post_restore = (\<lambda>ys. rpc_expect C x ''post_restore'' (MRestore ys) (\<lambda>r. case r of RRestore a \<Rightarrow> Some a | _ \<Rightarrow> None))\<rparr>"

section \<open>In-process transports\<close>

text \<open>The loopback transport hands the frame to the handler it holds; its state is that of the mint.\<close>

definition loopback_exchange :: "rpc_codec \<Rightarrow> 's mint_service \<Rightarrow> bytes \<Rightarrow> ('s, cashu_error, bytes) op" where
  "loopback_exchange C S = handle_bytes C S"

definition direct_transport :: "externs \<Rightarrow> 'w env \<Rightarrow> 'w mint mint_client" where
  "direct_transport X E =
     \<lparr>mc_get_info = (\<lambda>s. (get_info X s, s)), mc_get_keys = gets get_keys, mc_get_keysets = gets get_keysets,
      mc_post_mint_quote = post_mint_quote X E, mc_get_mint_quote = get_mint_quote X E, mc_post_mint = post_mint X E,
      mc_post_melt_quote = post_melt_quote X E, mc_get_melt_quote = get_melt_quote, mc_post_melt = post_melt X E,
      mc_post_swap = post_swap X E, mc_post_check_state = (\<lambda>ys. gets (post_check_state X ys)),
      mc_post_restore = (\<lambda>ys. gets (post_restore X ys))\<rparr>"

section \<open>The mint server\<close>

text \<open>\<open>hex_error\<close> is the text of the error of \<^verbatim>\<open>hex::decode\<close>.\<close>

definition handle_demo_mint_hex_request_line ::
  "externs \<Rightarrow> (string \<Rightarrow> string) \<Rightarrow> rpc_codec \<Rightarrow> 's mint_service \<Rightarrow> string \<Rightarrow> ('s, cashu_error, string) op" where
  "handle_demo_mint_hex_request_line X hex_error C S line =
     bind (lift_res (ok_or (Protocol (''failed to decode hex rpc request: '' @ hex_error (trim line))) (hex_decode X (trim line)))) (\<lambda>request_bytes.
     bind (handle_bytes C S request_bytes) (\<lambda>response_bytes.
       ret (hex_encode X response_bytes)))"

text \<open>The loop over the lines of the standard input, up to its end or the first error, with the lines it wrote.\<close>

fun run_mint_server_stdio ::
  "externs \<Rightarrow> (string \<Rightarrow> string) \<Rightarrow> rpc_codec \<Rightarrow> 's mint_service \<Rightarrow> string list \<Rightarrow> 's \<Rightarrow> string list \<times> (cashu_error, unit) res \<times> 's" where
  "run_mint_server_stdio X hex_error C S [] s = ([], Ok (), s)"
| "run_mint_server_stdio X hex_error C S (line # lines) s =
     (if trim line = [] then run_mint_server_stdio X hex_error C S lines s
      else case handle_demo_mint_hex_request_line X hex_error C S line s of
        (Ok out, s') \<Rightarrow> (case run_mint_server_stdio X hex_error C S lines s' of (outs, r, t) \<Rightarrow> (out # outs, r, t))
      | (Err e, s') \<Rightarrow> ([], Err e, s')
      | (Panic, s') \<Rightarrow> ([], Panic, s'))"

definition parse_keyset_seed_hex :: "externs \<Rightarrow> (string \<Rightarrow> string) \<Rightarrow> string \<Rightarrow> string + bytes" where
  "parse_keyset_seed_hex X hex_error raw =
     (case hex_decode X raw of
        None \<Rightarrow> Inl (''MICRONUTS_MINT_KEYSET_SEED is not valid hex: '' @ hex_error raw)
      | Some b \<Rightarrow>
          if length b = 32 then Inr b
          else Inl (''MICRONUTS_MINT_KEYSET_SEED must be 64 hex chars (32 bytes), got '' @ show_nat (length b) @ '' bytes''))"

text \<open>\<^verbatim>\<open>mint_with_state\<close>: the two settings read from the environment, an empty one counting as absent.\<close>

definition mint_with_state :: "externs \<Rightarrow> (string \<Rightarrow> string) \<Rightarrow> 'w env \<Rightarrow> string option \<Rightarrow> string option \<Rightarrow> ('w mint, cashu_error, unit) op" where
  "mint_with_state X hex_error E seed state_file =
     bind (case Option.bind seed (\<lambda>v. if v = [] then None else Some v) of
             Some raw \<Rightarrow> (case parse_keyset_seed_hex X hex_error raw of Inl _ \<Rightarrow> panic | Inr b \<Rightarrow> with_keyset_seed X b)
           | None \<Rightarrow> ret ()) (\<lambda>_.
       case state_file of
         Some path \<Rightarrow> if path = [] then ret () else with_state_store X E
       | None \<Rightarrow> ret ())"

end
