(* ===== verification/Rpc_Theorems.thy ===== *)
theory Rpc_Theorems
  imports Rpc Demo "HOL-Library.Countable"
begin

text \<open>
  A wallet that talks to the demo mint through encoded RPC frames behaves as one that calls it directly, and the mint server answers a
  sequence of frames as the mint answers the requests in them. The wallet of \<open>Wallet\<close> is parametric in its mint client: a simulation
  between two clients carries over to every operation of the wallet.
\<close>

section \<open>Simulation\<close>

definition op_sim :: "('s \<Rightarrow> 't \<Rightarrow> bool) \<Rightarrow> ('s, 'e, 'a) op \<Rightarrow> ('t, 'e, 'a) op \<Rightarrow> bool" where
  "op_sim R m n \<longleftrightarrow> (\<forall>s t. R s t \<longrightarrow> fst (m s) = fst (n t) \<and> R (snd (m s)) (snd (n t)))"

lemma op_simI: "(\<And>s t r s'. R s t \<Longrightarrow> m s = (r, s') \<Longrightarrow> \<exists>t'. n t = (r, t') \<and> R s' t') \<Longrightarrow> op_sim R m n"
  unfolding op_sim_def by (metis fst_conv prod.collapse snd_conv)

lemma op_simD: "op_sim R m n \<Longrightarrow> R s t \<Longrightarrow> m s = (r, s') \<Longrightarrow> \<exists>t'. n t = (r, t') \<and> R s' t'"
  unfolding op_sim_def by (metis fst_conv prod.collapse snd_conv)

lemma op_sim_lift_res: "op_sim R (lift_res r) (lift_res r)"
  by (simp add: op_sim_def)

lemma op_sim_bind:
  assumes m: "op_sim R m n" and f: "\<And>x. op_sim R (f x) (g x)"
  shows "op_sim R (bind m f) (bind n g)"
proof (rule op_simI)
  fix s t r s'
  assume R: "R s t" and run: "bind m f s = (r, s')"
  obtain q u where q: "m s = (q, u)" by (cases "m s")
  from op_simD[OF m R q] obtain v where v: "n t = (q, v)" "R u v" by blast
  show "\<exists>t'. bind n g t = (r, t') \<and> R s' t'"
    using run q v op_simD[OF f v(2)] by (cases q) (auto simp: bind_def)
qed

definition wallet_rel :: "('t \<Rightarrow> 'u \<Rightarrow> bool) \<Rightarrow> 't wallet \<Rightarrow> 'u wallet \<Rightarrow> bool" where
  "wallet_rel R w v \<longleftrightarrow> wl_mint_url w = wl_mint_url v \<and> R (wl_transport w) (wl_transport v)"

definition run_rel :: "('t \<Rightarrow> 'u \<Rightarrow> bool) \<Rightarrow> 't wallet \<times> 'r \<Rightarrow> 'u wallet \<times> 'r \<Rightarrow> bool" where
  "run_rel R a b \<longleftrightarrow> wallet_rel R (fst a) (fst b) \<and> snd a = snd b"

lemma op_sim_via: "op_sim R m n \<Longrightarrow> op_sim (wallet_rel R) (via m) (via n)"
  by (auto simp: op_sim_def wallet_rel_def via_def case_prod_beta)

lemma op_sim_on_wallet: "op_sim (wallet_rel R) m n \<Longrightarrow> op_sim (run_rel R) (on_wallet m) (on_wallet n)"
  by (auto simp: op_sim_def run_rel_def on_wallet_def case_prod_beta)

lemma op_sim_on_rng: "op_sim (run_rel R) (on_rng m) (on_rng m)"
  by (auto simp: op_sim_def run_rel_def on_rng_def split: prod.splits)

section \<open>Clients\<close>

definition simulates :: "('t \<Rightarrow> 'u \<Rightarrow> bool) \<Rightarrow> 't mint_client \<Rightarrow> 'u mint_client \<Rightarrow> bool" where
  "simulates R c d \<longleftrightarrow>
     op_sim R (mc_get_info c) (mc_get_info d) \<and> op_sim R (mc_get_keys c) (mc_get_keys d) \<and> op_sim R (mc_get_keysets c) (mc_get_keysets d)
     \<and> (\<forall>q. op_sim R (mc_post_mint_quote c q) (mc_post_mint_quote d q)) \<and> (\<forall>q. op_sim R (mc_get_mint_quote c q) (mc_get_mint_quote d q))
     \<and> (\<forall>q. op_sim R (mc_post_mint c q) (mc_post_mint d q)) \<and> (\<forall>q. op_sim R (mc_post_melt_quote c q) (mc_post_melt_quote d q))
     \<and> (\<forall>q. op_sim R (mc_get_melt_quote c q) (mc_get_melt_quote d q)) \<and> (\<forall>q. op_sim R (mc_post_melt c q) (mc_post_melt d q))
     \<and> (\<forall>q. op_sim R (mc_post_swap c q) (mc_post_swap d q)) \<and> (\<forall>q. op_sim R (mc_post_check_state c q) (mc_post_check_state d q))
     \<and> (\<forall>q. op_sim R (mc_post_restore c q) (mc_post_restore d q))"

lemma wallet_quotes_sim:
  assumes "simulates R c d"
  shows "op_sim (wallet_rel R) (request_mint_quote c a u) (request_mint_quote d a u)"
    and "op_sim (wallet_rel R) (check_mint_quote c q) (check_mint_quote d q)"
    and "op_sim (wallet_rel R) (request_melt_quote c i u) (request_melt_quote d i u)"
    and "op_sim (wallet_rel R) (check_melt_quote c q) (check_melt_quote d q)"
    and "op_sim (wallet_rel R) (wallet_melt c q ps) (wallet_melt d q ps)"
  using assms by (auto simp: simulates_def request_mint_quote_def check_mint_quote_def request_melt_quote_def check_melt_quote_def
      wallet_melt_def intro!: op_sim_via)

lemma wallet_keys_sim:
  assumes "simulates R c d"
  shows "op_sim (wallet_rel R) (wallet_get_info c) (wallet_get_info d)"
    and "op_sim (wallet_rel R) (wallet_get_keys c) (wallet_get_keys d)"
    and "op_sim (wallet_rel R) (wallet_get_keysets c) (wallet_get_keysets d)"
  using assms by (auto simp: simulates_def wallet_get_info_def wallet_get_keys_def wallet_get_keysets_def intro!: op_sim_via)

lemma wallet_check_sim: "simulates R c d \<Longrightarrow> op_sim (wallet_rel R) (check_state X c secrets) (check_state X d secrets)"
  unfolding check_state_def by (intro op_sim_bind op_sim_lift_res op_sim_via) (simp add: simulates_def)

lemma wallet_mint_sim: "simulates R c d \<Longrightarrow> op_sim (run_rel R) (mint_tokens X K c fill q a i ks) (mint_tokens X K d fill q a i ks)"
  unfolding mint_tokens_def
  by (intro op_sim_bind op_sim_on_rng) (auto simp: simulates_def intro!: op_sim_bind op_sim_on_wallet op_sim_via op_sim_lift_res)

lemma wallet_swap_sim: "simulates R c d \<Longrightarrow> op_sim (run_rel R) (swap X K c fill ps as i ks) (swap X K d fill ps as i ks)"
  unfolding swap_def
  by (intro op_sim_bind op_sim_on_rng) (auto simp: simulates_def intro!: op_sim_bind op_sim_on_wallet op_sim_via op_sim_lift_res)

section \<open>The client over frames\<close>

text \<open>What the RPC relies on of the codecs: encoding into a vector succeeds with at least one byte, and
  decoding gives the value back. \<^verbatim>\<open>minicbor\<close> documents this of the codecs its macros derive; the law
  covers also the codecs written by hand in \<^verbatim>\<open>keypair.rs\<close> (keys) and \<^verbatim>\<open>nut12.rs\<close> (DLEQ scalars) that
  the derived ones call, which are not modelled for the envelopes. A value of the type \<open>public_key\<close>
  stands here for one that the Rust type holds, always a point of the curve.\<close>

definition codec_ok :: "rpc_codec \<Rightarrow> bool" where
  "codec_ok C \<longleftrightarrow> (\<forall>q. \<exists>b. b \<noteq> [] \<and> cbor_request C q = Inr b \<and> cbor_request_of C b = Inr q)
     \<and> (\<forall>a. \<exists>b. cbor_response C a = Inr b \<and> cbor_response_of C b = Inr a)"

lemma codec_ok_request:
  assumes "codec_ok C"
  obtains b where "b \<noteq> []" "cbor_request C q = Inr b" "encode_rpc_request C q = Ok b" "decode_rpc_request C b = Ok q"
proof -
  from assms obtain b where "b \<noteq> [] \<and> cbor_request C q = Inr b \<and> cbor_request_of C b = Inr q" unfolding codec_ok_def by blast
  then show thesis by (intro that[of b]) (auto simp: encode_rpc_request_def decode_rpc_request_def framed_def)
qed

lemma codec_ok_response:
  assumes "codec_ok C"
  shows "encode_rpc_response C a = Ok (projr (cbor_response C a)) \<and> decode_rpc_response C (projr (cbor_response C a)) = Ok a"
proof -
  from assms obtain b where "cbor_response C a = Inr b \<and> cbor_response_of C b = Inr a" unfolding codec_ok_def by blast
  then show ?thesis by (auto simp: encode_rpc_response_def decode_rpc_response_def framed_def)
qed

text \<open>A frame through the loopback is the request handled by the service.\<close>

lemma handle_bytes_frame:
  assumes "codec_ok C" and enc: "decode_rpc_request C b = Ok q"
  shows "\<exists>f. (\<forall>a. decode_rpc_response C (f a) = Ok a)
    \<and> handle_bytes C S b = bind (handle_request S q) (\<lambda>a. ret (f a))"
proof -
  define f where "f a = projr (cbor_response C a)" for a
  have f: "encode_rpc_response C a = Ok (f a)" "decode_rpc_response C (f a) = Ok a" for a
    using codec_ok_response[OF assms(1)] by (simp_all add: f_def)
  show ?thesis
    by (rule exI[of _ f]) (auto simp: handle_bytes_def enc f fun_eq_iff bind_def split: prod.splits res.splits)
qed

definition carries :: "'s rpc_mint_client \<Rightarrow> 's \<Rightarrow> bool" where
  "carries c s \<longleftrightarrow> rc_transport c = s"

text \<open>A call answers as the service does, its errors included; the request numbers of the client play no part.\<close>

lemma rpc_expect_sim:
  assumes ok: "codec_ok C" and m: "handle_method S m = rpc_success n wrap" and pick: "\<And>x. pick (wrap x) = Some x"
  shows "op_sim carries (rpc_expect C (loopback_exchange C S) name m pick) n"
proof (rule op_simI)
  fix c :: "'a rpc_mint_client" and s r c'
  assume "carries c s" and run: "rpc_expect C (loopback_exchange C S) name m pick c = (r, c')"
  then have s: "rc_transport c = s" by (simp add: carries_def)
  let ?q = "\<lparr>rq_id = rc_next_id c, rq_method = m\<rparr>"
  obtain b where b: "encode_rpc_request C ?q = Ok b" "decode_rpc_request C b = Ok ?q" using codec_ok_request[OF ok] by blast
  obtain f where f: "\<And>a. decode_rpc_response C (f a) = Ok a" "handle_bytes C S b = bind (handle_request S ?q) (\<lambda>a. ret (f a))"
    using handle_bytes_frame[OF ok b(2)] by blast
  obtain x s' where x: "n s = (x, s')" by (cases "n s")
  from run show "\<exists>t'. n s = (r, t') \<and> carries c' t'"
    using x by (cases x) (auto simp: rpc_expect_def rpc_call_def next_request_id_def on_rpc_transport_def loopback_exchange_def bind_def b f
        handle_request_def m rpc_success_def pick s carries_def)
qed

lemma rpc_simulates:
  assumes "codec_ok C"
  shows "simulates carries (rpc_client C (loopback_exchange C (demo_mint_service X E))) (direct_transport X E)"
  unfolding simulates_def rpc_client_def direct_transport_def
  by (simp, intro conjI allI; rule rpc_expect_sim[OF assms], simp add: demo_mint_service_def, simp)

section \<open>The mint server\<close>

text \<open>The mint answering requests one after the other; it stops where a request makes it panic.\<close>

fun serve_all :: "'s mint_service \<Rightarrow> mint_rpc_request list \<Rightarrow> 's \<Rightarrow> mint_rpc_response list \<times> (cashu_error, unit) res \<times> 's" where
  "serve_all S [] s = ([], Ok (), s)"
| "serve_all S (q # qs) s =
     (case handle_request S q s of
        (Ok a, t) \<Rightarrow> (case serve_all S qs t of (as, r, u) \<Rightarrow> (a # as, r, u))
      | (Err e, t) \<Rightarrow> ([], Err e, t)
      | (Panic, t) \<Rightarrow> ([], Panic, t))"

definition request_line :: "externs \<Rightarrow> rpc_codec \<Rightarrow> mint_rpc_request \<Rightarrow> string" where
  "request_line X C q = (case cbor_request C q of Inr b \<Rightarrow> hex_encode X b | Inl _ \<Rightarrow> [])"

definition response_of_line :: "externs \<Rightarrow> rpc_codec \<Rightarrow> string \<Rightarrow> mint_rpc_response option" where
  "response_of_line X C out =
     (case hex_decode X out of None \<Rightarrow> None | Some b \<Rightarrow> (case cbor_response_of C b of Inr a \<Rightarrow> Some a | Inl _ \<Rightarrow> None))"

text \<open>What \<^verbatim>\<open>hex\<close> documents: decoding gives the bytes back, and the text has neither space nor line break.\<close>

definition hex_lines_ok :: "externs \<Rightarrow> bool" where
  "hex_lines_ok X \<longleftrightarrow> (\<forall>b. hex_decode X (hex_encode X b) = Some b \<and> trim (hex_encode X b) = hex_encode X b \<and> (hex_encode X b = [] \<longrightarrow> b = []))"

lemma handle_line:
  assumes C: "codec_ok C" and X: "hex_lines_ok X"
  shows "trim (request_line X C q) \<noteq> []
    \<and> (\<exists>f. (\<forall>a. response_of_line X C (f a) = Some a)
      \<and> handle_demo_mint_hex_request_line X hex_error C S (request_line X C q) = bind (handle_request S q) (\<lambda>a. ret (f a)))"
proof -
  obtain b where b: "b \<noteq> []" "cbor_request C q = Inr b" "decode_rpc_request C b = Ok q" using codec_ok_request[OF C] by metis
  obtain f where f: "\<And>a. decode_rpc_response C (f a) = Ok a" "handle_bytes C S b = bind (handle_request S q) (\<lambda>a. ret (f a))"
    using handle_bytes_frame[OF C b(3)] by blast
  have line: "request_line X C q = hex_encode X b" using b(2) by (simp add: request_line_def)
  have "response_of_line X C (hex_encode X (f a)) = Some a" for a
    using f(1)[of a] X by (auto simp: response_of_line_def hex_lines_ok_def decode_rpc_response_def framed_def split: sum.splits)
  moreover have "handle_demo_mint_hex_request_line X hex_error C S (request_line X C q) = bind (handle_request S q) (\<lambda>a. ret (hex_encode X (f a)))"
    using X by (auto simp: line handle_demo_mint_hex_request_line_def hex_lines_ok_def f(2) bind_def fun_eq_iff split: prod.splits res.splits)
  ultimately show ?thesis using X b(1) by (auto simp: line hex_lines_ok_def intro!: exI[of _ "\<lambda>a. hex_encode X (f a)"])
qed

section \<open>A codec\<close>

text \<open>Everything that travels is countable, so that the frames of a codec can be numbers.\<close>

instance public_key :: countable
  by countable_datatype

instance secret_key :: countable
  by countable_datatype

instance cashu_error :: countable
  by countable_datatype

instance proof_dleq_ext :: (countable) countable
  by (rule countable_classI[of "\<lambda>r. to_nat (pd_e r, pd_s r, pd_r r, proof_dleq.more r)"]) (simp add: proof_dleq.equality)

instance nut_proof_ext :: (countable) countable
  by (rule countable_classI[of "\<lambda>r. to_nat (pf_amount r, pf_id r, pf_secret r, pf_c r, pf_dleq r, pf_witness r, nut_proof.more r)"]) (simp add: nut_proof.equality)

instance blinded_message_ext :: (countable) countable
  by (rule countable_classI[of "\<lambda>r. to_nat (bm_amount r, bm_id r, bm_b r, blinded_message.more r)"]) (simp add: blinded_message.equality)

instance blind_signature_dleq_ext :: (countable) countable
  by (rule countable_classI[of "\<lambda>r. to_nat (bd_e r, bd_s r, blind_signature_dleq.more r)"]) (simp add: blind_signature_dleq.equality)

instance blind_signature_ext :: (countable) countable
  by (rule countable_classI[of "\<lambda>r. to_nat (bs_amount r, bs_id r, bs_c r, bs_dleq r, blind_signature.more r)"]) (simp add: blind_signature.equality)

instance mint_quote_request_ext :: (countable) countable
  by (rule countable_classI[of "\<lambda>r. to_nat (mqr_amount r, mqr_unit r, mqr_pubkey r, mint_quote_request.more r)"]) (simp add: mint_quote_request.equality)

instance mint_request_ext :: (countable) countable
  by (rule countable_classI[of "\<lambda>r. to_nat (mr_quote r, mr_outputs r, mr_signature r, mint_request.more r)"]) (simp add: mint_request.equality)

instance melt_quote_request_ext :: (countable) countable
  by (rule countable_classI[of "\<lambda>r. to_nat (lqr_request r, lqr_unit r, lqr_amount r, melt_quote_request.more r)"]) (simp add: melt_quote_request.equality)

instance melt_request_ext :: (countable) countable
  by (rule countable_classI[of "\<lambda>r. to_nat (lr_quote r, lr_inputs r, lr_outputs r, melt_request.more r)"]) (simp add: melt_request.equality)

instance swap_request_ext :: (countable) countable
  by (rule countable_classI[of "\<lambda>r. to_nat (sw_inputs r, sw_outputs r, swap_request.more r)"]) (simp add: swap_request.equality)

instance batch_mint_request_ext :: (countable) countable
  by (rule countable_classI[of "\<lambda>r. to_nat (br_quotes r, br_quote_amounts r, br_outputs r, br_signatures r, batch_mint_request.more r)"]) (simp add: batch_mint_request.equality)

instance contact_info_ext :: (countable) countable
  by (rule countable_classI[of "\<lambda>r. to_nat (ci_method r, ci_info r, contact_info.more r)"]) (simp add: contact_info.equality)

instance payment_method_ext :: (countable) countable
  by (rule countable_classI[of "\<lambda>r. to_nat (pm_method r, pm_unit r, payment_method.more r)"]) (simp add: payment_method.equality)

instance cached_endpoint_ext :: (countable) countable
  by (rule countable_classI[of "\<lambda>r. to_nat (ce_method r, ce_path r, cached_endpoint.more r)"]) (simp add: cached_endpoint.equality)

instance nut_settings_ext :: (countable) countable
  by (rule countable_classI[of "\<lambda>r. to_nat (ns_methods r, ns_supported r, ns_ttl r, ns_cached_endpoints r, ns_max_batch_size r, nut_settings.more r)"]) (simp add: nut_settings.equality)

instance mint_info_ext :: (countable) countable
  by (rule countable_classI[of "\<lambda>r. to_nat (mi_name r, mi_pubkey r, mi_version r, mi_description r, mi_contact r, mi_nuts r, mint_info.more r)"]) (simp add: mint_info.equality)

instance key_pair_ext :: (countable) countable
  by (rule countable_classI[of "\<lambda>r. to_nat (kp_amount r, kp_pubkey r, key_pair.more r)"]) (simp add: key_pair.equality)

instance key_set_ext :: (countable) countable
  by (rule countable_classI[of "\<lambda>r. to_nat (ks_id r, ks_unit r, ks_keys r, key_set.more r)"]) (simp add: key_set.equality)

instance keyset_info_ext :: (countable) countable
  by (rule countable_classI[of "\<lambda>r. to_nat (ki_id r, ki_unit r, ki_active r, ki_input_fee_ppk r, keyset_info.more r)"]) (simp add: keyset_info.equality)

instance mint_quote_response_ext :: (countable) countable
  by (rule countable_classI[of "\<lambda>r. to_nat (mq_quote r, mq_request r, mq_paid r, mq_state r, mq_expiry r, mq_amount r, mq_unit r, mq_amount_paid r, mq_amount_issued r, mq_updated_at r, mq_method r, mq_pubkey r, mint_quote_response.more r)"]) (simp add: mint_quote_response.equality)

instance melt_quote_response_ext :: (countable) countable
  by (rule countable_classI[of "\<lambda>r. to_nat (lq_quote r, lq_amount r, lq_fee_reserve r, lq_paid r, lq_state r, lq_expiry r, lq_request r, lq_unit r, lq_method r, melt_quote_response.more r)"]) (simp add: melt_quote_response.equality)

instance melt_response_ext :: (countable) countable
  by (rule countable_classI[of "\<lambda>r. to_nat (ls_paid r, ls_state r, ls_payment_preimage r, ls_change r, ls_quote r, ls_amount r, ls_fee_reserve r, ls_unit r, ls_expiry r, ls_request r, ls_method r, melt_response.more r)"]) (simp add: melt_response.equality)

instance proof_state_ext :: (countable) countable
  by (rule countable_classI[of "\<lambda>r. to_nat (ps_y r, ps_state r, ps_witness r, proof_state.more r)"]) (simp add: proof_state.equality)

instance restore_output_ext :: (countable) countable
  by (rule countable_classI[of "\<lambda>r. to_nat (ro_y r, ro_signature r, restore_output.more r)"]) (simp add: restore_output.equality)

instance mint_rpc_method :: countable
  by countable_datatype

instance mint_rpc_result :: countable
  by countable_datatype

instance mint_rpc_payload :: countable
  by countable_datatype

instance mint_rpc_request_ext :: (countable) countable
  by (rule countable_classI[of "\<lambda>r. to_nat (rq_id r, rq_method r, mint_rpc_request.more r)"]) (simp add: mint_rpc_request.equality)

instance mint_rpc_response_ext :: (countable) countable
  by (rule countable_classI[of "\<lambda>r. to_nat (rs_id r, rs_payload r, mint_rpc_response.more r)"]) (simp add: mint_rpc_response.equality)

definition number_codec :: rpc_codec where
  "number_codec = \<lparr>cbor_request = (\<lambda>q. Inr (replicate (Suc (to_nat q)) 0)), cbor_request_of = (\<lambda>b. Inr (from_nat (length b - 1))),
     cbor_response = (\<lambda>a. Inr (replicate (to_nat a) 0)), cbor_response_of = (\<lambda>b. Inr (from_nat (length b))), debug_result = (\<lambda>r. [])\<rparr>"

lemma number_codec_ok: "codec_ok number_codec"
  by (auto simp: codec_ok_def number_codec_def)

definition tally_externs :: externs where
  "tally_externs = demo_externs\<lparr>hex_encode := (\<lambda>b. replicate (Suc (to_nat b)) (CHR ''a'')), hex_decode := (\<lambda>s. Some (from_nat (length s - 1)))\<rparr>"

lemma tally_externs_ok: "hex_lines_ok tally_externs"
  by (auto simp: hex_lines_ok_def tally_externs_def graphic_def intro!: trim_graphic)

text \<open>C39: the server process. A sequence of request frames on its standard input, one per line, is answered on its standard output as the
  mint answers the requests in that order: one line per response, with the state of the mint and the end of the run the same,
  provided the codecs of the envelopes give back what they encode.\<close>

theorem server_answers_in_order:
  assumes "codec_ok C" "hex_lines_ok X"
  shows "\<exists>outs. run_mint_server_stdio X hex_error C S (map (request_line X C) qs) s
      = (outs, fst (snd (serve_all S qs s)), snd (snd (serve_all S qs s)))
    \<and> map (response_of_line X C) outs = map Some (fst (serve_all S qs s))"
proof (induction qs arbitrary: s)
  case (Cons q qs)
  obtain f where f: "trim (request_line X C q) \<noteq> []" "\<And>a. response_of_line X C (f a) = Some a"
    "handle_demo_mint_hex_request_line X hex_error C S (request_line X C q) = bind (handle_request S q) (\<lambda>a. ret (f a))"
    using handle_line[OF assms, of q hex_error S] by blast
  obtain r t where r: "handle_request S q s = (r, t)" by (cases "handle_request S q s")
  show ?case
  proof (cases r)
    case (Ok a)
    obtain outs where "run_mint_server_stdio X hex_error C S (map (request_line X C) qs) t
        = (outs, fst (snd (serve_all S qs t)), snd (snd (serve_all S qs t)))"
      "map (response_of_line X C) outs = map Some (fst (serve_all S qs t))" using Cons.IH by blast
    then show ?thesis using f r Ok by (auto simp: bind_def case_prod_beta intro!: exI[of _ "f a # outs"])
  qed (use f r in \<open>simp_all add: bind_def\<close>)
qed simp

theorem server_answers_in_order_witness:
  "\<exists>outs. run_mint_server_stdio tally_externs (\<lambda>s. []) number_codec (demo_mint_service demo_externs demo_env)
        (map (request_line tally_externs number_codec) [\<lparr>rq_id = 7, rq_method = MGetKeysets\<rparr>, \<lparr>rq_id = 8, rq_method = MGetMeltQuote ''q0''\<rparr>]) demo_mint
      = (outs, Ok (), demo_mint)
    \<and> map (response_of_line tally_externs number_codec) outs
      = [Some \<lparr>rs_id = 7, rs_payload = RpcSuccess (RGetKeysets (get_keysets demo_mint))\<rparr>, Some \<lparr>rs_id = 8, rs_payload = RpcError QuoteNotFound\<rparr>]"
  using server_answers_in_order[OF number_codec_ok tally_externs_ok, of "\<lambda>s. []" "demo_mint_service demo_externs demo_env"
      "[\<lparr>rq_id = 7, rq_method = MGetKeysets\<rparr>, \<lparr>rq_id = 8, rq_method = MGetMeltQuote ''q0''\<rparr>]" demo_mint]
  by (simp add: handle_request_def bind_def rpc_success_def demo_mint_service_def get_melt_quote_def find_melt_quote_def demo_mint_def)

text \<open>C38: the wallet over frames. Whatever a wallet does through the RPC client over the loopback transport, it does with the same result, the
  same state of the mint and the same state of its generator as with the mint called directly, provided the codecs of the envelopes
  give back what they encode.\<close>

theorem rpc_wallet_agrees:
  fixes C :: rpc_codec and X :: externs and E :: "'w env"
  assumes "codec_ok C"
  defines "M \<equiv> rpc_client C (loopback_exchange C (demo_mint_service X E))" and "D \<equiv> direct_transport X E"
  shows "op_sim (run_rel carries) (mint_tokens Y K M fill q a i ks) (mint_tokens Y K D fill q a i ks)
    \<and> op_sim (run_rel carries) (swap Y K M fill ps as i ks) (swap Y K D fill ps as i ks)
    \<and> op_sim (wallet_rel carries) (wallet_melt M q ps) (wallet_melt D q ps)
    \<and> op_sim (wallet_rel carries) (check_state Y M secrets) (check_state Y D secrets)
    \<and> op_sim (wallet_rel carries) (request_mint_quote M a u) (request_mint_quote D a u)
    \<and> op_sim (wallet_rel carries) (check_mint_quote M q) (check_mint_quote D q)
    \<and> op_sim (wallet_rel carries) (request_melt_quote M iv u) (request_melt_quote D iv u)
    \<and> op_sim (wallet_rel carries) (check_melt_quote M q) (check_melt_quote D q)
    \<and> op_sim (wallet_rel carries) (wallet_get_keys M) (wallet_get_keys D)
    \<and> op_sim (wallet_rel carries) (wallet_get_info M) (wallet_get_info D)
    \<and> op_sim (wallet_rel carries) (wallet_get_keysets M) (wallet_get_keysets D)"
proof -
  note sim = rpc_simulates[OF assms(1), of X E]
  show ?thesis unfolding M_def D_def
    by (intro conjI wallet_mint_sim wallet_swap_sim wallet_check_sim wallet_quotes_sim wallet_keys_sim; rule sim)
qed

definition zero_fill :: "unit \<Rightarrow> bytes \<times> unit" where
  "zero_fill g = (replicate 32 0, g)"

theorem rpc_wallet_agrees_witness:
  "op_sim (run_rel carries)
     (swap demo_externs z5_curve (rpc_client number_codec (loopback_exchange number_codec (demo_mint_service demo_externs demo_env)))
       zero_fill [demo_proof 2 ''s''] [1, 1] DEMO_ID (to_public_keyset demo_keyset))
     (swap demo_externs z5_curve (direct_transport demo_externs demo_env) zero_fill [demo_proof 2 ''s''] [1, 1] DEMO_ID (to_public_keyset demo_keyset))
   \<and> run_rel carries (wallet_new ''m'' (rpc_client_new demo_mint), ()) (wallet_new ''m'' demo_mint, ())"
  by (rule conjI[OF rpc_wallet_agrees[OF number_codec_ok, THEN conjunct2, THEN conjunct1]])
    (simp add: run_rel_def wallet_rel_def carries_def wallet_new_def rpc_client_new_def)

end
