(* ===== verification/Satocash.thy ===== *)
theory Satocash
  imports Rust_Text
begin

text \<open>
  The client of the SatoCash card (\<^verbatim>\<open>micronuts-satocash\<close>): short command APDUs, the status answers, the commands that store and read mints,
  keysets and proofs (\<^verbatim>\<open>wallet.rs\<close>), and the transport over PC/SC (\<^verbatim>\<open>pcsc.rs\<close>). The applet is not part of the repository: a card is a
  state \<open>'c\<close> and the function \<open>transmit\<close> that answers a command with response bytes or fails; the calls of the \<^verbatim>\<open>pcsc\<close> crate that
  find and connect a reader are fields of a record.
\<close>

section \<open>Command APDUs\<close>

datatype card_error = CardTransport string | CardSw u16 | CardMalformed string

definition encode_apdu :: "u8 \<Rightarrow> u8 \<Rightarrow> u8 \<Rightarrow> u8 \<Rightarrow> bytes \<Rightarrow> (card_error, bytes) res" where
  "encode_apdu cla ins p1 p2 data =
     (if length data > 255 then Err (CardMalformed ''apdu data exceeds short-Lc field (255)'')
      else Ok ([cla, ins, p1, p2] @ (if data = [] then [0] else word_of_nat (length data) # data)))"

definition SATOCASH_AID :: bytes where "SATOCASH_AID = [0x53, 0x61, 0x74, 0x6f, 0x63, 0x61, 0x73, 0x68]"
definition CLA_SATOCASH :: u8 where "CLA_SATOCASH = 0xB0"
definition INS_GET_STATUS :: u8 where "INS_GET_STATUS = 0x3C"
definition INS_SATOCASH_GET_STATUS :: u8 where "INS_SATOCASH_GET_STATUS = 0xB0"
definition INS_IMPORT_MINT :: u8 where "INS_IMPORT_MINT = 0xB1"
definition INS_EXPORT_MINT :: u8 where "INS_EXPORT_MINT = 0xB2"
definition INS_IMPORT_KEYSET :: u8 where "INS_IMPORT_KEYSET = 0xB4"
definition INS_IMPORT_PROOF :: u8 where "INS_IMPORT_PROOF = 0xB7"
definition INS_EXPORT_PROOFS :: u8 where "INS_EXPORT_PROOFS = 0xB8"
definition OP_INIT :: u8 where "OP_INIT = 0x01"

definition u16_of_be :: "u8 \<Rightarrow> u8 \<Rightarrow> u16" where
  "u16_of_be a b = word_of_nat (from_be_bytes [a, b])"

definition u16_to_be :: "u16 \<Rightarrow> bytes" where
  "u16_to_be w = to_be_bytes 2 (unat w)"

section \<open>The transport\<close>

type_synonym 'c card_transport = "u8 \<Rightarrow> u8 \<Rightarrow> u8 \<Rightarrow> u8 \<Rightarrow> bytes \<Rightarrow> ('c, card_error, bytes \<times> u16) op"

text \<open>The response buffer has \<open>MAX_RESP\<close> bytes; \<open>transmit\<close> is given it and fails when the answer does not fit.\<close>

definition MAX_RESP :: nat where "MAX_RESP = 512"

definition pcsc_exchange :: "(nat \<Rightarrow> bytes \<Rightarrow> 'c \<Rightarrow> bytes option \<times> 'c) \<Rightarrow> 'c card_transport" where
  "pcsc_exchange transmit cla ins p1 p2 data =
     bind (lift_res (encode_apdu cla ins p1 p2 data)) (\<lambda>cmd.
     bind (\<lambda>c. case transmit MAX_RESP cmd c of
             (Some r, c') \<Rightarrow> (Ok r, c')
           | (None, c') \<Rightarrow> (Err (CardTransport ''transmit''), c')) (\<lambda>r.
       let n = length r in
       if n < 2 then throw (CardTransport ''short response'')
       else ret (take (n - 2) r, u16_of_be (r ! (n - 2)) (r ! (n - 1)))))"

record 'k pcsc =
  pcsc_establish :: bool
  pcsc_list_readers :: "string list option"
  pcsc_connect :: "string \<Rightarrow> 'k option"
  pcsc_atr :: "'k \<Rightarrow> bytes option"

definition connect_by_name :: "'k pcsc \<Rightarrow> string \<Rightarrow> (card_error, 'k) res" where
  "connect_by_name P name_substr =
     (if \<not> pcsc_establish P then Err (CardTransport ''pcsc context'')
      else res_bind (ok_or (CardTransport ''list readers'') (pcsc_list_readers P)) (\<lambda>readers.
        res_bind (ok_or (CardTransport ''no matching reader'') (find (\<lambda>s. find_sub name_substr s \<noteq> None) readers)) (\<lambda>name.
          if CHR 0x00 \<in> set name then Err (CardTransport ''reader name'')
          else ok_or (CardTransport ''connect card'') (pcsc_connect P name))))"

definition card_atr :: "'k pcsc \<Rightarrow> 'k \<Rightarrow> (card_error, bytes) res" where
  "card_atr P k = ok_or (CardTransport ''card status'') (pcsc_atr P k)"

section \<open>Status\<close>

record satocash_status =
  st_protocol_version :: "u8 \<times> u8"
  st_applet_version :: "u8 \<times> u8"
  st_pin_tries_remaining :: u8
  st_puk_tries_remaining :: u8
  st_needs_2fa :: bool
  st_setup_done :: bool
  st_needs_secure_channel :: bool
  st_nfc_policy :: u8
  st_pin_policy :: u8
  st_max_mints :: u8
  st_used_mints :: u8
  st_max_keysets :: u8
  st_used_keysets :: u8
  st_max_proofs :: u16
  st_unspent_proofs :: u16
  st_spent_proofs :: u16

definition token_count :: "satocash_status \<Rightarrow> u16" where
  "token_count st = st_unspent_proofs st"

text \<open>Every index read below is under the length the first line demands.\<close>

definition satocash_status_parse :: "bytes \<Rightarrow> (card_error, satocash_status) res" where
  "satocash_status_parse r =
     (if length r < 25 then Err (CardMalformed ''status shorter than 25 bytes'')
      else Ok \<lparr>st_protocol_version = (r ! 0, r ! 1), st_applet_version = (r ! 2, r ! 3),
               st_pin_tries_remaining = r ! 4, st_puk_tries_remaining = r ! 5,
               st_needs_2fa = (r ! 8 = 1), st_setup_done = (r ! 10 = 1), st_needs_secure_channel = (r ! 11 = 1),
               st_nfc_policy = r ! 12, st_pin_policy = r ! 13,
               st_max_mints = r ! 15, st_used_mints = r ! 16, st_max_keysets = r ! 17, st_used_keysets = r ! 18,
               st_max_proofs = u16_of_be (r ! 19) (r ! 20), st_unspent_proofs = u16_of_be (r ! 21) (r ! 22),
               st_spent_proofs = u16_of_be (r ! 23) (r ! 24)\<rparr>)"

record general_status =
  gs_protocol_version :: "u8 \<times> u8"
  gs_applet_version :: "u8 \<times> u8"
  gs_pin_tries_remaining :: u8
  gs_puk_tries_remaining :: u8
  gs_needs_2fa :: bool
  gs_setup_done :: bool
  gs_needs_secure_channel :: bool

definition general_status_parse :: "bytes \<Rightarrow> (card_error, general_status) res" where
  "general_status_parse r =
     (if length r < 13 then Err (CardMalformed ''general status shorter than 13 bytes'')
      else Ok \<lparr>gs_protocol_version = (r ! 0, r ! 1), gs_applet_version = (r ! 2, r ! 3),
               gs_pin_tries_remaining = r ! 4, gs_puk_tries_remaining = r ! 5,
               gs_needs_2fa = (r ! 8 = 1), gs_setup_done = (r ! 10 = 1), gs_needs_secure_channel = (r ! 11 = 1)\<rparr>)"

section \<open>The client\<close>

definition xfer :: "'c card_transport \<Rightarrow> u8 \<Rightarrow> u8 \<Rightarrow> u8 \<Rightarrow> bytes \<Rightarrow> ('c, card_error, bytes \<times> u16) op" where
  "xfer T ins p1 p2 data = T CLA_SATOCASH ins p1 p2 data"

text \<open>Every command fails with a status word other than \<^verbatim>\<open>9000\<close>.\<close>

definition sw_ok :: "('c, card_error, bytes \<times> u16) op \<Rightarrow> ('c, card_error, bytes) op" where
  "sw_ok m = bind m (\<lambda>(data, sw). if sw \<noteq> 0x9000 then throw (CardSw sw) else ret data)"

definition satocash_select :: "'c card_transport \<Rightarrow> ('c, card_error, satocash_status) op" where
  "satocash_select T = bind (sw_ok (T 0x00 0xA4 0x04 0x00 SATOCASH_AID)) (\<lambda>data. lift_res (satocash_status_parse data))"

definition satocash_get_status :: "'c card_transport \<Rightarrow> ('c, card_error, satocash_status) op" where
  "satocash_get_status T = bind (sw_ok (xfer T INS_SATOCASH_GET_STATUS 0x00 0x00 [])) (\<lambda>data. lift_res (satocash_status_parse data))"

definition satocash_general_status :: "'c card_transport \<Rightarrow> ('c, card_error, general_status) op" where
  "satocash_general_status T = bind (sw_ok (xfer T INS_GET_STATUS 0x00 0x00 [])) (\<lambda>data. lift_res (general_status_parse data))"

section \<open>Mints, keysets and proofs\<close>

definition first_byte :: "string \<Rightarrow> bytes \<Rightarrow> (card_error, u8) res" where
  "first_byte msg resp = (case resp of [] \<Rightarrow> Err (CardMalformed msg) | b # _ \<Rightarrow> Ok b)"

definition import_mint :: "'c card_transport \<Rightarrow> bytes \<Rightarrow> ('c, card_error, u8) op" where
  "import_mint T url =
     bind (guard_err (length url > 48) (CardMalformed ''mint url longer than MAX_MINT_URL_SIZE'')) (\<lambda>_.
     bind (sw_ok (xfer T INS_IMPORT_MINT 0x00 0x00 (word_of_nat (length url) # url))) (\<lambda>resp.
       lift_res (first_byte ''empty mint index'' resp)))"

definition export_mint :: "'c card_transport \<Rightarrow> u8 \<Rightarrow> ('c, card_error, bytes) op" where
  "export_mint T mint_index =
     bind (sw_ok (xfer T INS_EXPORT_MINT mint_index 0x00 [])) (\<lambda>resp.
     bind (lift_res (first_byte ''empty mint export'' resp)) (\<lambda>n.
       if 1 + unat n \<le> length resp then ret (take (unat n) (drop 1 resp))
       else throw (CardMalformed ''mint url truncated'')))"

definition import_keyset :: "'c card_transport \<Rightarrow> bytes \<Rightarrow> u8 \<Rightarrow> u8 \<Rightarrow> ('c, card_error, u8) op" where
  "import_keyset T keyset_id mint_index unit =
     bind (sw_ok (xfer T INS_IMPORT_KEYSET 0x00 0x00 (keyset_id @ [mint_index, unit]))) (\<lambda>resp.
       lift_res (first_byte ''empty keyset index'' resp))"

definition import_proof :: "'c card_transport \<Rightarrow> u8 \<Rightarrow> u8 \<Rightarrow> bytes \<Rightarrow> bytes \<Rightarrow> ('c, card_error, u16) op" where
  "import_proof T keyset_index amount_exponent unblinded_key secret =
     bind (sw_ok (xfer T INS_IMPORT_PROOF 0x00 0x00 ([keyset_index, amount_exponent] @ unblinded_key @ secret))) (\<lambda>resp.
       if length resp < 2 then throw (CardMalformed ''proof index truncated'')
       else ret (u16_of_be (resp ! 0) (resp ! 1)))"

datatype card_proof_state = CardEmpty | CardUnspent | CardSpent | CardUnknown u8

definition card_proof_state_of :: "u8 \<Rightarrow> card_proof_state" where
  "card_proof_state_of v = (if v = 0 then CardEmpty else if v = 1 then CardUnspent else if v = 2 then CardSpent else CardUnknown v)"

record proof_record =
  pr_index :: u16
  pr_state :: card_proof_state
  pr_keyset_index :: u8
  pr_amount_exponent :: u8
  pr_unblinded_key :: bytes
  pr_secret :: bytes

text \<open>The assertion fails in debug builds.\<close>

definition proof_value :: "u8 \<Rightarrow> (card_error, u64) res" where
  "proof_value amount_exponent =
     (if amount_exponent < 32 then Ok (push_bit (unat (amount_exponent AND 31)) 1) else Panic)"

definition record_amount :: "proof_record \<Rightarrow> (card_error, u64) res" where
  "record_amount p = proof_value (pr_amount_exponent p)"

definition RECORD_LEN :: nat where "RECORD_LEN = 70"

definition record_of_chunk :: "bytes \<Rightarrow> proof_record" where
  "record_of_chunk chunk =
     \<lparr>pr_index = u16_of_be (chunk ! 0) (chunk ! 1), pr_state = card_proof_state_of (chunk ! 2), pr_keyset_index = chunk ! 3,
      pr_amount_exponent = chunk ! 4, pr_unblinded_key = take 33 (drop 5 chunk), pr_secret = take 32 (drop 38 chunk)\<rparr>"

definition parse_stream :: "bytes \<Rightarrow> (card_error, proof_record list) res" where
  "parse_stream r =
     (if length r mod RECORD_LEN \<noteq> 0 then Err (CardMalformed ''proof stream not a 70-byte multiple'')
      else Ok (map (\<lambda>k. record_of_chunk (take RECORD_LEN (drop (k * RECORD_LEN) r))) [0..<length r div RECORD_LEN]))"

text \<open>The length of the list is cast to one byte.\<close>

definition export_data :: "u16 list \<Rightarrow> bytes" where
  "export_data indices = word_of_nat (length indices) # concat (map u16_to_be indices) @ [0]"

definition export_proofs :: "'c card_transport \<Rightarrow> u16 list \<Rightarrow> ('c, card_error, proof_record list) op" where
  "export_proofs T indices =
     bind (sw_ok (xfer T INS_EXPORT_PROOFS 0x00 OP_INIT (export_data indices))) (\<lambda>resp. lift_res (parse_stream resp))"

lemmas ins_defs = CLA_SATOCASH_def INS_IMPORT_PROOF_def INS_EXPORT_PROOFS_def OP_INIT_def

section \<open>Words and records\<close>

lemma u16_be_roundtrip: "u16_to_be w = [a, b] \<Longrightarrow> u16_of_be a b = w"
  using from_to_be_bytes[of "unat w" 2] unat_bound[of w] by (simp add: u16_to_be_def u16_of_be_def)

lemma u16_to_be_of: "u16_to_be (u16_of_be a b) = [a, b]"
proof -
  have ab: "unat a < 256" "unat b < 256" using unat_bound[of a] unat_bound[of b] by simp_all
  then have "unat (u16_of_be a b) = 256 * unat a + unat b"
    using unat_of_nat_lt[where 'a=16, of "256 * unat a + unat b"] from_be_snoc[of "[a]" b] from_be_snoc[of "[]" a]
    by (simp add: u16_of_be_def from_be_bytes_def)
  moreover have "256 * a = 0 * a" by (rule arg_cong[where f = "\<lambda>x. x * a"]) simp
  ultimately show ?thesis
    using ab by (simp add: u16_to_be_def numeral_2_eq_2 to_be_bytes_Suc to_be_bytes_def)
qed

lemma length_u16_to_be [simp]: "length (u16_to_be w) = 2"
  by (simp add: u16_to_be_def)

lemma length_export_data: "length (export_data indices) = 2 * length indices + 2"
proof -
  have "length (concat (map u16_to_be indices)) = 2 * length indices" by (induction indices) simp_all
  then show ?thesis by (simp add: export_data_def)
qed

text \<open>The applet's form of a record.\<close>

definition record_bytes :: "u16 \<Rightarrow> u8 \<Rightarrow> u8 \<Rightarrow> u8 \<Rightarrow> bytes \<Rightarrow> bytes \<Rightarrow> bytes" where
  "record_bytes i state ki e key secret = u16_to_be i @ [state, ki, e] @ key @ secret"

lemma parse_one_record:
  assumes "length key = 33" "length secret = 32"
  shows "parse_stream (record_bytes i state ki e key secret)
    = Ok [\<lparr>pr_index = i, pr_state = card_proof_state_of state, pr_keyset_index = ki, pr_amount_exponent = e, pr_unblinded_key = key, pr_secret = secret\<rparr>]"
proof -
  obtain a b where ab: "u16_to_be i = [a, b]" using length_u16_to_be[of i] by (metis length_0_conv length_Suc_conv numeral_2_eq_2)
  let ?r = "a # b # state # ki # e # key @ secret"
  have r: "record_bytes i state ki e key secret = ?r" by (simp add: record_bytes_def ab)
  have n: "length ?r = 70" using assms by simp
  have "parse_stream ?r = Ok [record_of_chunk ?r]" using n by (simp add: parse_stream_def RECORD_LEN_def)
  moreover have "drop 5 ?r = key @ secret" "drop 38 ?r = secret" using assms by (simp_all add: drop_Cons')
  ultimately show ?thesis using assms u16_be_roundtrip[OF ab] by (simp add: r record_of_chunk_def)
qed

section \<open>One exchange\<close>

definition apdu_of :: "u8 \<Rightarrow> u8 \<Rightarrow> u8 \<Rightarrow> bytes \<Rightarrow> bytes" where
  "apdu_of ins p1 p2 data = [0xB0, ins, p1, p2] @ (if data = [] then [0] else word_of_nat (length data) # data)"

lemma sw_9000: "u16_of_be x y = 0x9000 \<longleftrightarrow> x = 0x90 \<and> y = 0x00"
proof -
  have "u16_of_be 0x90 0x00 = 0x9000" by (simp add: u16_of_be_def from_be_bytes_def)
  then show ?thesis using u16_to_be_of[of x y] u16_to_be_of[of "0x90" "0x00"] by auto
qed

lemma split_last_two: "2 \<le> length r \<Longrightarrow> r = take (length r - 2) r @ [r ! (length r - 2), r ! (length r - 1)]"
proof -
  assume "2 \<le> length r"
  then obtain xs y z where "r = xs @ [y, z]"
    by (metis append.assoc append_Cons append_Nil append_butlast_last_id length_append_singleton not_less_eq_eq numeral_2_eq_2 le_zero_eq list.size(3) nat.simps(3))
  then show ?thesis by (simp add: nth_append)
qed

text \<open>A command succeeds exactly when its data fit into a short APDU and the card answers that APDU with \<^verbatim>\<open>9000\<close>.\<close>

lemma sw_ok_iff:
  "sw_ok (xfer (pcsc_exchange T) ins p1 p2 data) c = (Ok d, c')
     \<longleftrightarrow> length data \<le> 255 \<and> T MAX_RESP (apdu_of ins p1 p2 data) c = (Some (d @ [0x90, 0x00]), c')"
proof (cases "length data \<le> 255")
  case True
  then have e: "encode_apdu CLA_SATOCASH ins p1 p2 data = Ok (apdu_of ins p1 p2 data)"
    by (simp add: encode_apdu_def apdu_of_def CLA_SATOCASH_def)
  obtain r c1 where T: "T MAX_RESP (apdu_of ins p1 p2 data) c = (r, c1)" by fastforce
  have run: "sw_ok (xfer (pcsc_exchange T) ins p1 p2 data) c = (Ok d, c')
      \<longleftrightarrow> (\<exists>bs. r = Some bs \<and> c1 = c' \<and> 2 \<le> length bs \<and> take (length bs - 2) bs = d \<and> u16_of_be (bs ! (length bs - 2)) (bs ! (length bs - 1)) = 0x9000)"
    by (cases r) (auto simp: sw_ok_def xfer_def pcsc_exchange_def e T bind_def Let_def not_less split: if_splits)
  have "2 \<le> length bs \<and> take (length bs - 2) bs = d \<and> bs ! (length bs - 2) = 0x90 \<and> bs ! (length bs - 1) = 0x00
      \<longleftrightarrow> bs = d @ [0x90, 0x00]" for bs
    using split_last_two[of bs] by (auto simp: nth_append)
  with True show ?thesis by (auto simp: run sw_9000 T)
next
  case False
  then show ?thesis by (simp add: sw_ok_def xfer_def pcsc_exchange_def encode_apdu_def bind_def)
qed

text \<open>A list of more than 126 indices is refused before the card sees it.\<close>

lemma export_refuses_long:
  assumes "126 < length indices"
  shows "export_proofs (pcsc_exchange T) indices c = (Err (CardMalformed ''apdu data exceeds short-Lc field (255)''), c)"
  using assms length_export_data[of indices]
  by (simp add: export_proofs_def sw_ok_def xfer_def pcsc_exchange_def encode_apdu_def bind_def)

text \<open>The response buffer holds seven records, so that an export of more proofs than that never returns them all.\<close>

lemma export_at_most_seven:
  assumes fits: "\<And>cmd c r c'. T MAX_RESP cmd c = (Some r, c') \<Longrightarrow> length r \<le> MAX_RESP"
    and run: "export_proofs (pcsc_exchange T) indices c = (Ok records, c')"
  shows "length records \<le> 7"
proof -
  obtain d where d: "sw_ok (xfer (pcsc_exchange T) INS_EXPORT_PROOFS 0x00 OP_INIT (export_data indices)) c = (Ok d, c')" "parse_stream d = Ok records"
    using run by (auto simp: export_proofs_def bind_Ok_iff)
  then have "length d + 2 \<le> 512" using fits[of _ c "d @ [0x90, 0x00]" c'] by (auto simp: sw_ok_iff MAX_RESP_def)
  then show ?thesis using d(2) by (auto simp: parse_stream_def RECORD_LEN_def split: if_splits)
qed

section \<open>Storing and reading a proof\<close>

text \<open>
  What the applet documents: \<^verbatim>\<open>IMPORT_PROOF\<close> answers with the two bytes of the index, and \<^verbatim>\<open>EXPORT_PROOFS\<close> for that index alone, sent next,
  answers with the index, the state \<^verbatim>\<open>unspent\<close> and the bytes that were stored.
\<close>

definition keeps_proofs :: "(nat \<Rightarrow> bytes \<Rightarrow> 'c \<Rightarrow> bytes option \<times> 'c) \<Rightarrow> bool" where
  "keeps_proofs T \<longleftrightarrow> (\<forall>c c' ki e key secret d. length key = 33 \<longrightarrow> length secret = 32 \<longrightarrow>
     T 512 ([0xB0, 0xB7, 0x00, 0x00, 67, ki, e] @ key @ secret) c = (Some (d @ [0x90, 0x00]), c') \<longrightarrow>
     (\<exists>i1 i2 c''. d = [i1, i2] \<and>
        T 512 [0xB0, 0xB8, 0x00, 0x01, 4, 1, i1, i2, 0] c' = (Some ([i1, i2, 1, ki, e] @ key @ secret @ [0x90, 0x00]), c'')))"

lemma proof_value_power: "e < 32 \<Longrightarrow> proof_value e = Ok (2 ^ unat e)"
proof -
  assume e: "e < 32"
  have "e AND 31 = take_bit 5 e" by (simp add: take_bit_eq_mask mask_eq_exp_minus_1)
  moreover have "unat (take_bit 5 e) = unat e" using e by (simp add: unsigned_take_bit_eq take_bit_nat_eq_self_iff word_less_nat_alt)
  ultimately show ?thesis using e by (simp add: proof_value_def push_bit_eq_mult)
qed

text \<open>C40: what is stored on the card is read back. After \<^verbatim>\<open>import_proof\<close> succeeded, \<^verbatim>\<open>export_proofs\<close> of the index it returned gives one record: that
  index, unspent, with the keyset, the exponent, the key and the secret that were stored, worth two to the exponent. The card is one
  that keeps its contract: it stores what an accepted import carries and never refuses the export, which the specification would allow it to.\<close>

theorem card_keeps_proof:
  assumes card: "keeps_proofs T" and len: "length key = 33" "length secret = 32" and e: "e < 32"
    and run: "import_proof (pcsc_exchange T) ki e key secret c = (Ok i, c')"
  shows "\<exists>p c''. export_proofs (pcsc_exchange T) [i] c' = (Ok [p], c'')
    \<and> p = \<lparr>pr_index = i, pr_state = CardUnspent, pr_keyset_index = ki, pr_amount_exponent = e, pr_unblinded_key = key, pr_secret = secret\<rparr>
    \<and> record_amount p = Ok (2 ^ unat e)"
proof -
  obtain d where d: "sw_ok (xfer (pcsc_exchange T) INS_IMPORT_PROOF 0x00 0x00 ([ki, e] @ key @ secret)) c = (Ok d, c')"
    "i = u16_of_be (d ! 0) (d ! 1)" using run by (auto simp: import_proof_def bind_Ok_iff split: if_splits)
  have "T 512 ([0xB0, 0xB7, 0x00, 0x00, 67, ki, e] @ key @ secret) c = (Some (d @ [0x90, 0x00]), c')"
    using d(1) len by (simp add: sw_ok_iff apdu_of_def MAX_RESP_def INS_IMPORT_PROOF_def)
  then obtain i1 i2 c'' where i: "d = [i1, i2]"
    "T 512 [0xB0, 0xB8, 0x00, 0x01, 4, 1, i1, i2, 0] c' = (Some ([i1, i2, 1, ki, e] @ key @ secret @ [0x90, 0x00]), c'')"
    using card len unfolding keeps_proofs_def by blast
  have data: "export_data [i] = [1, i1, i2, 0]" using d(2) i(1) by (simp add: export_data_def u16_to_be_of)
  have "sw_ok (xfer (pcsc_exchange T) INS_EXPORT_PROOFS 0x00 OP_INIT (export_data [i])) c' = (Ok (record_bytes i 1 ki e key secret), c'')"
    unfolding data sw_ok_iff using i d(2) by (simp add: apdu_of_def MAX_RESP_def INS_EXPORT_PROOFS_def OP_INIT_def record_bytes_def u16_to_be_of)
  then have "export_proofs (pcsc_exchange T) [i] c' = (lift_res (parse_stream (record_bytes i 1 ki e key secret))) c''"
    by (simp add: export_proofs_def bind_def)
  then show ?thesis
    by (simp add: parse_one_record[OF len] card_proof_state_of_def record_amount_def proof_value_power[OF e])
qed

text \<open>A card with one memory of proof bodies, full at 65536.\<close>

definition memory_card :: "nat \<Rightarrow> bytes \<Rightarrow> bytes list \<Rightarrow> bytes option \<times> bytes list" where
  "memory_card buffer cmd mem =
     (if take 4 cmd = [0xB0, 0xB7, 0x00, 0x00] then
        if length mem < 65536 then (Some (to_be_bytes 2 (length mem) @ [0x90, 0x00]), mem @ [drop 5 cmd]) else (Some [0x9C, 0x01], mem)
      else if take 4 cmd = [0xB0, 0xB8, 0x00, 0x01] \<and> from_be_bytes (take 2 (drop 6 cmd)) < length mem then
        (Some (take 2 (drop 6 cmd) @ [1] @ mem ! from_be_bytes (take 2 (drop 6 cmd)) @ [0x90, 0x00]), mem)
      else (Some [0x9C, 0x0F], mem))"

lemma memory_card_keeps: "keeps_proofs memory_card"
proof (unfold keeps_proofs_def, intro allI impI)
  fix c c' :: "bytes list" and ki e :: u8 and key secret d :: bytes
  let ?put = "[0xB0, 0xB7, 0x00, 0x00, 67, ki, e] @ key @ secret"
  assume put: "memory_card 512 ?put c = (Some (d @ [0x90, 0x00]), c')"
  have "take 4 ?put = [0xB0, 0xB7, 0x00, 0x00]" "drop 5 ?put = [ki, e] @ key @ secret" by (simp_all add: drop_Cons')
  with put have "(if length c < 65536 then (Some (to_be_bytes 2 (length c) @ [0x90, 0x00]), c @ [[ki, e] @ key @ secret]) else (Some [0x9C, 0x01], c))
      = (Some (d @ [0x90, 0x00]), c')" by (simp only: memory_card_def if_True simp_thms)
  moreover have "[0x9C, 0x01] \<noteq> d @ [0x90, 0x00]" by (cases d) simp_all
  ultimately have c: "length c < 65536" "d = to_be_bytes 2 (length c)" "c' = c @ [[ki, e] @ key @ secret]"
    by (simp_all split: if_splits)
  obtain i1 i2 where i: "to_be_bytes 2 (length c) = [i1, i2]"
    by (simp add: numeral_2_eq_2 to_be_bytes_Suc to_be_bytes_def)
  then have n: "from_be_bytes [i1, i2] = length c" using from_to_be_bytes[of "length c" 2] c(1) by simp
  let ?cmd = "[0xB0, 0xB8, 0x00, 0x01, 4, 1, i1, i2, 0] :: bytes"
  have "take 4 ?cmd = [0xB0, 0xB8, 0x00, 0x01]" "take 2 (drop 6 ?cmd) = [i1, i2]" by (simp_all add: drop_Cons')
  then have "memory_card 512 ?cmd c' = (Some ([i1, i2, 1, ki, e] @ key @ secret @ [0x90, 0x00]), c')"
    unfolding memory_card_def using n c(3) by simp
  then show "\<exists>i1 i2 c''. d = [i1, i2] \<and>
      memory_card 512 [0xB0, 0xB8, 0x00, 0x01, 4, 1, i1, i2, 0] c' = (Some ([i1, i2, 1, ki, e] @ key @ secret @ [0x90, 0x00]), c'')"
    using c(2) i by auto
qed

theorem card_keeps_proof_witness:
  "\<exists>i c'. import_proof (pcsc_exchange memory_card) 2 3 (replicate 33 7) (replicate 32 9) [] = (Ok i, c')
    \<and> (\<exists>p c''. export_proofs (pcsc_exchange memory_card) [i] c' = (Ok [p], c'')
      \<and> p = \<lparr>pr_index = i, pr_state = CardUnspent, pr_keyset_index = 2, pr_amount_exponent = 3, pr_unblinded_key = replicate 33 7, pr_secret = replicate 32 9\<rparr>
      \<and> record_amount p = Ok 8)"
proof -
  let ?c = "[[2, 3] @ replicate 33 7 @ replicate 32 (9::u8)] :: bytes list"
  have "sw_ok (xfer (pcsc_exchange memory_card) INS_IMPORT_PROOF 0x00 0x00 ([2, 3] @ replicate 33 7 @ replicate 32 9)) [] = (Ok [0, 0], ?c)"
    by (simp add: sw_ok_iff apdu_of_def INS_IMPORT_PROOF_def memory_card_def to_be_bytes_def numeral_2_eq_2)
  then have "import_proof (pcsc_exchange memory_card) 2 3 (replicate 33 7) (replicate 32 9) [] = (Ok (u16_of_be 0 0), ?c)"
    by (simp add: import_proof_def bind_def)
  from card_keeps_proof[OF memory_card_keeps _ _ _ this] this show ?thesis by force
qed

end
