(* ===== verification/Spec2Isabelle.thy ===== *)
theory Spec2Isabelle
  imports Mint_Theorems Melt_Theorems Protocol Frag Engine_Theorems App_Theorems Reserve_Theorems Rpc_Theorems Satocash
begin

text \<open>
  \<^bold>\<open>Micronuts: a verified model of the mint, the wallets and the hardware wallet.\<close>

  Micronuts is a Cashu ecash system for small devices: a mint that runs on a microcontroller, wallet libraries, an
  offline payment gate, and a hardware wallet driven over USB, touch, QR codes and NFC. This development translates the
  program logic of its crates into executable HOL functions and proves what makes them correct.

  \<^bold>\<open>How the parts interact.\<close> A wallet asks the mint for a quote, has the invoice paid, sends blinded messages and
  unblinds the signatures it gets back into proofs. Proofs travel as tokens, a CBOR structure in base64url. A swap
  trades proofs for fresh ones, a melt trades them for a Lightning payment with change. Proofs may be locked by
  spending conditions, which the mint enforces and the wallet satisfies with witnesses. The gate accepts tokens offline
  against pinned keys. The hardware wallet imports a token, blinds new outputs, checks the signatures against a pinned
  key and exports the result; its host talks to it in frames, and mint requests over datagrams are cut into segments.

  \<^bold>\<open>Conventions.\<close> Machine integers are words of their width; where the source checks or saturates, the
  model does. A fallible function returns \<open>res\<close>, with \<open>Err\<close> for an error value and
  \<open>Panic\<close> for an unwinding (an index out of range, an \<^verbatim>\<open>unwrap\<close> of nothing, an overflow
  in checked builds). Stateful code is an \<open>op\<close>, a function from a state to a result and a state, composed with
  \<open>bind\<close>. Additions that the source leaves to the build profile (the update counter of a quote, the totals of
  tokens and wallets) wrap, as in a release build; a debug build panics there. Where a caller discards a result that is no
  panic under the laws of the parameters (decoding a scanned token, calling the board), the model folds a panic into the
  branch of an error. Strings are char lists whose characters are the UTF-8 bytes. Code outside the repository is a field of
  a record that the definitions take as an argument: the hashes, hex codec and curve encodings (\<open>externs\<close>), the
  group operations of k256 (\<open>curve\<close>), minicbor (\<open>cbor\<close>), the store, the mint behind a transport,
  the Lightning backend, the clock, the board and the scanner crate. What the proofs need of them is a named predicate
  (\<open>curve_ok\<close>, \<open>cbor_ok\<close>, \<open>cbor_consumes\<close>, \<open>hw_returns\<close> and others),
  which states documented behaviour and is shown to hold of a concrete instance where a witness uses it: the integers modulo
  5 as the group, CBOR with eight-byte heads, a store in memory, a board with one finger on its screen.

  \<^bold>\<open>The theories, in the order of the program.\<close>

  \<^item> \<open>Prelude\<close>, \<open>Rust_Text\<close>: outcomes, the state monad, loops with fuel, reachability and the locale of transition systems; the
    string functions of the standard library that the sources call.
  \<^item> \<open>Nuts\<close>, \<open>Json\<close>: the data of \<^verbatim>\<open>cashu-core-lite/src/nuts\<close>, the power-of-two split, the JSON scanner (\<^verbatim>\<open>json.rs\<close>).
  \<^item> \<open>Conditions\<close>, \<open>Spending\<close>: secrets with conditions (NUT-10, 11, 14) and the engine of \<^verbatim>\<open>micronuts-mint/src/spending.rs\<close>.
  \<^item> \<open>Keyset\<close>, \<open>Backend\<close>, \<open>Mint_Core\<close>: \<^verbatim>\<open>keyset.rs\<close>, \<^verbatim>\<open>ln.rs\<close> and every operation of \<^verbatim>\<open>mint_core.rs\<close>: quotes, mint, swap,
    melt with change, batch mint, restore, check state, snapshots and information.
  \<^item> \<open>Mint_Invariants\<close>, \<open>Sample\<close>, \<open>Demo\<close>, \<open>Mint_Theorems\<close>, \<open>Melt_Theorems\<close>: the invariant of the mint and its preservation, value conservation,
    no double spend, spending conditions at the time of the mint's clock, minting within what was paid, locked quotes, restoration,
    the failure path of a melt (which errors leave the quote FAILED), the change loop. A melt keeps the whole fee reserve.
  \<^item> \<open>Reserve\<close>, \<open>Reserve_Theorems\<close>: the upstream settlement backend (\<^verbatim>\<open>upstream.rs\<close>, \<^verbatim>\<open>upstream_wire.rs\<close>) and the reserve it pays from
    (\<^verbatim>\<open>reserve.rs\<close>): paying keeps every proof or parts with exactly the proofs it selected, the selection covers the target, a restart restores.
  \<^item> \<open>Dhke\<close>: blinding, signing, unblinding and DLEQ proofs (\<^verbatim>\<open>crypto.rs\<close>, \<^verbatim>\<open>nut12.rs\<close>); correctness, completeness, and special
    soundness of \<^verbatim>\<open>verify_dleq\<close>: for a false statement each hashed text has at most one digest that lets an answer through.
  \<^item> \<open>Base64\<close>, \<open>Token\<close>: the wire form of tokens (\<^verbatim>\<open>token.rs\<close>); round trips and termination of the decoder on every input.
  \<^item> \<open>Store\<close>, \<open>Gate\<close>: the blob store contract, and \<^verbatim>\<open>walletport\<close>: trust, the offline validator with its ring of spent
    secrets, the scan controller. A gate that opens took proofs without a condition whose secrets it had not in its ring, and saved them.
  \<^item> \<open>Wallet\<close>, \<open>Persistent\<close>, \<open>Exact_Spend\<close>, \<open>Wallet_Theorems\<close>: \<^verbatim>\<open>wallet.rs\<close>, \<^verbatim>\<open>nut13.rs\<close>, \<^verbatim>\<open>persistent.rs\<close>: deterministic outputs, the stored
    envelope with its checksum, coin selection by pruned search, restore; the search is correct, complete below its
    node cap and bounded, spends move what was selected, failures keep the proofs, a restart restores the state.
  \<^item> \<open>Unlock\<close>, \<open>Flow\<close>, \<open>Engine\<close>, \<open>Engine_Theorems\<close>: \<^verbatim>\<open>micronuts-wallet-core\<close>: witnesses for locked proofs, which the mint accepts; phases, errors
    and payload classification; the engine that mints, receives, sends, pays and recovers, with its books of pending sends.
  \<^item> \<open>Rpc\<close>, \<open>Rpc_Theorems\<close>: the RPC boundary between wallet and mint (\<^verbatim>\<open>rpc.rs\<close>, \<^verbatim>\<open>rpc_service.rs\<close>), the in-process transports and the server
    loop (\<^verbatim>\<open>demo_roles.rs\<close>): a wallet over frames agrees with a wallet that calls the mint, the server answers in order.
  \<^item> \<open>Protocol\<close>, \<open>Frag\<close>: the USB frames of the hardware wallet and the segmentation of datagrams, each against its grammar.
  \<^item> \<open>Satocash\<close>: the client of the SatoCash card (\<^verbatim>\<open>micronuts-satocash\<close>): short APDUs, status answers, storing and reading mints, keysets and
    proofs over PC/SC; a proof that was stored is read back, an export returns at most seven.
  \<^item> \<open>Device\<close>, \<open>Device_Theorems\<close>: \<^verbatim>\<open>micronuts-app\<close>: classification of scans (\<^verbatim>\<open>qr/mod.rs\<close>), assembly of animated codes (\<^verbatim>\<open>scanflow.rs\<close>),
    the firmware state and every command (\<^verbatim>\<open>command_handler.rs\<close>); every command is answered in every reachable state, exported
    proofs were checked, a swap with an honest mint completes, scanner and NFC agree.
  \<^item> \<open>App\<close>, \<open>App_Theorems\<close>: the main loop (\<^verbatim>\<open>lib.rs\<close>) with its screens, timeouts and retries; its counters are bounded, scanning
    ends by itself, and the only panic is that of the clock arithmetic in the capture window.

  \<^bold>\<open>Interfaces.\<close> Contracts between components are locales, interpreted on the definitions of the model: transition systems with
  an invariant (the mint, the reserve, the engine, the device, the main loop), relations on states that every operation keeps, the text codec
  of tokens, the blob store and the Lightning backend. The facts of these interpretations carry the proofs of the properties.

  \<^bold>\<open>Fuel and bounds.\<close> The hash to curve loop has the 65536 turns of the source. The decoder of indefinite arrays and maps has one
  unit of fuel per input byte, enough because each turn consumes a byte (\<open>decode_token_returns\<close>). The JSON scanner has fuel by
  the length of its input. The search for an exact selection counts the nodes it visits, as the source does, against
  its cap. The change loops have a measure or fuel by the amount, with a proof that it suffices; the one that may not end, for
  cap 0, is proved not to end. A turn of the main loop is a function, the loop itself a step relation with
  arbitrary frames, ticks and changes of the board in between.

  \<^bold>\<open>Not modelled, and why.\<close> Pixels and layouts of the displays, the slint user interface and its callbacks: drawing is an event of the
  board here. The firmware of the boards, Wi-Fi, flash, HTTP, camera, serial and browser bindings: they are registers and third-party
  calls, and implement the parameters of the model. The JSON forms of the mint API, and the minicbor
  codecs of the RPC and wallet envelopes, which macros derive over the codecs of keys and DLEQ scalars (\<^verbatim>\<open>keypair.rs\<close>, \<^verbatim>\<open>nut12.rs\<close>):
  those are parameters with the law that decoding gives back what was encoded. The demonstrations, host tools and the audit
  adapter: they drive services and hardware outside the repository. The copies of engine, flow and
  payload in \<^verbatim>\<open>micronuts-wallet\<close>, which \<^verbatim>\<open>micronuts-wallet-core\<close> supersedes. Concurrency is that of one
  task: requests to the mint are handled one at a time behind a lock, and the main loop of the device awaits each call.
  Cryptographic hardness is outside the model; what is proved of signatures are the algebraic facts.
\<close>

end
